(* ===== verification/Prelude.thy ===== *)
theory Prelude
  imports Main "HOL-Library.AList"
begin

text \<open>
  The shared base of the development: the exceptions of the program as one datatype, the result
  type every fallible operation returns, the list operations of Python the program uses
  (\<open>xs[:i]\<close>, \<open>xs[i:]\<close>, \<open>xs.insert(i, x)\<close>, \<open>xs.pop(i)\<close>), the binary search loop that the B+ tree
  writes three times, and generic lemmas on sorted lists and association lists.
\<close>

section \<open>Exceptions and results\<close>

text \<open>
  One constructor per exception class the program raises or lets escape; the message text of an
  exception is not part of the model.
\<close>

datatype py_error =
    KeyError | IndexError | ValueError | TypeError | OverflowError | ZeroDivisionError
  | AttributeError
  | SchemaError | TypeConversionError | CatalogError
  | LockError | DeadlockError nat
  | WALError
  | TransactionError | NotInTransaction
  | IntegrityError | ExecutionError | EvalError
  | LexerError nat | ParseError
  | RuntimeError

type_synonym 'a result = "py_error + 'a"

definition bind_result :: "'a result \<Rightarrow> ('a \<Rightarrow> 'b result) \<Rightarrow> 'b result" where
  "bind_result r f = (case r of Inl e \<Rightarrow> Inl e | Inr x \<Rightarrow> f x)"

lemma bind_result_simps [simp]:
  "bind_result (Inl e) f = Inl e"
  "bind_result (Inr x) f = f x"
  by (simp_all add: bind_result_def)

lemma bind_result_eq_Inr:
  "bind_result r f = Inr y \<longleftrightarrow> (\<exists>x. r = Inr x \<and> f x = Inr y)"
  by (cases r) auto

text \<open>Running a fallible step over a list stops at the first exception.\<close>

fun map_result :: "('a \<Rightarrow> 'b result) \<Rightarrow> 'a list \<Rightarrow> 'b list result" where
  "map_result f [] = Inr []"
| "map_result f (x # xs) =
     bind_result (f x) (\<lambda>y. bind_result (map_result f xs) (\<lambda>ys. Inr (y # ys)))"

lemma map_result_length: "map_result f xs = Inr ys \<Longrightarrow> length ys = length xs"
  by (induction xs arbitrary: ys) (auto simp: bind_result_eq_Inr)

lemma map_result_nth:
  "map_result f xs = Inr ys \<Longrightarrow> i < length xs \<Longrightarrow> f (xs ! i) = Inr (ys ! i)"
  by (induction xs arbitrary: ys i) (auto simp: bind_result_eq_Inr nth_Cons split: nat.splits)

lemma map_result_Inr: "(\<And>x. x \<in> set xs \<Longrightarrow> f x = Inr (g x)) \<Longrightarrow> map_result f xs = Inr (map g xs)"
  by (induction xs) auto

section \<open>Python list operations\<close>

text \<open>\<open>xs.insert(i, x)\<close> (an index past the end appends) and \<open>xs.pop(i)\<close> for an index in range.\<close>

definition list_insert :: "nat \<Rightarrow> 'a \<Rightarrow> 'a list \<Rightarrow> 'a list" where
  "list_insert i x xs = take i xs @ x # drop i xs"

definition list_pop :: "nat \<Rightarrow> 'a list \<Rightarrow> 'a list" where
  "list_pop i xs = take i xs @ drop (Suc i) xs"

lemma length_list_insert [simp]: "length (list_insert i x xs) = Suc (length xs)"
  by (simp add: list_insert_def)

lemma length_list_pop [simp]: "i < length xs \<Longrightarrow> length (list_pop i xs) = length xs - 1"
  by (simp add: list_pop_def)

lemma list_insert_append [simp]: "list_insert (length xs) x (xs @ ys) = xs @ x # ys"
  by (simp add: list_insert_def)

lemma list_pop_append [simp]: "list_pop (length xs) (xs @ y # ys) = xs @ ys"
  by (simp add: list_pop_def)

lemma list_update_append_length [simp]: "(xs @ y # ys)[length xs := z] = xs @ z # ys"
  by (simp add: list_update_append)

lemma zip_list_insert:
  "length xs = length ys \<Longrightarrow>
     zip (list_insert i x xs) (list_insert i y ys) = list_insert i (x, y) (zip xs ys)"
  by (simp add: list_insert_def take_zip drop_zip)

lemma zip_list_pop:
  "length xs = length ys \<Longrightarrow> zip (list_pop i xs) (list_pop i ys) = list_pop i (zip xs ys)"
  by (simp add: list_pop_def take_zip drop_zip)

lemma split_at_nth: "i < length xs \<Longrightarrow> xs = take i xs @ xs ! i # drop (Suc i) xs"
  by (rule id_take_nth_drop)

section \<open>The binary search loop\<close>

text \<open>
  \<^verbatim>\<open>
  while lo < hi:
      mid = (lo + hi) // 2
      if <go right at mid>: lo = mid + 1
      else: hi = mid
  return lo
  \<close>
  The three searches of the B+ tree differ in the test only; \<open>go\<close> is the test at an index.
\<close>

function bisect :: "(nat \<Rightarrow> bool) \<Rightarrow> nat \<Rightarrow> nat \<Rightarrow> nat" where
  "bisect go lo hi =
     (if lo < hi
      then let mid = (lo + hi) div 2
           in if go mid then bisect go (mid + 1) hi else bisect go lo mid
      else lo)"
  by pat_completeness auto
termination
  by (relation "measure (\<lambda>(go, lo, hi). hi - lo)") auto

declare bisect.simps [simp del]

text \<open>
  For a test that holds on an initial segment of the indices, the loop returns the end of that
  segment.
\<close>

lemma bisect_boundary:
  assumes "lo \<le> b" and "b \<le> hi"
    and "\<And>i. lo \<le> i \<Longrightarrow> i < hi \<Longrightarrow> go i \<longleftrightarrow> i < b"
  shows "bisect go lo hi = b"
  using assms
proof (induction go lo hi rule: bisect.induct)
  case (1 go lo hi)
  show ?case
  proof (cases "lo < hi")
    case True
    let ?mid = "(lo + hi) div 2"
    have mid: "lo \<le> ?mid" "?mid < hi" using True by auto
    show ?thesis
    proof (cases "go ?mid")
      case go: True
      then have "?mid < b" using 1(5) [of ?mid] mid by simp
      then have "bisect go (?mid + 1) hi = b"
        using 1(1) [OF True refl go] 1(4,5) mid by simp
      then show ?thesis using True go by (simp add: bisect.simps [of go lo hi] Let_def)
    next
      case stop: False
      then have "b \<le> ?mid" using 1(5) [of ?mid] mid by simp
      then have "bisect go lo ?mid = b"
        using 1(2) [OF True refl stop] 1(3,5) mid by simp
      then show ?thesis using True stop by (simp add: bisect.simps [of go lo hi] Let_def)
    qed
  next
    case False
    then show ?thesis using 1(3,4) by (simp add: bisect.simps [of go lo hi])
  qed
qed

lemma bisect_split:
  assumes "\<And>x. x \<in> set as \<Longrightarrow> P x" and "\<And>x. x \<in> set bs \<Longrightarrow> \<not> P x"
  shows "bisect (\<lambda>m. P ((as @ bs) ! m)) 0 (length (as @ bs)) = length as"
proof (rule bisect_boundary)
  fix i assume "i < length (as @ bs)"
  then show "P ((as @ bs) ! i) \<longleftrightarrow> i < length as"
    using assms by (auto simp: nth_append)
qed simp_all

section \<open>Strictly sorted lists\<close>

abbreviation sorted_keys :: "'k::linorder list \<Rightarrow> bool" where
  "sorted_keys ks \<equiv> sorted_wrt (<) ks"

text \<open>A strictly sorted list split at a key, in the two ways the searches split it.\<close>

lemma sorted_dropWhile_not:
  assumes "sorted_keys ks" and "\<And>x y. x < y \<Longrightarrow> P y \<Longrightarrow> P x"
  shows "\<forall>x\<in>set (dropWhile P ks). \<not> P x"
  using assms by (induction ks) auto

lemma sorted_keys_split:
  assumes "sorted_keys ks" and "\<And>x y. x < y \<Longrightarrow> P y \<Longrightarrow> P x"
  obtains as bs where "ks = as @ bs" "\<forall>x\<in>set as. P x" "\<forall>x\<in>set bs. \<not> P x"
    "bisect (\<lambda>m. P (ks ! m)) 0 (length ks) = length as"
proof -
  let ?as = "takeWhile P ks" and ?bs = "dropWhile P ks"
  have as: "\<forall>x\<in>set ?as. P x" by (auto dest: set_takeWhileD)
  have bs: "\<forall>x\<in>set ?bs. \<not> P x" using assms by (rule sorted_dropWhile_not)
  have "bisect (\<lambda>m. P ((?as @ ?bs) ! m)) 0 (length (?as @ ?bs)) = length ?as"
    by (rule bisect_split) (use as bs in auto)
  then have "bisect (\<lambda>m. P (ks ! m)) 0 (length ks) = length ?as" by simp
  with as bs show ?thesis by (intro that [of ?as ?bs]) simp_all
qed

lemma sorted_keys_split_less:
  fixes ks :: "'k::linorder list"
  assumes "sorted_keys ks"
  obtains as bs where "ks = as @ bs" "\<forall>x\<in>set as. x < k" "\<forall>x\<in>set bs. k \<le> x"
    "bisect (\<lambda>m. ks ! m < k) 0 (length ks) = length as"
  by (rule sorted_keys_split [OF assms, of "\<lambda>x. x < k"]) (auto simp: not_less)

lemma sorted_keys_split_le:
  fixes ks :: "'k::linorder list"
  assumes "sorted_keys ks"
  obtains as bs where "ks = as @ bs" "\<forall>x\<in>set as. x \<le> k" "\<forall>x\<in>set bs. k < x"
    "bisect (\<lambda>m. ks ! m \<le> k) 0 (length ks) = length as"
  by (rule sorted_keys_split [OF assms, of "\<lambda>x. x \<le> k"]) (auto simp: not_le)

text \<open>Insertion, replacement and deletion in a sorted association list, stated by filtering.\<close>

definition upsert :: "'k::linorder \<Rightarrow> 'v \<Rightarrow> ('k \<times> 'v) list \<Rightarrow> ('k \<times> 'v) list" where
  "upsert k v xs = filter (\<lambda>e. fst e < k) xs @ (k, v) # filter (\<lambda>e. k < fst e) xs"

definition drop_key :: "'k \<Rightarrow> ('k \<times> 'v) list \<Rightarrow> ('k \<times> 'v) list" where
  "drop_key k xs = filter (\<lambda>e. fst e \<noteq> k) xs"

abbreviation sorted_alist :: "('k::linorder \<times> 'v) list \<Rightarrow> bool" where
  "sorted_alist xs \<equiv> sorted_keys (map fst xs)"

lemma sorted_wrt_filter_map: "sorted_wrt P (map f xs) \<Longrightarrow> sorted_wrt P (map f (filter Q xs))"
  by (induction xs) auto

lemma sorted_upsert: "sorted_alist xs \<Longrightarrow> sorted_alist (upsert k v xs)"
  by (auto simp: upsert_def sorted_wrt_append sorted_wrt_filter_map intro: less_trans)

lemma sorted_drop_key: "sorted_alist xs \<Longrightarrow> sorted_alist (drop_key k xs)"
  by (simp add: drop_key_def sorted_wrt_filter_map)

lemma map_of_filter_key:
  "map_of (filter (\<lambda>e. P (fst e)) xs) k = (if P k then map_of xs k else None)"
  by (induction xs) auto

lemma map_of_upsert: "map_of (upsert k v xs) = (map_of xs)(k \<mapsto> v)"
proof (rule ext)
  fix x
  note below = map_of_filter_key [of "\<lambda>y. y < k" xs] and above = map_of_filter_key [of "\<lambda>y. k < y" xs]
  have "map_of (upsert k v xs) x =
      (case map_of (filter (\<lambda>e. fst e < k) xs) x of
        None \<Rightarrow> if x = k then Some v else map_of (filter (\<lambda>e. k < fst e) xs) x
      | Some w \<Rightarrow> Some w)"
    by (auto simp: upsert_def map_add_def split: option.splits)
  also have "\<dots> = ((map_of xs)(k \<mapsto> v)) x"
    using linorder_less_linear [of x k] by (auto simp: below above split: option.splits)
  finally show "map_of (upsert k v xs) x = ((map_of xs)(k \<mapsto> v)) x" .
qed

lemma map_of_drop_key: "map_of (drop_key k xs) = (map_of xs)(k := None)"
  unfolding drop_key_def by (rule ext) (simp add: map_of_filter_key [of "\<lambda>x. x \<noteq> k"])

text \<open>Parts of a list wholly below or wholly above the key are kept by both operations.\<close>

lemma upsert_append:
  assumes "\<forall>e\<in>set as. fst e < k" and "\<forall>e\<in>set bs. k < fst e"
  shows "upsert k v (as @ xs @ bs) = as @ upsert k v xs @ bs"
proof -
  have "filter (\<lambda>e. k < fst e) as = []" "filter (\<lambda>e. fst e < k) as = as"
    "filter (\<lambda>e. k < fst e) bs = bs" "filter (\<lambda>e. fst e < k) bs = []"
    using assms by (auto simp: filter_empty_conv filter_id_conv)
  then show ?thesis by (simp add: upsert_def)
qed

lemma drop_key_append:
  assumes "\<forall>e\<in>set as. fst e \<noteq> k" and "\<forall>e\<in>set bs. fst e \<noteq> k"
  shows "drop_key k (as @ xs @ bs) = as @ drop_key k xs @ bs"
  using assms by (simp add: drop_key_def filter_id_conv)

lemma map_of_append_middle:
  assumes "\<forall>e\<in>set as. fst e \<noteq> k" and "\<forall>e\<in>set bs. fst e \<noteq> k"
  shows "map_of (as @ xs @ bs) k = map_of xs k"
proof -
  have "map_of as k = None" "map_of bs k = None"
    using assms by (auto simp: map_of_eq_None_iff)
  then show ?thesis by (simp add: map_add_def split: option.splits)
qed

end
