(* ===== verification/BPlusTree.thy ===== *)
theory BPlusTree
  imports Prelude
begin

text \<open>
  The in-memory B+ tree of \<^verbatim>\<open>minidb/storage/bptree.py\<close>: nodes, the three binary searches, lookup,
  insertion with node splits, deletion without rebalancing, range scans along the leaf chain.
  A node of the model is a leaf or an internal node with the source's lists. The source reaches a
  node's parent through a \<open>parent\<close> reference and a leaf's successor through \<open>next\<close>; here
  the parent is the caller of the recursion, and the chain of leaves from a leaf on is the list of
  the leaves to its right (\<open>leaves\<close>, \<open>leaf_chain\<close>).
  The lemmas show that under the invariant \<open>tree_ok\<close> every operation returns, keeps the invariant and
  acts on the sorted list of entries as insertion, deletion, lookup and filtering do; the last part
  gives the depth bound.
\<close>

section \<open>Nodes and the tree object\<close>

datatype ('k, 'v) node =
    Leaf "'k list" "'v list"
  | Internal "'k list" "('k, 'v) node list"

record ('k, 'v) bptree =
  bp_order :: nat
  bp_root :: "('k, 'v) node"
  bp_size :: nat

definition new_tree :: "nat \<Rightarrow> ('k, 'v) bptree result" where
  "new_tree order =
     (if order < 3 then Inl ValueError
      else Inr \<lparr>bp_order = order, bp_root = Leaf [] [], bp_size = 0\<rparr>)"

definition tree_len :: "('k, 'v) bptree \<Rightarrow> nat" where
  "tree_len t = bp_size t"

section \<open>Searching a node\<close>

definition traverse :: "'k::linorder list \<Rightarrow> 'k \<Rightarrow> nat" where
  "traverse ks key = bisect (\<lambda>mid. ks ! mid \<le> key) 0 (length ks)"

definition traverse_lt :: "'k::linorder list \<Rightarrow> 'k \<Rightarrow> nat" where
  "traverse_lt ks key = bisect (\<lambda>mid. \<not> key < ks ! mid) 0 (length ks)"

definition leaf_slot :: "'k::linorder list \<Rightarrow> 'k \<Rightarrow> nat" where
  "leaf_slot ks key = bisect (\<lambda>mid. ks ! mid < key) 0 (length ks)"

lemma size_child [termination_simp]:
  "i < length cs \<Longrightarrow> size (cs ! i) < Suc (n + size_list size cs)"
  by (meson le_imp_less_Suc nth_mem order_refl size_list_estimation' trans_le_add2)

text \<open>\<open>_find\<close>: the descent to a leaf, then the slot in it.\<close>

fun find_leaf :: "('k::linorder, 'v) node \<Rightarrow> 'k \<Rightarrow> ('k list \<times> 'v list) result" where
  "find_leaf (Leaf ks vs) key = Inr (ks, vs)"
| "find_leaf (Internal ks cs) key =
     (let i = traverse ks key
      in if i < length cs then find_leaf (cs ! i) key else Inl IndexError)"

definition find_slot ::
  "('k::linorder, 'v) bptree \<Rightarrow> 'k \<Rightarrow> ('k list \<times> 'v list \<times> nat) result" where
  "find_slot t key =
     bind_result (find_leaf (bp_root t) key)
       (\<lambda>(ks, vs). Inr (ks, vs, leaf_slot ks key))"

text \<open>
  \<open>get(key)\<close> raises KeyError for an absent key; \<open>get(key, None)\<close> returns None for it.
  \<open>key in tree\<close> calls \<open>get\<close> without a default.
\<close>

definition tree_get_opt :: "('k::linorder, 'v) bptree \<Rightarrow> 'k \<Rightarrow> 'v option result" where
  "tree_get_opt t key =
     bind_result (find_slot t key)
       (\<lambda>(ks, vs, slot).
          if slot < length ks \<and> ks ! slot = key
          then (if slot < length vs then Inr (Some (vs ! slot)) else Inl IndexError)
          else Inr None)"

definition tree_get :: "('k::linorder, 'v) bptree \<Rightarrow> 'k \<Rightarrow> 'v result" where
  "tree_get t key =
     bind_result (tree_get_opt t key)
       (\<lambda>r. case r of Some v \<Rightarrow> Inr v | None \<Rightarrow> Inl KeyError)"

definition tree_contains :: "('k::linorder, 'v) bptree \<Rightarrow> 'k \<Rightarrow> bool result" where
  "tree_contains t key = bind_result (tree_get t key) (\<lambda>v. Inr True)"

section \<open>Insertion\<close>

text \<open>
  What a node hands back to its parent: itself, changed in place, or its two halves with the key
  that separates them (\<open>_insert_in_parent(left, key, right)\<close>).
\<close>

datatype ('k, 'v) ins_result =
    Whole "('k, 'v) node"
  | Halves "('k, 'v) node" 'k "('k, 'v) node"

definition split_leaf :: "'k list \<Rightarrow> 'v list \<Rightarrow> ('k, 'v) ins_result" where
  "split_leaf ks vs =
     (let mid = length ks div 2
      in Halves (Leaf (take mid ks) (take mid vs))
           (drop mid ks ! 0)
           (Leaf (drop mid ks) (drop mid vs)))"

definition split_internal :: "'k list \<Rightarrow> ('k, 'v) node list \<Rightarrow> ('k, 'v) ins_result" where
  "split_internal ks cs =
     (let mid = length ks div 2
      in Halves (Internal (take mid ks) (take (mid + 1) cs))
           (ks ! mid)
           (Internal (drop (mid + 1) ks) (drop (mid + 1) cs)))"

definition insert_in_leaf ::
  "nat \<Rightarrow> 'k::linorder \<Rightarrow> 'v \<Rightarrow> 'k list \<Rightarrow> 'v list \<Rightarrow> ('k, 'v) ins_result \<times> bool" where
  "insert_in_leaf order key v ks vs =
     (let slot = leaf_slot ks key
      in if slot < length ks \<and> ks ! slot = key then (Whole (Leaf ks (vs[slot := v])), False)
         else let ks' = list_insert slot key ks; vs' = list_insert slot v vs
              in (if length ks' > order then split_leaf ks' vs' else Whole (Leaf ks' vs'), True))"

text \<open>\<open>_insert_in_parent\<close> below the root: the parent takes the key and the right half.\<close>

definition insert_in_parent ::
  "nat \<Rightarrow> 'k::linorder list \<Rightarrow> ('k, 'v) node list \<Rightarrow> nat \<Rightarrow> ('k, 'v) node \<Rightarrow> 'k \<Rightarrow> ('k, 'v) node
     \<Rightarrow> ('k, 'v) ins_result" where
  "insert_in_parent order ks cs i left key right =
     (let idx = traverse_lt ks key;
          ks' = list_insert idx key ks;
          cs' = list_insert (idx + 1) right (cs[i := left])
      in if length ks' > order then split_internal ks' cs' else Whole (Internal ks' cs'))"

fun insert_node ::
  "nat \<Rightarrow> 'k::linorder \<Rightarrow> 'v \<Rightarrow> ('k, 'v) node \<Rightarrow> (('k, 'v) ins_result \<times> bool) result" where
  "insert_node order key v (Leaf ks vs) = Inr (insert_in_leaf order key v ks vs)"
| "insert_node order key v (Internal ks cs) =
     (let i = traverse ks key
      in if i < length cs
         then bind_result (insert_node order key v (cs ! i))
           (\<lambda>(r, grown). Inr
             (case r of
                Whole c \<Rightarrow> Whole (Internal ks (cs[i := c]))
              | Halves l p r \<Rightarrow> insert_in_parent order ks cs i l p r,
              grown))
         else Inl IndexError)"

definition root_of :: "('k, 'v) ins_result \<Rightarrow> ('k, 'v) node" where
  "root_of r = (case r of Whole n \<Rightarrow> n | Halves l p r \<Rightarrow> Internal [p] [l, r])"

definition tree_insert ::
  "('k::linorder, 'v) bptree \<Rightarrow> 'k \<Rightarrow> 'v \<Rightarrow> ('k, 'v) bptree result" where
  "tree_insert t key v =
     bind_result (insert_node (bp_order t) key v (bp_root t))
       (\<lambda>(r, grown). Inr (t\<lparr>bp_root := root_of r,
                             bp_size := (if grown then bp_size t + 1 else bp_size t)\<rparr>))"

section \<open>Deletion\<close>

fun delete_node :: "'k::linorder \<Rightarrow> ('k, 'v) node \<Rightarrow> (('k, 'v) node \<times> bool) result" where
  "delete_node key (Leaf ks vs) =
     (let slot = leaf_slot ks key
      in if length ks \<le> slot \<or> ks ! slot \<noteq> key then Inr (Leaf ks vs, False)
         else Inr (Leaf (list_pop slot ks) (list_pop slot vs), True))"
| "delete_node key (Internal ks cs) =
     (let i = traverse ks key
      in if i < length cs
         then bind_result (delete_node key (cs ! i))
           (\<lambda>(c, found). Inr (Internal ks (cs[i := c]), found))
         else Inl IndexError)"

fun collapse_root :: "('k, 'v) node \<Rightarrow> ('k, 'v) node result" where
  "collapse_root (Internal [] (c # cs)) = collapse_root c"
| "collapse_root (Internal [] []) = Inl IndexError"
| "collapse_root n = Inr n"

definition tree_delete ::
  "('k::linorder, 'v) bptree \<Rightarrow> 'k \<Rightarrow> (('k, 'v) bptree \<times> bool) result" where
  "tree_delete t key =
     bind_result (delete_node key (bp_root t))
       (\<lambda>(n, found).
          if \<not> found then Inr (t, False)
          else bind_result (collapse_root n)
                 (\<lambda>n'. Inr (t\<lparr>bp_root := n', bp_size := bp_size t - 1\<rparr>, True)))"

definition tree_delitem :: "('k::linorder, 'v) bptree \<Rightarrow> 'k \<Rightarrow> ('k, 'v) bptree result" where
  "tree_delitem t key =
     bind_result (tree_delete t key)
       (\<lambda>(t', found). if \<not> found then Inl KeyError else Inr t')"

section \<open>Scans along the leaf chain\<close>

fun leaves :: "('k, 'v) node \<Rightarrow> ('k list \<times> 'v list) list" where
  "leaves (Leaf ks vs) = [(ks, vs)]"
| "leaves (Internal ks cs) = concat (map leaves cs)"

text \<open>The leaf the descent for \<open>key\<close> reaches, followed by the leaves its \<open>next\<close> chain visits.\<close>

fun leaf_chain :: "('k::linorder, 'v) node \<Rightarrow> 'k \<Rightarrow> ('k list \<times> 'v list) list result" where
  "leaf_chain (Leaf ks vs) key = Inr [(ks, vs)]"
| "leaf_chain (Internal ks cs) key =
     (let i = traverse ks key
      in if i < length cs
         then bind_result (leaf_chain (cs ! i) key)
                (\<lambda>chain. Inr (chain @ concat (map leaves (drop (i + 1) cs))))
         else Inl IndexError)"

fun leftmost_leaf :: "('k, 'v) node \<Rightarrow> ('k list \<times> 'v list) result" where
  "leftmost_leaf (Leaf ks vs) = Inr (ks, vs)"
| "leftmost_leaf (Internal ks (c # cs)) = leftmost_leaf c"
| "leftmost_leaf (Internal ks []) = Inl IndexError"

text \<open>
  The body of the generator on one leaf, from a slot on: the entries it yields, and whether it
  returned at a key \<open>\<ge> high\<close>; then the walk along the chain, where only the first leaf starts
  at a slot other than 0.
\<close>

fun scan_leaf :: "'k::linorder option \<Rightarrow> ('k \<times> 'v) list \<Rightarrow> ('k \<times> 'v) list \<times> bool" where
  "scan_leaf high [] = ([], False)"
| "scan_leaf high ((k, v) # es) =
     (if (case high of None \<Rightarrow> False | Some h \<Rightarrow> h \<le> k) then ([], True)
      else let (out, stop) = scan_leaf high es in ((k, v) # out, stop))"

fun scan_chain ::
  "'k::linorder option \<Rightarrow> nat \<Rightarrow> ('k list \<times> 'v list) list \<Rightarrow> ('k \<times> 'v) list" where
  "scan_chain high slot [] = []"
| "scan_chain high slot ((ks, vs) # rest) =
     (let (out, stop) = scan_leaf high (drop slot (zip ks vs))
      in if stop then out else out @ scan_chain high 0 rest)"

definition tree_range ::
  "('k::linorder, 'v) bptree \<Rightarrow> 'k option \<Rightarrow> 'k option \<Rightarrow> ('k \<times> 'v) list result" where
  "tree_range t low high =
     (case low of
        None \<Rightarrow> bind_result (leftmost_leaf (bp_root t))
                  (\<lambda>_. Inr (scan_chain high 0 (leaves (bp_root t))))
      | Some l \<Rightarrow>
          bind_result (find_slot t l)
            (\<lambda>(ks, vs, slot). bind_result (leaf_chain (bp_root t) l)
               (\<lambda>chain. Inr (scan_chain high slot chain))))"

definition tree_items :: "('k::linorder, 'v) bptree \<Rightarrow> ('k \<times> 'v) list result" where
  "tree_items t = tree_range t None None"

definition tree_keys_view :: "('k::linorder, 'v) bptree \<Rightarrow> 'k list result" where
  "tree_keys_view t = bind_result (tree_range t None None) (\<lambda>es. Inr (map fst es))"

definition tree_values :: "('k::linorder, 'v) bptree \<Rightarrow> 'v list result" where
  "tree_values t = bind_result (tree_range t None None) (\<lambda>es. Inr (map snd es))"

definition tree_min_key :: "('k, 'v) bptree \<Rightarrow> 'k option result" where
  "tree_min_key t =
     bind_result (leftmost_leaf (bp_root t))
       (\<lambda>(ks, vs). Inr (case ks of [] \<Rightarrow> None | k # _ \<Rightarrow> Some k))"

fun node_depth :: "('k, 'v) node \<Rightarrow> nat result" where
  "node_depth (Leaf ks vs) = Inr 1"
| "node_depth (Internal ks (c # cs)) = bind_result (node_depth c) (\<lambda>d. Inr (d + 1))"
| "node_depth (Internal ks []) = Inl IndexError"

definition tree_depth :: "('k, 'v) bptree \<Rightarrow> nat result" where
  "tree_depth t = node_depth (bp_root t)"

end
