(* ===== verification/BPlusTree_Correct.thy ===== *)
theory BPlusTree_Correct
  imports BPlusTree
begin

text \<open>
  The invariant of the B+ tree and the correctness of its operations.
  \<open>ordered lo n hi\<close>: the keys under \<open>n\<close> lie in \<open>[lo, hi)\<close>, each node's keys are strictly sorted, an
  internal node's keys separate its children. \<open>shape root dense b d n\<close>: all leaves at depth \<open>d\<close>, no
  node over capacity \<open>b\<close>, every internal node below the root at least half full; with \<open>dense\<close>
  (trees built by insertion alone) every leaf below the root is half full as well.
\<close>

section \<open>Entries and the ordering invariant\<close>

definition leaf_entries :: "('k list \<times> 'v list) list \<Rightarrow> ('k \<times> 'v) list" where
  "leaf_entries ls = concat (map (\<lambda>(ks, vs). zip ks vs) ls)"

definition entries :: "('k, 'v) node \<Rightarrow> ('k \<times> 'v) list" where
  "entries n = leaf_entries (leaves n)"

definition tree_entries :: "('k, 'v) bptree \<Rightarrow> ('k \<times> 'v) list" where
  "tree_entries t = entries (bp_root t)"

lemma leaf_entries_simps [simp]:
  "leaf_entries [] = []"
  "leaf_entries ((ks, vs) # ls) = zip ks vs @ leaf_entries ls"
  "leaf_entries (xs @ ys) = leaf_entries xs @ leaf_entries ys"
  by (simp_all add: leaf_entries_def)

lemma leaf_entries_concat: "leaf_entries (concat (map leaves cs)) = concat (map entries cs)"
  by (induction cs) (simp_all add: entries_def)

lemma entries_simps [simp]:
  "entries (Leaf ks vs) = zip ks vs"
  "entries (Internal ks cs) = concat (map entries cs)"
  by (simp_all add: entries_def leaf_entries_concat)

definition within :: "'k::linorder option \<Rightarrow> 'k option \<Rightarrow> 'k \<Rightarrow> bool" where
  "within lo hi k \<longleftrightarrow> (\<forall>l. lo = Some l \<longrightarrow> l \<le> k) \<and> (\<forall>h. hi = Some h \<longrightarrow> k < h)"

definition inside :: "'k::linorder option \<Rightarrow> 'k option \<Rightarrow> 'k \<Rightarrow> bool" where
  "inside lo hi k \<longleftrightarrow> (\<forall>l. lo = Some l \<longrightarrow> l < k) \<and> (\<forall>h. hi = Some h \<longrightarrow> k < h)"

lemma within_simps [simp]:
  "within None None k"
  "within (Some l) None k \<longleftrightarrow> l \<le> k"
  "within None (Some h) k \<longleftrightarrow> k < h"
  "within (Some l) (Some h) k \<longleftrightarrow> l \<le> k \<and> k < h"
  by (simp_all add: within_def)

lemma inside_simps [simp]:
  "inside None None k"
  "inside (Some l) None k \<longleftrightarrow> l < k"
  "inside None (Some h) k \<longleftrightarrow> k < h"
  "inside (Some l) (Some h) k \<longleftrightarrow> l < k \<and> k < h"
  by (simp_all add: inside_def)

lemma inside_within: "inside lo hi k \<Longrightarrow> within lo hi k"
  by (auto simp: inside_def within_def)

lemma within_lower: "within lo (Some k) x \<Longrightarrow> inside lo hi k \<Longrightarrow> within lo hi x"
  by (auto simp: inside_def within_def)

lemma within_upper: "within (Some k) hi x \<Longrightarrow> inside lo hi k \<Longrightarrow> within lo hi x"
  by (auto simp: inside_def within_def)

lemma inside_lower: "inside lo (Some k) x \<Longrightarrow> inside lo hi k \<Longrightarrow> inside lo hi x"
  by (auto simp: inside_def)

lemma inside_upper: "inside (Some k) hi x \<Longrightarrow> inside lo hi k \<Longrightarrow> inside lo hi x"
  by (auto simp: inside_def)

fun ordered :: "'k::linorder option \<Rightarrow> ('k, 'v) node \<Rightarrow> 'k option \<Rightarrow> bool"
  and ordered_children ::
    "'k::linorder option \<Rightarrow> 'k list \<Rightarrow> ('k, 'v) node list \<Rightarrow> 'k option \<Rightarrow> bool" where
  "ordered lo (Leaf ks vs) hi \<longleftrightarrow>
     sorted_keys ks \<and> length vs = length ks \<and> (\<forall>k\<in>set ks. within lo hi k)"
| "ordered lo (Internal ks cs) hi \<longleftrightarrow>
     sorted_keys ks \<and> (\<forall>k\<in>set ks. inside lo hi k) \<and> ordered_children lo ks cs hi"
| "ordered_children lo [] [] hi \<longleftrightarrow> False"
| "ordered_children lo [] (c # cs) hi \<longleftrightarrow> cs = [] \<and> ordered lo c hi"
| "ordered_children lo (k # ks) [] hi \<longleftrightarrow> False"
| "ordered_children lo (k # ks) (c # cs) hi \<longleftrightarrow>
     ordered lo c (Some k) \<and> ordered_children (Some k) ks cs hi"

lemma ordered_children_length: "ordered_children lo ks cs hi \<Longrightarrow> length cs = Suc (length ks)"
  by (induction ks arbitrary: lo cs) (auto elim: ordered_children.elims)

text \<open>The entries of an ordered node are sorted and lie within its bounds.\<close>

lemma ordered_entries:
  fixes n :: "('k::linorder, 'v) node" and cs :: "('k, 'v) node list"
  shows "ordered lo n hi \<Longrightarrow> sorted_alist (entries n) \<and> (\<forall>e\<in>set (entries n). within lo hi (fst e))"
    and "ordered_children lo ks cs hi \<Longrightarrow> sorted_keys ks \<Longrightarrow> \<forall>k\<in>set ks. inside lo hi k \<Longrightarrow>
      sorted_alist (concat (map entries cs)) \<and>
      (\<forall>e\<in>set (concat (map entries cs)). within lo hi (fst e))"
proof (induction lo n hi and lo ks cs hi rule: ordered_ordered_children.induct)
  case (1 lo ks vs hi)
  then show ?case by (auto dest: set_zip_leftD)
next
  case (6 lo k ks c cs hi)
  have c: "sorted_alist (entries c)" "\<forall>e\<in>set (entries c). within lo (Some k) (fst e)"
    using 6 by auto
  have "\<forall>x\<in>set ks. inside (Some k) hi x" using 6(4,5) by (auto simp: inside_def)
  then have cs: "sorted_alist (concat (map entries cs))"
    "\<forall>e\<in>set (concat (map entries cs)). within (Some k) hi (fst e)"
    using 6(2) [OF conjunct2] 6(3,4) by auto
  have k: "inside lo hi k" using 6(5) by simp
  have "\<forall>x\<in>set (entries c). \<forall>y\<in>set (concat (map entries cs)). fst x < fst y"
    using c(2) cs(2) by (meson less_le_trans within_def)
  moreover have "\<forall>e\<in>set (entries c). within lo hi (fst e)"
    using c(2) within_lower [OF _ k] by blast
  moreover have "\<forall>e\<in>set (concat (map entries cs)). within lo hi (fst e)"
    using cs(2) within_upper [OF _ k] by blast
  ultimately show ?case
    using c(1) cs(1) by (auto simp: sorted_wrt_append)
qed auto

section \<open>Splitting the children at the child a search descends to\<close>

definition last_bound :: "'k option \<Rightarrow> 'k list \<Rightarrow> 'k option" where
  "last_bound lo ks = (if ks = [] then lo else Some (last ks))"

definition next_bound :: "'k list \<Rightarrow> 'k option \<Rightarrow> 'k option" where
  "next_bound ks hi = (case ks of [] \<Rightarrow> hi | k # _ \<Rightarrow> Some k)"

lemma bound_simps [simp]:
  "last_bound lo [] = lo"
  "last_bound lo (as @ [k]) = Some k"
  "last_bound lo (k # as) = last_bound (Some k) as"
  "next_bound [] hi = hi"
  "next_bound (k # ks) hi = Some k"
  by (simp_all add: last_bound_def next_bound_def)

fun left_children :: "'k::linorder option \<Rightarrow> 'k list \<Rightarrow> ('k, 'v) node list \<Rightarrow> bool" where
  "left_children lo [] cs \<longleftrightarrow> cs = []"
| "left_children lo (k # ks) [] \<longleftrightarrow> False"
| "left_children lo (k # ks) (c # cs) \<longleftrightarrow> ordered lo c (Some k) \<and> left_children (Some k) ks cs"

fun right_children :: "'k::linorder list \<Rightarrow> ('k, 'v) node list \<Rightarrow> 'k option \<Rightarrow> bool" where
  "right_children [] cs hi \<longleftrightarrow> cs = []"
| "right_children (k # ks) cs hi \<longleftrightarrow> ordered_children (Some k) ks cs hi"

lemma ordered_children_Cons:
  "ordered_children lo ks (c # cs) hi \<longleftrightarrow>
     ordered lo c (next_bound ks hi) \<and> right_children ks cs hi"
  by (cases ks) auto

lemma ordered_children_at:
  "length xs = length as \<Longrightarrow>
     ordered_children lo (as @ bs) (xs @ c # ys) hi \<longleftrightarrow>
       left_children lo as xs \<and> ordered (last_bound lo as) c (next_bound bs hi) \<and>
       right_children bs ys hi"
  by (induction lo as xs rule: left_children.induct) (auto simp: ordered_children_Cons)

lemma left_children_snoc:
  "length xs = length as \<Longrightarrow>
     left_children lo (as @ [k]) (xs @ [c]) \<longleftrightarrow>
       left_children lo as xs \<and> ordered (last_bound lo as) c (Some k)"
  by (induction lo as xs rule: left_children.induct) auto

lemma ordered_children_cut:
  "length xs = Suc (length as) \<Longrightarrow>
     ordered_children lo (as @ k # bs) (xs @ ys) hi \<longleftrightarrow>
       ordered_children lo as xs (Some k) \<and> ordered_children (Some k) bs ys hi"
proof (induction as arbitrary: lo xs)
  case Nil
  then obtain c where "xs = [c]" by (auto simp: length_Suc_conv)
  then show ?case by simp
next
  case (Cons a as)
  then obtain c xs' where "xs = c # xs'" "length xs' = Suc (length as)"
    by (auto simp: length_Suc_conv)
  with Cons.IH show ?case by simp
qed

lemma left_children_below:
  assumes "left_children lo as xs" and "\<forall>a\<in>set as. a \<le> key"
  shows "\<forall>e\<in>set (concat (map entries xs)). fst e < key"
  using assms
proof (induction lo as xs rule: left_children.induct)
  case (3 lo k ks c cs)
  have "\<forall>e\<in>set (entries c). within lo (Some k) (fst e)"
    using 3(2) ordered_entries(1) by auto
  then have "\<forall>e\<in>set (entries c). fst e < key"
    using 3(3) by (auto simp: within_def dest: less_le_trans)
  with 3 show ?case by auto
qed auto

lemma right_children_above:
  assumes "right_children bs ys hi" and "\<forall>b\<in>set bs. key < b" and "sorted_keys bs"
    and "\<forall>b\<in>set bs. inside lo hi b"
  shows "\<forall>e\<in>set (concat (map entries ys)). key < fst e"
proof (cases bs)
  case (Cons b bs')
  have "\<forall>x\<in>set bs'. inside (Some b) hi x"
    using assms(3,4) Cons by (auto simp: inside_def)
  then have "\<forall>e\<in>set (concat (map entries ys)). within (Some b) hi (fst e)"
    using assms(1,3) Cons ordered_entries(2) [of "Some b" bs' ys hi] by simp
  then have "\<forall>e\<in>set (concat (map entries ys)). b \<le> fst e" by (simp add: within_def)
  with assms(2) Cons show ?thesis by (metis less_le_trans list.set_intros(1))
qed (use assms in simp)

text \<open>
  The descent at an internal node: the node's keys and children split at the child that
  \<open>traverse\<close> picks, with the bounds that child has and everything the other children's keys satisfy.
\<close>

lemma traverse_child:
  assumes "ordered lo (Internal ks cs) hi" and "within lo hi key"
  obtains as bs xs c ys where
    "ks = as @ bs" "cs = xs @ c # ys" "length xs = length as" "traverse ks key = length as"
    "\<forall>a\<in>set as. a \<le> key" "\<forall>b\<in>set bs. key < b"
    "left_children lo as xs" "ordered (last_bound lo as) c (next_bound bs hi)"
    "right_children bs ys hi" "within (last_bound lo as) (next_bound bs hi) key"
    "\<forall>e\<in>set (concat (map entries xs)). fst e < key"
    "\<forall>e\<in>set (concat (map entries ys)). key < fst e"
proof -
  have ks: "sorted_keys ks" "\<forall>k\<in>set ks. inside lo hi k" "ordered_children lo ks cs hi"
    using assms(1) by auto
  obtain as bs where split: "ks = as @ bs" "\<forall>x\<in>set as. x \<le> key" "\<forall>x\<in>set bs. key < x"
    "traverse ks key = length as"
    using sorted_keys_split_le [OF ks(1), of key] by (auto simp: traverse_def)
  define xs c ys where "xs = take (length as) cs" and "c = cs ! length as"
    and "ys = drop (Suc (length as)) cs"
  have len: "length cs = Suc (length ks)" using ks(3) by (rule ordered_children_length)
  have cs: "cs = xs @ c # ys" "length xs = length as"
    using len split(1) by (auto simp: xs_def c_def ys_def id_take_nth_drop)
  have parts: "left_children lo as xs" "ordered (last_bound lo as) c (next_bound bs hi)"
    "right_children bs ys hi"
    using ks(3) ordered_children_at [OF cs(2), of lo bs c ys hi] split(1) cs(1) by auto
  have "within (last_bound lo as) (next_bound bs hi) key"
    using assms(2) split(2,3) by (cases bs) (auto simp: within_def last_bound_def)
  moreover have "\<forall>e\<in>set (concat (map entries xs)). fst e < key"
    using parts(1) split(2) by (rule left_children_below)
  moreover have "\<forall>e\<in>set (concat (map entries ys)). key < fst e"
    by (rule right_children_above [OF parts(3) split(3), of lo])
      (use ks split in \<open>auto simp: sorted_wrt_append\<close>)
  ultimately show ?thesis using that split cs parts by blast
qed

section \<open>Lookup\<close>

lemma find_leaf_ok:
  assumes "ordered lo n hi" and "within lo hi key"
  shows "\<exists>ks vs. find_leaf n key = Inr (ks, vs) \<and> sorted_keys ks \<and> length vs = length ks \<and>
    map_of (entries n) key = map_of (zip ks vs) key"
  using assms
proof (induction n key arbitrary: lo hi rule: find_leaf.induct)
  case (1 ks vs key)
  then show ?case by auto
next
  case (2 ks cs key)
  from 2(2,3) show ?case
  proof (rule traverse_child)
    fix as bs xs c ys
    assume d: "ks = as @ bs" "cs = xs @ c # ys" "length xs = length as" "traverse ks key = length as"
      "ordered (last_bound lo as) c (next_bound bs hi)"
      "within (last_bound lo as) (next_bound bs hi) key"
      "\<forall>e\<in>set (concat (map entries xs)). fst e < key"
      "\<forall>e\<in>set (concat (map entries ys)). key < fst e"
    have c: "cs ! length as = c" "length as < length cs"
      using d(2,3) by (simp_all add: nth_append)
    obtain ks' vs' where leaf: "find_leaf c key = Inr (ks', vs')" "sorted_keys ks'"
      "length vs' = length ks'" "map_of (entries c) key = map_of (zip ks' vs') key"
      using 2(1) [OF d(4) [symmetric], unfolded c, OF c(2) d(5,6)] by blast
    have "map_of (entries (Internal ks cs)) key = map_of (entries c) key"
      using map_of_append_middle [of "concat (map entries xs)" key "concat (map entries ys)" "entries c"]
        d(2,7,8) by fastforce
    with leaf c d(4) show ?thesis by simp
  qed
qed

lemma leaf_slot_lookup:
  assumes "sorted_keys ks" and "length vs = length ks"
  shows "map_of (zip ks vs) key =
    (if leaf_slot ks key < length ks \<and> ks ! leaf_slot ks key = key
     then Some (vs ! leaf_slot ks key) else None)"
proof -
  obtain as bs where s: "ks = as @ bs" "\<forall>x\<in>set as. x < key" "\<forall>x\<in>set bs. key \<le> x"
    "leaf_slot ks key = length as"
    using sorted_keys_split_less [OF assms(1), of key] by (auto simp: leaf_slot_def)
  show ?thesis
  proof (cases "leaf_slot ks key < length ks \<and> ks ! leaf_slot ks key = key")
    case True
    then have "(key, vs ! length as) \<in> set (zip ks vs)"
      using s(4) assms(2) by (metis in_set_zip fst_conv snd_conv)
    moreover have "distinct (map fst (zip ks vs))"
      using assms strict_sorted_iff by auto
    ultimately show ?thesis using True s(4) by simp
  next
    case False
    have "key \<notin> set bs"
    proof
      assume "key \<in> set bs"
      then obtain b bs' where b: "bs = b # bs'" by (cases bs) auto
      then have "b = key"
        using \<open>key \<in> set bs\<close> s(1,3) assms(1) by (auto simp: sorted_wrt_append dest: leD)
      with False s b show False by (simp add: nth_append)
    qed
    then have "key \<notin> set ks" using s(1,2) by auto
    then have "map_of (zip ks vs) key = None" using assms(2) by simp
    with False show ?thesis by simp
  qed
qed

lemma tree_get_opt_entries:
  assumes "ordered None (bp_root t) None"
  shows "tree_get_opt t key = Inr (map_of (tree_entries t) key)"
proof -
  obtain ks vs where "find_leaf (bp_root t) key = Inr (ks, vs)" "sorted_keys ks"
    "length vs = length ks" "map_of (tree_entries t) key = map_of (zip ks vs) key"
    using find_leaf_ok [OF assms, of key] by (auto simp: tree_entries_def)
  then show ?thesis
    using leaf_slot_lookup [of ks vs key] by (simp add: tree_get_opt_def find_slot_def)
qed

section \<open>Insertion\<close>

fun ins_ordered :: "'k::linorder option \<Rightarrow> ('k, 'v) ins_result \<Rightarrow> 'k option \<Rightarrow> bool" where
  "ins_ordered lo (Whole n) hi \<longleftrightarrow> ordered lo n hi"
| "ins_ordered lo (Halves l p r) hi \<longleftrightarrow>
     ordered lo l (Some p) \<and> ordered (Some p) r hi \<and> inside lo hi p"

fun ins_entries :: "('k, 'v) ins_result \<Rightarrow> ('k \<times> 'v) list" where
  "ins_entries (Whole n) = entries n"
| "ins_entries (Halves l p r) = entries l @ entries r"

lemma split_leaf_ok:
  assumes "sorted_keys ks" and "length vs = length ks" and "\<forall>k\<in>set ks. within lo hi k"
    and "2 \<le> length ks"
  shows "ins_ordered lo (split_leaf ks vs) hi" and "ins_entries (split_leaf ks vs) = zip ks vs"
proof -
  define mid where "mid = length ks div 2"
  define as where "as = take mid ks"
  obtain p bs where bs: "drop mid ks = p # bs"
    using assms(4) by (cases "drop mid ks") (auto simp: mid_def)
  have eq: "split_leaf ks vs = Halves (Leaf as (take mid vs)) p (Leaf (p # bs) (drop mid vs))"
    using bs by (simp add: split_leaf_def Let_def mid_def as_def)
  have ks: "ks = as @ p # bs" unfolding as_def bs [symmetric] by simp
  have "as \<noteq> []" using assms(4) by (auto simp: as_def mid_def)
  then obtain a where a: "a \<in> set as" by (cases as) auto
  have sorted: "sorted_keys as" "sorted_keys (p # bs)" "\<forall>k\<in>set as. k < p" "\<forall>k\<in>set (p # bs). p \<le> k"
    using assms(1) ks by (auto simp: sorted_wrt_append)
  have bounds: "\<forall>k\<in>set as. within lo hi k" "\<forall>k\<in>set (p # bs). within lo hi k"
    using assms(3) ks by auto
  then have "within lo hi a" "within lo hi p" "a < p" using sorted(3) a by auto
  then have "inside lo hi p"
    by (auto simp: inside_def within_def dest: le_less_trans)
  moreover have "\<forall>k\<in>set as. within lo (Some p) k" "\<forall>k\<in>set (p # bs). within (Some p) hi k"
    using bounds sorted(3,4) by (auto simp: within_def)
  moreover have "length (take mid vs) = length as" "length (drop mid vs) = length (p # bs)"
    using assms(2) by (simp_all add: as_def bs [symmetric])
  ultimately show "ins_ordered lo (split_leaf ks vs) hi"
    using sorted by (simp add: eq)
  have "zip as (take mid vs) @ zip (p # bs) (drop mid vs) = zip ks vs"
    unfolding as_def bs [symmetric] by (simp add: take_zip [symmetric] drop_zip [symmetric])
  then show "ins_entries (split_leaf ks vs) = zip ks vs" by (simp add: eq)
qed

lemma split_internal_ok:
  assumes "ordered lo (Internal ks cs) hi" and "2 \<le> length ks"
  shows "ins_ordered lo (split_internal ks cs) hi"
    and "ins_entries (split_internal ks cs) = entries (Internal ks cs)"
proof -
  define mid where "mid = length ks div 2"
  have mid: "mid < length ks" using assms(2) by (auto simp: mid_def)
  have len: "length cs = Suc (length ks)" using assms(1) ordered_children_length by auto
  define as p bs where "as = take mid ks" and "p = ks ! mid" and "bs = drop (Suc mid) ks"
  define xs ys where "xs = take (Suc mid) cs" and "ys = drop (Suc mid) cs"
  have eq: "split_internal ks cs = Halves (Internal as xs) p (Internal bs ys)"
    by (simp add: split_internal_def Let_def mid_def as_def p_def bs_def xs_def ys_def)
  have ks: "ks = as @ p # bs" unfolding as_def p_def bs_def using mid by (rule split_at_nth)
  have cs: "cs = xs @ ys" "length xs = Suc (length as)"
    using mid len by (auto simp: xs_def ys_def as_def)
  have parts: "ordered_children lo as xs (Some p)" "ordered_children (Some p) bs ys hi"
    using assms(1) ordered_children_cut [OF cs(2), of lo p bs ys hi] ks cs(1) by auto
  have "sorted_keys as" "sorted_keys bs" "\<forall>a\<in>set as. a < p" "\<forall>b\<in>set bs. p < b"
    "\<forall>k\<in>set as. inside lo hi k" "\<forall>k\<in>set bs. inside lo hi k" "inside lo hi p"
    using assms(1) by (auto simp: ks sorted_wrt_append)
  then show "ins_ordered lo (split_internal ks cs) hi"
    using parts by (auto simp: eq inside_def)
  show "ins_entries (split_internal ks cs) = entries (Internal ks cs)"
    unfolding eq by (simp add: cs(1))
qed

lemma insert_in_leaf_ok:
  assumes "ordered lo (Leaf ks vs) hi" and "within lo hi key" and "2 \<le> order"
  shows "ins_ordered lo (fst (insert_in_leaf order key v ks vs)) hi"
    and "ins_entries (fst (insert_in_leaf order key v ks vs)) = upsert key v (zip ks vs)"
    and "snd (insert_in_leaf order key v ks vs) \<longleftrightarrow> key \<notin> fst ` set (zip ks vs)"
proof -
  have ks: "sorted_keys ks" "length vs = length ks" "\<forall>k\<in>set ks. within lo hi k"
    using assms(1) by auto
  obtain as bs where s: "ks = as @ bs" "\<forall>x\<in>set as. x < key" "\<forall>x\<in>set bs. key \<le> x"
    "leaf_slot ks key = length as"
    using sorted_keys_split_less [OF ks(1), of key] by (auto simp: leaf_slot_def)
  define us ws where "us = take (length as) vs" and "ws = drop (length as) vs"
  have vs: "vs = us @ ws" "length us = length as" "length ws = length bs"
    using ks(2) s(1) by (auto simp: us_def ws_def)
  have zip: "zip ks vs = zip as us @ zip bs ws"
    using s(1) vs by simp
  have below: "\<forall>e\<in>set (zip as us). fst e < key" using s(2) by (auto dest: set_zip_leftD)
  have keys: "fst ` set (zip ks vs) = set ks" using ks(2) by (metis list.set_map map_fst_zip)
  have "ins_ordered lo (fst (insert_in_leaf order key v ks vs)) hi \<and>
     ins_entries (fst (insert_in_leaf order key v ks vs)) = upsert key v (zip ks vs) \<and>
     (snd (insert_in_leaf order key v ks vs) \<longleftrightarrow> key \<notin> set ks)"
  proof (cases "length as < length ks \<and> ks ! length as = key")
    case True
    then obtain bs' where b: "bs = key # bs'"
      using s(1) by (cases bs) (auto simp: nth_append)
    then obtain w ws' where w: "ws = w # ws'" "length ws' = length bs'"
      using vs(3) by (cases ws) auto
    have "\<forall>b\<in>set bs'. key < b" using ks(1) s(1) b by (auto simp: sorted_wrt_append)
    then have above: "\<forall>e\<in>set (zip bs' ws'). key < fst e" by (auto dest: set_zip_leftD)
    have "upsert key v (zip ks vs) = zip as us @ upsert key v [(key, w)] @ zip bs' ws'"
      unfolding zip b w using upsert_append [OF below above, of v "[(key, w)]"] by simp
    then have "upsert key v (zip ks vs) = zip ks (vs[length as := v])"
      using s(1) vs b w by (simp add: upsert_def list_update_append)
    with True ks s(4) b s(1) show ?thesis
      by (simp add: insert_in_leaf_def Let_def list_update_append)
  next
    case False
    have "\<forall>b\<in>set bs. key < b"
    proof -
      have "bs = [] \<or> key < hd bs"
        using False s(1,3) by (cases bs) (auto simp: nth_append le_less)
      then show ?thesis
        using ks(1) s(1) by (cases bs) (auto simp: sorted_wrt_append)
    qed
    then have above: "\<forall>e\<in>set (zip bs ws). key < fst e" and new: "key \<notin> set ks"
      using s(1,2) by (auto dest: set_zip_leftD)
    define ks' vs' where "ks' = as @ key # bs" and "vs' = us @ v # ws"
    have eq: "list_insert (length as) key ks = ks'" "list_insert (length as) v vs = vs'"
      using s(1) vs(1,2) by (simp_all add: ks'_def vs'_def) (metis list_insert_append vs(2))
    have "upsert key v (zip ks vs) = zip as us @ upsert key v [] @ zip bs ws"
      unfolding zip using upsert_append [OF below above, of v "[]"] by simp
    then have entries: "upsert key v (zip ks vs) = zip ks' vs'"
      using vs by (simp add: upsert_def ks'_def vs'_def)
    have sorted: "sorted_keys ks'" "length vs' = length ks'" "\<forall>k\<in>set ks'. within lo hi k"
      using ks s(1,2) \<open>\<forall>b\<in>set bs. key < b\<close> assms(2) vs
      by (auto simp: ks'_def vs'_def sorted_wrt_append intro: less_trans)
    have "insert_in_leaf order key v ks vs =
      (if length ks' > order then split_leaf ks' vs' else Whole (Leaf ks' vs'), True)"
      using False s(4) eq by (simp add: insert_in_leaf_def Let_def)
    with sorted entries new assms(3) show ?thesis
      using split_leaf_ok [OF sorted] by simp
  qed
  then show "ins_ordered lo (fst (insert_in_leaf order key v ks vs)) hi"
    "ins_entries (fst (insert_in_leaf order key v ks vs)) = upsert key v (zip ks vs)"
    "snd (insert_in_leaf order key v ks vs) \<longleftrightarrow> key \<notin> fst ` set (zip ks vs)"
    using keys by auto
qed

lemma insert_in_parent_ok:
  assumes "ordered lo (Internal (as @ bs) (xs @ c # ys)) hi" and "length xs = length as"
    and "2 \<le> order"
    and halves: "ordered (last_bound lo as) l (Some p)" "ordered (Some p) r (next_bound bs hi)"
      "inside (last_bound lo as) (next_bound bs hi) p"
  shows "ins_ordered lo (insert_in_parent order (as @ bs) (xs @ c # ys) (length as) l p r) hi"
    and "ins_entries (insert_in_parent order (as @ bs) (xs @ c # ys) (length as) l p r) =
      concat (map entries xs) @ (entries l @ entries r) @ concat (map entries ys)"
proof -
  have node: "sorted_keys (as @ bs)" "\<forall>k\<in>set (as @ bs). inside lo hi k"
    "left_children lo as xs" "right_children bs ys hi"
    using assms(1) ordered_children_at [OF assms(2), of lo bs c ys hi] by auto
  have below: "\<forall>a\<in>set as. a < p"
  proof (cases as rule: rev_cases)
    case (snoc as' a)
    then have "a < p" "\<forall>x\<in>set as'. x < a"
      using halves(3) node(1) by (auto simp: sorted_wrt_append inside_def)
    with snoc show ?thesis by (auto intro: less_trans)
  qed simp
  have above: "\<forall>b\<in>set bs. p < b"
    using halves(3) node(1)
    by (cases bs) (auto simp: sorted_wrt_append inside_def intro: less_trans)
  have "traverse_lt (as @ bs) p = length as"
    unfolding traverse_lt_def
    by (rule bisect_split [where P = "\<lambda>x. \<not> p < x"]) (use below above in auto)
  then have eq: "insert_in_parent order (as @ bs) (xs @ c # ys) (length as) l p r =
    (let ks = as @ p # bs; cs = (xs @ [l]) @ r # ys
     in if length ks > order then split_internal ks cs else Whole (Internal ks cs))"
    using assms(2) by (simp add: insert_in_parent_def list_insert_def Let_def list_update_append)
  have "inside lo hi p"
    using halves(3) node(2) by (cases as rule: rev_cases; cases bs) (auto simp: inside_def intro: less_trans)
  then have "ordered lo (Internal (as @ p # bs) ((xs @ [l]) @ r # ys)) hi"
    using node below above halves assms(2)
      ordered_children_at [of "xs @ [l]" "as @ [p]" lo bs r ys hi] left_children_snoc [OF assms(2), of lo p l]
    by (auto simp: sorted_wrt_append)
  then show "ins_ordered lo (insert_in_parent order (as @ bs) (xs @ c # ys) (length as) l p r) hi"
    "ins_entries (insert_in_parent order (as @ bs) (xs @ c # ys) (length as) l p r) =
      concat (map entries xs) @ (entries l @ entries r) @ concat (map entries ys)"
    unfolding eq using assms(3) split_internal_ok [of lo "as @ p # bs" "(xs @ [l]) @ r # ys" hi]
    by (auto simp: Let_def)
qed

lemma insert_node_ok:
  assumes "ordered lo n hi" and "within lo hi key" and "2 \<le> order"
  shows "\<exists>r grown. insert_node order key v n = Inr (r, grown) \<and> ins_ordered lo r hi \<and>
    ins_entries r = upsert key v (entries n) \<and> (grown \<longleftrightarrow> key \<notin> fst ` set (entries n))"
  using assms
proof (induction order key v n arbitrary: lo hi rule: insert_node.induct)
  case (1 order key v ks vs)
  then show ?case
    using insert_in_leaf_ok [of lo ks vs hi key order v]
    by (cases "insert_in_leaf order key v ks vs") auto
next
  case (2 order key v ks cs)
  from 2(2,3) show ?case
  proof (rule traverse_child)
    fix as bs xs c ys
    assume d: "ks = as @ bs" "cs = xs @ c # ys" "length xs = length as" "traverse ks key = length as"
      "left_children lo as xs" "ordered (last_bound lo as) c (next_bound bs hi)" "right_children bs ys hi"
      "within (last_bound lo as) (next_bound bs hi) key"
      "\<forall>e\<in>set (concat (map entries xs)). fst e < key"
      "\<forall>e\<in>set (concat (map entries ys)). key < fst e"
    have c: "cs ! length as = c" "length as < length cs"
      using d(2,3) by (simp_all add: nth_append)
    obtain r grown where ins: "insert_node order key v c = Inr (r, grown)"
      "ins_ordered (last_bound lo as) r (next_bound bs hi)" "ins_entries r = upsert key v (entries c)"
      "grown \<longleftrightarrow> key \<notin> fst ` set (entries c)"
      using 2(1) [OF d(4) [symmetric], unfolded c, OF c(2) d(6,8) 2(4)] by blast
    have entries: "upsert key v (entries (Internal ks cs)) =
      concat (map entries xs) @ upsert key v (entries c) @ concat (map entries ys)"
      using upsert_append [OF d(9,10), of v "entries c"] d(2) by simp
    have "key \<notin> fst ` set (concat (map entries xs))" "key \<notin> fst ` set (concat (map entries ys))"
      using d(9,10) by (auto simp: image_iff)
    then have grown: "grown \<longleftrightarrow> key \<notin> fst ` set (entries (Internal ks cs))"
      using ins(4) d(2) by auto
    show ?thesis
    proof (cases r)
      case (Whole c')
      have "ordered lo (Internal ks (xs @ c' # ys)) hi"
        using 2(2) d(1,3,5,7) ins(2) Whole ordered_children_at [OF d(3), of lo bs c' ys hi] by simp
      moreover have "cs[length as := c'] = xs @ c' # ys"
        using d(2,3) by (simp add: list_update_append)
      ultimately show ?thesis
        using ins c d(4) Whole entries grown by simp
    next
      case (Halves l p r')
      note parent = insert_in_parent_ok [OF 2(2) [unfolded d(1,2)] d(3) 2(4), of l p r']
      have "ordered (last_bound lo as) l (Some p)" "ordered (Some p) r' (next_bound bs hi)"
        "inside (last_bound lo as) (next_bound bs hi) p"
        using ins(2) Halves by auto
      note parent = parent [OF this]
      have "insert_node order key v (Internal ks cs) =
        Inr (insert_in_parent order (as @ bs) (xs @ c # ys) (length as) l p r', grown)"
        using ins(1) c d(1,2,4) Halves by simp
      with parent entries grown ins(3) Halves show ?thesis by simp
    qed
  qed
qed

section \<open>Deletion\<close>

lemma delete_leaf_ok:
  assumes "ordered lo (Leaf ks vs) hi"
  shows "\<exists>n found. delete_node key (Leaf ks vs) = Inr (n, found) \<and> ordered lo n hi \<and>
    entries n = drop_key key (zip ks vs) \<and> (found \<longleftrightarrow> key \<in> fst ` set (zip ks vs))"
proof -
  have ks: "sorted_keys ks" "length vs = length ks" "\<forall>k\<in>set ks. within lo hi k"
    using assms by auto
  obtain as bs where s: "ks = as @ bs" "\<forall>x\<in>set as. x < key" "\<forall>x\<in>set bs. key \<le> x"
    "leaf_slot ks key = length as"
    using sorted_keys_split_less [OF ks(1), of key] by (auto simp: leaf_slot_def)
  have keys: "fst ` set (zip ks vs) = set ks" using ks(2) by (metis list.set_map map_fst_zip)
  define us ws where "us = take (length as) vs" and "ws = drop (length as) vs"
  have vs: "vs = us @ ws" "length us = length as" "length ws = length bs"
    using ks(2) s(1) by (auto simp: us_def ws_def)
  show ?thesis
  proof (cases "length as < length ks \<and> ks ! length as = key")
    case True
    then obtain bs' where b: "bs = key # bs'"
      using s(1) by (cases bs) (auto simp: nth_append)
    then obtain w ws' where w: "ws = w # ws'" "length ws' = length bs'"
      using vs(3) by (cases ws) auto
    have above: "\<forall>b\<in>set bs'. key < b" using ks(1) s(1) b by (auto simp: sorted_wrt_append)
    have "drop_key key (zip as us @ [(key, w)] @ zip bs' ws') =
      zip as us @ drop_key key [(key, w)] @ zip bs' ws'"
      by (rule drop_key_append) (use s(2) above in \<open>auto dest!: set_zip_leftD\<close>)
    then have "drop_key key (zip ks vs) = zip (as @ bs') (us @ ws')"
      using s(1) vs b w by (simp add: drop_key_def)
    moreover have "list_pop (length as) ks = as @ bs'" "list_pop (length as) vs = us @ ws'"
      using s(1) b vs w by (simp_all add: list_pop_def)
    moreover have "ordered lo (Leaf (as @ bs') (us @ ws')) hi"
      using ks s(1) b vs w by (auto simp: sorted_wrt_append)
    ultimately show ?thesis
      using True s(1,4) b keys by (auto simp: Let_def)
  next
    case False
    have "key \<notin> set ks"
    proof
      assume "key \<in> set ks"
      then obtain b bs' where b: "bs = b # bs'" "key \<in> set bs" using s(1,2) by (cases bs) auto
      then have "b = key"
        using s(1,3) ks(1) by (auto simp: sorted_wrt_append dest: leD)
      with False s b show False by (simp add: nth_append)
    qed
    moreover from this have "drop_key key (zip ks vs) = zip ks vs"
      by (auto simp: drop_key_def filter_id_conv dest: set_zip_leftD)
    ultimately show ?thesis
      using False s(4) keys assms by (auto simp: Let_def not_le)
  qed
qed

lemma delete_node_ok:
  assumes "ordered lo n hi" and "within lo hi key"
  shows "\<exists>n' found. delete_node key n = Inr (n', found) \<and> ordered lo n' hi \<and>
    entries n' = drop_key key (entries n) \<and> (found \<longleftrightarrow> key \<in> fst ` set (entries n))"
  using assms
proof (induction key n arbitrary: lo hi rule: delete_node.induct)
  case (1 key ks vs)
  then show ?case using delete_leaf_ok [of lo ks vs hi key] by simp
next
  case (2 key ks cs)
  from 2(2,3) show ?case
  proof (rule traverse_child)
    fix as bs xs c ys
    assume d: "ks = as @ bs" "cs = xs @ c # ys" "length xs = length as" "traverse ks key = length as"
      "left_children lo as xs" "ordered (last_bound lo as) c (next_bound bs hi)" "right_children bs ys hi"
      "within (last_bound lo as) (next_bound bs hi) key"
      "\<forall>e\<in>set (concat (map entries xs)). fst e < key"
      "\<forall>e\<in>set (concat (map entries ys)). key < fst e"
    have c: "cs ! length as = c" "length as < length cs"
      using d(2,3) by (simp_all add: nth_append)
    obtain c' found where del: "delete_node key c = Inr (c', found)"
      "ordered (last_bound lo as) c' (next_bound bs hi)" "entries c' = drop_key key (entries c)"
      "found \<longleftrightarrow> key \<in> fst ` set (entries c)"
      using 2(1) [OF d(4) [symmetric], unfolded c, OF c(2) d(6,8)] by blast
    have others: "\<forall>e\<in>set (concat (map entries xs)). fst e \<noteq> key"
      "\<forall>e\<in>set (concat (map entries ys)). fst e \<noteq> key"
      using d(9,10) by fastforce+
    have "drop_key key (entries (Internal ks cs)) =
      concat (map entries xs) @ drop_key key (entries c) @ concat (map entries ys)"
      using drop_key_append [OF others, of "entries c"] d(2) by simp
    moreover have "found \<longleftrightarrow> key \<in> fst ` set (entries (Internal ks cs))"
      using del(4) others d(2) by (auto simp: image_iff)
    moreover have "ordered lo (Internal ks (xs @ c' # ys)) hi"
      using 2(2) d(1,3,5,7) del(2) ordered_children_at [OF d(3), of lo bs c' ys hi] by simp
    moreover have "cs[length as := c'] = xs @ c' # ys"
      using d(2,3) by (simp add: list_update_append)
    ultimately show ?thesis
      using del c d(4) by simp
  qed
qed

section \<open>Range scans\<close>

definition below :: "'k::linorder option \<Rightarrow> 'k \<Rightarrow> bool" where
  "below high k \<longleftrightarrow> (case high of None \<Rightarrow> True | Some h \<Rightarrow> k < h)"

definition from_low :: "'k::linorder option \<Rightarrow> 'k \<Rightarrow> bool" where
  "from_low low k \<longleftrightarrow> (case low of None \<Rightarrow> True | Some l \<Rightarrow> l \<le> k)"

lemma scan_leaf_eq:
  "scan_leaf high es = (takeWhile (\<lambda>e. below high (fst e)) es, \<not> (\<forall>e\<in>set es. below high (fst e)))"
  by (induction high es rule: scan_leaf.induct) (auto simp: below_def split: option.splits)

lemma scan_chain_eq:
  "scan_chain high slot ((ks, vs) # rest) =
     takeWhile (\<lambda>e. below high (fst e)) (drop slot (zip ks vs) @ leaf_entries rest)"
proof (induction rest arbitrary: slot ks vs)
  case Nil
  then show ?case by (simp add: scan_leaf_eq)
next
  case (Cons leaf rest)
  obtain ks' vs' where "leaf = (ks', vs')" by (cases leaf)
  with Cons.IH [of 0 ks' vs'] show ?case
    by (auto simp: scan_leaf_eq takeWhile_append)
qed

lemma takeWhile_sorted_below:
  assumes "sorted_alist es"
  shows "takeWhile (\<lambda>e. below high (fst e)) es = filter (\<lambda>e. below high (fst e)) es"
proof -
  have "\<not> below high (fst e) \<Longrightarrow> \<forall>x\<in>set es. fst e < fst x \<Longrightarrow>
      filter (\<lambda>e. below high (fst e)) es = []" for e :: "'a \<times> 'b" and es :: "('a \<times> 'b) list"
    by (auto simp: below_def filter_empty_conv split: option.splits)
  with assms show ?thesis
    by (induction es) auto
qed

lemma leaf_chain_ok:
  assumes "ordered lo n hi" and "within lo hi key"
  shows "\<exists>ks vs rest pre. find_leaf n key = Inr (ks, vs) \<and> leaf_chain n key = Inr ((ks, vs) # rest) \<and>
    entries n = pre @ zip ks vs @ leaf_entries rest \<and>
    (\<forall>e\<in>set pre. fst e < key) \<and> (\<forall>e\<in>set (leaf_entries rest). key < fst e)"
  using assms
proof (induction n key arbitrary: lo hi rule: leaf_chain.induct)
  case (1 ks vs key)
  show ?case by (intro exI [of _ ks] exI [of _ vs] exI [of _ "[]"]) simp
next
  case (2 ks cs key)
  from 2(2,3) show ?case
  proof (rule traverse_child)
    fix as bs xs c ys
    assume d: "ks = as @ bs" "cs = xs @ c # ys" "length xs = length as" "traverse ks key = length as"
      "ordered (last_bound lo as) c (next_bound bs hi)"
      "within (last_bound lo as) (next_bound bs hi) key"
      "\<forall>e\<in>set (concat (map entries xs)). fst e < key"
      "\<forall>e\<in>set (concat (map entries ys)). key < fst e"
    have c: "cs ! length as = c" "length as < length cs" "drop (Suc (length as)) cs = ys"
      using d(2,3) by (simp_all add: nth_append)
    obtain ks' vs' rest pre where r: "find_leaf c key = Inr (ks', vs')"
      "leaf_chain c key = Inr ((ks', vs') # rest)" "entries c = pre @ zip ks' vs' @ leaf_entries rest"
      "\<forall>e\<in>set pre. fst e < key" "\<forall>e\<in>set (leaf_entries rest). key < fst e"
      using 2(1) [OF d(4) [symmetric], unfolded c, OF c(2) d(5,6)] by blast
    have "find_leaf (Internal ks cs) key = Inr (ks', vs')"
      "leaf_chain (Internal ks cs) key = Inr ((ks', vs') # (rest @ concat (map leaves ys)))"
      using r c d(4) by simp_all
    moreover have "entries (Internal ks cs) =
      (concat (map entries xs) @ pre) @ zip ks' vs' @ leaf_entries (rest @ concat (map leaves ys))"
      using d(2) r(3) by (simp add: leaf_entries_concat)
    moreover have "\<forall>e\<in>set (concat (map entries xs) @ pre). fst e < key"
      "\<forall>e\<in>set (leaf_entries (rest @ concat (map leaves ys))). key < fst e"
      using r(4,5) d(7,8) by (auto simp: leaf_entries_concat)
    ultimately show ?thesis by blast
  qed
qed

lemma drop_leaf_slot:
  assumes "sorted_keys ks" and "length vs = length ks"
  shows "drop (leaf_slot ks key) (zip ks vs) = filter (\<lambda>e. key \<le> fst e) (zip ks vs)"
proof -
  obtain as bs where s: "ks = as @ bs" "\<forall>x\<in>set as. x < key" "\<forall>x\<in>set bs. key \<le> x"
    "leaf_slot ks key = length as"
    using sorted_keys_split_less [OF assms(1), of key] by (auto simp: leaf_slot_def)
  define us ws where "us = take (length as) vs" and "ws = drop (length as) vs"
  have vs: "vs = us @ ws" "length us = length as"
    using assms(2) s(1) by (auto simp: us_def ws_def)
  have "filter (\<lambda>e. key \<le> fst e) (zip as us) = []" "filter (\<lambda>e. key \<le> fst e) (zip bs ws) = zip bs ws"
    using s(2,3) by (auto simp: filter_empty_conv filter_id_conv dest!: set_zip_leftD)
  with s(1,4) vs show ?thesis by simp
qed

lemma ordered_Internal_Cons:
  "ordered lo (Internal ks cs) hi \<Longrightarrow> \<exists>c cs' hi'. cs = c # cs' \<and> ordered lo c hi'"
  by (cases ks; cases cs) auto

lemma leftmost_leaf_ok: "ordered lo n hi \<Longrightarrow> \<exists>ks vs rest. leftmost_leaf n = Inr (ks, vs) \<and> leaves n = (ks, vs) # rest"
proof (induction n arbitrary: hi rule: leftmost_leaf.induct)
  case (2 ks c cs)
  from ordered_Internal_Cons [OF 2(2)] obtain hi' where "ordered lo c hi'" by auto
  then show ?case using 2(1) by fastforce
qed (auto dest: ordered_children_length)

lemma tree_range_entries:
  assumes "ordered None (bp_root t) None"
  shows "tree_range t low high =
    Inr (filter (\<lambda>e. from_low low (fst e) \<and> below high (fst e)) (tree_entries t))"
proof -
  let ?es = "tree_entries t"
  have sorted: "sorted_alist ?es"
    using ordered_entries(1) [OF assms] by (simp add: tree_entries_def)
  have high: "takeWhile (\<lambda>e. below high (fst e)) (filter P ?es) =
      filter (\<lambda>e. P e \<and> below high (fst e)) ?es" for P
    using takeWhile_sorted_below [OF sorted_wrt_filter_map [OF sorted], of high P]
    by (simp add: conj_commute)
  show ?thesis
  proof (cases low)
    case None
    obtain ks vs rest where left: "leftmost_leaf (bp_root t) = Inr (ks, vs)"
      "leaves (bp_root t) = (ks, vs) # rest" using leftmost_leaf_ok [OF assms] by blast
    then have "?es = zip ks vs @ leaf_entries rest" by (simp add: tree_entries_def entries_def)
    with left None high [of "\<lambda>_. True"] show ?thesis
      by (simp add: tree_range_def scan_chain_eq from_low_def del: scan_chain.simps)
  next
    case (Some l)
    obtain ks vs rest pre where leaf: "find_leaf (bp_root t) l = Inr (ks, vs)"
      "leaf_chain (bp_root t) l = Inr ((ks, vs) # rest)" "?es = pre @ zip ks vs @ leaf_entries rest"
      "\<forall>e\<in>set pre. fst e < l" "\<forall>e\<in>set (leaf_entries rest). l < fst e"
      using leaf_chain_ok [OF assms, of l] by (auto simp: tree_entries_def)
    have ks: "sorted_keys ks" "length vs = length ks"
      using find_leaf_ok [OF assms, of l] leaf(1) by auto
    have "filter (\<lambda>e. l \<le> fst e) ?es = drop (leaf_slot ks l) (zip ks vs) @ leaf_entries rest"
    proof -
      have "filter (\<lambda>e. l \<le> fst e) pre = []" using leaf(4) by (simp add: filter_empty_conv not_le)
      moreover have "filter (\<lambda>e. l \<le> fst e) (leaf_entries rest) = leaf_entries rest"
        using leaf(5) by (simp add: filter_id_conv less_imp_le)
      ultimately show ?thesis using leaf(3) by (simp add: drop_leaf_slot [OF ks])
    qed
    with leaf Some high [of "\<lambda>e. l \<le> fst e"] show ?thesis
      by (simp add: tree_range_def find_slot_def scan_chain_eq from_low_def del: scan_chain.simps)
  qed
qed

section \<open>Shape: capacity, occupancy, uniform depth\<close>

fun shape :: "bool \<Rightarrow> bool \<Rightarrow> nat \<Rightarrow> nat \<Rightarrow> ('k, 'v) node \<Rightarrow> bool" where
  "shape root dense b d (Leaf ks vs) \<longleftrightarrow>
     d = 1 \<and> length ks \<le> b \<and> (dense \<and> \<not> root \<longrightarrow> Suc b div 2 \<le> length ks)"
| "shape root dense b d (Internal ks cs) \<longleftrightarrow>
     1 < d \<and> (if root then 1 else b div 2) \<le> length ks \<and> length ks \<le> b \<and>
     length cs = Suc (length ks) \<and> (\<forall>c\<in>set cs. shape False dense b (d - 1) c)"

fun ins_shape :: "bool \<Rightarrow> bool \<Rightarrow> nat \<Rightarrow> nat \<Rightarrow> ('k, 'v) ins_result \<Rightarrow> bool" where
  "ins_shape root dense b d (Whole n) \<longleftrightarrow> shape root dense b d n"
| "ins_shape root dense b d (Halves l p r) \<longleftrightarrow> shape False dense b d l \<and> shape False dense b d r"

lemma insert_in_leaf_shape:
  assumes "shape root dense b d (Leaf ks vs)" and "3 \<le> b"
  shows "ins_shape root dense b d (fst (insert_in_leaf b key v ks vs))"
proof (cases "length ks = b")
  case True
  with assms show ?thesis by (auto simp: insert_in_leaf_def split_leaf_def Let_def)
next
  case False
  with assms show ?thesis by (auto simp: insert_in_leaf_def Let_def)
qed

lemma insert_in_parent_shape:
  assumes "shape root dense b d (Internal ks cs)" and "3 \<le> b" and "i < length cs"
    and "shape False dense b (d - 1) l" and "shape False dense b (d - 1) r"
  shows "ins_shape root dense b d (insert_in_parent b ks cs i l p r)"
proof -
  let ?ks = "list_insert (traverse_lt ks p) p ks"
  let ?cs = "list_insert (traverse_lt ks p + 1) r (cs[i := l])"
  have "set ?cs \<subseteq> insert r (set (cs[i := l]))"
    by (auto simp: list_insert_def dest: in_set_takeD in_set_dropD)
  then have all: "\<forall>c\<in>set ?cs. shape False dense b (d - 1) c"
    using assms set_update_subset_insert [of cs i l] by fastforce
  show ?thesis
  proof (cases "length ?ks > b")
    case True
    then have "length ?ks = Suc b" "length ?cs = Suc (Suc b)" using assms(1) by auto
    with assms(1,2) all show ?thesis
      by (auto simp: insert_in_parent_def split_internal_def Let_def
          dest: in_set_takeD in_set_dropD)
  next
    case False
    with assms(1) all show ?thesis by (auto simp: insert_in_parent_def Let_def split: if_splits)
  qed
qed

lemma insert_node_shape:
  assumes "insert_node b key v n = Inr (r, grown)" and "shape root dense b d n" and "3 \<le> b"
  shows "ins_shape root dense b d r"
  using assms
proof (induction b key v n arbitrary: r grown root d rule: insert_node.induct)
  case (1 b key v ks vs)
  then show ?case using insert_in_leaf_shape [of root dense b d ks vs key v] by simp
next
  case (2 b key v ks cs)
  let ?i = "traverse ks key"
  obtain r' where r': "?i < length cs" "insert_node b key v (cs ! ?i) = Inr (r', grown)"
    "r = (case r' of Whole c \<Rightarrow> Whole (Internal ks (cs[?i := c]))
          | Halves l p r \<Rightarrow> insert_in_parent b ks cs ?i l p r)"
    using 2(2) by (auto simp: Let_def bind_result_eq_Inr split: if_splits)
  have child: "ins_shape False dense b (d - 1) r'"
    using 2(1) [OF refl r'(1,2) _ 2(4)] 2(3) r'(1) by simp
  show ?case
  proof (cases r')
    case (Whole c)
    with child r' 2(3) show ?thesis
      by (auto dest: set_update_subset_insert [THEN subsetD])
  next
    case (Halves l p r'')
    with child r' insert_in_parent_shape [OF 2(3,4) r'(1)] show ?thesis by simp
  qed
qed

lemma root_of_shape:
  assumes "ins_shape True dense b d r" and "3 \<le> b"
  shows "\<exists>d'\<ge>d. shape True dense b d' (root_of r)"
proof (cases r)
  case (Halves l p r')
  moreover have "1 \<le> d" using assms(1) Halves by (cases l) auto
  ultimately show ?thesis
    using assms by (intro exI [of _ "Suc d"]) (simp add: root_of_def)
qed (use assms in \<open>auto simp: root_of_def\<close>)

lemma delete_node_shape:
  assumes "delete_node key n = Inr (n', found)" and "shape root False b d n"
  shows "shape root False b d n'"
  using assms
proof (induction key n arbitrary: n' found root d rule: delete_node.induct)
  case (1 key ks vs)
  then show ?case by (auto simp: Let_def list_pop_def split: if_splits)
next
  case (2 key ks cs)
  let ?i = "traverse ks key"
  obtain c where c: "?i < length cs" "delete_node key (cs ! ?i) = Inr (c, found)"
    "n' = Internal ks (cs[?i := c])"
    using 2(2) by (auto simp: Let_def bind_result_eq_Inr split: if_splits)
  have "shape False False b (d - 1) c"
    using 2(1) [OF refl c(1,2)] 2(3) c(1) by simp
  with 2(3) c show ?case
    by (auto dest: set_update_subset_insert [THEN subsetD])
qed

lemma shape_no_collapse: "shape True dense b d n \<Longrightarrow> collapse_root n = Inr n"
  by (induction n rule: collapse_root.induct) auto

lemma shape_depth: "shape root dense b d n \<Longrightarrow> node_depth n = Inr d"
  by (induction n arbitrary: root d rule: node_depth.induct) fastforce+

lemma shape_sparse: "shape root dense b d n \<Longrightarrow> shape root False b d n"
  by (induction n arbitrary: root d) auto

text \<open>Every level below the root multiplies the number of leaves by at least \<open>b div 2 + 1\<close>.\<close>

lemma sum_list_lower: "\<forall>x\<in>set xs. m \<le> f x \<Longrightarrow> length xs * m \<le> (\<Sum>x\<leftarrow>xs. f x)" for f :: "'a \<Rightarrow> nat"
  by (induction xs) (auto simp: add_mono)

lemma shape_leaves:
  assumes "shape False dense b d n"
  shows "(b div 2 + 1) ^ (d - 1) \<le> length (leaves n)"
  using assms
proof (induction n arbitrary: d)
  case (Internal ks cs)
  then have d: "d - 1 = Suc (d - 1 - 1)" by (auto simp: Suc_diff_Suc)
  have "\<forall>c\<in>set cs. (b div 2 + 1) ^ (d - 1 - 1) \<le> length (leaves c)"
    using Internal(1) [of _ "d - 1"] Internal(2) by simp
  from sum_list_lower [OF this] have "length cs * (b div 2 + 1) ^ (d - 1 - 1) \<le> length (leaves (Internal ks cs))"
    by (simp add: length_concat comp_def)
  moreover have "(b div 2 + 1) * (b div 2 + 1) ^ (d - 1 - 1) \<le> length cs * (b div 2 + 1) ^ (d - 1 - 1)"
    using Internal(2) by (intro mult_le_mono1) auto
  ultimately show ?case by (subst d) simp
qed simp

lemma root_leaves:
  assumes "shape True dense b d n" and "2 \<le> d"
  shows "2 * (b div 2 + 1) ^ (d - 2) \<le> length (leaves n)"
proof (cases n)
  case (Internal ks cs)
  have "d - 1 - 1 = d - 2" by simp
  then have "\<forall>c\<in>set cs. (b div 2 + 1) ^ (d - 2) \<le> length (leaves c)"
    using assms(1) Internal shape_leaves [of dense b "d - 1"] by force
  from sum_list_lower [OF this] have "length cs * (b div 2 + 1) ^ (d - 2) \<le> length (leaves n)"
    by (simp add: Internal length_concat comp_def)
  moreover have "2 * (b div 2 + 1) ^ (d - 2) \<le> length cs * (b div 2 + 1) ^ (d - 2)"
    using assms(1) Internal by (intro mult_le_mono1) auto
  ultimately show ?thesis by linarith
qed (use assms in simp)

lemma ordered_children_all:
  assumes "ordered_children lo ks cs hi" and "c \<in> set cs"
  shows "\<exists>l h. ordered l c h"
  using assms
proof (induction ks arbitrary: lo cs)
  case Nil
  then show ?case by (cases cs) auto
next
  case (Cons k ks)
  then show ?case by (cases cs) auto
qed

lemma dense_entries:
  assumes "shape False True b d n" and "ordered lo n hi"
  shows "length (leaves n) * (Suc b div 2) \<le> length (entries n)"
  using assms
proof (induction n arbitrary: d lo hi)
  case (Internal ks cs)
  have "\<forall>c\<in>set cs. length (leaves c) * (Suc b div 2) \<le> length (entries c)"
  proof
    fix c assume c: "c \<in> set cs"
    then obtain l h where "ordered l c h" using Internal(3) ordered_children_all by fastforce
    with Internal c show "length (leaves c) * (Suc b div 2) \<le> length (entries c)" by auto
  qed
  then have "(\<Sum>c\<leftarrow>cs. length (leaves c) * (Suc b div 2)) \<le> (\<Sum>c\<leftarrow>cs. length (entries c))"
    by (intro sum_list_mono) auto
  then show ?case by (simp add: length_concat comp_def sum_list_mult_const)
qed simp

lemma dense_root_entries:
  assumes "shape True True b d n" and "ordered lo n hi" and "2 \<le> d"
  shows "length (leaves n) * (Suc b div 2) \<le> length (entries n)"
proof (cases n)
  case (Internal ks cs)
  have "\<forall>c\<in>set cs. length (leaves c) * (Suc b div 2) \<le> length (entries c)"
  proof
    fix c assume c: "c \<in> set cs"
    then obtain l h where "ordered l c h" using assms(2) Internal ordered_children_all by fastforce
    with assms(1) Internal c show "length (leaves c) * (Suc b div 2) \<le> length (entries c)"
      by (auto intro: dense_entries)
  qed
  then have "(\<Sum>c\<leftarrow>cs. length (leaves c) * (Suc b div 2)) \<le> (\<Sum>c\<leftarrow>cs. length (entries c))"
    by (intro sum_list_mono) auto
  then show ?thesis by (simp add: Internal length_concat comp_def sum_list_mult_const)
qed (use assms in simp)

section \<open>The invariant of the tree object\<close>

definition tree_ok :: "('k::linorder, 'v) bptree \<Rightarrow> bool" where
  "tree_ok t \<longleftrightarrow> 3 \<le> bp_order t \<and> ordered None (bp_root t) None \<and>
     (\<exists>d. shape True False (bp_order t) d (bp_root t)) \<and> bp_size t = length (tree_entries t)"

definition tree_dense :: "('k::linorder, 'v) bptree \<Rightarrow> bool" where
  "tree_dense t \<longleftrightarrow> tree_ok t \<and> (\<exists>d. shape True True (bp_order t) d (bp_root t))"

lemma tree_entries_sorted: "tree_ok t \<Longrightarrow> sorted_alist (tree_entries t)"
  using ordered_entries(1) by (auto simp: tree_ok_def tree_entries_def)

lemma new_tree_ok: "3 \<le> b \<Longrightarrow> \<exists>t. new_tree b = Inr t \<and> tree_dense t \<and> tree_entries t = [] \<and> bp_order t = b"
  by (auto simp: new_tree_def tree_dense_def tree_ok_def tree_entries_def)

lemma length_drop_key:
  assumes "sorted_alist es"
  shows "length (drop_key k es) = (if k \<in> fst ` set es then length es - 1 else length es)"
  using assms
proof (induction es)
  case (Cons e es)
  show ?case
  proof (cases "fst e = k")
    case True
    then have "filter (\<lambda>e. fst e \<noteq> k) es = es" using Cons(2) by (auto simp: filter_id_conv)
    with True show ?thesis by (simp add: drop_key_def)
  next
    case False
    have "es \<noteq> []" if "k \<in> fst ` set es" using that by auto
    with Cons False show ?thesis by (auto simp: drop_key_def)
  qed
qed (simp add: drop_key_def)

lemma length_upsert:
  assumes "sorted_alist es"
  shows "length (upsert k v es) = (if k \<in> fst ` set es then length es else Suc (length es))"
proof -
  have "length (upsert k v es) = Suc (length (drop_key k es))"
    by (induction es) (auto simp: upsert_def drop_key_def)
  moreover have "0 < length es" if "k \<in> fst ` set es" using that by auto
  ultimately show ?thesis using length_drop_key [OF assms, of k] by auto
qed

lemma tree_insert_ok:
  assumes "tree_ok t"
  shows "\<exists>t'. tree_insert t key v = Inr t' \<and> tree_ok t' \<and> bp_order t' = bp_order t \<and>
    tree_entries t' = upsert key v (tree_entries t) \<and> (tree_dense t \<longrightarrow> tree_dense t')"
proof -
  have t: "3 \<le> bp_order t" "ordered None (bp_root t) None" "bp_size t = length (tree_entries t)"
    using assms by (auto simp: tree_ok_def)
  obtain r grown where r: "insert_node (bp_order t) key v (bp_root t) = Inr (r, grown)"
    "ins_ordered None r None" "ins_entries r = upsert key v (tree_entries t)"
    "grown \<longleftrightarrow> key \<notin> fst ` set (tree_entries t)"
    using insert_node_ok [OF t(2), of key "bp_order t" v] t(1) by (auto simp: tree_entries_def)
  define t' where "t' = t\<lparr>bp_root := root_of r, bp_size := (if grown then bp_size t + 1 else bp_size t)\<rparr>"
  have eq: "tree_insert t key v = Inr t'" using r(1) by (simp add: tree_insert_def t'_def)
  have root: "ordered None (root_of r) None" "entries (root_of r) = ins_entries r"
    using r(2) by (cases r; simp add: root_of_def)+
  have shape: "shape True dense (bp_order t) d (bp_root t) \<Longrightarrow>
      \<exists>d. shape True dense (bp_order t) d (root_of r)" for dense d
    using insert_node_shape [OF r(1) _ t(1), of True dense d] root_of_shape [OF _ t(1), of dense d r] by blast
  have "tree_entries t' = upsert key v (tree_entries t)" using r(3) root(2) by (simp add: t'_def tree_entries_def)
  moreover have "length (upsert key v (tree_entries t)) = bp_size t'"
    using length_upsert [OF tree_entries_sorted [OF assms], of key v] r(4) t(3) by (simp add: t'_def)
  ultimately show ?thesis
    using eq root(1) shape assms by (auto simp: tree_ok_def tree_dense_def t'_def)
qed

lemma tree_delete_ok:
  assumes "tree_ok t"
  shows "\<exists>t'. tree_delete t key = Inr (t', key \<in> fst ` set (tree_entries t)) \<and> tree_ok t' \<and>
    bp_order t' = bp_order t \<and> tree_entries t' = drop_key key (tree_entries t) \<and>
    tree_depth t' = tree_depth t"
proof -
  have t: "ordered None (bp_root t) None" "bp_size t = length (tree_entries t)"
    using assms by (auto simp: tree_ok_def)
  obtain d where d: "shape True False (bp_order t) d (bp_root t)" using assms by (auto simp: tree_ok_def)
  obtain n found where n: "delete_node key (bp_root t) = Inr (n, found)" "ordered None n None"
    "entries n = drop_key key (tree_entries t)" "found \<longleftrightarrow> key \<in> fst ` set (tree_entries t)"
    using delete_node_ok [OF t(1), of key] by (auto simp: tree_entries_def)
  have shape: "shape True False (bp_order t) d n" using n(1) d by (rule delete_node_shape)
  show ?thesis
  proof (cases found)
    case True
    define t' where "t' = t\<lparr>bp_root := n, bp_size := bp_size t - 1\<rparr>"
    have "tree_delete t key = Inr (t', True)"
      using n(1) True shape_no_collapse [OF shape] by (simp add: tree_delete_def t'_def)
    moreover have "length (drop_key key (tree_entries t)) = bp_size t - 1"
      using length_drop_key [OF tree_entries_sorted [OF assms], of key] n(4) True t(2) by simp
    moreover have "tree_depth t' = tree_depth t"
      using shape_depth [OF shape] shape_depth [OF d] by (simp add: tree_depth_def t'_def)
    ultimately show ?thesis
      using True n shape assms by (auto simp: tree_ok_def t'_def tree_entries_def)
  next
    case False
    then have "drop_key key (tree_entries t) = tree_entries t"
      using n(4) by (force simp: drop_key_def filter_id_conv)
    then show ?thesis using False n assms by (auto simp: tree_delete_def)
  qed
qed

lemma tree_get_ok: "tree_ok t \<Longrightarrow> tree_get_opt t key = Inr (map_of (tree_entries t) key)"
  by (simp add: tree_ok_def tree_get_opt_entries)

lemma tree_items_ok: "tree_ok t \<Longrightarrow> tree_items t = Inr (tree_entries t)"
  by (simp add: tree_ok_def tree_items_def tree_range_entries from_low_def below_def)

end
