(* ===== verification/OrderedMap.thy ===== *)
theory OrderedMap
  imports Prelude
begin

text \<open>
  The interface through which the multi-version table uses its index: a fallible lookup, insertion,
  deletion and full scan, with the laws an ordered map promises. The clients' lemmas are proved here
  from the laws alone; \<open>Tree_Index\<close> interprets the interface on the B+ tree.
\<close>

text \<open>Inserting a list of entries one by one, as the table does when it installs new chains.\<close>

fun put_all :: "('t \<Rightarrow> 'k \<Rightarrow> 'v \<Rightarrow> 't result) \<Rightarrow> 't \<Rightarrow> ('k \<times> 'v) list \<Rightarrow> 't result" where
  "put_all put t [] = Inr t"
| "put_all put t ((k, v) # es) = bind_result (put t k v) (\<lambda>t'. put_all put t' es)"

locale readable_index =
  fixes inv :: "'t \<Rightarrow> bool"
    and contents :: "'t \<Rightarrow> ('k::linorder \<times> 'v) list"
    and get :: "'t \<Rightarrow> 'k \<Rightarrow> 'v option result"
    and items :: "'t \<Rightarrow> ('k \<times> 'v) list result"
  assumes contents_sorted: "inv t \<Longrightarrow> sorted_alist (contents t)"
    and get_contents: "inv t \<Longrightarrow> get t k = Inr (map_of (contents t) k)"
    and items_contents: "inv t \<Longrightarrow> items t = Inr (contents t)"
begin

lemma contents_distinct: "inv t \<Longrightarrow> distinct (map fst (contents t))"
  using contents_sorted strict_sorted_iff by blast

lemma get_item: "inv t \<Longrightarrow> items t = Inr es \<Longrightarrow> (k, v) \<in> set es \<longleftrightarrow> get t k = Inr (Some v)"
  using contents_distinct by (auto simp: items_contents get_contents)

lemma get_absent: "inv t \<Longrightarrow> get t k = Inr None \<longleftrightarrow> k \<notin> fst ` set (contents t)"
  by (simp add: get_contents map_of_eq_None_iff)

end

locale ordered_index = readable_index inv contents get items
  for inv :: "'t \<Rightarrow> bool" and contents :: "'t \<Rightarrow> ('k::linorder \<times> 'v) list"
    and get :: "'t \<Rightarrow> 'k \<Rightarrow> 'v option result" and items :: "'t \<Rightarrow> ('k \<times> 'v) list result" +
  fixes put :: "'t \<Rightarrow> 'k \<Rightarrow> 'v \<Rightarrow> 't result"
    and remove :: "'t \<Rightarrow> 'k \<Rightarrow> ('t \<times> bool) result"
  assumes put_ok: "inv t \<Longrightarrow> \<exists>t'. put t k v = Inr t' \<and> inv t' \<and> contents t' = upsert k v (contents t)"
    and remove_ok: "inv t \<Longrightarrow> \<exists>t'. remove t k = Inr (t', k \<in> fst ` set (contents t)) \<and> inv t' \<and>
      contents t' = drop_key k (contents t)"
begin

lemma put_Inr: "inv t \<Longrightarrow> put t k v = Inr t' \<Longrightarrow> inv t' \<and> contents t' = upsert k v (contents t)"
  using put_ok [of t k v] by auto

lemma remove_Inr:
  "inv t \<Longrightarrow> remove t k = Inr (t', found) \<Longrightarrow>
     inv t' \<and> contents t' = drop_key k (contents t) \<and> found = (k \<in> fst ` set (contents t))"
  using remove_ok [of t k] by auto

lemma get_put:
  assumes "inv t" and "put t k v = Inr t'"
  shows "get t' x = Inr (if x = k then Some v else map_of (contents t) x)"
  using put_Inr [OF assms] by (simp add: get_contents map_of_upsert)

lemma get_remove:
  assumes "inv t" and "remove t k = Inr (t', found)"
  shows "get t' x = Inr (if x = k then None else map_of (contents t) x)"
  using remove_Inr [OF assms] by (simp add: get_contents map_of_drop_key)

lemma put_all_ok:
  "inv t \<Longrightarrow> \<exists>t'. put_all put t es = Inr t' \<and> inv t' \<and>
     map_of (contents t') = map_of (contents t) ++ map_of (rev es)"
proof (induction es arbitrary: t)
  case (Cons e es)
  obtain k v where e: "e = (k, v)" by (cases e)
  obtain t1 where t1: "put t k v = Inr t1" "inv t1" "contents t1 = upsert k v (contents t)"
    using put_ok [OF Cons.prems] by blast
  obtain t' where "put_all put t1 es = Inr t'" "inv t'"
    "map_of (contents t') = map_of (contents t1) ++ map_of (rev es)"
    using Cons.IH [OF t1(2)] by blast
  moreover have "map_of (contents t1) = map_of (contents t) ++ [k \<mapsto> v]"
    by (simp add: t1(3) map_of_upsert)
  ultimately show ?case using e t1(1) by simp
qed simp

end

end
