(* ===== verification/Tree_Index.thy ===== *)
theory Tree_Index
  imports BPlusTree_Correct OrderedMap
begin

text \<open>
  The B+ tree provides the ordered index: the interpretation discharges the interface's laws from
  the correctness lemmas of the tree, and the properties of the tree follow.
\<close>

interpretation bt: ordered_index tree_ok tree_entries tree_get_opt tree_items tree_insert tree_delete
proof unfold_locales
  fix t :: "('k::linorder, 'v) bptree" and k :: 'k and v :: 'v
  assume t: "tree_ok t"
  show "sorted_alist (tree_entries t)" using t by (rule tree_entries_sorted)
  show "tree_get_opt t k = Inr (map_of (tree_entries t) k)" using t by (rule tree_get_ok)
  show "tree_items t = Inr (tree_entries t)" using t by (rule tree_items_ok)
  show "\<exists>t'. tree_insert t k v = Inr t' \<and> tree_ok t' \<and> tree_entries t' = upsert k v (tree_entries t)"
    using tree_insert_ok [OF t, of k v] by blast
  show "\<exists>t'. tree_delete t k = Inr (t', k \<in> fst ` set (tree_entries t)) \<and> tree_ok t' \<and>
      tree_entries t' = drop_key k (tree_entries t)"
    using tree_delete_ok [OF t, of k] by blast
qed

end
