(* ===== verification/TreeProperties.thy ===== *)
theory TreeProperties
  imports Tree_Index
begin

text \<open>
  The properties of the B+ tree, stated over its operations: a run of insertions and deletions computes
  the map it should, a range query is the filter of the items, the depth stays logarithmic under
  insertion. The trees of the witnesses are small ones of order 3 and 4.
\<close>

section \<open>Runs of operations\<close>

datatype ('k, 'v) tree_op = PutKey 'k 'v | DropKey 'k

fun run_tree :: "('k::linorder, 'v) tree_op list \<Rightarrow> ('k, 'v) bptree \<Rightarrow> ('k, 'v) bptree result" where
  "run_tree [] t = Inr t"
| "run_tree (PutKey k v # ops) t = bind_result (tree_insert t k v) (run_tree ops)"
| "run_tree (DropKey k # ops) t = bind_result (tree_delete t k) (\<lambda>(t', _). run_tree ops t')"

fun run_map :: "('k, 'v) tree_op list \<Rightarrow> ('k \<rightharpoonup> 'v) \<Rightarrow> 'k \<rightharpoonup> 'v" where
  "run_map [] m = m"
| "run_map (PutKey k v # ops) m = run_map ops (m(k \<mapsto> v))"
| "run_map (DropKey k # ops) m = run_map ops (m(k := None))"

fun only_puts :: "('k, 'v) tree_op list \<Rightarrow> bool" where
  "only_puts [] = True"
| "only_puts (PutKey k v # ops) = only_puts ops"
| "only_puts (DropKey k # ops) = False"

lemma run_tree_ok:
  "tree_ok t \<Longrightarrow> \<exists>t'. run_tree ops t = Inr t' \<and> tree_ok t' \<and> bp_order t' = bp_order t \<and>
     map_of (tree_entries t') = run_map ops (map_of (tree_entries t)) \<and>
     (only_puts ops \<longrightarrow> tree_dense t \<longrightarrow> tree_dense t')"
proof (induction ops arbitrary: t)
  case (Cons x ops)
  show ?case
  proof (cases x)
    case (PutKey k v)
    obtain t1 where t1: "tree_insert t k v = Inr t1" "tree_ok t1" "bp_order t1 = bp_order t"
      "tree_entries t1 = upsert k v (tree_entries t)" "tree_dense t \<longrightarrow> tree_dense t1"
      using tree_insert_ok [OF Cons.prems, of k v] by blast
    have m: "map_of (tree_entries t1) = (map_of (tree_entries t))(k \<mapsto> v)" by (simp only: t1(4) map_of_upsert)
    obtain t' where "run_tree ops t1 = Inr t'" "tree_ok t'" "bp_order t' = bp_order t1"
      "map_of (tree_entries t') = run_map ops ((map_of (tree_entries t))(k \<mapsto> v))"
      "only_puts ops \<longrightarrow> tree_dense t1 \<longrightarrow> tree_dense t'"
      using Cons.IH [OF t1(2), unfolded m] by blast
    then show ?thesis using t1(1,3,5) PutKey by (intro exI [of _ t']) simp
  next
    case (DropKey k)
    obtain t1 where t1: "tree_delete t k = Inr (t1, k \<in> fst ` set (tree_entries t))" "tree_ok t1"
      "bp_order t1 = bp_order t" "tree_entries t1 = drop_key k (tree_entries t)"
      using tree_delete_ok [OF Cons.prems, of k] by blast
    have m: "map_of (tree_entries t1) = (map_of (tree_entries t))(k := None)" by (simp only: t1(4) map_of_drop_key)
    obtain t' where "run_tree ops t1 = Inr t'" "tree_ok t'" "bp_order t' = bp_order t1"
      "map_of (tree_entries t') = run_map ops ((map_of (tree_entries t))(k := None))"
      using Cons.IH [OF t1(2), unfolded m] by blast
    then show ?thesis using t1(1,3) DropKey by (intro exI [of _ t']) simp
  qed
qed simp

lemma tree_len_dom: "tree_ok t \<Longrightarrow> tree_len t = card (dom (map_of (tree_entries t)))"
proof -
  assume t: "tree_ok t"
  then have "card (set (map fst (tree_entries t))) = length (tree_entries t)"
    using distinct_card [OF bt.contents_distinct [OF t]] by simp
  then show ?thesis using t by (simp add: tree_len_def tree_ok_def dom_map_of_conv_image_fst)
qed

section \<open>Properties\<close>

text \<open>
  C1. Refinement to a map. From the empty tree of any order the constructor accepts, every sequence of
  insertions (replacing or not) and deletions (of present and absent keys) runs without an exception; the
  resulting tree looks up, counts and lists exactly the map that the same sequence builds.
\<close>

theorem tree_refines_map:
  fixes ops :: "('k::linorder, 'v) tree_op list"
  shows "\<exists>t t' es. new_tree (b + 3) = Inr t \<and> run_tree ops t = Inr t' \<and>
    (\<forall>k. tree_get_opt t' k = Inr (run_map ops Map.empty k)) \<and>
    tree_len t' = card (dom (run_map ops Map.empty)) \<and>
    tree_items t' = Inr es \<and> sorted_wrt (<) (map fst es) \<and> map_of es = run_map ops Map.empty"
proof -
  obtain t :: "('k, 'v) bptree" where t: "new_tree (b + 3) = Inr t" "tree_ok t" "tree_entries t = []"
    using new_tree_ok [of "b + 3"] by (auto simp: tree_dense_def)
  obtain t' where t': "run_tree ops t = Inr t'" "tree_ok t'" "map_of (tree_entries t') = run_map ops Map.empty"
    using run_tree_ok [OF t(2), of ops] t(3) by auto
  show ?thesis using t(1) t' bt.get_contents [OF t'(2)] bt.items_contents [OF t'(2)] bt.contents_sorted [OF t'(2)]
      tree_len_dom [OF t'(2)]
    by (intro exI [of _ t] exI [of _ t'] exI [of _ "tree_entries t'"]) simp
qed

text \<open>
  C17. A range query. On a well-formed tree \<open>range(low, high)\<close> yields exactly the items with
  \<open>low \<le> key < high\<close> (a missing bound is open), in key order, whatever the positions of the bounds in the
  tree, by one descent and the walk along the leaves.
\<close>

theorem tree_range_filters:
  assumes "tree_ok t"
  shows "\<exists>es. tree_items t = Inr es \<and> sorted_wrt (<) (map fst es) \<and>
    tree_range t low high =
      Inr (filter (\<lambda>(k, _). (\<forall>l. low = Some l \<longrightarrow> l \<le> k) \<and> (\<forall>h. high = Some h \<longrightarrow> k < h)) es)"
proof -
  have range: "(\<lambda>e. from_low low (fst e) \<and> below high (fst e)) =
      (\<lambda>(k, _). (\<forall>l. low = Some l \<longrightarrow> l \<le> k) \<and> (\<forall>h. high = Some h \<longrightarrow> k < h))"
    by (auto simp: fun_eq_iff from_low_def below_def split: option.splits)
  have "ordered None (bp_root t) None" using assms by (simp add: tree_ok_def)
  from tree_range_entries [OF this, of low high] show ?thesis
    unfolding range using bt.items_contents [OF assms] bt.contents_sorted [OF assms] by blast
qed

definition small_tree :: "(int, string) bptree" where
  "small_tree = \<lparr>bp_order = 3, bp_root = Internal [3, 5] [Leaf [1, 2] [''a'', ''b''], Leaf [3, 4] [''c'', ''d''],
     Leaf [5] [''e'']], bp_size = 5\<rparr>"

lemma small_tree_ok: "tree_ok small_tree"
proof -
  have "shape True False 3 2 (bp_root small_tree)" by (simp add: small_tree_def)
  then show ?thesis by (auto simp: tree_ok_def small_tree_def tree_entries_def)
qed

theorem tree_range_filters_witness:
  "tree_range small_tree (Some 2) (Some 5) = Inr [(2, ''b''), (3, ''c''), (4, ''d'')]"
  using tree_range_filters [OF small_tree_ok, of "Some 2" "Some 5"] bt.items_contents [OF small_tree_ok]
  by (simp add: small_tree_def tree_entries_def)

text \<open>
  C18. Insertion keeps the depth logarithmic. After any sequence of insertions into an empty tree of order
  \<open>b + 3\<close>, a tree of depth \<open>d \<ge> 2\<close> has at least \<open>2 * ((b + 3) div 2 + 1) ^ (d - 2)\<close> leaves, each at least
  half full, all at the same depth; so the depth is bounded by the logarithm of the number of keys.
\<close>

theorem insertion_depth:
  fixes ops :: "('k::linorder, 'v) tree_op list"
  assumes "only_puts ops" "new_tree (b + 3) = Inr t" "run_tree ops t = Inr t'"
  shows "\<exists>d. tree_depth t' = Inr d \<and>
    (2 \<le> d \<longrightarrow> 2 * ((b + 3) div 2 + 1) ^ (d - 2) * ((b + 4) div 2) \<le> tree_len t')"
proof -
  have t: "tree_dense t" "bp_order t = b + 3"
    using new_tree_ok [of "b + 3", where ?'a = 'k and ?'b = 'v] assms(2) by auto
  then have ok: "tree_ok t" by (simp add: tree_dense_def)
  have t': "tree_dense t'" "bp_order t' = b + 3"
    using run_tree_ok [OF ok, of ops] assms(1,3) t by auto
  then obtain d where d: "shape True True (b + 3) d (bp_root t')" by (auto simp: tree_dense_def)
  have ord: "ordered None (bp_root t') None" "bp_size t' = length (entries (bp_root t'))"
    using t'(1) by (auto simp: tree_dense_def tree_ok_def tree_entries_def)
  have "2 * ((b + 3) div 2 + 1) ^ (d - 2) * ((b + 4) div 2) \<le> tree_len t'" if "2 \<le> d"
  proof -
    have "2 * ((b + 3) div 2 + 1) ^ (d - 2) * ((b + 4) div 2) \<le> length (leaves (bp_root t')) * ((b + 4) div 2)"
      using root_leaves [OF d that] by (rule mult_le_mono1)
    also have "\<dots> \<le> length (entries (bp_root t'))"
      using dense_root_entries [OF d ord(1) that] by (simp add: numeral_eq_Suc)
    finally show ?thesis by (simp add: tree_len_def ord(2))
  qed
  then show ?thesis using shape_depth [OF d] by (auto simp: tree_depth_def)
qed

definition five_puts :: "(int, bool) tree_op list" where
  "five_puts = map (\<lambda>i. PutKey i True) [1, 2, 3, 4, 5]"

theorem insertion_depth_witness:
  "\<exists>t t' d. new_tree (0 + 3) = Inr t \<and> run_tree five_puts t = Inr t' \<and> tree_depth t' = Inr d \<and> d = 2 \<and>
    (2 \<le> d \<longrightarrow> 2 * ((0 + 3) div 2 + 1) ^ (d - 2) * ((0 + 4) div 2) \<le> tree_len t')"
proof -
  have p: "only_puts five_puts" by (simp add: five_puts_def)
  obtain t t' where t: "new_tree (0 + 3) = Inr t" "run_tree five_puts t = Inr t'" "tree_depth t' = Inr 2"
  proof -
    have "bind_result (new_tree (0 + 3)) (\<lambda>t. bind_result (run_tree five_puts t) tree_depth) = Inr 2"
      by code_simp
    then show ?thesis using that by (auto simp: bind_result_eq_Inr)
  qed
  show ?thesis using insertion_depth [OF p t(1,2)] t by auto
qed

text \<open>
  C19. Deletion reports whether the key was present, removes exactly that key, leaves the length in step,
  and keeps the depth: the tree never shrinks.
\<close>

theorem tree_delete_exact:
  assumes "tree_ok t"
  shows "\<exists>t' found. tree_delete t k = Inr (t', found) \<and> tree_ok t' \<and>
    (found \<longleftrightarrow> tree_get_opt t k \<noteq> Inr None) \<and>
    (\<forall>x. tree_get_opt t' x = (if x = k then Inr None else tree_get_opt t x)) \<and>
    tree_len t' = (if found then tree_len t - 1 else tree_len t) \<and> tree_depth t' = tree_depth t"
proof -
  obtain t' where t': "tree_delete t k = Inr (t', k \<in> fst ` set (tree_entries t))" "tree_ok t'"
    "tree_entries t' = drop_key k (tree_entries t)" "tree_depth t' = tree_depth t"
    using tree_delete_ok [OF assms, of k] by blast
  have len: "tree_len t' = (if k \<in> fst ` set (tree_entries t) then tree_len t - 1 else tree_len t)"
    using assms t'(2,3) length_drop_key [OF bt.contents_sorted [OF assms], of k]
    by (simp add: tree_len_def tree_ok_def)
  show ?thesis
    using t' len bt.get_absent [OF assms, of k] bt.get_remove [OF assms t'(1)] bt.get_contents [OF assms]
    by (intro exI [of _ t'] exI [of _ "k \<in> fst ` set (tree_entries t)"]) simp
qed

theorem tree_delete_exact_witness:
  "\<exists>t'. tree_delete small_tree 3 = Inr (t', True) \<and> tree_get_opt t' 4 = Inr (Some ''d'') \<and>
    tree_get_opt t' 3 = Inr None \<and> tree_len t' = 4 \<and> tree_depth t' = Inr 2"
proof -
  have get: "tree_get_opt small_tree 3 = Inr (Some ''c'')" "tree_get_opt small_tree 4 = Inr (Some ''d'')"
    "tree_len small_tree = 5" "tree_depth small_tree = Inr 2"
    by code_simp+
  show ?thesis using tree_delete_exact [OF small_tree_ok, of 3] by (auto simp: get)
qed

section \<open>The empty leftmost leaf\<close>

text \<open>
  Deletion leaves emptied leaves in place. When the leftmost one is empty \<open>min_key\<close> answers None, though the
  tree has keys; and membership of an absent key raises.
\<close>

lemma min_key_of_emptied_leaf:
  "bind_result (run_tree [DropKey 1, DropKey 2] small_tree) tree_min_key = Inr None"
  "bind_result (run_tree [DropKey 1, DropKey 2] small_tree) (\<lambda>t. Inr (tree_len t)) = Inr 3"
  by code_simp+

lemma contains_absent_raises: "tree_contains small_tree 9 = Inl KeyError"
  by code_simp

end
