(* ===== verification/PyValue.thy ===== *)
theory PyValue
  imports Prelude Complex_Main "HOL-Library.Log_Nat" "HOL-Library.Char_ord" "HOL-Library.List_Lexorder" "HOL-Library.Product_Lexorder"
begin

text \<open>
  The Python objects a cell of a table can hold (\<open>None\<close>, \<open>bool\<close>, \<open>int\<close>, \<open>float\<close>, \<open>str\<close>) and the
  operations of the language and its standard library the program applies to them: equality and
  ordering with their TypeErrors, truth, arithmetic, \<open>int()\<close>, \<open>float()\<close>, \<open>str()\<close>, and the string
  methods \<open>strip\<close>, \<open>lower\<close>, \<open>upper\<close>.
  An \<open>int\<close> is unbounded. A \<open>float\<close> is an IEEE double: a rational that \<open>fround\<close> returns, or an
  infinity or NaN; the sign of a zero is not kept. A \<open>str\<close> is a list of characters below 128, so
  that case mapping is the ASCII one.
\<close>

section \<open>Floats\<close>

datatype pyfloat = FFin rat | FInf | FNegInf | FNan

datatype pyval =
    VNone
  | VBool bool
  | VInt int
  | VFloat pyfloat
  | VStr string

definition pow2 :: "int \<Rightarrow> rat" where
  "pow2 k = (if 0 \<le> k then 2 ^ nat k else 1 / 2 ^ nat (- k))"

definition pow10 :: "int \<Rightarrow> rat" where
  "pow10 k = (if 0 \<le> k then 10 ^ nat k else 1 / 10 ^ nat (- k))"

text \<open>\<open>floor (log2 q)\<close> for positive \<open>q\<close>, from the bit lengths of numerator and denominator.\<close>

definition log2_floor :: "rat \<Rightarrow> int" where
  "log2_floor q =
     (let (n, d) = quotient_of q; k = bitlen n - bitlen d
      in if pow2 k \<le> q then k else k - 1)"

definition round_half_even :: "rat \<Rightarrow> int" where
  "round_half_even x =
     (let f = \<lfloor>x\<rfloor>; r = x - of_int f
      in if r < 1 / 2 then f else if 1 / 2 < r then f + 1 else if even f then f else f + 1)"

text \<open>Rounding to the nearest double, ties to even; overflow gives an infinity.\<close>

definition fround :: "rat \<Rightarrow> pyfloat" where
  "fround q =
     (if q = 0 then FFin 0
      else let u = max (log2_floor \<bar>q\<bar> - 52) (- 1074);
               r = of_int (round_half_even (\<bar>q\<bar> / pow2 u)) * pow2 u
           in if pow2 1024 \<le> r then (if q < 0 then FNegInf else FInf)
              else FFin (if q < 0 then - r else r))"

text \<open>\<open>float(i)\<close> and \<open>i / j\<close> for ints: a result too large for a double raises OverflowError.\<close>

definition float_checked :: "rat \<Rightarrow> pyfloat result" where
  "float_checked q = (case fround q of FFin r \<Rightarrow> Inr (FFin r) | _ \<Rightarrow> Inl OverflowError)"

fun fneg :: "pyfloat \<Rightarrow> pyfloat" where
  "fneg (FFin q) = FFin (- q)"
| "fneg FInf = FNegInf"
| "fneg FNegInf = FInf"
| "fneg FNan = FNan"

fun fadd :: "pyfloat \<Rightarrow> pyfloat \<Rightarrow> pyfloat" where
  "fadd (FFin a) (FFin b) = fround (a + b)"
| "fadd FNan _ = FNan"
| "fadd _ FNan = FNan"
| "fadd FInf FNegInf = FNan"
| "fadd FNegInf FInf = FNan"
| "fadd FInf _ = FInf"
| "fadd FNegInf _ = FNegInf"
| "fadd (FFin _) x = x"

definition fsign :: "pyfloat \<Rightarrow> int" where
  "fsign x = (case x of FFin q \<Rightarrow> (if q < 0 then - 1 else if 0 < q then 1 else 0)
     | FInf \<Rightarrow> 1 | FNegInf \<Rightarrow> - 1 | FNan \<Rightarrow> 0)"

definition signed_inf :: "int \<Rightarrow> pyfloat" where
  "signed_inf s = (if 0 < s then FInf else if s < 0 then FNegInf else FNan)"

fun fmul :: "pyfloat \<Rightarrow> pyfloat \<Rightarrow> pyfloat" where
  "fmul (FFin a) (FFin b) = fround (a * b)"
| "fmul FNan _ = FNan"
| "fmul _ FNan = FNan"
| "fmul x y = signed_inf (fsign x * fsign y)"

text \<open>Division of floats; the caller has excluded a zero divisor.\<close>

fun fdiv :: "pyfloat \<Rightarrow> pyfloat \<Rightarrow> pyfloat" where
  "fdiv (FFin a) (FFin b) = fround (a / b)"
| "fdiv FNan _ = FNan"
| "fdiv _ FNan = FNan"
| "fdiv (FFin a) _ = FFin 0"
| "fdiv x (FFin b) = signed_inf (fsign x * (if b < 0 then - 1 else 1))"
| "fdiv _ _ = FNan"

section \<open>Numbers: the common view of bool, int and float\<close>

datatype pynum = NInt int | NFloat pyfloat

fun as_num :: "pyval \<Rightarrow> pynum option" where
  "as_num (VBool b) = Some (NInt (if b then 1 else 0))"
| "as_num (VInt i) = Some (NInt i)"
| "as_num (VFloat x) = Some (NFloat x)"
| "as_num _ = None"

text \<open>Comparison is exact: an int is compared with a float by value, not rounded first.\<close>

definition num_float :: "pynum \<Rightarrow> pyfloat" where
  "num_float n = (case n of NInt i \<Rightarrow> FFin (of_int i) | NFloat x \<Rightarrow> x)"

fun flt :: "pyfloat \<Rightarrow> pyfloat \<Rightarrow> bool" where
  "flt FNan _ = False"
| "flt _ FNan = False"
| "flt (FFin a) (FFin b) = (a < b)"
| "flt FNegInf y = (y \<noteq> FNegInf)"
| "flt x FInf = (x \<noteq> FInf)"
| "flt _ _ = False"

definition feq :: "pyfloat \<Rightarrow> pyfloat \<Rightarrow> bool" where
  "feq x y \<longleftrightarrow> x = y \<and> x \<noteq> FNan"

text \<open>\<open>a == b\<close> never raises: numbers compare by value, a string equals strings only.\<close>

definition py_eq :: "pyval \<Rightarrow> pyval \<Rightarrow> bool" where
  "py_eq a b =
     (case (as_num a, as_num b) of
        (Some x, Some y) \<Rightarrow> feq (num_float x) (num_float y)
      | (None, None) \<Rightarrow> a = b
      | _ \<Rightarrow> False)"

text \<open>\<open>a < b\<close> and \<open>a <= b\<close>: TypeError unless both are numbers or both are strings,
  which compare lexicographically by code point.\<close>

definition py_lt :: "pyval \<Rightarrow> pyval \<Rightarrow> bool result" where
  "py_lt a b =
     (case (as_num a, as_num b) of
        (Some x, Some y) \<Rightarrow> Inr (flt (num_float x) (num_float y))
      | _ \<Rightarrow> (case (a, b) of
                (VStr s, VStr t) \<Rightarrow> Inr (s < t)
              | _ \<Rightarrow> Inl TypeError))"

definition py_le :: "pyval \<Rightarrow> pyval \<Rightarrow> bool result" where
  "py_le a b =
     (case (as_num a, as_num b) of
        (Some x, Some y) \<Rightarrow>
          Inr (flt (num_float x) (num_float y) \<or> feq (num_float x) (num_float y))
      | _ \<Rightarrow> (case (a, b) of
                (VStr s, VStr t) \<Rightarrow> Inr (s < t \<or> s = t)
              | _ \<Rightarrow> Inl TypeError))"

text \<open>\<open>bool(v)\<close>.\<close>

fun py_truth :: "pyval \<Rightarrow> bool" where
  "py_truth VNone = False"
| "py_truth (VBool b) = b"
| "py_truth (VInt i) = (i \<noteq> 0)"
| "py_truth (VFloat x) = (x \<noteq> FFin 0)"
| "py_truth (VStr s) = (s \<noteq> [])"

section \<open>Arithmetic\<close>

text \<open>An int operand of a mixed operation is converted with \<open>float(i)\<close> first.\<close>

definition to_float :: "pynum \<Rightarrow> pyfloat result" where
  "to_float n = (case n of NInt i \<Rightarrow> float_checked (of_int i) | NFloat x \<Rightarrow> Inr x)"

definition num_arith ::
  "(int \<Rightarrow> int \<Rightarrow> int) \<Rightarrow> (pyfloat \<Rightarrow> pyfloat \<Rightarrow> pyfloat) \<Rightarrow> pynum \<Rightarrow> pynum \<Rightarrow> pyval result" where
  "num_arith fi ff x y =
     (case (x, y) of
        (NInt i, NInt j) \<Rightarrow> Inr (VInt (fi i j))
      | _ \<Rightarrow> bind_result (to_float x) (\<lambda>a. bind_result (to_float y) (\<lambda>b. Inr (VFloat (ff a b)))))"

definition py_add :: "pyval \<Rightarrow> pyval \<Rightarrow> pyval result" where
  "py_add a b =
     (case (as_num a, as_num b) of
        (Some x, Some y) \<Rightarrow> num_arith (+) fadd x y
      | _ \<Rightarrow> (case (a, b) of (VStr s, VStr t) \<Rightarrow> Inr (VStr (s @ t)) | _ \<Rightarrow> Inl TypeError))"

definition py_sub :: "pyval \<Rightarrow> pyval \<Rightarrow> pyval result" where
  "py_sub a b =
     (case (as_num a, as_num b) of
        (Some x, Some y) \<Rightarrow> num_arith (-) (\<lambda>u v. fadd u (fneg v)) x y
      | _ \<Rightarrow> Inl TypeError)"

definition str_repeat :: "string \<Rightarrow> int \<Rightarrow> string" where
  "str_repeat s i = concat (replicate (nat i) s)"

text \<open>\<open>*\<close> also repeats a string an int (or bool) number of times.\<close>

definition py_mul :: "pyval \<Rightarrow> pyval \<Rightarrow> pyval result" where
  "py_mul a b =
     (case (as_num a, as_num b) of
        (Some x, Some y) \<Rightarrow> num_arith (*) fmul x y
      | (None, Some (NInt i)) \<Rightarrow> (case a of VStr s \<Rightarrow> Inr (VStr (str_repeat s i)) | _ \<Rightarrow> Inl TypeError)
      | (Some (NInt i), None) \<Rightarrow> (case b of VStr s \<Rightarrow> Inr (VStr (str_repeat s i)) | _ \<Rightarrow> Inl TypeError)
      | _ \<Rightarrow> Inl TypeError)"

definition py_truediv :: "pyval \<Rightarrow> pyval \<Rightarrow> pyval result" where
  "py_truediv a b =
     (case (as_num a, as_num b) of
        (Some (NInt i), Some (NInt j)) \<Rightarrow>
          if j = 0 then Inl ZeroDivisionError
          else bind_result (float_checked (of_int i / of_int j)) (\<lambda>r. Inr (VFloat r))
      | (Some x, Some y) \<Rightarrow>
          bind_result (to_float x) (\<lambda>u. bind_result (to_float y)
            (\<lambda>v. if v = FFin 0 then Inl ZeroDivisionError else Inr (VFloat (fdiv u v))))
      | _ \<Rightarrow> Inl TypeError)"

definition py_neg :: "pyval \<Rightarrow> pyval result" where
  "py_neg a =
     (case as_num a of
        Some (NInt i) \<Rightarrow> Inr (VInt (- i))
      | Some (NFloat x) \<Rightarrow> Inr (VFloat (fneg x))
      | None \<Rightarrow> Inl TypeError)"

section \<open>Characters and string methods\<close>

definition char_code :: "char \<Rightarrow> nat" where
  "char_code c = of_char c"

definition is_space :: "char \<Rightarrow> bool" where
  "is_space c \<longleftrightarrow> (let n = char_code c in n = 32 \<or> (9 \<le> n \<and> n \<le> 13) \<or> (28 \<le> n \<and> n \<le> 31))"

definition is_digit :: "char \<Rightarrow> bool" where
  "is_digit c \<longleftrightarrow> 48 \<le> char_code c \<and> char_code c \<le> 57"

definition is_upper :: "char \<Rightarrow> bool" where
  "is_upper c \<longleftrightarrow> 65 \<le> char_code c \<and> char_code c \<le> 90"

definition is_lower :: "char \<Rightarrow> bool" where
  "is_lower c \<longleftrightarrow> 97 \<le> char_code c \<and> char_code c \<le> 122"

definition is_alpha :: "char \<Rightarrow> bool" where
  "is_alpha c \<longleftrightarrow> is_upper c \<or> is_lower c"

definition digit_val :: "char \<Rightarrow> int" where
  "digit_val c = int (char_code c) - 48"

definition digit_char :: "int \<Rightarrow> char" where
  "digit_char d = char_of (nat (48 + d))"

definition lower_char :: "char \<Rightarrow> char" where
  "lower_char c = (if is_upper c then char_of (char_code c + 32) else c)"

definition upper_char :: "char \<Rightarrow> char" where
  "upper_char c = (if is_lower c then char_of (char_code c - 32) else c)"

definition py_lower :: "string \<Rightarrow> string" where
  "py_lower s = map lower_char s"

definition py_upper :: "string \<Rightarrow> string" where
  "py_upper s = map upper_char s"

definition py_strip :: "string \<Rightarrow> string" where
  "py_strip s = rev (dropWhile is_space (rev (dropWhile is_space s)))"

section \<open>int() and float() of a string\<close>

text \<open>A digit string, with single underscores allowed between digits.\<close>

fun read_digits :: "bool \<Rightarrow> int \<Rightarrow> string \<Rightarrow> int option" where
  "read_digits after_digit acc [] = (if after_digit then Some acc else None)"
| "read_digits after_digit acc (c # cs) =
     (if is_digit c then read_digits True (10 * acc + digit_val c) cs
      else if c = CHR ''_'' \<and> after_digit then read_digits False acc cs
      else None)"

definition split_sign :: "string \<Rightarrow> bool \<times> string" where
  "split_sign s =
     (case s of
        [] \<Rightarrow> (False, [])
      | c # cs \<Rightarrow> if c = CHR ''-'' then (True, cs) else if c = CHR ''+'' then (False, cs) else (False, s))"

definition int_of_str :: "string \<Rightarrow> int result" where
  "int_of_str s =
     (let (neg, ds) = split_sign (py_strip s)
      in case read_digits False 0 ds of
           None \<Rightarrow> Inl ValueError
         | Some n \<Rightarrow> Inr (if neg then - n else n))"

definition digit_part :: "string \<Rightarrow> string" where
  "digit_part s = takeWhile (\<lambda>c. is_digit c \<or> c = CHR ''_'') s"

definition after_digits :: "string \<Rightarrow> string" where
  "after_digits s = dropWhile (\<lambda>c. is_digit c \<or> c = CHR ''_'') s"

text \<open>The value of a possibly empty digit part and the number of its digits.\<close>

definition part_val :: "string \<Rightarrow> (int \<times> nat) option" where
  "part_val s =
     (if s = [] then Some (0, 0)
      else map_option (\<lambda>n. (n, length (filter is_digit s))) (read_digits False 0 s))"

definition exponent_of :: "string \<Rightarrow> int option" where
  "exponent_of s =
     (case s of
        [] \<Rightarrow> Some 0
      | c # cs \<Rightarrow>
          if c = CHR ''e'' \<or> c = CHR ''E'' then
            (let (neg, ds) = split_sign cs
             in map_option (\<lambda>n. if neg then - n else n) (read_digits False 0 ds))
          else None)"

definition unsigned_float :: "string \<Rightarrow> rat option" where
  "unsigned_float s =
     (let ip = digit_part s; rest = after_digits s;
          dotted = (rest \<noteq> [] \<and> hd rest = CHR ''.'');
          fp = (if dotted then digit_part (tl rest) else []);
          rest' = (if dotted then after_digits (tl rest) else rest)
      in if ip = [] \<and> fp = [] then None
         else case (part_val ip, part_val fp, exponent_of rest') of
           (Some (i, _), Some (f, n), Some e) \<Rightarrow>
             Some ((of_int i + of_int f / 10 ^ n) * pow10 e)
         | _ \<Rightarrow> None)"

definition float_of_str :: "string \<Rightarrow> pyfloat result" where
  "float_of_str s =
     (let (neg, ds) = split_sign (py_strip s); low = py_lower ds
      in if low = ''inf'' \<or> low = ''infinity'' then Inr (if neg then FNegInf else FInf)
         else if low = ''nan'' then Inr FNan
         else case unsigned_float ds of
           None \<Rightarrow> Inl ValueError
         | Some q \<Rightarrow> Inr (fround (if neg then - q else q)))"

section \<open>str()\<close>

function show_pos :: "int \<Rightarrow> string" where
  "show_pos n = (if n < 10 then [digit_char n] else show_pos (n div 10) @ [digit_char (n mod 10)])"
  by pat_completeness auto
termination
  by (relation "measure nat") auto

declare show_pos.simps [simp del]

definition show_int :: "int \<Rightarrow> string" where
  "show_int i = (if i < 0 then CHR ''-'' # show_pos (- i) else show_pos i)"

text \<open>
  \<open>repr\<close> of a float: the fewest significant digits whose decimal value rounds back to the float,
  and of those the nearest; 17 digits always suffice. The decimal exponent of \<open>q\<close> is searched
  from the binary one.
\<close>

definition log10_floor :: "rat \<Rightarrow> int" where
  "log10_floor q =
     (let (n, d) = quotient_of q;
          k = int (length (show_pos n)) - int (length (show_pos d))
      in if pow10 k \<le> q then k else k - 1)"

definition short_digits :: "rat \<Rightarrow> nat \<Rightarrow> int option" where
  "short_digits q n =
     (let unit = pow10 (log10_floor q - int n + 1);
          lo = \<lfloor>q / unit\<rfloor>; near = round_half_even (q / unit); far = 2 * lo + 1 - near
      in if fround (of_int near * unit) = FFin q then Some near
         else if fround (of_int far * unit) = FFin q then Some far else None)"

fun shortest_from :: "rat \<Rightarrow> nat list \<Rightarrow> nat \<times> int" where
  "shortest_from q [] = (17, round_half_even (q / pow10 (log10_floor q - 16)))"
| "shortest_from q (n # ns) =
     (case short_digits q n of Some d \<Rightarrow> (n, d) | None \<Rightarrow> shortest_from q ns)"

definition strip_zeros :: "string \<Rightarrow> string" where
  "strip_zeros ds = rev (dropWhile (\<lambda>c. c = CHR ''0'') (rev ds))"

text \<open>Digits \<open>ds\<close> with the decimal point after the first \<open>pt\<close> of them, in the layout of \<open>repr\<close>.\<close>

definition layout_float :: "string \<Rightarrow> int \<Rightarrow> string" where
  "layout_float ds pt =
     (if pt \<le> - 4 \<or> 16 < pt then
        (let e = pt - 1; es = show_pos \<bar>e\<bar>
         in hd ds # (if tl ds = [] then [] else CHR ''.'' # tl ds) @ ''e'' @
            (if e < 0 then ''-'' else ''+'') @ (if length es < 2 then CHR ''0'' # es else es))
      else if pt \<le> 0 then ''0.'' @ replicate (nat (- pt)) (CHR ''0'') @ ds
      else if int (length ds) \<le> pt then ds @ replicate (nat pt - length ds) (CHR ''0'') @ ''.0''
      else take (nat pt) ds @ ''.'' @ drop (nat pt) ds)"

definition show_float :: "pyfloat \<Rightarrow> string" where
  "show_float x =
     (case x of
        FInf \<Rightarrow> ''inf'' | FNegInf \<Rightarrow> ''-inf'' | FNan \<Rightarrow> ''nan''
      | FFin q \<Rightarrow>
          if q = 0 then ''0.0''
          else let (n, d) = shortest_from \<bar>q\<bar> [1..<18];
                   all = show_pos d;
                   pt = log10_floor \<bar>q\<bar> + 1 + (int (length all) - int n)
               in (if q < 0 then ''-'' else []) @ layout_float (strip_zeros all) pt)"

fun py_str :: "pyval \<Rightarrow> string" where
  "py_str VNone = ''None''"
| "py_str (VBool b) = (if b then ''True'' else ''False'')"
| "py_str (VInt i) = show_int i"
| "py_str (VFloat x) = show_float x"
| "py_str (VStr s) = s"

section \<open>Printing and reading an int\<close>

lemma char_code_digit: "0 \<le> d \<Longrightarrow> d < 10 \<Longrightarrow> char_code (digit_char d) = nat (48 + d)"
  by (simp add: char_code_def digit_char_def)

lemma digit_char_props [simp]:
  assumes "0 \<le> d" and "d < 10"
  shows "is_digit (digit_char d)" and "digit_val (digit_char d) = d" and "\<not> is_space (digit_char d)"
  using assms by (auto simp: is_digit_def digit_val_def is_space_def Let_def char_code_digit)

lemma show_pos_digits: "0 \<le> n \<Longrightarrow> show_pos n \<noteq> [] \<and> (\<forall>c\<in>set (show_pos n). is_digit c \<and> \<not> is_space c)"
proof (induction n rule: show_pos.induct)
  case (1 n)
  then show ?case by (subst (1 2) show_pos.simps) auto
qed

lemma read_digits_show_pos:
  "0 \<le> n \<Longrightarrow> read_digits b acc (show_pos n @ cs) =
     read_digits True (acc * 10 ^ length (show_pos n) + n) cs"
proof (induction n arbitrary: b acc cs rule: show_pos.induct)
  case (1 n)
  show ?case
  proof (cases "n < 10")
    case True
    then show ?thesis using 1(2) by (simp add: show_pos.simps [of n] algebra_simps)
  next
    case False
    have d: "0 \<le> n mod 10" "n mod 10 < 10" by simp_all
    have "read_digits b acc (show_pos n @ cs) =
        read_digits b acc (show_pos (n div 10) @ digit_char (n mod 10) # cs)"
      using False by (simp add: show_pos.simps [of n])
    also have "\<dots> = read_digits True
        (10 * (acc * 10 ^ length (show_pos (n div 10)) + n div 10) + n mod 10) cs"
      using 1 False d by simp
    also have "10 * (acc * 10 ^ length (show_pos (n div 10)) + n div 10) + n mod 10 =
        acc * 10 ^ length (show_pos n) + n"
      using False by (simp add: show_pos.simps [of n] algebra_simps)
    finally show ?thesis .
  qed
qed

lemma py_strip_id: "\<forall>c\<in>set s. \<not> is_space c \<Longrightarrow> py_strip s = s"
proof -
  assume s: "\<forall>c\<in>set s. \<not> is_space c"
  then have "dropWhile is_space s = s" by (cases s) auto
  moreover have "dropWhile is_space (rev s) = rev s" using s by (cases "rev s") (auto dest: arg_cong [of "rev s" _ set])
  ultimately show ?thesis by (simp add: py_strip_def)
qed

lemma split_sign_digits: "s \<noteq> [] \<Longrightarrow> is_digit (hd s) \<Longrightarrow> split_sign s = (False, s)"
  by (cases s) (auto simp: split_sign_def is_digit_def char_code_def)

lemma int_of_show_int: "int_of_str (show_int i) = Inr i"
proof -
  define m where "m = \<bar>i\<bar>"
  have m: "show_pos m \<noteq> []" "\<forall>c\<in>set (show_pos m). is_digit c \<and> \<not> is_space c"
    using show_pos_digits [of m] by (auto simp: m_def)
  have read: "read_digits False 0 (show_pos m) = Some m"
    using read_digits_show_pos [of m False 0 "[]"] by (simp add: m_def)
  show ?thesis
  proof (cases "i < 0")
    case True
    then have "show_int i = CHR ''-'' # show_pos m" by (simp add: show_int_def m_def)
    moreover have "py_strip (CHR ''-'' # show_pos m) = CHR ''-'' # show_pos m"
      using m(2) by (intro py_strip_id) (auto simp: is_space_def char_code_def)
    ultimately show ?thesis
      using True read by (simp add: int_of_str_def split_sign_def m_def)
  next
    case False
    then have "show_int i = show_pos m" by (simp add: show_int_def m_def)
    moreover have "py_strip (show_pos m) = show_pos m" using m(2) by (intro py_strip_id) auto
    moreover have "split_sign (show_pos m) = (False, show_pos m)"
      using m by (intro split_sign_digits) auto
    ultimately show ?thesis using False read by (simp add: int_of_str_def m_def)
  qed
qed

section \<open>A linear order on values\<close>

text \<open>
  The keys of one table all have one type, on which Python's \<open><\<close> is this order (NaN apart, which
  the order puts above the other floats); across types the order is by the constructor.
\<close>

definition frank :: "pyfloat \<Rightarrow> nat \<times> rat" where
  "frank x = (case x of FNegInf \<Rightarrow> (0, 0) | FFin q \<Rightarrow> (1, q) | FInf \<Rightarrow> (2, 0) | FNan \<Rightarrow> (3, 0))"

definition vrank :: "pyval \<Rightarrow> nat \<times> int \<times> (nat \<times> rat) \<times> string" where
  "vrank v =
     (case v of
        VNone \<Rightarrow> (0, 0, (0, 0), [])
      | VBool b \<Rightarrow> (1, (if b then 1 else 0), (0, 0), [])
      | VInt i \<Rightarrow> (2, i, (0, 0), [])
      | VFloat x \<Rightarrow> (3, 0, frank x, [])
      | VStr s \<Rightarrow> (4, 0, (0, 0), s))"

lemma vrank_inject: "vrank v = vrank w \<longleftrightarrow> v = w"
  by (auto simp: vrank_def frank_def split: pyval.splits pyfloat.splits if_splits)

instantiation pyval :: linorder
begin

definition less_eq_pyval :: "pyval \<Rightarrow> pyval \<Rightarrow> bool" where
  "less_eq_pyval v w \<longleftrightarrow> vrank v \<le> vrank w"

definition less_pyval :: "pyval \<Rightarrow> pyval \<Rightarrow> bool" where
  "less_pyval v w \<longleftrightarrow> vrank v < vrank w"

instance
  by intro_classes
    (auto simp: less_eq_pyval_def less_pyval_def vrank_inject [symmetric] simp del: vrank_inject)

end

text \<open>On two values of one ordered type, \<open><\<close> of the model is \<open><\<close> of Python.\<close>

lemma less_pyval_simps [simp]:
  "VInt i < VInt j \<longleftrightarrow> i < j"
  "VStr s < VStr t \<longleftrightarrow> s < t"
  "VFloat (FFin p) < VFloat (FFin q) \<longleftrightarrow> p < q"
  "VBool b < VBool c \<longleftrightarrow> \<not> b \<and> c"
  by (auto simp: less_pyval_def vrank_def frank_def)

lemma py_lt_same_type:
  "py_lt (VInt i) (VInt j) = Inr (VInt i < VInt j)"
  "py_lt (VStr s) (VStr t) = Inr (VStr s < VStr t)"
  "py_lt (VFloat (FFin p)) (VFloat (FFin q)) = Inr (VFloat (FFin p) < VFloat (FFin q))"
  "py_lt (VBool b) (VBool c) = Inr (VBool b < VBool c)"
  by (auto simp: py_lt_def num_float_def)

end
