(* ===== verification/Json.thy ===== *)
theory Json
  imports PyValue
begin

text \<open>
  JSON documents, as \<^verbatim>\<open>json.dumps\<close> takes and \<^verbatim>\<open>json.loads\<close> returns them: the log records and the
  checkpoint are built from these. An object is its list of fields in insertion order; a lookup takes
  the first field of the name, and the program never writes a name twice.
\<close>

datatype json =
    JNull
  | JBool bool
  | JInt int
  | JFloat pyfloat
  | JStr string
  | JArr "json list"
  | JObj "(string \<times> json) list"

text \<open>\<open>d.get(name)\<close> and \<open>d[name]\<close>; anything but an object has no fields.\<close>

definition field_opt :: "string \<Rightarrow> json \<Rightarrow> json option" where
  "field_opt name j = (case j of JObj fs \<Rightarrow> map_of fs name | _ \<Rightarrow> None)"

definition field :: "string \<Rightarrow> json \<Rightarrow> json result" where
  "field name j =
     (case j of
        JObj fs \<Rightarrow> (case map_of fs name of Some v \<Rightarrow> Inr v | None \<Rightarrow> Inl KeyError)
      | _ \<Rightarrow> Inl TypeError)"

text \<open>A cell of a row and its JSON form (Python serialises the five scalar types as they are).\<close>

fun json_of_value :: "pyval \<Rightarrow> json" where
  "json_of_value VNone = JNull"
| "json_of_value (VBool b) = JBool b"
| "json_of_value (VInt i) = JInt i"
| "json_of_value (VFloat x) = JFloat x"
| "json_of_value (VStr s) = JStr s"

fun value_of_json :: "json \<Rightarrow> pyval result" where
  "value_of_json JNull = Inr VNone"
| "value_of_json (JBool b) = Inr (VBool b)"
| "value_of_json (JInt i) = Inr (VInt i)"
| "value_of_json (JFloat x) = Inr (VFloat x)"
| "value_of_json (JStr s) = Inr (VStr s)"
| "value_of_json _ = Inl TypeError"

lemma value_of_json_of_value [simp]: "value_of_json (json_of_value v) = Inr v"
  by (cases v) simp_all

text \<open>Reading a field at the type the program writes it with.\<close>

definition as_str :: "json \<Rightarrow> string result" where
  "as_str j = (case j of JStr s \<Rightarrow> Inr s | _ \<Rightarrow> Inl TypeError)"

definition as_bool :: "json \<Rightarrow> bool result" where
  "as_bool j = (case j of JBool b \<Rightarrow> Inr b | _ \<Rightarrow> Inl TypeError)"

definition as_int :: "json \<Rightarrow> int result" where
  "as_int j = (case j of JInt i \<Rightarrow> Inr i | _ \<Rightarrow> Inl TypeError)"

definition as_list :: "json \<Rightarrow> json list result" where
  "as_list j = (case j of JArr xs \<Rightarrow> Inr xs | _ \<Rightarrow> Inl TypeError)"

lemma json_reads [simp]:
  "as_str (JStr s) = Inr s" "as_bool (JBool b) = Inr b" "as_int (JInt i) = Inr i"
  "as_list (JArr xs) = Inr xs"
  by (simp_all add: as_str_def as_bool_def as_int_def as_list_def)

lemma field_simps [simp]:
  "field n (JObj ((n, v) # fs)) = Inr v"
  "m \<noteq> n \<Longrightarrow> field n (JObj ((m, v) # fs)) = field n (JObj fs)"
  "field_opt n (JObj ((n, v) # fs)) = Some v"
  "m \<noteq> n \<Longrightarrow> field_opt n (JObj ((m, v) # fs)) = field_opt n (JObj fs)"
  "field_opt n (JObj []) = None"
  by (simp_all add: field_def field_opt_def)

lemma map_result_values [simp]: "map_result value_of_json (map json_of_value vs) = Inr vs"
  by (induction vs) simp_all

end
