(* ===== verification/Schema.thy ===== *)
theory Schema
  imports Json
begin

text \<open>
  Column types and row validation, \<^verbatim>\<open>minidb/storage/schema.py\<close>: columns, table schemas with their
  name index, the conversion of a value to a column's type, and the dictionary form of a schema that
  the log and the checkpoint store. The lemmas show that what \<open>convert_value\<close> returns always has the
  column's type, that converting it again changes nothing, and that the dictionary form round-trips.
\<close>

section \<open>Types, columns, schemas\<close>

datatype coltype = TInt | TFloat | TVarchar | TText | TBoolean

fun type_name :: "coltype \<Rightarrow> string" where
  "type_name TInt = ''INT''"
| "type_name TFloat = ''FLOAT''"
| "type_name TVarchar = ''VARCHAR''"
| "type_name TText = ''TEXT''"
| "type_name TBoolean = ''BOOLEAN''"

definition type_of_name :: "string \<Rightarrow> coltype option" where
  "type_of_name s = map_of (map (\<lambda>t. (type_name t, t)) [TInt, TFloat, TVarchar, TText, TBoolean]) s"

definition TYPE_ALIASES :: "(string \<times> coltype) list" where
  "TYPE_ALIASES =
     [(''INT'', TInt), (''INTEGER'', TInt), (''BIGINT'', TInt), (''SMALLINT'', TInt), (''TINYINT'', TInt),
      (''FLOAT'', TFloat), (''DOUBLE'', TFloat), (''REAL'', TFloat),
      (''VARCHAR'', TVarchar), (''CHAR'', TVarchar),
      (''TEXT'', TText), (''STRING'', TText),
      (''BOOLEAN'', TBoolean), (''BOOL'', TBoolean)]"

record column =
  col_name :: string
  col_type :: coltype
  col_length :: "int option"
  col_nullable :: bool
  col_primary_key :: bool

record table_schema =
  sch_name :: string
  sch_columns :: "column list"

text \<open>\<open>_index = {c.name: i ...}\<close>: where a name occurs twice the last column wins.\<close>

definition name_index :: "table_schema \<Rightarrow> (string \<times> nat) list" where
  "name_index s = rev (zip (map col_name (sch_columns s)) [0..<length (sch_columns s)])"

definition column_names :: "table_schema \<Rightarrow> string list" where
  "column_names s = map col_name (sch_columns s)"

definition column_names_lower :: "table_schema \<Rightarrow> string list" where
  "column_names_lower s = map (\<lambda>c. py_lower (col_name c)) (sch_columns s)"

definition index_of :: "table_schema \<Rightarrow> string \<Rightarrow> nat result" where
  "index_of s name = (case map_of (name_index s) name of Some i \<Rightarrow> Inr i | None \<Rightarrow> Inl KeyError)"

definition has_column :: "table_schema \<Rightarrow> string \<Rightarrow> bool" where
  "has_column s name \<longleftrightarrow> map_of (name_index s) name \<noteq> None"

definition column_of :: "table_schema \<Rightarrow> string \<Rightarrow> column result" where
  "column_of s name = bind_result (index_of s name) (\<lambda>i. Inr (sch_columns s ! i))"

definition primary_key_columns :: "table_schema \<Rightarrow> column list" where
  "primary_key_columns s = filter col_primary_key (sch_columns s)"

section \<open>Conversion of values\<close>

definition float_is_integer :: "pyfloat \<Rightarrow> int option" where
  "float_is_integer x =
     (case x of FFin q \<Rightarrow> (if of_int \<lfloor>q\<rfloor> = q then Some \<lfloor>q\<rfloor> else None) | _ \<Rightarrow> None)"

definition to_int :: "pyval \<Rightarrow> int result" where
  "to_int v =
     (case v of
        VBool b \<Rightarrow> Inr (if b then 1 else 0)
      | VInt i \<Rightarrow> Inr i
      | VFloat x \<Rightarrow> (case float_is_integer x of Some i \<Rightarrow> Inr i | None \<Rightarrow> Inl ValueError)
      | VStr s \<Rightarrow> int_of_str (py_strip s)
      | VNone \<Rightarrow> Inl ValueError)"

definition to_double :: "pyval \<Rightarrow> pyfloat result" where
  "to_double v =
     (case v of
        VInt i \<Rightarrow> float_checked (of_int i)
      | VFloat x \<Rightarrow> Inr x
      | VStr s \<Rightarrow> float_of_str (py_strip s)
      | _ \<Rightarrow> Inl ValueError)"

definition to_bool :: "pyval \<Rightarrow> bool result" where
  "to_bool v =
     (case v of
        VBool b \<Rightarrow> Inr b
      | VInt i \<Rightarrow> (if i = 0 \<or> i = 1 then Inr (i = 1) else Inl ValueError)
      | VStr s \<Rightarrow>
          (let low = py_lower (py_strip s)
           in if low \<in> set [''true'', ''t'', ''1'', ''yes''] then Inr True
              else if low \<in> set [''false'', ''f'', ''0'', ''no''] then Inr False
              else Inl ValueError)
      | _ \<Rightarrow> Inl ValueError)"

definition to_text :: "pyval \<Rightarrow> string" where
  "to_text v =
     (case v of VStr s \<Rightarrow> s | VBool b \<Rightarrow> (if b then ''TRUE'' else ''FALSE'') | _ \<Rightarrow> py_str v)"

text \<open>The \<open>try\<close> block turns ValueError and TypeError into TypeConversionError, and only those.\<close>

definition reraise :: "'a result \<Rightarrow> 'a result" where
  "reraise r =
     (case r of
        Inl e \<Rightarrow> Inl (if e = ValueError \<or> e = TypeError then TypeConversionError else e)
      | Inr x \<Rightarrow> Inr x)"

definition convert_value :: "column \<Rightarrow> pyval \<Rightarrow> pyval result" where
  "convert_value col v =
     (if v = VNone then (if \<not> col_nullable col then Inl TypeConversionError else Inr VNone)
      else case col_type col of
        TInt \<Rightarrow> reraise (bind_result (to_int v) (\<lambda>i. Inr (VInt i)))
      | TFloat \<Rightarrow> reraise (bind_result (to_double v) (\<lambda>x. Inr (VFloat x)))
      | TBoolean \<Rightarrow> reraise (bind_result (to_bool v) (\<lambda>b. Inr (VBool b)))
      | _ \<Rightarrow>
          (let s = to_text v
           in if col_type col = TVarchar \<and>
                 (case col_length col of Some n \<Rightarrow> n < int (length s) | None \<Rightarrow> False)
              then Inl TypeConversionError else Inr (VStr s)))"

definition validate_and_convert :: "table_schema \<Rightarrow> pyval list \<Rightarrow> pyval list result" where
  "validate_and_convert s row =
     (if length row \<noteq> length (sch_columns s) then Inl TypeConversionError
      else map_result (\<lambda>(col, v). convert_value col v) (zip (sch_columns s) row))"

section \<open>Dictionary form\<close>

definition column_to_dict :: "column \<Rightarrow> json" where
  "column_to_dict c =
     JObj [(''name'', JStr (col_name c)),
           (''type'', JStr (type_name (col_type c))),
           (''length'', (case col_length c of None \<Rightarrow> JNull | Some n \<Rightarrow> JInt n)),
           (''nullable'', JBool (col_nullable c)),
           (''primary_key'', JBool (col_primary_key c))]"

definition read_length :: "json option \<Rightarrow> int option result" where
  "read_length j =
     (case j of
        None \<Rightarrow> Inr None
      | Some JNull \<Rightarrow> Inr None
      | Some j \<Rightarrow> bind_result (as_int j) (\<lambda>n. Inr (Some n)))"

definition read_flag :: "bool \<Rightarrow> json option \<Rightarrow> bool result" where
  "read_flag dflt j = (case j of None \<Rightarrow> Inr dflt | Some j \<Rightarrow> as_bool j)"

definition read_type :: "string \<Rightarrow> coltype result" where
  "read_type s = (case type_of_name s of Some t \<Rightarrow> Inr t | None \<Rightarrow> Inl TypeError)"

definition column_from_dict :: "json \<Rightarrow> column result" where
  "column_from_dict d =
     bind_result (bind_result (field ''name'' d) as_str) (\<lambda>name.
     bind_result (bind_result (bind_result (field ''type'' d) as_str) read_type) (\<lambda>type.
     bind_result (read_length (field_opt ''length'' d)) (\<lambda>len.
     bind_result (read_flag True (field_opt ''nullable'' d)) (\<lambda>nullable.
     bind_result (read_flag False (field_opt ''primary_key'' d)) (\<lambda>pk.
       Inr \<lparr>col_name = name, col_type = type, col_length = len, col_nullable = nullable,
            col_primary_key = pk\<rparr>)))))"

definition schema_to_dict :: "table_schema \<Rightarrow> json" where
  "schema_to_dict s =
     JObj [(''name'', JStr (sch_name s)), (''columns'', JArr (map column_to_dict (sch_columns s)))]"

definition schema_from_dict :: "json \<Rightarrow> table_schema result" where
  "schema_from_dict d =
     bind_result (bind_result (field ''name'' d) as_str) (\<lambda>name.
     bind_result (bind_result (bind_result (field ''columns'' d) as_list)
                    (map_result column_from_dict)) (\<lambda>cols.
       Inr \<lparr>sch_name = name, sch_columns = cols\<rparr>))"

section \<open>What a column holds\<close>

fun has_type :: "coltype \<Rightarrow> pyval \<Rightarrow> bool" where
  "has_type TInt v = (case v of VInt _ \<Rightarrow> True | _ \<Rightarrow> False)"
| "has_type TFloat v = (case v of VFloat _ \<Rightarrow> True | _ \<Rightarrow> False)"
| "has_type TBoolean v = (case v of VBool _ \<Rightarrow> True | _ \<Rightarrow> False)"
| "has_type _ v = (case v of VStr _ \<Rightarrow> True | _ \<Rightarrow> False)"

definition fits :: "column \<Rightarrow> pyval \<Rightarrow> bool" where
  "fits col v \<longleftrightarrow>
     (if v = VNone then col_nullable col
      else has_type (col_type col) v \<and>
        (col_type col = TVarchar \<longrightarrow>
           (\<forall>n s. col_length col = Some n \<longrightarrow> v = VStr s \<longrightarrow> int (length s) \<le> n)))"

definition row_fits :: "table_schema \<Rightarrow> pyval list \<Rightarrow> bool" where
  "row_fits s row \<longleftrightarrow> list_all2 fits (sch_columns s) row"

lemma reraise_Inr [simp]: "reraise r = Inr x \<longleftrightarrow> r = Inr x"
  by (cases r) (auto simp: reraise_def)

lemma convert_value_fits: "convert_value col v = Inr w \<Longrightarrow> fits col w"
  by (cases "col_type col")
    (auto simp: convert_value_def fits_def bind_result_eq_Inr Let_def split: if_splits option.splits)

lemma convert_fitting_value: "fits col v \<Longrightarrow> convert_value col v = Inr v"
  by (cases "col_type col"; cases v)
    (auto simp: convert_value_def fits_def to_int_def to_double_def to_bool_def to_text_def
      reraise_def not_less split: option.splits)

lemma convert_value_errors:
  "convert_value col v = Inl e \<Longrightarrow>
     e = TypeConversionError \<or>
     e = OverflowError \<and> col_type col = TFloat \<and> (\<exists>i. v = VInt i)"
  by (cases "col_type col"; cases v)
    (auto simp: convert_value_def to_int_def to_double_def to_bool_def to_text_def reraise_def
      bind_result_def float_checked_def int_of_str_def float_of_str_def Let_def
      split: if_splits option.splits sum.splits pyfloat.splits prod.splits)

lemma map_result_convert_fits:
  assumes "length cols = length row"
    and "map_result (\<lambda>(col, v). convert_value col v) (zip cols row) = Inr row'"
  shows "list_all2 fits cols row'"
  using assms
  by (induction cols row arbitrary: row' rule: list_induct2)
    (auto simp: bind_result_eq_Inr intro: convert_value_fits)

lemma map_result_convert_id:
  "list_all2 fits cols row \<Longrightarrow> map_result (\<lambda>(col, v). convert_value col v) (zip cols row) = Inr row"
  by (induction rule: list_all2_induct) (simp_all add: convert_fitting_value)

lemma validate_row_fits: "validate_and_convert s row = Inr row' \<Longrightarrow> row_fits s row'"
  by (auto simp: validate_and_convert_def row_fits_def dest: map_result_convert_fits [rotated] split: if_splits)

lemma validate_fitting_row: "row_fits s row \<Longrightarrow> validate_and_convert s row = Inr row"
  unfolding validate_and_convert_def row_fits_def
  using list_all2_lengthD map_result_convert_id by fastforce

section \<open>The name index\<close>

lemma map_of_rev_last:
  "map_of (rev (zip ks [0..<length ks])) k = Some i \<Longrightarrow> i < length ks \<and> ks ! i = k"
  by (auto dest!: map_of_SomeD simp: in_set_zip)

lemma index_of_column: "index_of s name = Inr i \<Longrightarrow> i < length (sch_columns s) \<and> col_name (sch_columns s ! i) = name"
  using map_of_rev_last [of "map col_name (sch_columns s)" name i]
  by (auto simp: index_of_def name_index_def split: option.splits)

lemma has_column_iff: "has_column s name \<longleftrightarrow> name \<in> set (column_names s)"
proof -
  have "map fst (zip (map col_name (sch_columns s)) [0..<length (sch_columns s)]) = column_names s"
    by (simp add: column_names_def)
  then have "fst ` set (zip (map col_name (sch_columns s)) [0..<length (sch_columns s)]) = set (column_names s)"
    by (metis list.set_map)
  then show ?thesis by (simp add: has_column_def name_index_def map_of_eq_None_iff del: set_zip)
qed

section \<open>Round trip of the dictionary form\<close>

lemma type_of_type_name [simp]: "type_of_name (type_name t) = Some t"
  by (cases t) (simp_all add: type_of_name_def)

lemma column_from_to_dict [simp]: "column_from_dict (column_to_dict c) = Inr c"
  by (cases "col_length c")
    (simp_all add: column_from_dict_def column_to_dict_def read_length_def read_flag_def read_type_def)

lemma schema_from_to_dict: "schema_from_dict (schema_to_dict s) = Inr s"
proof -
  have "map_result column_from_dict (map column_to_dict cs) = Inr cs" for cs
    by (induction cs) simp_all
  then show ?thesis by (simp add: schema_from_dict_def schema_to_dict_def)
qed

end
