(* ===== verification/MvccTable.thy ===== *)
theory MvccTable
  imports Tree_Index Schema Snapshot
begin

text \<open>
  Multi-version tables, \<^verbatim>\<open>minidb/storage/table.py\<close>: a B+ tree from row keys to version chains, the
  write operations on chains, recovery's raw appends, visible reads, and garbage collection.

  A chain is a list of versions, newest last. The program mutates chains and versions in place under
  the table's latch; the model writes the changed chain back under its key, which for a key of the
  tree changes nothing but the stored value. An operation here is one critical section of the latch.
\<close>

section \<open>Row keys\<close>

text \<open>
  A key is one value, or a tuple of values for a composite primary key. Tuples compare
  lexicographically; single keys and tuples never meet in one table.
\<close>

datatype rowkey = KVal "pyval" | KTup "pyval list"

definition krank :: "rowkey \<Rightarrow> nat \<times> pyval list" where
  "krank k = (case k of KVal v \<Rightarrow> (0, [v]) | KTup vs \<Rightarrow> (1, vs))"

lemma krank_inject: "krank k = krank l \<longleftrightarrow> k = l"
  by (auto simp: krank_def split: rowkey.splits)

instantiation rowkey :: linorder
begin

definition less_eq_rowkey :: "rowkey \<Rightarrow> rowkey \<Rightarrow> bool" where
  "less_eq_rowkey k l \<longleftrightarrow> krank k \<le> krank l"

definition less_rowkey :: "rowkey \<Rightarrow> rowkey \<Rightarrow> bool" where
  "less_rowkey k l \<longleftrightarrow> krank k < krank l"

instance
  by intro_classes
    (auto simp: less_eq_rowkey_def less_rowkey_def krank_inject [symmetric] simp del: krank_inject)

end

lemma less_rowkey_simps [simp]:
  "KVal v < KVal w \<longleftrightarrow> v < w"
  "KTup vs < KTup ws \<longleftrightarrow> vs < ws"
  by (auto simp: less_rowkey_def krank_def)

section \<open>Versions and tables\<close>

record version =
  v_row :: "pyval list"
  v_xmin :: txid
  v_xmax :: txid

definition new_version :: "pyval list \<Rightarrow> txid \<Rightarrow> version" where
  "new_version row xmin = \<lparr>v_row = row, v_xmin = xmin, v_xmax = 0\<rparr>"

lemma new_version_simps [simp]:
  "v_row (new_version row x) = row" "v_xmin (new_version row x) = x" "v_xmax (new_version row x) = 0"
  by (simp_all add: new_version_def)

definition version_to_dict :: "version \<Rightarrow> json" where
  "version_to_dict v =
     JObj [(''row'', JArr (map json_of_value (v_row v))), (''xmin'', JInt (int (v_xmin v))),
           (''xmax'', JInt (int (v_xmax v)))]"

definition version_visible :: "status_fn \<Rightarrow> snapshot \<Rightarrow> version \<Rightarrow> bool" where
  "version_visible st s v = stamps_visible st s (v_xmin v) (v_xmax v)"

type_synonym chain = "version list"

record table =
  tb_schema :: table_schema
  tb_tree :: "(rowkey, chain) bptree"
  tb_next_rowid :: int

definition new_table :: "table_schema \<Rightarrow> nat \<Rightarrow> table result" where
  "new_table schema ord =
     bind_result (new_tree ord) (\<lambda>t. Inr \<lparr>tb_schema = schema, tb_tree = t, tb_next_rowid = 1\<rparr>)"

definition has_user_pk :: "table \<Rightarrow> bool" where
  "has_user_pk t \<longleftrightarrow> primary_key_columns (tb_schema t) \<noteq> []"

definition allocate_rowid :: "table \<Rightarrow> table \<times> rowkey" where
  "allocate_rowid t = (t\<lparr>tb_next_rowid := tb_next_rowid t + 1\<rparr>, KVal (VInt (tb_next_rowid t)))"

definition pk_indexes :: "table \<Rightarrow> nat list" where
  "pk_indexes t = map fst (filter (\<lambda>(i, c). col_primary_key c) (enumerate 0 (sch_columns (tb_schema t))))"

definition row_at :: "pyval list \<Rightarrow> nat \<Rightarrow> pyval result" where
  "row_at row i = (if i < length row then Inr (row ! i) else Inl IndexError)"

definition user_key_of :: "table \<Rightarrow> pyval list \<Rightarrow> rowkey result" where
  "user_key_of t row =
     (let idxs = pk_indexes t
      in if length idxs = 1 then bind_result (row_at row (idxs ! 0)) (\<lambda>v. Inr (KVal v))
         else bind_result (map_result (row_at row) idxs) (\<lambda>vs. Inr (KTup vs)))"

text \<open>\<open>isinstance(key, int)\<close> holds of a bool as well.\<close>

definition key_as_int :: "rowkey \<Rightarrow> int option" where
  "key_as_int k =
     (case k of KVal (VInt i) \<Rightarrow> Some i | KVal (VBool b) \<Rightarrow> Some (if b then 1 else 0) | _ \<Rightarrow> None)"

definition bump_rowid :: "rowkey \<Rightarrow> table \<Rightarrow> table" where
  "bump_rowid key t =
     (case key_as_int key of
        Some i \<Rightarrow> if \<not> has_user_pk t \<and> i \<ge> tb_next_rowid t then t\<lparr>tb_next_rowid := i + 1\<rparr> else t
      | None \<Rightarrow> t)"

section \<open>Writes on one chain\<close>

text \<open>
  \<open>for v in reversed(chain): if v.xmin == txid and v.xmax == 0\<close>: the index of the newest version the
  transaction created and has not ended.
\<close>

fun own_slot :: "txid \<Rightarrow> chain \<Rightarrow> nat option" where
  "own_slot tx [] = None"
| "own_slot tx (v # vs) =
     (case own_slot tx vs of
        Some i \<Rightarrow> Some (Suc i)
      | None \<Rightarrow> if v_xmin v = tx \<and> v_xmax v = 0 then Some 0 else None)"

definition stamp_last :: "txid \<Rightarrow> chain \<Rightarrow> chain result" where
  "stamp_last tx chain =
     (if chain = [] then Inl IndexError else Inr (butlast chain @ [(last chain)\<lparr>v_xmax := tx\<rparr>]))"

definition chain_update :: "txid \<Rightarrow> pyval list \<Rightarrow> chain \<Rightarrow> chain result" where
  "chain_update tx new_row chain =
     (case own_slot tx chain of
        Some i \<Rightarrow> Inr (chain[i := (chain ! i)\<lparr>v_row := new_row\<rparr>])
      | None \<Rightarrow> bind_result (stamp_last tx chain) (\<lambda>c. Inr (c @ [new_version new_row tx])))"

definition chain_delete :: "txid \<Rightarrow> chain \<Rightarrow> (chain \<times> bool) result" where
  "chain_delete tx chain =
     (case own_slot tx chain of
        Some i \<Rightarrow> Inr (list_pop i chain, True)
      | None \<Rightarrow>
          if chain = [] then Inl IndexError
          else if v_xmax (last chain) \<noteq> 0 then Inr (chain, False)
          else bind_result (stamp_last tx chain) (\<lambda>c. Inr (c, True)))"

section \<open>Writes on the table\<close>

definition put_chain :: "rowkey \<Rightarrow> chain \<Rightarrow> table \<Rightarrow> table result" where
  "put_chain key chain t =
     bind_result (tree_insert (tb_tree t) key chain) (\<lambda>tr. Inr (t\<lparr>tb_tree := tr\<rparr>))"

definition drop_chain :: "rowkey \<Rightarrow> table \<Rightarrow> table result" where
  "drop_chain key t =
     bind_result (tree_delete (tb_tree t) key) (\<lambda>(tr, _). Inr (t\<lparr>tb_tree := tr\<rparr>))"

definition append_replayed :: "rowkey \<Rightarrow> version \<Rightarrow> table \<Rightarrow> table result" where
  "append_replayed key v t =
     bind_result (tree_get_opt (tb_tree t) key)
       (\<lambda>c. case c of None \<Rightarrow> put_chain key [v] t | Some chain \<Rightarrow> put_chain key (chain @ [v]) t)"

definition insert_key :: "table \<Rightarrow> pyval list \<Rightarrow> rowkey option \<Rightarrow> (table \<times> rowkey) result" where
  "insert_key t row key =
     (case key of
        Some k \<Rightarrow> Inr (t, k)
      | None \<Rightarrow>
          if \<not> has_user_pk t then Inr (allocate_rowid t)
          else bind_result (user_key_of t row) (\<lambda>k. Inr (t, k)))"

definition table_insert ::
  "txid \<Rightarrow> pyval list \<Rightarrow> rowkey option \<Rightarrow> table \<Rightarrow> (table \<times> rowkey) result" where
  "table_insert tx row key t =
     bind_result (insert_key t row key)
       (\<lambda>(t1, k). bind_result (tree_get_opt (tb_tree t1) k)
          (\<lambda>c. bind_result
                 (case c of
                    None \<Rightarrow> put_chain k [new_version row tx] t1
                  | Some chain \<Rightarrow> put_chain k (chain @ [new_version row tx]) t1)
                 (\<lambda>t2. Inr (t2, k))))"

definition table_update :: "txid \<Rightarrow> rowkey \<Rightarrow> pyval list \<Rightarrow> table \<Rightarrow> table result" where
  "table_update tx key new_row t =
     bind_result (tree_get (tb_tree t) key)
       (\<lambda>chain. bind_result (chain_update tx new_row chain) (\<lambda>c. put_chain key c t))"

definition table_delete :: "txid \<Rightarrow> rowkey \<Rightarrow> table \<Rightarrow> (table \<times> bool) result" where
  "table_delete tx key t =
     bind_result (tree_get (tb_tree t) key)
       (\<lambda>chain. bind_result (chain_delete tx chain)
          (\<lambda>(c, done). bind_result (if c = [] then drop_chain key t else put_chain key c t)
             (\<lambda>t'. Inr (t', done))))"

definition mark_deleted_replayed :: "txid \<Rightarrow> rowkey \<Rightarrow> table \<Rightarrow> table result" where
  "mark_deleted_replayed tx key t =
     bind_result (tree_get (tb_tree t) key)
       (\<lambda>chain. bind_result (stamp_last tx chain) (\<lambda>c. put_chain key c t))"

section \<open>Reads\<close>

definition pick_visible :: "status_fn \<Rightarrow> snapshot \<Rightarrow> chain \<Rightarrow> version option" where
  "pick_visible st s chain = find (version_visible st s) (rev chain)"

definition visible_version :: "status_fn \<Rightarrow> snapshot \<Rightarrow> rowkey \<Rightarrow> table \<Rightarrow> version option result" where
  "visible_version st s key t =
     bind_result (tree_get_opt (tb_tree t) key)
       (\<lambda>c. case c of None \<Rightarrow> Inr None | Some chain \<Rightarrow> Inr (pick_visible st s chain))"

definition visible_rows :: "status_fn \<Rightarrow> snapshot \<Rightarrow> (rowkey \<times> chain) list \<Rightarrow> (rowkey \<times> pyval list) list" where
  "visible_rows st s es =
     List.map_filter (\<lambda>(k, c). map_option (\<lambda>v. (k, v_row v)) (pick_visible st s c)) es"

definition table_scan :: "status_fn \<Rightarrow> snapshot \<Rightarrow> table \<Rightarrow> (rowkey \<times> pyval list) list result" where
  "table_scan st s t = bind_result (tree_items (tb_tree t)) (\<lambda>es. Inr (visible_rows st s es))"

definition count_visible :: "status_fn \<Rightarrow> snapshot \<Rightarrow> table \<Rightarrow> nat result" where
  "count_visible st s t =
     bind_result (tree_values (tb_tree t))
       (\<lambda>cs. Inr (length (filter (\<lambda>c. pick_visible st s c \<noteq> None) cs)))"

definition iter_chains :: "table \<Rightarrow> (rowkey \<times> chain) list result" where
  "iter_chains t = tree_items (tb_tree t)"

end
