(* ===== verification/LockManager.thy ===== *)
theory LockManager
  imports MvccTable
begin

text \<open>
  The lock manager, \<^verbatim>\<open>minidb/txn/locks.py\<close>: table locks in four modes, row locks in two, upgrades,
  escalation and release. Each definition here is one critical section of the code (the body of one
  \<open>with self._meta\<close> or \<open>with res.cv\<close> block); \<open>LockSteps\<close> composes the sections, with and without other
  threads between them, and DeadlockDetect models the detector.

  Dictionaries are association lists in insertion order. A read of a \<open>defaultdict\<close> leaves an empty entry
  behind in the code; the model does not store empty entries on reads, and nothing in the code tells an
  empty entry from a missing one.
\<close>

section \<open>Modes\<close>

datatype mode = MIS | MIX | MS | MX

text \<open>\<open>_TABLE_COMPAT[held][requested]\<close>.\<close>

fun table_compat :: "mode \<Rightarrow> mode \<Rightarrow> bool" where
  "table_compat MIS m = (m \<noteq> MX)"
| "table_compat MIX m = (m = MIS \<or> m = MIX)"
| "table_compat MS m = (m = MIS \<or> m = MS)"
| "table_compat MX m = False"

fun mode_rank :: "mode \<Rightarrow> nat" where
  "mode_rank MIS = 0"
| "mode_rank MIX = 1"
| "mode_rank MS = 2"
| "mode_rank MX = 3"

definition mode_covers :: "mode \<Rightarrow> mode \<Rightarrow> bool" where
  "mode_covers held requested =
     (if held = MX \<or> held = requested then True
      else if held = MS \<and> (requested = MIS \<or> requested = MS) then True
      else if held = MIX \<and> requested = MIS then True
      else False)"

section \<open>Resources and the manager's state\<close>

datatype lock_key = TableLock string | RowLock string rowkey

type_synonym lock_event = nat

record resource =
  res_holders :: "(txid \<times> mode) list"
  res_waiters :: "(txid \<times> mode \<times> lock_event) list"

record locks =
  lk_threshold :: nat
  lk_resources :: "(lock_key \<times> resource) list"
  lk_tx_rows :: "(txid \<times> (string \<times> rowkey list) list) list"
  lk_tx_tables :: "(txid \<times> (string \<times> mode) list) list"
  lk_escalated :: "(txid \<times> string list) list"

definition empty_resource :: resource where
  "empty_resource = \<lparr>res_holders = [], res_waiters = []\<rparr>"

definition new_locks :: "nat \<Rightarrow> locks" where
  "new_locks threshold =
     \<lparr>lk_threshold = threshold, lk_resources = [], lk_tx_rows = [], lk_tx_tables = [], lk_escalated = []\<rparr>"

definition dict_get :: "'v \<Rightarrow> ('k \<times> 'v) list \<Rightarrow> 'k \<Rightarrow> 'v" where
  "dict_get d xs k = (case map_of xs k of None \<Rightarrow> d | Some v \<Rightarrow> v)"

definition resource_at :: "locks \<Rightarrow> lock_key \<Rightarrow> resource" where
  "resource_at lk key = dict_get empty_resource (lk_resources lk) key"

definition set_resource :: "lock_key \<Rightarrow> resource \<Rightarrow> locks \<Rightarrow> locks" where
  "set_resource key r lk = lk\<lparr>lk_resources := AList.update key r (lk_resources lk)\<rparr>"

definition tx_tables :: "locks \<Rightarrow> txid \<Rightarrow> (string \<times> mode) list" where
  "tx_tables lk tx = dict_get [] (lk_tx_tables lk) tx"

definition tx_rows :: "locks \<Rightarrow> txid \<Rightarrow> (string \<times> rowkey list) list" where
  "tx_rows lk tx = dict_get [] (lk_tx_rows lk) tx"

definition rows_of :: "locks \<Rightarrow> txid \<Rightarrow> string \<Rightarrow> rowkey list" where
  "rows_of lk tx tab = dict_get [] (tx_rows lk tx) tab"

definition escalated :: "locks \<Rightarrow> txid \<Rightarrow> string \<Rightarrow> bool" where
  "escalated lk tx tab \<longleftrightarrow> tab \<in> set (dict_get [] (lk_escalated lk) tx)"

section \<open>The grant test\<close>

fun holder_compat :: "lock_key \<Rightarrow> mode \<Rightarrow> mode \<Rightarrow> bool" where
  "holder_compat (RowLock tab k) held mode = (\<not> (mode = MX \<or> held = MX))"
| "holder_compat (TableLock tab) held mode = table_compat held mode"

fun grantable_holders :: "(txid \<times> mode) list \<Rightarrow> lock_key \<Rightarrow> mode \<Rightarrow> txid \<Rightarrow> bool" where
  "grantable_holders [] key mode requester = True"
| "grantable_holders ((tx, held) # hs) key mode requester =
     (if tx = requester then grantable_holders hs key mode requester
      else if \<not> holder_compat key held mode then False
      else grantable_holders hs key mode requester)"

definition grantable :: "locks \<Rightarrow> lock_key \<Rightarrow> mode \<Rightarrow> txid \<Rightarrow> bool" where
  "grantable lk key mode requester =
     grantable_holders (res_holders (resource_at lk key)) key mode requester"

lemma grantable_holders_iff:
  "grantable_holders hs key mode requester \<longleftrightarrow>
     (\<forall>(tx, held)\<in>set hs. tx \<noteq> requester \<longrightarrow> holder_compat key held mode)"
  by (induction hs) (auto split: if_split_asm)

section \<open>Waiting\<close>

definition enqueue_waiter :: "lock_key \<Rightarrow> txid \<Rightarrow> mode \<Rightarrow> lock_event \<Rightarrow> locks \<Rightarrow> locks" where
  "enqueue_waiter key tx mode ev lk =
     (let r = resource_at lk key
      in set_resource key (r\<lparr>res_waiters := res_waiters r @ [(tx, mode, ev)]\<rparr>) lk)"

definition dequeue_waiter :: "lock_key \<Rightarrow> lock_event \<Rightarrow> locks \<Rightarrow> locks" where
  "dequeue_waiter key ev lk =
     (let r = resource_at lk key
      in set_resource key (r\<lparr>res_waiters := filter (\<lambda>(_, _, e). e \<noteq> ev) (res_waiters r)\<rparr>) lk)"

text \<open>The first block of \<open>_acquire\<close>: granted at once, or queued.\<close>

definition start_acquire :: "lock_key \<Rightarrow> txid \<Rightarrow> mode \<Rightarrow> lock_event \<Rightarrow> locks \<Rightarrow> locks \<times> bool" where
  "start_acquire key tx mode ev lk =
     (if grantable lk key mode tx then (lk, True) else (enqueue_waiter key tx mode ev lk, False))"

section \<open>Table locks\<close>

definition table_covered :: "txid \<Rightarrow> string \<Rightarrow> mode \<Rightarrow> locks \<Rightarrow> bool" where
  "table_covered tx tab mode lk =
     (case map_of (tx_tables lk tx) tab of None \<Rightarrow> False | Some held \<Rightarrow> mode_covers held mode)"

definition combined_mode :: "mode option \<Rightarrow> mode \<Rightarrow> mode" where
  "combined_mode held mode =
     (case held of
        None \<Rightarrow> mode
      | Some h \<Rightarrow>
          if h = MX then MX
          else if {h, mode} = {MS, MIX} then MX
          else if mode_rank h \<ge> mode_rank mode then h else mode)"

definition set_holder :: "lock_key \<Rightarrow> txid \<Rightarrow> mode \<Rightarrow> locks \<Rightarrow> locks" where
  "set_holder key tx mode lk =
     (let r = resource_at lk key
      in set_resource key (r\<lparr>res_holders := AList.update tx mode (res_holders r)\<rparr>) lk)"

definition record_table :: "txid \<Rightarrow> string \<Rightarrow> mode \<Rightarrow> locks \<Rightarrow> locks" where
  "record_table tx tab mode lk =
     (let new_mode = combined_mode (map_of (tx_tables lk tx) tab) mode;
          lk1 = lk\<lparr>lk_tx_tables := AList.update tx (AList.update tab new_mode (tx_tables lk tx)) (lk_tx_tables lk)\<rparr>
      in set_holder (TableLock tab) tx new_mode lk1)"

section \<open>Row locks and escalation\<close>

definition drop_holder :: "txid \<Rightarrow> resource \<Rightarrow> resource" where
  "drop_holder tx r = r\<lparr>res_holders := AList.delete tx (res_holders r)\<rparr>"

text \<open>A holder is removed; a resource left with no holder and no waiter is forgotten.\<close>

definition release_key :: "txid \<Rightarrow> lock_key \<Rightarrow> locks \<Rightarrow> locks" where
  "release_key tx key lk =
     (case map_of (lk_resources lk) key of
        None \<Rightarrow> lk
      | Some r \<Rightarrow>
          let r' = drop_holder tx r
          in if res_holders r' = [] \<and> res_waiters r' = []
             then lk\<lparr>lk_resources := AList.delete key (lk_resources lk)\<rparr>
             else set_resource key r' lk)"

definition set_rows :: "txid \<Rightarrow> string \<Rightarrow> rowkey list \<Rightarrow> locks \<Rightarrow> locks" where
  "set_rows tx tab ks lk =
     lk\<lparr>lk_tx_rows := AList.update tx (AList.update tab ks (tx_rows lk tx)) (lk_tx_rows lk)\<rparr>"

definition mark_escalated :: "txid \<Rightarrow> string \<Rightarrow> locks \<Rightarrow> locks" where
  "mark_escalated tx tab lk =
     lk\<lparr>lk_escalated := AList.update tx (List.insert tab (dict_get [] (lk_escalated lk) tx)) (lk_escalated lk)\<rparr>"

definition escalate :: "txid \<Rightarrow> string \<Rightarrow> locks \<Rightarrow> locks" where
  "escalate tx tab lk =
     (let lk1 = mark_escalated tx tab lk;
          lk2 = fold (\<lambda>k. release_key tx (RowLock tab k)) (rows_of lk1 tx tab) lk1;
          lk3 = set_rows tx tab [] lk2
      in if grantable lk3 (TableLock tab) MX tx then record_table tx tab MX lk3 else lk3)"

definition record_row :: "txid \<Rightarrow> string \<Rightarrow> rowkey \<Rightarrow> mode \<Rightarrow> locks \<Rightarrow> locks" where
  "record_row tx tab k mode lk =
     (let lk1 = set_holder (RowLock tab k) tx mode lk;
          lk2 = set_rows tx tab (List.insert k (rows_of lk1 tx tab)) lk1
      in if length (rows_of lk2 tx tab) \<ge> lk_threshold lk2 \<and> \<not> escalated lk2 tx tab
         then escalate tx tab lk2 else lk2)"

section \<open>Release\<close>

definition release_all :: "txid \<Rightarrow> locks \<Rightarrow> locks" where
  "release_all tx lk =
     (let tabs = map fst (tx_tables lk tx);
          lk1 = lk\<lparr>lk_tx_tables := AList.delete tx (lk_tx_tables lk)\<rparr>;
          lk2 = fold (\<lambda>t. release_key tx (TableLock t)) tabs lk1;
          rows = tx_rows lk2 tx;
          lk3 = lk2\<lparr>lk_tx_rows := AList.delete tx (lk_tx_rows lk2)\<rparr>;
          lk4 = fold (\<lambda>(t, ks). fold (\<lambda>k. release_key tx (RowLock t k)) ks) rows lk3
      in lk4\<lparr>lk_escalated := AList.delete tx (lk_escalated lk4)\<rparr>)"

definition held_row_locks :: "txid \<Rightarrow> locks \<Rightarrow> nat" where
  "held_row_locks tx lk = (\<Sum>(t, ks)\<leftarrow>tx_rows lk tx. length ks)"

definition held_table_modes :: "txid \<Rightarrow> locks \<Rightarrow> (string \<times> mode) list" where
  "held_table_modes tx lk = tx_tables lk tx"

end
