(* ===== verification/DeadlockDetect.thy ===== *)
theory DeadlockDetect
  imports LockManager
begin

text \<open>
  Deadlock detection, \<open>_build_graph\<close>, \<open>_detect_deadlock\<close> and \<open>_cycle_for\<close> of
  \<^verbatim>\<open>minidb/txn/locks.py\<close>: the wait-for graph of the lock tables, a depth-first search with paths from every
  waiter, and the breadth-first search that names a cycle in the error message.

  The graph maps a node to the list of its successors. The program iterates over sets; the lemmas hold
  for every order of the lists. They show that both searches end, that every victim is on a cycle, and
  that a cycle is never missed.
\<close>

type_synonym wait_graph = "(txid \<times> txid list) list"

section \<open>The wait-for graph\<close>

definition add_edges :: "txid \<Rightarrow> txid list \<Rightarrow> wait_graph \<Rightarrow> wait_graph" where
  "add_edges w hs g = AList.update w (fold List.insert (filter (\<lambda>h. h \<noteq> w) hs) (dict_get [] g w)) g"

definition build_graph :: "locks \<Rightarrow> wait_graph" where
  "build_graph lk =
     fold (\<lambda>(key, res). fold (\<lambda>(w, _). add_edges w (map fst (res_holders res))) (res_waiters res))
       (lk_resources lk) []"

definition successors :: "wait_graph \<Rightarrow> txid \<Rightarrow> txid list" where
  "successors g n = dict_get [] g n"

definition edges :: "wait_graph \<Rightarrow> (txid \<times> txid) set" where
  "edges g = {(u, v). v \<in> set (successors g u)}"

lemma finite_edges [simp]: "finite (edges g)"
proof -
  have "e \<in> (\<Union>(u, vs)\<in>set g. {u} \<times> set vs)" if e: "e \<in> edges g" for e
  proof -
    obtain u v where uv: "e = (u, v)" "v \<in> set (successors g u)" using e by (auto simp: edges_def)
    then obtain vs where "map_of g u = Some vs" "v \<in> set vs"
      by (cases "map_of g u") (auto simp: successors_def dict_get_def)
    then show ?thesis using uv(1) map_of_SomeD by fastforce
  qed
  then have "edges g \<subseteq> (\<Union>(u, vs)\<in>set g. {u} \<times> set vs)" by blast
  then show ?thesis by (rule finite_subset) auto
qed

section \<open>The depth-first search\<close>

type_synonym search_stack = "(txid \<times> txid list) list"

text \<open>
  The inner loop over the successors of \<open>node\<close>. The stack is kept with its top first; \<open>seen\<close> holds the
  edges followed so far.
\<close>

fun visit :: "txid \<Rightarrow> txid list \<Rightarrow> txid list \<Rightarrow> (txid \<times> txid) list \<Rightarrow> search_stack \<Rightarrow> txid list \<Rightarrow>
    (txid \<times> txid) list \<times> search_stack \<times> txid list" where
  "visit node path [] seen stack victims = (seen, stack, victims)"
| "visit node path (nxt # rest) seen stack victims =
     (if nxt \<in> set path
      then (seen, stack, dropWhile (\<lambda>x. x \<noteq> nxt) path @ victims)
      else if (node, nxt) \<in> set seen then visit node path rest seen stack victims
      else visit node path rest ((node, nxt) # seen) ((nxt, path @ [nxt]) # stack) victims)"

lemma visit_seen: "visit node path ns seen stack victims = (seen', stack', victims') \<Longrightarrow> set seen \<subseteq> set seen'"
  by (induction node path ns seen stack victims rule: visit.induct) (auto split: if_splits)

lemma visit_measure:
  "visit node path ns seen stack victims = (seen', stack', victims') \<Longrightarrow>
     set ns \<subseteq> set (successors g node) \<Longrightarrow>
     card (edges g - set seen') + length stack' \<le> card (edges g - set seen) + length stack"
proof (induction node path ns seen stack victims rule: visit.induct)
  case (2 node path nxt rest seen stack victims)
  show ?case
  proof (cases "nxt \<in> set path \<or> (node, nxt) \<in> set seen")
    case True
    then show ?thesis using 2 by (auto split: if_splits)
  next
    case False
    have "(node, nxt) \<in> edges g - set seen" using 2(4) False by (simp add: edges_def)
    then have "Suc (card (edges g - set ((node, nxt) # seen))) = card (edges g - set seen)"
      by (metis Diff_insert finite_Diff finite_edges list.simps(15) card_Suc_Diff1)
    moreover have "card (edges g - set seen') + length stack' \<le>
        card (edges g - set ((node, nxt) # seen)) + length ((nxt, path @ [nxt]) # stack)"
      using False 2(3,4) by (intro 2(2)) auto
    ultimately show ?thesis by simp
  qed
qed simp

function dfs :: "wait_graph \<Rightarrow> search_stack \<Rightarrow> (txid \<times> txid) list \<Rightarrow> txid list \<Rightarrow> txid list" where
  "dfs g [] seen victims = victims"
| "dfs g ((node, path) # stack) seen victims =
     (case visit node path (successors g node) seen stack victims of
        (seen', stack', victims') \<Rightarrow> dfs g stack' seen' victims')"
  by pat_completeness auto

termination
proof (relation "measure (\<lambda>(g, stack, seen, victims). card (edges g - set seen) + length stack)", goal_cases)
  case (2 g node path stack seen victims x y xa ya)
  then show ?case using visit_measure [OF 2(1) [symmetric, folded 2(2)], of g] by simp
qed simp

definition search_from :: "wait_graph \<Rightarrow> txid \<Rightarrow> txid list" where
  "search_from g start = dfs g [(start, [start])] [] []"

definition victims_of :: "wait_graph \<Rightarrow> txid list" where
  "victims_of g = concat (map (search_from g) (map fst g))"

definition detect_victim :: "wait_graph \<Rightarrow> txid option" where
  "detect_victim g = (case victims_of g of [] \<Rightarrow> None | vs \<Rightarrow> Some (Max (set vs)))"

definition detect_deadlock :: "locks \<Rightarrow> txid option" where
  "detect_deadlock lk = detect_victim (build_graph lk)"

section \<open>The cycle in the message\<close>

fun expand :: "txid \<Rightarrow> txid list \<Rightarrow> txid list \<Rightarrow> txid list \<Rightarrow> (txid \<times> txid list) list \<Rightarrow>
    txid list option \<times> txid list \<times> (txid \<times> txid list) list" where
  "expand goal path [] seen queue = (None, seen, queue)"
| "expand goal path (nxt # rest) seen queue =
     (if nxt = goal then (Some path, seen, queue)
      else if nxt \<notin> set seen then expand goal path rest (nxt # seen) (queue @ [(nxt, path @ [nxt])])
      else expand goal path rest seen queue)"

definition graph_nodes :: "wait_graph \<Rightarrow> txid set" where
  "graph_nodes g = snd ` edges g"

lemma finite_graph_nodes [simp]: "finite (graph_nodes g)"
  by (simp add: graph_nodes_def)

lemma expand_measure:
  "expand goal path ns seen queue = (r, seen', queue') \<Longrightarrow> set ns \<subseteq> graph_nodes g \<Longrightarrow>
     card (graph_nodes g - set seen') + length queue' \<le> card (graph_nodes g - set seen) + length queue"
proof (induction goal path ns seen queue rule: expand.induct)
  case (2 goal path nxt rest seen queue)
  show ?case
  proof (cases "nxt = goal \<or> nxt \<in> set seen")
    case True
    then show ?thesis using 2 by (auto split: if_splits)
  next
    case False
    have "nxt \<in> graph_nodes g - set seen" using 2(4) False by simp
    then have "Suc (card (graph_nodes g - set (nxt # seen))) = card (graph_nodes g - set seen)"
      by (metis Diff_insert finite_Diff finite_graph_nodes list.simps(15) card_Suc_Diff1)
    moreover have "card (graph_nodes g - set seen') + length queue' \<le>
        card (graph_nodes g - set (nxt # seen)) + length (queue @ [(nxt, path @ [nxt])])"
      using False 2(3,4) by (intro 2(1)) auto
    ultimately show ?thesis by simp
  qed
qed simp

lemma successors_nodes: "set (successors g n) \<subseteq> graph_nodes g"
  by (force simp: graph_nodes_def edges_def)

function bfs :: "wait_graph \<Rightarrow> txid \<Rightarrow> txid list \<Rightarrow> (txid \<times> txid list) list \<Rightarrow> txid list" where
  "bfs g goal seen [] = [goal]"
| "bfs g goal seen ((node, path) # queue) =
     (case expand goal path (successors g node) seen queue of
        (Some p, _, _) \<Rightarrow> p
      | (None, seen', queue') \<Rightarrow> bfs g goal seen' queue')"
  by pat_completeness auto

termination
proof (relation "measure (\<lambda>(g, goal, seen, queue). card (graph_nodes g - set seen) + length queue)", goal_cases)
  case (2 g goal seen node path queue x y xa ya)
  then have "expand goal path (successors g node) seen queue = (None, xa, ya)" by simp
  from expand_measure [OF this successors_nodes] show ?case by simp
qed simp

definition cycle_for :: "txid \<Rightarrow> locks \<Rightarrow> txid list" where
  "cycle_for tx lk = bfs (build_graph lk) tx [tx] [(tx, [tx])]"

section \<open>Every victim is on a cycle\<close>

abbreviation walk :: "wait_graph \<Rightarrow> txid list \<Rightarrow> bool" where
  "walk g p \<equiv> successively (\<lambda>u v. (u, v) \<in> edges g) p"

lemma walk_from_hd: "walk g (x # xs) \<Longrightarrow> y \<in> set (x # xs) \<Longrightarrow> (x, y) \<in> (edges g)\<^sup>*"
proof (induction xs arbitrary: x)
  case (Cons z xs)
  then have "(x, z) \<in> edges g" "y = x \<or> (z, y) \<in> (edges g)\<^sup>*" by auto
  then show ?case by (auto intro: converse_rtrancl_into_rtrancl)
qed simp

lemma walk_to_last: "walk g p \<Longrightarrow> y \<in> set p \<Longrightarrow> (y, last p) \<in> (edges g)\<^sup>*"
proof (induction p)
  case (Cons x xs)
  show ?case
  proof (cases "y \<in> set xs")
    case True
    then show ?thesis using Cons by (cases xs) auto
  next
    case False
    then show ?thesis using walk_from_hd [OF Cons.prems(1), of "last (x # xs)"] Cons.prems by auto
  qed
qed simp

lemma walk_suffix: "walk g (xs @ ys) \<Longrightarrow> walk g ys"
  by (simp add: successively_append_iff)

lemma closed_walk_cycle:
  assumes "walk g path" "path \<noteq> []" "(last path, nxt) \<in> edges g" "nxt \<in> set path"
    and "x \<in> set (dropWhile (\<lambda>x. x \<noteq> nxt) path)"
  shows "(x, x) \<in> (edges g)\<^sup>+"
proof -
  let ?q = "dropWhile (\<lambda>x. x \<noteq> nxt) path"
  have q: "walk g ?q" using assms(1) walk_suffix [of g "takeWhile (\<lambda>x. x \<noteq> nxt) path" ?q] by simp
  have "?q \<noteq> []" using assms(5) by (metis empty_iff list.set(1))
  then have "hd ?q = nxt" using hd_dropWhile [of "\<lambda>x. x \<noteq> nxt" path] by simp
  then obtain r where r: "?q = nxt # r" using assms(5) by (cases ?q) auto
  have "last ?q = last path"
    using r by (metis last_appendR list.distinct(1) takeWhile_dropWhile_id)
  then have "(x, last path) \<in> (edges g)\<^sup>*" using walk_to_last [OF q assms(5)] by simp
  moreover have "(nxt, x) \<in> (edges g)\<^sup>*" using walk_from_hd [of g nxt r x] q assms(5) r by simp
  ultimately show ?thesis using assms(3)
    by (meson rtrancl_into_trancl1 trancl_rtrancl_trancl)
qed

definition stack_ok :: "wait_graph \<Rightarrow> search_stack \<Rightarrow> bool" where
  "stack_ok g stack \<longleftrightarrow> (\<forall>(n, p)\<in>set stack. p \<noteq> [] \<and> last p = n \<and> walk g p)"

definition on_cycle :: "wait_graph \<Rightarrow> txid \<Rightarrow> bool" where
  "on_cycle g v \<longleftrightarrow> (v, v) \<in> (edges g)\<^sup>+"

lemma visit_sound:
  assumes "visit node path ns seen stack victims = (seen', stack', victims')"
    and "set ns \<subseteq> set (successors g node)" "path \<noteq> []" "last path = node" "walk g path"
    and "stack_ok g stack" "\<forall>v\<in>set victims. on_cycle g v"
  shows "stack_ok g stack' \<and> (\<forall>v\<in>set victims'. on_cycle g v)"
  using assms
proof (induction node path ns seen stack victims rule: visit.induct)
  case (2 node path nxt rest seen stack victims)
  have edge: "(last path, nxt) \<in> edges g" using 2(4,6) by (simp add: edges_def)
  show ?case
  proof (cases "nxt \<in> set path")
    case True
    then have "on_cycle g v" if "v \<in> set (dropWhile (\<lambda>x. x \<noteq> nxt) path)" for v
      using closed_walk_cycle [OF 2(7,5) edge True that] by (simp add: on_cycle_def)
    then show ?thesis using 2 True by auto
  next
    case False
    have "walk g (path @ [nxt])" using 2(5,7) edge by (simp add: successively_append_iff)
    then have "stack_ok g ((nxt, path @ [nxt]) # stack)" using 2(8) by (simp add: stack_ok_def)
    then show ?thesis using 2 False by (auto split: if_splits)
  qed
qed simp

lemma dfs_sound:
  "stack_ok g stack \<Longrightarrow> \<forall>v\<in>set victims. on_cycle g v \<Longrightarrow> v \<in> set (dfs g stack seen victims) \<Longrightarrow> on_cycle g v"
proof (induction g stack seen victims rule: dfs.induct)
  case (2 g node path stack seen victims)
  obtain seen' stack' victims' where v: "visit node path (successors g node) seen stack victims = (seen', stack', victims')"
    by (cases "visit node path (successors g node) seen stack victims") auto
  have "stack_ok g stack' \<and> (\<forall>v\<in>set victims'. on_cycle g v)"
    using 2(2,3) by (intro visit_sound [OF v]) (auto simp: stack_ok_def)
  then show ?case using 2(1) [OF v [symmetric] refl] 2(4) v by simp
qed simp

lemma victims_sound: "v \<in> set (victims_of g) \<Longrightarrow> on_cycle g v"
proof -
  assume "v \<in> set (victims_of g)"
  then obtain start where "v \<in> set (dfs g [(start, [start])] [] [])"
    unfolding victims_of_def search_from_def by (auto simp del: dfs.simps)
  then show ?thesis by (rule dfs_sound [rotated 2]) (auto simp: stack_ok_def)
qed

lemma detect_victim_sound: "detect_victim g = Some v \<Longrightarrow> on_cycle g v"
proof -
  assume "detect_victim g = Some v"
  then have "victims_of g \<noteq> []" "v = Max (set (victims_of g))"
    by (auto simp: detect_victim_def split: list.splits)
  then have "v \<in> set (victims_of g)" using Max_in by auto
  then show ?thesis by (rule victims_sound)
qed

section \<open>No cycle is missed\<close>

lemma visit_complete:
  assumes "visit node path ns seen stack victims = (seen', stack', [])" "start \<in> set path"
    and "\<forall>(u, v)\<in>set seen. v \<in> A \<union> fst ` set stack"
    and "\<forall>(n, p)\<in>set stack. start \<in> set p"
  shows "victims = [] \<and> set stack \<subseteq> set stack' \<and> (\<forall>v\<in>set ns. v \<noteq> start \<and> v \<in> A \<union> fst ` set stack') \<and>
    (\<forall>(u, v)\<in>set seen'. v \<in> A \<union> fst ` set stack') \<and> (\<forall>(n, p)\<in>set stack'. start \<in> set p)"
  using assms
proof (induction node path ns seen stack victims rule: visit.induct)
  case (2 node path nxt rest seen stack victims)
  have "nxt \<in> set path \<Longrightarrow> dropWhile (\<lambda>x. x \<noteq> nxt) path \<noteq> []" by auto
  then have out: "nxt \<notin> set path" using 2(3) by auto
  then have "nxt \<noteq> start" using 2(4) by auto
  show ?case
  proof (cases "(node, nxt) \<in> set seen")
    case True
    have eq: "visit node path rest seen stack victims = (seen', stack', [])" using 2(3) out True by simp
    note IH = 2(1) [OF out True eq 2(4-6)]
    moreover have "nxt \<in> A \<union> fst ` set stack" using bspec [OF 2(5) True] by simp
    ultimately show ?thesis using \<open>nxt \<noteq> start\<close> by auto
  next
    case False
    let ?stack = "(nxt, path @ [nxt]) # stack"
    have eq: "visit node path rest ((node, nxt) # seen) ?stack victims = (seen', stack', [])"
      using 2(3) out False by simp
    have seen: "\<forall>(u, v)\<in>set ((node, nxt) # seen). v \<in> A \<union> fst ` set ?stack" using 2(5) by auto
    have stack: "\<forall>(n, p)\<in>set ?stack. start \<in> set p" using 2(4,6) by simp
    note IH = 2(2) [OF out False eq 2(4) seen stack]
    moreover have "nxt \<in> fst ` set stack'" using IH by force
    ultimately show ?thesis using \<open>nxt \<noteq> start\<close> by simp
  qed
qed auto

lemma visit_no_victims: "visit node path ns seen stack victims = (seen', stack', []) \<Longrightarrow> victims = []"
  by (induction node path ns seen stack victims rule: visit.induct) (auto split: if_splits)

lemma dfs_no_victims: "dfs g stack seen victims = [] \<Longrightarrow> victims = []"
proof (induction g stack seen victims rule: dfs.induct)
  case (2 g node path stack seen victims)
  obtain a b c where v: "visit node path (successors g node) seen stack victims = (a, b, c)"
    by (cases "visit node path (successors g node) seen stack victims") auto
  then have "c = []" using 2(1) [OF v [symmetric] refl] 2(2) by simp
  then show ?case using v visit_no_victims by blast
qed simp

lemma dfs_complete:
  assumes "dfs g stack seen victims = []"
    and "\<forall>u\<in>P. \<forall>v\<in>set (successors g u). v \<noteq> start \<and> v \<in> P \<union> fst ` set stack"
    and "\<forall>(u, v)\<in>set seen. v \<in> P \<union> fst ` set stack"
    and "\<forall>(n, p)\<in>set stack. start \<in> set p"
  shows "\<exists>Q. P \<union> fst ` set stack \<subseteq> Q \<and> (\<forall>u\<in>Q. \<forall>v\<in>set (successors g u). v \<noteq> start \<and> v \<in> Q)"
  using assms
proof (induction g stack seen victims arbitrary: P rule: dfs.induct)
  case (1 g seen victims)
  then show ?case by (intro exI [of _ P]) simp
next
  case (2 g node path stack seen victims)
  obtain seen' stack' victims' where v: "visit node path (successors g node) seen stack victims = (seen', stack', victims')"
    by (cases "visit node path (successors g node) seen stack victims") auto
  have rest: "dfs g stack' seen' victims' = []" using 2(2) v by simp
  have nil: "visit node path (successors g node) seen stack victims = (seen', stack', [])"
    using v dfs_no_victims [OF rest] by simp
  let ?A = "insert node P"
  have vc: "set stack \<subseteq> set stack' \<and> (\<forall>v\<in>set (successors g node). v \<noteq> start \<and> v \<in> ?A \<union> fst ` set stack') \<and>
    (\<forall>(u, v)\<in>set seen'. v \<in> ?A \<union> fst ` set stack') \<and> (\<forall>(n, p)\<in>set stack'. start \<in> set p)"
    using visit_complete [OF nil, of start ?A] 2(4,5) by simp
  note sub = conjunct1 [OF vc] and new = conjunct1 [OF conjunct2 [OF vc]]
    and seen = conjunct1 [OF conjunct2 [OF conjunct2 [OF vc]]]
    and paths = conjunct2 [OF conjunct2 [OF conjunct2 [OF vc]]]
  have "P \<union> fst ` set ((node, path) # stack) \<subseteq> ?A \<union> fst ` set stack'" using image_mono [OF sub, of fst] by auto
  then have closed: "\<forall>u\<in>?A. \<forall>v\<in>set (successors g u). v \<noteq> start \<and> v \<in> ?A \<union> fst ` set stack'"
  proof safe
    fix u v assume "u \<in> P" "v \<in> set (successors g u)" "v \<notin> fst ` set stack'" "v \<notin> P"
    moreover have "v \<in> P \<union> fst ` set ((node, path) # stack)" using calculation(1,2) 2(3) by blast
    ultimately show "v = node" using image_mono [OF sub, of fst] by auto
  qed (use new 2(3) in auto)
  obtain Q where "?A \<union> fst ` set stack' \<subseteq> Q" "\<forall>u\<in>Q. \<forall>v\<in>set (successors g u). v \<noteq> start \<and> v \<in> Q"
    using 2(1) [OF v [symmetric] refl rest closed seen paths] by blast
  moreover have "P \<union> fst ` set ((node, path) # stack) \<subseteq> Q" using calculation(1) image_mono [OF sub, of fst] by auto
  ultimately show ?case by blast
qed

lemma search_from_complete:
  assumes "on_cycle g start"
  shows "search_from g start \<noteq> []"
proof
  assume "search_from g start = []"
  then obtain Q where Q: "start \<in> Q" "\<forall>u\<in>Q. \<forall>v\<in>set (successors g u). v \<noteq> start \<and> v \<in> Q"
    using dfs_complete [of g "[(start, [start])]" "[]" "[]" "{}" start] by (auto simp: search_from_def)
  have "x \<in> Q \<and> x \<noteq> start" if "(start, x) \<in> (edges g)\<^sup>+" for x
    using that Q by (induction rule: trancl_induct) (auto simp: edges_def)
  then show False using assms by (auto simp: on_cycle_def)
qed

lemma edge_node: "(u, v) \<in> edges g \<Longrightarrow> u \<in> fst ` set g"
  by (cases "map_of g u")
    (auto simp: edges_def successors_def dict_get_def dest!: map_of_SomeD intro: rev_image_eqI)

lemma detect_victim_iff: "detect_victim g = None \<longleftrightarrow> (\<forall>v. \<not> on_cycle g v)"
proof
  assume none: "detect_victim g = None"
  then have nil: "victims_of g = []" by (auto simp: detect_victim_def split: list.splits)
  show "\<forall>v. \<not> on_cycle g v"
  proof safe
    fix v assume v: "on_cycle g v"
    then obtain w where "(v, w) \<in> edges g" by (auto simp: on_cycle_def dest: tranclD)
    then have "v \<in> fst ` set g" by (rule edge_node)
    then show False using nil search_from_complete [OF v] by (auto simp: victims_of_def)
  qed
next
  assume "\<forall>v. \<not> on_cycle g v"
  then show "detect_victim g = None" using detect_victim_sound by (cases "detect_victim g") auto
qed

section \<open>The graph is the waiting relation\<close>

definition queued_behind :: "resource \<Rightarrow> (txid \<times> txid) set" where
  "queued_behind res = {(w, h). w \<in> fst ` set (res_waiters res) \<and> h \<in> fst ` set (res_holders res) \<and> h \<noteq> w}"

definition waits_for :: "locks \<Rightarrow> txid \<Rightarrow> txid \<Rightarrow> bool" where
  "waits_for lk w h \<longleftrightarrow> (\<exists>res\<in>snd ` set (lk_resources lk). (w, h) \<in> queued_behind res)"

lemma set_fold_insert: "set (fold List.insert xs ys) = set xs \<union> set ys"
  by (induction xs arbitrary: ys) auto

lemma edges_add: "edges (add_edges w hs g) = edges g \<union> {w} \<times> (set hs - {w})"
  by (auto simp: edges_def successors_def add_edges_def dict_get_def update_conv' set_fold_insert
      split: if_splits)

lemma edges_waiters:
  "edges (fold (\<lambda>(w, _). add_edges w hs) ws g) =
     edges g \<union> {(w, h). w \<in> fst ` set ws \<and> h \<in> set hs \<and> h \<noteq> w}"
  by (induction ws arbitrary: g) (auto simp: edges_add)

lemma edges_resources:
  "edges (fold (\<lambda>(key, res). fold (\<lambda>(w, _). add_edges w (map fst (res_holders res))) (res_waiters res)) rs g) =
     edges g \<union> \<Union> (queued_behind ` snd ` set rs)"
proof (induction rs arbitrary: g)
  case (Cons r rs)
  obtain key res where r: "r = (key, res)" by (cases r)
  show ?case by (simp add: r edges_waiters Cons.IH) (auto simp: queued_behind_def)
qed simp

lemma edges_build_graph: "(w, h) \<in> edges (build_graph lk) \<longleftrightarrow> waits_for lk w h"
proof -
  have "edges [] = {}" by (simp add: edges_def successors_def dict_get_def)
  then show ?thesis by (simp add: build_graph_def edges_resources waits_for_def)
qed

end
