(* ===== verification/LockSteps.thy ===== *)
theory LockSteps
  imports DeadlockDetect
begin

text \<open>
  The lock manager at work: acquisition as a sequence of critical sections, the step relation of several
  transactions, and the invariants of the lock tables.

  Two relations are given. In \<open>race_step\<close> any thread may run between any two critical sections, as the
  locks of the code allow. In \<open>lock_step\<close> a grant is recorded before another thread runs; this is what
  the two-phase locking argument needs, and \<open>LockAnomalies\<close> shows what the first relation allows.
\<close>

section \<open>Indexed holders\<close>

definition holders :: "locks \<Rightarrow> lock_key \<Rightarrow> (txid \<times> mode) list" where
  "holders lk key = res_holders (resource_at lk key)"

definition holds :: "locks \<Rightarrow> lock_key \<Rightarrow> txid \<Rightarrow> mode option" where
  "holds lk key tx = map_of (holders lk key) tx"

lemma dict_get_simps [simp]:
  "dict_get d [] k = d"
  "dict_get d (AList.update k v xs) k' = (if k' = k then v else dict_get d xs k')"
  "dict_get d (AList.delete k xs) k' = (if k' = k then d else dict_get d xs k')"
  by (auto simp: dict_get_def update_conv' delete_conv')

lemma resource_at_simps [simp]:
  "resource_at (set_resource key r lk) key' = (if key' = key then r else resource_at lk key')"
  "resource_at (lk\<lparr>lk_tx_tables := a\<rparr>) key = resource_at lk key"
  "resource_at (lk\<lparr>lk_tx_rows := b\<rparr>) key = resource_at lk key"
  "resource_at (lk\<lparr>lk_escalated := c\<rparr>) key = resource_at lk key"
  by (simp_all add: resource_at_def set_resource_def)

lemma set_resource_simps [simp]:
  "lk_tx_tables (set_resource key r lk) = lk_tx_tables lk"
  "lk_tx_rows (set_resource key r lk) = lk_tx_rows lk"
  "lk_escalated (set_resource key r lk) = lk_escalated lk"
  "lk_threshold (set_resource key r lk) = lk_threshold lk"
  by (simp_all add: set_resource_def)

lemma holds_waiters [simp]:
  "holds (enqueue_waiter key tx mode ev lk) key' = holds lk key'"
  "holds (dequeue_waiter key ev lk) key' = holds lk key'"
  by (auto simp: holds_def holders_def enqueue_waiter_def dequeue_waiter_def Let_def)

lemma waiters_tables [simp]:
  "tx_tables (enqueue_waiter key tx mode ev lk) = tx_tables lk"
  "tx_tables (dequeue_waiter key ev lk) = tx_tables lk"
  "rows_of (enqueue_waiter key tx mode ev lk) = rows_of lk"
  "rows_of (dequeue_waiter key ev lk) = rows_of lk"
  by (auto simp: fun_eq_iff tx_tables_def rows_of_def tx_rows_def enqueue_waiter_def dequeue_waiter_def Let_def)

lemma holds_set_holder [simp]:
  "holds (set_holder key tx mode lk) key' tx' =
     (if key' = key \<and> tx' = tx then Some mode else holds lk key' tx')"
  by (auto simp: holds_def holders_def set_holder_def Let_def update_conv')

lemma set_holder_tables [simp]:
  "tx_tables (set_holder key tx mode lk) = tx_tables lk"
  "rows_of (set_holder key tx mode lk) = rows_of lk"
  by (auto simp: fun_eq_iff tx_tables_def rows_of_def tx_rows_def set_holder_def Let_def)

lemma holds_record_table [simp]:
  "holds (record_table tx tab mode lk) key' tx' =
     (if key' = TableLock tab \<and> tx' = tx then Some (combined_mode (map_of (tx_tables lk tx) tab) mode)
      else holds lk key' tx')"
  by (auto simp: record_table_def Let_def) (auto simp: holds_def holders_def)

lemma tables_record_table [simp]:
  "map_of (tx_tables (record_table tx tab mode lk) tx') tab' =
     (if tx' = tx \<and> tab' = tab then Some (combined_mode (map_of (tx_tables lk tx) tab) mode)
      else map_of (tx_tables lk tx') tab')"
  by (auto simp: record_table_def Let_def tx_tables_def update_conv')

lemma rows_record_table [simp]: "rows_of (record_table tx tab mode lk) = rows_of lk"
  by (auto simp: fun_eq_iff record_table_def Let_def) (auto simp: rows_of_def tx_rows_def)

lemma holds_release_key [simp]:
  "holds (release_key tx key lk) key' tx' = (if key' = key \<and> tx' = tx then None else holds lk key' tx')"
proof (cases "map_of (lk_resources lk) key")
  case None
  then show ?thesis
    by (auto simp: release_key_def holds_def holders_def resource_at_def dict_get_def empty_resource_def)
next
  case (Some r)
  let ?r = "drop_holder tx r"
  have r: "resource_at lk key = r" using Some by (simp add: resource_at_def dict_get_def)
  show ?thesis
  proof (cases "res_holders ?r = [] \<and> res_waiters ?r = []")
    case True
    then have "map_of (res_holders r) tx' = None" if "tx' \<noteq> tx"
      using that delete_conv' [of tx "res_holders r"] by (simp add: drop_holder_def) (metis fun_upd_apply)
    then show ?thesis using Some True r
      by (auto simp: release_key_def holds_def holders_def resource_at_def empty_resource_def)
  next
    case False
    then have "release_key tx key lk = set_resource key ?r lk"
      using Some by (auto simp: release_key_def Let_def)
    then show ?thesis using r by (auto simp: holds_def holders_def drop_holder_def delete_conv')
  qed
qed

lemma release_key_tables [simp]:
  "lk_tx_tables (release_key tx key lk) = lk_tx_tables lk"
  "lk_tx_rows (release_key tx key lk) = lk_tx_rows lk"
  "lk_escalated (release_key tx key lk) = lk_escalated lk"
  "lk_threshold (release_key tx key lk) = lk_threshold lk"
  by (auto simp: release_key_def Let_def split: option.splits)

lemma holds_release_keys:
  "holds (fold (\<lambda>k. release_key tx (f k)) ks lk) key tx' =
     (if key \<in> f ` set ks \<and> tx' = tx then None else holds lk key tx')"
  by (induction ks arbitrary: lk) auto

lemma release_keys_tables [simp]:
  "lk_tx_tables (fold (\<lambda>k. release_key tx (f k)) ks lk) = lk_tx_tables lk"
  "lk_tx_rows (fold (\<lambda>k. release_key tx (f k)) ks lk) = lk_tx_rows lk"
  "lk_escalated (fold (\<lambda>k. release_key tx (f k)) ks lk) = lk_escalated lk"
  "lk_threshold (fold (\<lambda>k. release_key tx (f k)) ks lk) = lk_threshold lk"
  by (induction ks arbitrary: lk) auto

lemma holds_release_rows:
  "holds (fold (\<lambda>(t, ks). fold (\<lambda>k. release_key tx (RowLock t k)) ks) rows lk) key tx' =
     (if tx' = tx \<and> (\<exists>(t, ks)\<in>set rows. key \<in> RowLock t ` set ks) then None else holds lk key tx')"
  by (induction rows arbitrary: lk) (auto simp: holds_release_keys)

lemma release_rows_tables [simp]:
  "lk_tx_tables (fold (\<lambda>(t, ks). fold (\<lambda>k. release_key tx (RowLock t k)) ks) rows lk) = lk_tx_tables lk"
  "lk_tx_rows (fold (\<lambda>(t, ks). fold (\<lambda>k. release_key tx (RowLock t k)) ks) rows lk) = lk_tx_rows lk"
  "lk_escalated (fold (\<lambda>(t, ks). fold (\<lambda>k. release_key tx (RowLock t k)) ks) rows lk) = lk_escalated lk"
  by (induction rows arbitrary: lk) auto

section \<open>Indexed lock tables\<close>

text \<open>The per-transaction tables name every lock a transaction holds, so that release finds it.\<close>

definition indexed :: "locks \<Rightarrow> bool" where
  "indexed lk \<longleftrightarrow>
     (\<forall>tx tab. holds lk (TableLock tab) tx = map_of (tx_tables lk tx) tab) \<and>
     (\<forall>tx tab k. holds lk (RowLock tab k) tx \<noteq> None \<longrightarrow> k \<in> set (rows_of lk tx tab))"

lemma indexed_new [simp]: "indexed (new_locks n)"
  by (simp add: indexed_def new_locks_def holds_def holders_def resource_at_def tx_tables_def empty_resource_def)

lemma indexed_waiters [simp]:
  "indexed (enqueue_waiter key tx mode ev lk) = indexed lk"
  "indexed (dequeue_waiter key ev lk) = indexed lk"
  by (simp_all add: indexed_def)

lemma indexed_record_table: "indexed lk \<Longrightarrow> indexed (record_table tx tab mode lk)"
  by (auto simp: indexed_def)

lemma rows_set_rows [simp]:
  "rows_of (set_rows tx tab ks lk) tx' tab' = (if tx' = tx \<and> tab' = tab then ks else rows_of lk tx' tab')"
  by (auto simp: set_rows_def rows_of_def tx_rows_def)

lemma set_rows_other [simp]:
  "holds (set_rows tx tab ks lk) = holds lk"
  "tx_tables (set_rows tx tab ks lk) = tx_tables lk"
  "holds (mark_escalated tx tab lk) = holds lk"
  "tx_tables (mark_escalated tx tab lk) = tx_tables lk"
  "rows_of (mark_escalated tx tab lk) = rows_of lk"
  by (auto simp: fun_eq_iff set_rows_def mark_escalated_def holds_def holders_def tx_tables_def rows_of_def tx_rows_def)

definition escalate_rows :: "txid \<Rightarrow> string \<Rightarrow> locks \<Rightarrow> locks" where
  "escalate_rows tx tab lk =
     (let lk1 = mark_escalated tx tab lk
      in set_rows tx tab [] (fold (\<lambda>k. release_key tx (RowLock tab k)) (rows_of lk1 tx tab) lk1))"

lemma escalate_split:
  "escalate tx tab lk =
     (let lk' = escalate_rows tx tab lk
      in if grantable lk' (TableLock tab) MX tx then record_table tx tab MX lk' else lk')"
  by (simp add: escalate_def escalate_rows_def Let_def)

lemma rows_of_release_keys [simp]:
  "rows_of (fold (\<lambda>k. release_key tx (f k)) ks lk) = rows_of lk"
  "tx_tables (fold (\<lambda>k. release_key tx (f k)) ks lk) = tx_tables lk"
  by (auto simp: fun_eq_iff rows_of_def tx_rows_def tx_tables_def)

lemma holds_escalate_rows:
  "holds (escalate_rows tx tab lk) key tx' =
     (if tx' = tx \<and> key \<in> RowLock tab ` set (rows_of lk tx tab) then None else holds lk key tx')"
  by (auto simp: escalate_rows_def Let_def holds_release_keys)

lemma indexed_escalate_rows: "indexed lk \<Longrightarrow> indexed (escalate_rows tx tab lk)"
  by (auto simp: indexed_def holds_escalate_rows) (auto simp: escalate_rows_def Let_def)

lemma indexed_escalate: "indexed lk \<Longrightarrow> indexed (escalate tx tab lk)"
  by (simp add: escalate_split Let_def indexed_escalate_rows indexed_record_table)

definition record_row_only :: "txid \<Rightarrow> string \<Rightarrow> rowkey \<Rightarrow> mode \<Rightarrow> locks \<Rightarrow> locks" where
  "record_row_only tx tab k mode lk =
     (let lk1 = set_holder (RowLock tab k) tx mode lk in set_rows tx tab (List.insert k (rows_of lk1 tx tab)) lk1)"

lemma record_row_split:
  "record_row tx tab k mode lk =
     (let lk' = record_row_only tx tab k mode lk
      in if length (rows_of lk' tx tab) \<ge> lk_threshold lk' \<and> \<not> escalated lk' tx tab
         then escalate tx tab lk' else lk')"
  by (simp add: record_row_def record_row_only_def Let_def)

lemma holds_record_row_only [simp]:
  "holds (record_row_only tx tab k mode lk) key tx' =
     (if key = RowLock tab k \<and> tx' = tx then Some mode else holds lk key tx')"
  by (simp add: record_row_only_def Let_def)

lemma indexed_record_row_only: "indexed lk \<Longrightarrow> indexed (record_row_only tx tab k mode lk)"
  by (auto simp: indexed_def) (auto simp: record_row_only_def Let_def)

lemma indexed_record_row: "indexed lk \<Longrightarrow> indexed (record_row tx tab k mode lk)"
  by (simp add: record_row_split Let_def indexed_escalate indexed_record_row_only)

lemma holds_updates [simp]:
  "holds (lk\<lparr>lk_tx_tables := a\<rparr>) = holds lk"
  "holds (lk\<lparr>lk_tx_rows := b\<rparr>) = holds lk"
  "holds (lk\<lparr>lk_escalated := c\<rparr>) = holds lk"
  by (simp_all add: fun_eq_iff holds_def holders_def)

lemma tx_rows_release_keys [simp]:
  "tx_rows (fold (\<lambda>k. release_key tx (f k)) ks lk) = tx_rows lk"
  "tx_rows (lk\<lparr>lk_tx_tables := a\<rparr>) = tx_rows lk"
  by (auto simp: fun_eq_iff tx_rows_def)

lemma holds_release_all_raw:
  "holds (release_all tx lk) key tx' =
     (if tx' = tx \<and> (key \<in> TableLock ` fst ` set (tx_tables lk tx) \<or>
        (\<exists>(t, ks)\<in>set (tx_rows lk tx). key \<in> RowLock t ` set ks)) then None else holds lk key tx')"
  by (auto simp: release_all_def Let_def holds_release_rows holds_release_keys)

lemma holds_release_all:
  assumes "indexed lk"
  shows "holds (release_all tx lk) key tx' = (if tx' = tx then None else holds lk key tx')"
proof (cases "holds lk key tx")
  case None
  then show ?thesis by (auto simp: holds_release_all_raw)
next
  case (Some m)
  have "key \<in> TableLock ` fst ` set (tx_tables lk tx) \<or>
      (\<exists>(t, ks)\<in>set (tx_rows lk tx). key \<in> RowLock t ` set ks)"
  proof (cases key)
    case (TableLock tab)
    then have "(tab, m) \<in> set (tx_tables lk tx)" using assms Some by (auto simp: indexed_def map_of_SomeD)
    then have "tab \<in> fst ` set (tx_tables lk tx)" by (rule rev_image_eqI) simp
    then show ?thesis using TableLock by blast
  next
    case (RowLock tab k)
    then have k: "k \<in> set (rows_of lk tx tab)" using assms Some by (auto simp: indexed_def)
    then obtain ks where "map_of (tx_rows lk tx) tab = Some ks" "k \<in> set ks"
      by (cases "map_of (tx_rows lk tx) tab") (auto simp: rows_of_def dict_get_def)
    then have "(tab, ks) \<in> set (tx_rows lk tx)" "key \<in> RowLock tab ` set ks"
      using RowLock by (auto dest: map_of_SomeD)
    then show ?thesis by blast
  qed
  then show ?thesis by (auto simp: holds_release_all_raw)
qed

lemma tables_release_all [simp]:
  "tx_tables (release_all tx lk) tx' = (if tx' = tx then [] else tx_tables lk tx')"
  "rows_of (release_all tx lk) tx' tab = (if tx' = tx then [] else rows_of lk tx' tab)"
  by (auto simp: release_all_def Let_def tx_tables_def rows_of_def tx_rows_def)

lemma indexed_release_all: "indexed lk \<Longrightarrow> indexed (release_all tx lk)"
  unfolding indexed_def [of "release_all tx lk"]
  by (auto simp: holds_release_all) (auto simp: indexed_def)

section \<open>Compatible holders\<close>

text \<open>
  Two holders of one resource coexist when their modes are compatible. The one exception the code makes:
  a transaction that holds S and asks for IX is recorded with X, though another one may hold IS.
\<close>

fun coexist :: "lock_key \<Rightarrow> mode \<Rightarrow> mode \<Rightarrow> bool" where
  "coexist (RowLock tab k) m m' = (m \<noteq> MX \<and> m' \<noteq> MX)"
| "coexist (TableLock tab) m m' =
     (table_compat m m' \<or> (m = MX \<and> m' = MIS) \<or> (m = MIS \<and> m' = MX))"

definition compatible :: "locks \<Rightarrow> bool" where
  "compatible lk \<longleftrightarrow> (\<forall>key tx tx' m m'. tx \<noteq> tx' \<longrightarrow> holds lk key tx = Some m \<longrightarrow>
     holds lk key tx' = Some m' \<longrightarrow> coexist key m m')"

lemma table_compat_sym: "table_compat m m' = table_compat m' m"
  by (cases m; cases m') auto

lemma coexist_sym: "coexist key m m' = coexist key m' m"
  by (cases key) (auto simp: table_compat_sym)

lemma compatible_waiters [simp]:
  "compatible (enqueue_waiter key tx mode ev lk) = compatible lk"
  "compatible (dequeue_waiter key ev lk) = compatible lk"
  by (simp_all add: compatible_def)

lemma compatible_shrink:
  "compatible lk \<Longrightarrow> (\<And>key tx m. holds lk' key tx = Some m \<Longrightarrow> holds lk key tx = Some m) \<Longrightarrow> compatible lk'"
  unfolding compatible_def by blast

lemma compatible_add:
  assumes "compatible lk"
    and "\<And>key' tx'. holds lk' key' tx' = (if key' = key \<and> tx' = tx then Some m else holds lk key' tx')"
    and "\<And>tx' m'. tx' \<noteq> tx \<Longrightarrow> holds lk key tx' = Some m' \<Longrightarrow> coexist key m m'"
  shows "compatible lk'"
  unfolding compatible_def
proof (intro allI impI)
  fix k t t' n n' assume h: "t \<noteq> t'" "holds lk' k t = Some n" "holds lk' k t' = Some n'"
  consider "k = key" "t = tx" | "k = key" "t' = tx" | "holds lk k t = Some n" "holds lk k t' = Some n'"
    using h by (auto simp: assms(2) split: if_splits)
  then show "coexist k n n'"
  proof cases
    case 1
    then have "n = m" "holds lk key t' = Some n'" using h by (auto simp: assms(2))
    then show ?thesis using assms(3) [of t' n'] h(1) 1 by simp
  next
    case 2
    then have "n' = m" "holds lk key t = Some n" using h by (auto simp: assms(2))
    then show ?thesis using assms(3) [of t n] h(1) 2 by (simp add: coexist_sym)
  next
    case 3 then show ?thesis using h(1) assms(1) by (auto simp: compatible_def)
  qed
qed

lemma grantable_iff:
  "grantable lk key mode tx \<longleftrightarrow>
     (\<forall>(tx', held)\<in>set (holders lk key). tx' \<noteq> tx \<longrightarrow> holder_compat key held mode)"
  by (simp add: grantable_def grantable_holders_iff holders_def)

lemma grantable_holds:
  "grantable lk key mode tx \<Longrightarrow> tx' \<noteq> tx \<Longrightarrow> holds lk key tx' = Some held \<Longrightarrow> holder_compat key held mode"
  by (auto simp: grantable_iff holds_def dest!: map_of_SomeD)

lemma combined_coexist:
  assumes "table_compat o' mode" and "\<forall>h. held = Some h \<longrightarrow> coexist (TableLock tab) h o'"
  shows "coexist (TableLock tab) (combined_mode held mode) o'"
  using assms by (cases held; cases o'; cases mode) (auto simp: combined_mode_def doubleton_eq_iff split: if_splits)

lemma compatible_record_table:
  assumes "compatible lk" "indexed lk" "grantable lk (TableLock tab) mode tx"
  shows "compatible (record_table tx tab mode lk)"
proof (rule compatible_add [OF assms(1)])
  fix tx' m' assume h: "tx' \<noteq> tx" "holds lk (TableLock tab) tx' = Some m'"
  show "coexist (TableLock tab) (combined_mode (map_of (tx_tables lk tx) tab) mode) m'"
  proof (rule combined_coexist)
    show "table_compat m' mode" using grantable_holds [OF assms(3) h] by simp
    show "\<forall>h. map_of (tx_tables lk tx) tab = Some h \<longrightarrow> coexist (TableLock tab) h m'"
    proof safe
      fix h assume "map_of (tx_tables lk tx) tab = Some h"
      then have "holds lk (TableLock tab) tx = Some h" using assms(2) by (simp add: indexed_def)
      then show "coexist (TableLock tab) h m'" using h assms(1) unfolding compatible_def by metis
    qed
  qed
qed simp

lemma compatible_escalate_rows: "compatible lk \<Longrightarrow> compatible (escalate_rows tx tab lk)"
  by (erule compatible_shrink) (auto simp: holds_escalate_rows split: if_splits)

lemma compatible_escalate: "compatible lk \<Longrightarrow> indexed lk \<Longrightarrow> compatible (escalate tx tab lk)"
  by (simp add: escalate_split Let_def compatible_escalate_rows compatible_record_table indexed_escalate_rows)

lemma compatible_record_row:
  assumes "compatible lk" "indexed lk" "grantable lk (RowLock tab k) mode tx"
  shows "compatible (record_row tx tab k mode lk)"
proof -
  have "compatible (record_row_only tx tab k mode lk)"
  proof (rule compatible_add [OF assms(1)])
    fix tx' m' assume "tx' \<noteq> tx" "holds lk (RowLock tab k) tx' = Some m'"
    then show "coexist (RowLock tab k) mode m'" using grantable_holds [OF assms(3)] by auto
  qed simp
  then show ?thesis
    by (simp add: record_row_split Let_def compatible_escalate indexed_record_row_only assms(2))
qed

lemma compatible_release_all: "compatible lk \<Longrightarrow> compatible (release_all tx lk)"
  by (erule compatible_shrink) (auto simp: holds_release_all_raw split: if_splits)

lemma compatible_new [simp]: "compatible (new_locks n)"
  by (simp add: compatible_def new_locks_def holds_def holders_def resource_at_def empty_resource_def)

section \<open>Threads\<close>

text \<open>
  A thread is idle, waits on a key with its event, or has been granted a key and not yet recorded it.
  A blocked thread runs the loop of \<open>_acquire\<close>: detect, test the grant, wait. \<open>record_grant\<close> is the
  block of \<open>acquire_table\<close> or \<open>acquire_row\<close> that follows the loop.
\<close>

datatype thread = Idle | Waiting lock_key mode lock_event | Granted lock_key mode

record lock_system =
  ls_locks :: locks
  ls_thread :: "txid \<Rightarrow> thread"

fun record_grant :: "lock_key \<Rightarrow> txid \<Rightarrow> mode \<Rightarrow> locks \<Rightarrow> locks" where
  "record_grant (TableLock tab) tx mode lk = record_table tx tab mode lk"
| "record_grant (RowLock tab k) tx mode lk = record_row tx tab k mode lk"

definition start_system :: "nat \<Rightarrow> lock_system" where
  "start_system threshold = \<lparr>ls_locks = new_locks threshold, ls_thread = (\<lambda>_. Idle)\<rparr>"

definition set_thread :: "txid \<Rightarrow> thread \<Rightarrow> locks \<Rightarrow> lock_system \<Rightarrow> lock_system" where
  "set_thread tx th lk s = \<lparr>ls_locks = lk, ls_thread = (ls_thread s)(tx := th)\<rparr>"

text \<open>Any thread may run between two critical sections.\<close>

inductive race_step :: "lock_system \<Rightarrow> lock_system \<Rightarrow> bool" where
  race_start: "ls_thread s tx = Idle \<Longrightarrow> start_acquire key tx mode ev (ls_locks s) = (lk, True) \<Longrightarrow>
    race_step s (set_thread tx (Granted key mode) lk s)"
| race_queue: "ls_thread s tx = Idle \<Longrightarrow> start_acquire key tx mode ev (ls_locks s) = (lk, False) \<Longrightarrow>
    race_step s (set_thread tx (Waiting key mode ev) lk s)"
| race_grant: "ls_thread s tx = Waiting key mode ev \<Longrightarrow> grantable (ls_locks s) key mode tx \<Longrightarrow>
    race_step s (set_thread tx (Granted key mode) (dequeue_waiter key ev (ls_locks s)) s)"
| race_victim: "ls_thread s tx = Waiting key mode ev \<Longrightarrow> detect_deadlock (ls_locks s) = Some tx \<Longrightarrow>
    race_step s (set_thread tx Idle (dequeue_waiter key ev (ls_locks s)) s)"
| race_timeout: "ls_thread s tx = Waiting key mode ev \<Longrightarrow>
    race_step s (set_thread tx Idle (dequeue_waiter key ev (ls_locks s)) s)"
| race_record: "ls_thread s tx = Granted key mode \<Longrightarrow>
    race_step s (set_thread tx Idle (record_grant key tx mode (ls_locks s)) s)"
| race_release: "ls_thread s tx = Idle \<Longrightarrow> race_step s (set_thread tx Idle (release_all tx (ls_locks s)) s)"

text \<open>A grant is recorded at once.\<close>

inductive lock_step :: "lock_system \<Rightarrow> lock_system \<Rightarrow> bool" where
  step_start: "ls_thread s tx = Idle \<Longrightarrow> start_acquire key tx mode ev (ls_locks s) = (lk, True) \<Longrightarrow>
    lock_step s (set_thread tx Idle (record_grant key tx mode lk) s)"
| step_queue: "ls_thread s tx = Idle \<Longrightarrow> start_acquire key tx mode ev (ls_locks s) = (lk, False) \<Longrightarrow>
    lock_step s (set_thread tx (Waiting key mode ev) lk s)"
| step_grant: "ls_thread s tx = Waiting key mode ev \<Longrightarrow> grantable (ls_locks s) key mode tx \<Longrightarrow>
    lock_step s (set_thread tx Idle (record_grant key tx mode (dequeue_waiter key ev (ls_locks s))) s)"
| step_victim: "ls_thread s tx = Waiting key mode ev \<Longrightarrow> detect_deadlock (ls_locks s) = Some tx \<Longrightarrow>
    lock_step s (set_thread tx Idle (dequeue_waiter key ev (ls_locks s)) s)"
| step_timeout: "ls_thread s tx = Waiting key mode ev \<Longrightarrow>
    lock_step s (set_thread tx Idle (dequeue_waiter key ev (ls_locks s)) s)"
| step_release: "ls_thread s tx = Idle \<Longrightarrow> lock_step s (set_thread tx Idle (release_all tx (ls_locks s)) s)"

lemma set_thread_locks [simp]: "ls_locks (set_thread tx th lk s) = lk"
  by (simp add: set_thread_def)

lemma set_thread_thread [simp]:
  "ls_thread (set_thread tx th lk s) tx' = (if tx' = tx then th else ls_thread s tx')"
  by (simp add: set_thread_def)

lemma start_granted: "start_acquire key tx mode ev lk = (lk', True) \<Longrightarrow> lk' = lk \<and> grantable lk key mode tx"
  by (auto simp: start_acquire_def split: if_splits)

lemma start_queued:
  "start_acquire key tx mode ev lk = (lk', False) \<Longrightarrow>
     lk' = enqueue_waiter key tx mode ev lk \<and> \<not> grantable lk key mode tx"
  by (auto simp: start_acquire_def split: if_splits)

lemma holders_dequeue [simp]: "holders (dequeue_waiter key ev lk) key' = holders lk key'"
  by (auto simp: holders_def dequeue_waiter_def Let_def)

lemma grantable_dequeue [simp]: "grantable (dequeue_waiter key ev lk) = grantable lk"
  by (auto simp: fun_eq_iff grantable_iff)

definition locks_ok :: "locks \<Rightarrow> bool" where
  "locks_ok lk \<longleftrightarrow> indexed lk \<and> compatible lk"

lemma indexed_record_grant: "indexed lk \<Longrightarrow> indexed (record_grant key tx mode lk)"
  by (cases key) (auto simp: indexed_record_table indexed_record_row)

lemma locks_ok_record_grant:
  "locks_ok lk \<Longrightarrow> grantable lk key mode tx \<Longrightarrow> locks_ok (record_grant key tx mode lk)"
  by (cases key) (auto simp: locks_ok_def indexed_record_table indexed_record_row compatible_record_table
      compatible_record_row)

lemma locks_ok_waiters [simp]:
  "locks_ok (enqueue_waiter key tx mode ev lk) = locks_ok lk"
  "locks_ok (dequeue_waiter key ev lk) = locks_ok lk"
  by (simp_all add: locks_ok_def)

lemma lock_step_ok: "lock_step s s' \<Longrightarrow> locks_ok (ls_locks s) \<Longrightarrow> locks_ok (ls_locks s')"
proof (induction rule: lock_step.induct)
  case (step_start s tx key mode ev lk)
  then show ?case using start_granted locks_ok_record_grant by fastforce
next
  case (step_queue s tx key mode ev lk)
  then show ?case using start_queued by (fastforce simp: locks_ok_def)
next
  case (step_grant s tx key mode ev)
  then show ?case by (simp add: locks_ok_record_grant)
qed (auto simp: locks_ok_def indexed_release_all compatible_release_all)

lemma lock_reachable_ok: "lock_step\<^sup>*\<^sup>* (start_system n) s \<Longrightarrow> locks_ok (ls_locks s)"
  by (induction rule: rtranclp_induct) (auto simp: start_system_def locks_ok_def dest: lock_step_ok [unfolded locks_ok_def])

lemma race_step_indexed: "race_step s s' \<Longrightarrow> indexed (ls_locks s) \<Longrightarrow> indexed (ls_locks s')"
  by (induction rule: race_step.induct)
    (auto simp: indexed_release_all indexed_record_grant dest!: start_granted start_queued)

lemma race_reachable_indexed: "race_step\<^sup>*\<^sup>* (start_system n) s \<Longrightarrow> indexed (ls_locks s)"
  by (induction rule: rtranclp_induct) (auto simp: start_system_def dest: race_step_indexed)

end
