(* ===== verification/Wal.thy ===== *)
theory Wal
  imports MvccTable
begin

text \<open>
  The write-ahead log, \<^verbatim>\<open>minidb/txn/wal.py\<close>: the records, the writer thread with its queue and its
  durable prefix, the repair of a torn tail, and the reading of a log at recovery.

  A record is a JSON object; a line of the file is \<open>Some\<close> record, or \<open>None\<close> for text that does not
  parse. The file's bytes matter for the torn tail only, and \<open>truncate_torn_tail\<close> works on bytes.
\<close>

section \<open>Keys\<close>

definition encode_key :: "rowkey \<Rightarrow> json" where
  "encode_key k =
     (case k of
        KVal v \<Rightarrow> json_of_value v
      | KTup vs \<Rightarrow> JObj [(''__tuple__'', JArr (map json_of_value vs))])"

text \<open>
  A document that encodes no row key (an object without the tuple field, an array) is rejected here; the
  program would go on and fail when it uses the key.
\<close>

definition decode_key :: "json \<Rightarrow> rowkey result" where
  "decode_key j =
     (case field_opt ''__tuple__'' j of
        Some ks \<Rightarrow> bind_result (as_list ks) (\<lambda>xs. bind_result (map_result value_of_json xs) (\<lambda>vs. Inr (KTup vs)))
      | None \<Rightarrow> bind_result (value_of_json j) (\<lambda>v. Inr (KVal v)))"

lemma field_opt_value [simp]: "field_opt n (json_of_value v) = None"
  by (cases v) (simp_all add: field_opt_def)

lemma decode_encode_key [simp]: "decode_key (encode_key k) = Inr k"
  by (cases k) (simp_all add: decode_key_def encode_key_def)

section \<open>Records\<close>

definition rec_begin :: "txid \<Rightarrow> json" where
  "rec_begin tx = JObj [(''ty'', JStr ''begin''), (''txid'', JInt (int tx))]"

definition rec_create :: "txid \<Rightarrow> json \<Rightarrow> json" where
  "rec_create tx schema =
     JObj [(''ty'', JStr ''create''), (''txid'', JInt (int tx)), (''schema'', schema)]"

definition rec_insert :: "txid \<Rightarrow> string \<Rightarrow> rowkey \<Rightarrow> pyval list \<Rightarrow> json" where
  "rec_insert tx tab key row =
     JObj [(''ty'', JStr ''insert''), (''txid'', JInt (int tx)), (''table'', JStr tab),
           (''key'', encode_key key), (''row'', JArr (map json_of_value row))]"

definition rec_update :: "txid \<Rightarrow> string \<Rightarrow> rowkey \<Rightarrow> pyval list \<Rightarrow> json" where
  "rec_update tx tab key row =
     JObj [(''ty'', JStr ''update''), (''txid'', JInt (int tx)), (''table'', JStr tab),
           (''key'', encode_key key), (''row'', JArr (map json_of_value row))]"

definition rec_delete :: "txid \<Rightarrow> string \<Rightarrow> rowkey \<Rightarrow> json" where
  "rec_delete tx tab key =
     JObj [(''ty'', JStr ''delete''), (''txid'', JInt (int tx)), (''table'', JStr tab),
           (''key'', encode_key key)]"

definition rec_abort :: "txid \<Rightarrow> json" where
  "rec_abort tx = JObj [(''ty'', JStr ''abort''), (''txid'', JInt (int tx))]"

definition rec_commit :: "txid \<Rightarrow> json" where
  "rec_commit tx = JObj [(''ty'', JStr ''commit''), (''txid'', JInt (int tx))]"

section \<open>The writer\<close>

text \<open>
  A queue item is a record with, for a commit, the transaction that waits for it. \<open>wal_lines\<close> are the
  lines written, the first \<open>wal_synced\<close> of them forced to disk; \<open>wal_done\<close> and \<open>wal_failed\<close> are the
  commit requests whose event is set without and with an error.
\<close>

record wal =
  wal_queue :: "(json \<times> txid option) list"
  wal_lines :: "json list"
  wal_synced :: nat
  wal_done :: "txid list"
  wal_failed :: "txid list"

definition new_wal :: "json list \<Rightarrow> wal" where
  "new_wal ls = \<lparr>wal_queue = [], wal_lines = ls, wal_synced = length ls, wal_done = [], wal_failed = []\<rparr>"

definition wal_put :: "json \<Rightarrow> wal \<Rightarrow> wal" where
  "wal_put r w = w\<lparr>wal_queue := wal_queue w @ [(r, None)]\<rparr>"

definition log_begin :: "txid \<Rightarrow> wal \<Rightarrow> wal" where
  "log_begin tx = wal_put (rec_begin tx)"

definition log_create_table :: "txid \<Rightarrow> json \<Rightarrow> wal \<Rightarrow> wal" where
  "log_create_table tx schema = wal_put (rec_create tx schema)"

definition log_insert :: "txid \<Rightarrow> string \<Rightarrow> rowkey \<Rightarrow> pyval list \<Rightarrow> wal \<Rightarrow> wal" where
  "log_insert tx tab key row = wal_put (rec_insert tx tab key row)"

definition log_update :: "txid \<Rightarrow> string \<Rightarrow> rowkey \<Rightarrow> pyval list \<Rightarrow> wal \<Rightarrow> wal" where
  "log_update tx tab key row = wal_put (rec_update tx tab key row)"

definition log_delete :: "txid \<Rightarrow> string \<Rightarrow> rowkey \<Rightarrow> wal \<Rightarrow> wal" where
  "log_delete tx tab key = wal_put (rec_delete tx tab key)"

definition log_abort :: "txid \<Rightarrow> wal \<Rightarrow> wal" where
  "log_abort tx = wal_put (rec_abort tx)"

definition wal_request :: "txid \<Rightarrow> wal \<Rightarrow> wal" where
  "wal_request tx w = w\<lparr>wal_queue := wal_queue w @ [(rec_commit tx, Some tx)]\<rparr>"

text \<open>
  One turn of the loop of \<open>_run\<close>; \<open>disk_ok\<close> says whether the write and the sync succeed. A failed turn
  sets the error of a commit request and forgets any other record.
\<close>

definition writer_turn :: "bool \<Rightarrow> wal \<Rightarrow> wal" where
  "writer_turn disk_ok w =
     (case wal_queue w of
        [] \<Rightarrow> w
      | (r, req) # rest \<Rightarrow>
          let w1 = w\<lparr>wal_queue := rest\<rparr>
          in if disk_ok then
               let w2 = w1\<lparr>wal_lines := wal_lines w1 @ [r]\<rparr>
               in case req of
                    None \<Rightarrow> w2
                  | Some tx \<Rightarrow> w2\<lparr>wal_synced := length (wal_lines w2), wal_done := wal_done w2 @ [tx]\<rparr>
             else case req of
                    None \<Rightarrow> w1
                  | Some tx \<Rightarrow> w1\<lparr>wal_failed := wal_failed w1 @ [tx]\<rparr>)"

fun writer_turns :: "bool \<Rightarrow> nat \<Rightarrow> wal \<Rightarrow> wal" where
  "writer_turns disk_ok 0 w = w"
| "writer_turns disk_ok (Suc n) w = writer_turns disk_ok n (writer_turn disk_ok w)"

text \<open>
  \<open>commit\<close> queues its record and waits for the event; with no other caller the writer works through the
  queue meanwhile.
\<close>

definition wal_commit :: "bool \<Rightarrow> txid \<Rightarrow> wal \<Rightarrow> wal \<times> unit result" where
  "wal_commit disk_ok tx w =
     (let w1 = wal_request tx w;
          w2 = writer_turns disk_ok (length (wal_queue w1)) w1
      in (w2, if tx \<in> set (wal_failed w2) then Inl WALError else Inr ()))"

text \<open>\<open>close\<close> lets the writer finish and syncs; \<open>reset\<close> then empties the file.\<close>

definition wal_close :: "wal \<Rightarrow> wal" where
  "wal_close w =
     (let w1 = writer_turns True (length (wal_queue w)) w in w1\<lparr>wal_synced := length (wal_lines w1)\<rparr>)"

definition wal_reset :: "wal \<Rightarrow> wal" where
  "wal_reset w = (wal_close w)\<lparr>wal_lines := [], wal_synced := 0, wal_queue := []\<rparr>"

section \<open>The torn tail\<close>

definition newline :: char where
  "newline = CHR 10"

definition rfind :: "char \<Rightarrow> string \<Rightarrow> nat option" where
  "rfind c s =
     (let after = takeWhile (\<lambda>x. x \<noteq> c) (rev s)
      in if length after = length s then None else Some (length s - length after - 1))"

definition truncate_torn_tail :: "string \<Rightarrow> string" where
  "truncate_torn_tail file =
     (if file = [] then file
      else let size = length file;
               start = size - 4096;
               tail = drop start file
           in if last tail = newline then file
              else case rfind newline tail of
                     None \<Rightarrow> []
                   | Some last_nl \<Rightarrow> take (start + last_nl + 1) file)"

section \<open>Reading a log\<close>

text \<open>
  The loop of \<open>read_wal\<close> over the lines: it stops at the first line that does not parse. Transaction ids
  are compared as documents.
\<close>

fun scan_log :: "json option list \<Rightarrow> json list \<Rightarrow> json list \<Rightarrow> json list \<Rightarrow>
    (json list \<times> json list \<times> json list) result" where
  "scan_log [] committed aborted recs = Inr (committed, aborted, recs)"
| "scan_log (None # ls) committed aborted recs = Inr (committed, aborted, recs)"
| "scan_log (Some r # ls) committed aborted recs =
     (case r of
        JObj fs \<Rightarrow>
          if field_opt ''ty'' r = Some (JStr ''commit'') then
            bind_result (field ''txid'' r) (\<lambda>tx. scan_log ls (List.insert tx committed) aborted recs)
          else if field_opt ''ty'' r = Some (JStr ''abort'') then
            bind_result (field ''txid'' r) (\<lambda>tx. scan_log ls committed (List.insert tx aborted) recs)
          else scan_log ls committed aborted (recs @ [r])
      | _ \<Rightarrow> Inl AttributeError)"

definition read_wal :: "json option list \<Rightarrow> (json list \<times> json list) result" where
  "read_wal ls =
     bind_result (scan_log ls [] [] [])
       (\<lambda>(committed, aborted, recs).
          let done = filter (\<lambda>tx. tx \<notin> set aborted) committed
          in Inr (done, filter (\<lambda>r. (case field_opt ''txid'' r of Some tx \<Rightarrow> tx | None \<Rightarrow> JNull) \<in> set done) recs))"

end
