(* ===== verification/WalCorrect.thy ===== *)
theory WalCorrect
  imports Wal
begin

text \<open>
  What the log guarantees. The writer keeps the order of the queue, and a commit that has been
  acknowledged has its record, and every record queued before it, in the durable prefix: whatever part
  of the unsynced lines a crash leaves, recovery reads that transaction as committed with all its
  records. \<open>truncate_torn_tail\<close> cuts exactly the torn record when that record is shorter than one block.
\<close>

section \<open>The log as a function of what was queued\<close>

datatype wal_action = Put json | Request txid | Turn

fun wal_act :: "wal_action \<Rightarrow> wal \<Rightarrow> wal" where
  "wal_act (Put r) w = wal_put r w"
| "wal_act (Request tx) w = wal_request tx w"
| "wal_act Turn w = writer_turn True w"

definition wal_run :: "wal_action list \<Rightarrow> wal \<Rightarrow> wal" where
  "wal_run acts w = fold wal_act acts w"

fun queued_item :: "wal_action \<Rightarrow> (json \<times> txid option) list" where
  "queued_item (Put r) = [(r, None)]"
| "queued_item (Request tx) = [(rec_commit tx, Some tx)]"
| "queued_item Turn = []"

definition queued :: "wal_action list \<Rightarrow> (json \<times> txid option) list" where
  "queued acts = concat (map queued_item acts)"

definition written :: "json list \<Rightarrow> (json \<times> txid option) list \<Rightarrow> nat \<Rightarrow> wal \<Rightarrow> bool" where
  "written ls H n w \<longleftrightarrow> n \<le> length H \<and> wal_queue w = drop n H \<and>
     wal_lines w = ls @ map fst (take n H) \<and> wal_done w = List.map_filter snd (take n H) \<and> wal_failed w = [] \<and>
     wal_synced w \<le> length (wal_lines w) \<and>
     (\<forall>i<n. snd (H ! i) \<noteq> None \<longrightarrow> length ls + i < wal_synced w)"

lemma written_new: "written ls [] 0 (new_wal ls)"
  by (simp add: written_def new_wal_def List.map_filter_simps)

lemma written_queue:
  "written ls H n w \<Longrightarrow> written ls (H @ [it]) n (w\<lparr>wal_queue := wal_queue w @ [it]\<rparr>)"
  by (auto simp: written_def nth_append)

lemma map_filter_snoc:
  "List.map_filter f (xs @ [x]) = List.map_filter f xs @ (case f x of None \<Rightarrow> [] | Some y \<Rightarrow> [y])"
  by (simp add: List.map_filter_def split: option.splits)

lemma writer_turn_simps:
  "wal_queue w = (r, None) # rest \<Longrightarrow>
     writer_turn True w = w\<lparr>wal_queue := rest, wal_lines := wal_lines w @ [r]\<rparr>"
  "wal_queue w = (r, Some tx) # rest \<Longrightarrow>
     writer_turn True w = w\<lparr>wal_queue := rest, wal_lines := wal_lines w @ [r],
       wal_synced := length (wal_lines w) + 1, wal_done := wal_done w @ [tx]\<rparr>"
  by (simp_all add: writer_turn_def)

lemma written_turn:
  assumes "written ls H n w"
  shows "\<exists>n'. written ls H n' (writer_turn True w)"
proof (cases "n < length H")
  case False
  then have "wal_queue w = []" using assms by (simp add: written_def)
  then have "writer_turn True w = w" by (simp add: writer_turn_def)
  then show ?thesis using assms by auto
next
  case True
  obtain r req where it: "H ! n = (r, req)" by (cases "H ! n")
  have q: "wal_queue w = (r, req) # drop (Suc n) H" using assms True it by (simp add: written_def Cons_nth_drop_Suc [symmetric])
  have take: "take (Suc n) H = take n H @ [(r, req)]" using True it by (simp add: take_Suc_conv_app_nth)
  have len: "length (take n H) = n" using True by simp
  have "written ls H (Suc n) (writer_turn True w)"
  proof (cases req)
    case None
    show ?thesis using assms True take it None
      by (auto simp: written_def writer_turn_simps(1) [OF q [unfolded None]] map_filter_snoc less_Suc_eq)
  next
    case (Some tx)
    show ?thesis using assms True take it Some
      by (auto simp: written_def writer_turn_simps(2) [OF q [unfolded Some]] map_filter_snoc less_Suc_eq)
  qed
  then show ?thesis by blast
qed

lemma written_act: "written ls H n w \<Longrightarrow> \<exists>n'. written ls (H @ queued_item a) n' (wal_act a w)"
  using written_queue [of ls H n w] written_turn [of ls H n w]
  by (cases a) (auto simp: wal_put_def wal_request_def)

lemma written_run: "written ls H n w \<Longrightarrow> \<exists>n'. written ls (H @ queued acts) n' (wal_run acts w)"
proof (induction acts arbitrary: H n w)
  case (Cons a acts)
  obtain n' where "written ls (H @ queued_item a) n' (wal_act a w)" using written_act [OF Cons.prems] by blast
  from Cons.IH [OF this] show ?case by (simp add: queued_def wal_run_def)
qed (auto simp: queued_def wal_run_def)

section \<open>Reading what was written\<close>

definition is_type :: "string \<Rightarrow> json \<Rightarrow> bool" where
  "is_type ty r \<longleftrightarrow> field_opt ''ty'' r = Some (JStr ty)"

definition is_data :: "json \<Rightarrow> bool" where
  "is_data r \<longleftrightarrow> \<not> is_type ''commit'' r \<and> \<not> is_type ''abort'' r"

definition rec_txid :: "json \<Rightarrow> json" where
  "rec_txid r = (case field_opt ''txid'' r of Some tx \<Rightarrow> tx | None \<Rightarrow> JNull)"

definition is_record :: "json \<Rightarrow> bool" where
  "is_record r \<longleftrightarrow> field_opt ''txid'' r \<noteq> None"

definition committed_in :: "json list \<Rightarrow> json set" where
  "committed_in rs = rec_txid ` {r \<in> set rs. is_type ''commit'' r}"

definition aborted_in :: "json list \<Rightarrow> json set" where
  "aborted_in rs = rec_txid ` {r \<in> set rs. is_type ''abort'' r}"

definition unreadable :: "json option list \<Rightarrow> bool" where
  "unreadable ls \<longleftrightarrow> ls = [] \<or> hd ls = None"

lemma is_record_cases: "is_record r \<Longrightarrow> \<exists>fs. r = JObj fs \<and> field ''txid'' r = Inr (rec_txid r)"
  by (cases r) (auto simp: is_record_def field_opt_def field_def rec_txid_def)

lemma scan_log_records:
  assumes "\<forall>r\<in>set rs. is_record r" "unreadable rest"
  shows "\<exists>c' a'. scan_log (map Some rs @ rest) c a k = Inr (c', a', k @ filter is_data rs) \<and>
    set c' = set c \<union> committed_in rs \<and> set a' = set a \<union> aborted_in rs"
  using assms(1)
proof (induction rs arbitrary: c a k)
  case Nil
  then show ?case using assms(2)
    by (cases rest) (auto simp: unreadable_def committed_in_def aborted_in_def)
next
  case (Cons r rs)
  obtain fs where r: "r = JObj fs" "field ''txid'' r = Inr (rec_txid r)"
    using is_record_cases [of r] Cons.prems by auto
  have rest: "\<forall>r\<in>set rs. is_record r" using Cons.prems by simp
  consider "is_type ''commit'' r" | "is_type ''abort'' r" "\<not> is_type ''commit'' r"
    | "is_data r" by (auto simp: is_data_def)
  then show ?case
  proof cases
    case 1
    then have "scan_log (map Some (r # rs) @ rest) c a k = scan_log (map Some rs @ rest) (List.insert (rec_txid r) c) a k"
      using r by (simp add: is_type_def)
    moreover have "committed_in (r # rs) = insert (rec_txid r) (committed_in rs)"
      using 1 by (auto simp: committed_in_def)
    moreover have "aborted_in (r # rs) = aborted_in rs" using 1 by (auto simp: aborted_in_def is_type_def)
    ultimately show ?thesis
      using Cons.IH [OF rest, of "List.insert (rec_txid r) c" a k] 1 by (auto simp: is_data_def)
  next
    case 2
    then have "scan_log (map Some (r # rs) @ rest) c a k = scan_log (map Some rs @ rest) c (List.insert (rec_txid r) a) k"
      using r by (simp add: is_type_def)
    moreover have "committed_in (r # rs) = committed_in rs" using 2 by (auto simp: committed_in_def)
    moreover have "aborted_in (r # rs) = insert (rec_txid r) (aborted_in rs)" using 2 by (auto simp: aborted_in_def)
    ultimately show ?thesis
      using Cons.IH [OF rest, of c "List.insert (rec_txid r) a" k] 2 by (auto simp: is_data_def)
  next
    case 3
    then have "scan_log (map Some (r # rs) @ rest) c a k = scan_log (map Some rs @ rest) c a (k @ [r])"
      using r by (simp add: is_data_def is_type_def)
    moreover have "committed_in (r # rs) = committed_in rs" "aborted_in (r # rs) = aborted_in rs"
      using 3 by (auto simp: committed_in_def aborted_in_def is_data_def)
    ultimately show ?thesis using Cons.IH [OF rest, of c a "k @ [r]"] 3 by auto
  qed
qed

lemma read_wal_records:
  assumes "\<forall>r\<in>set rs. is_record r" "unreadable rest"
  shows "\<exists>ids. read_wal (map Some rs @ rest) =
      Inr (ids, filter (\<lambda>r. is_data r \<and> rec_txid r \<in> set ids) rs) \<and>
    set ids = committed_in rs - aborted_in rs"
proof -
  obtain c a where ca: "scan_log (map Some rs @ rest) [] [] [] = Inr (c, a, filter is_data rs)"
    "set c = committed_in rs" "set a = aborted_in rs"
    using scan_log_records [OF assms, of "[]" "[]" "[]"] by auto
  have "filter (\<lambda>r. is_data r \<and> P r) rs = filter P (filter is_data rs)" for P
    by (simp add: conj_commute)
  then show ?thesis using ca by (auto simp: read_wal_def Let_def rec_txid_def [abs_def])
qed

lemma record_simps [simp]:
  "is_record (rec_begin tx)" "is_record (rec_create tx j)" "is_record (rec_insert tx tab key row)"
  "is_record (rec_update tx tab key row)" "is_record (rec_delete tx tab key)" "is_record (rec_abort tx)"
  "is_record (rec_commit tx)"
  "rec_txid (rec_begin tx) = JInt (int tx)" "rec_txid (rec_create tx j) = JInt (int tx)"
  "rec_txid (rec_insert tx tab key row) = JInt (int tx)" "rec_txid (rec_update tx tab key row) = JInt (int tx)"
  "rec_txid (rec_delete tx tab key) = JInt (int tx)" "rec_txid (rec_abort tx) = JInt (int tx)"
  "rec_txid (rec_commit tx) = JInt (int tx)"
  "is_data (rec_begin tx)" "is_data (rec_create tx j)" "is_data (rec_insert tx tab key row)"
  "is_data (rec_update tx tab key row)" "is_data (rec_delete tx tab key)"
  "\<not> is_data (rec_abort tx)" "\<not> is_data (rec_commit tx)"
  "is_type ''commit'' (rec_commit tx)" "\<not> is_type ''commit'' (rec_abort tx)" "is_type ''abort'' (rec_abort tx)"
  by (simp_all add: is_record_def rec_txid_def is_data_def is_type_def rec_begin_def rec_create_def
      rec_insert_def rec_update_def rec_delete_def rec_abort_def rec_commit_def)

section \<open>Acknowledged commits survive\<close>

lemma map_filter_index:
  "tx \<in> set (List.map_filter snd (take n H)) \<Longrightarrow> n \<le> length H \<Longrightarrow> \<exists>i<n. snd (H ! i) = Some tx"
  by (auto simp: List.map_filter_def in_set_conv_nth)

lemma queued_request:
  "i < length (queued acts) \<Longrightarrow> snd (queued acts ! i) = Some tx \<Longrightarrow>
     \<exists>before after. acts = before @ Request tx # after \<and> length (queued before) = i"
proof (induction acts arbitrary: i)
  case (Cons a acts)
  let ?d = "queued_item a"
  have q: "queued (a # acts) = ?d @ queued acts" by (simp add: queued_def)
  show ?case
  proof (cases "i < length ?d")
    case True
    then have "a = Request tx \<and> i = 0" using Cons.prems q by (cases a) (auto simp: nth_append)
    then show ?thesis by (intro exI [of _ "[]"] exI [of _ acts]) (simp add: queued_def)
  next
    case False
    then have "i - length ?d < length (queued acts)" "snd (queued acts ! (i - length ?d)) = Some tx"
      using Cons.prems q by (auto simp: nth_append)
    then obtain before after where "acts = before @ Request tx # after" "length (queued before) = i - length ?d"
      using Cons.IH by blast
    then show ?thesis using False
      by (intro exI [of _ "a # before"] exI [of _ after]) (simp add: queued_def)
  qed
qed (simp add: queued_def)

lemma acknowledged_prefix:
  assumes "w = wal_run acts (new_wal ls)" "tx \<in> set (wal_done w)" "wal_synced w \<le> k"
  shows "\<exists>before after more. acts = before @ Request tx # after \<and>
    take k (wal_lines w) = ls @ map fst (queued before) @ rec_commit tx # more"
proof -
  let ?Q = "queued acts"
  obtain n where w: "written ls ?Q n w"
    using written_run [OF written_new [of ls], of acts] assms(1) by auto
  then obtain i where i: "i < n" "snd (?Q ! i) = Some tx"
    using map_filter_index [of tx n ?Q] assms(2) by (auto simp: written_def)
  have iQ: "i < length ?Q" using i(1) w by (simp add: written_def)
  obtain before after where ba: "acts = before @ Request tx # after" "length (queued before) = i"
    using queued_request [OF iQ i(2)] by blast
  have Q: "?Q = queued before @ (rec_commit tx, Some tx) # queued after" by (simp add: ba(1) queued_def)
  have k: "length ls + i < k" using i w assms(3) by (auto simp: written_def)
  have lines: "wal_lines w = ls @ map fst (take n ?Q)" using w by (simp add: written_def)
  have "take n ?Q = queued before @ (rec_commit tx, Some tx) # take (n - Suc i) (queued after)"
    using i(1) ba(2) by (simp add: Q take_Cons' Suc_diff_Suc)
  then have "take k (wal_lines w) = ls @ map fst (queued before) @ rec_commit tx #
      take (k - Suc (length ls + i)) (map fst (take (n - Suc i) (queued after)))"
    using k ba(2) by (simp add: lines take_Cons' Suc_diff_Suc)
  then show ?thesis using ba(1) by blast
qed

lemma queued_records:
  "(\<And>r. Put r \<in> set acts \<Longrightarrow> is_record r) \<Longrightarrow> \<forall>r\<in>fst ` set (queued acts). is_record r"
proof (induction acts)
  case (Cons a acts)
  then show ?case by (cases a) (auto simp: queued_def)
qed (simp add: queued_def)

lemma written_subset: "written ls H n w \<Longrightarrow> set (wal_lines w) \<subseteq> set ls \<union> fst ` set H"
  by (auto simp: written_def dest: in_set_takeD)

lemma aborted_in_mono: "set rs \<subseteq> set rs' \<Longrightarrow> aborted_in rs \<subseteq> aborted_in rs'"
  by (auto simp: aborted_in_def)

lemma commit_survives:
  assumes w: "w = wal_run acts (new_wal ls)" "tx \<in> set (wal_done w)" "wal_synced w \<le> k"
    and records: "\<forall>r\<in>set ls. is_record r" "\<And>r. Put r \<in> set acts \<Longrightarrow> is_record r"
    and live: "JInt (int tx) \<notin> aborted_in (ls @ map fst (queued acts))"
    and torn: "unreadable torn"
  shows "\<exists>before after ids recs more. acts = before @ Request tx # after \<and>
    read_wal (map Some (take k (wal_lines w)) @ torn) = Inr (ids, recs) \<and> JInt (int tx) \<in> set ids \<and>
    filter (\<lambda>r. rec_txid r = JInt (int tx)) recs =
      filter (\<lambda>r. is_data r \<and> rec_txid r = JInt (int tx)) (ls @ map fst (queued before)) @ more"
proof -
  let ?image = "take k (wal_lines w)"
  obtain before after more where ba: "acts = before @ Request tx # after"
    "?image = ls @ map fst (queued before) @ rec_commit tx # more"
    using acknowledged_prefix [OF w] by blast
  obtain n where "written ls (queued acts) n w" using written_run [OF written_new [of ls], of acts] w(1) by auto
  then have sub: "set ?image \<subseteq> set (ls @ map fst (queued acts))"
    using written_subset set_take_subset [of k "wal_lines w"] by fastforce
  have recs: "\<forall>r\<in>set ?image. is_record r"
    using sub records(1) queued_records [of acts, OF records(2)] by auto
  obtain ids where d: "read_wal (map Some ?image @ torn) =
      Inr (ids, filter (\<lambda>r. is_data r \<and> rec_txid r \<in> set ids) ?image)"
    "set ids = committed_in ?image - aborted_in ?image"
    using read_wal_records [OF recs torn] by blast
  have "JInt (int tx) \<in> committed_in ?image"
    by (auto simp: ba(2) committed_in_def image_iff intro!: exI [of _ "rec_commit tx"])
  then have tx: "JInt (int tx) \<in> set ids" using live aborted_in_mono [OF sub] d(2) by auto
  let ?P = "\<lambda>r. is_data r \<and> rec_txid r = JInt (int tx)"
  have "filter (\<lambda>r. rec_txid r = JInt (int tx)) (filter (\<lambda>r. is_data r \<and> rec_txid r \<in> set ids) ?image) = filter ?P ?image"
    using tx by (auto intro: filter_cong)
  also have "\<dots> = filter ?P (ls @ map fst (queued before)) @ filter ?P more"
    unfolding ba(2) by simp
  finally show ?thesis using ba(1) d(1) tx by blast
qed

section \<open>The torn tail\<close>

lemma rfind_torn:
  assumes "newline \<notin> set torn"
  shows "rfind newline torn = None"
    and "rfind newline (xs @ newline # torn) = Some (length xs)"
proof -
  have "takeWhile (\<lambda>x. x \<noteq> newline) (rev torn) = rev torn" using assms by (auto simp: takeWhile_eq_all_conv)
  then show "rfind newline torn = None" by (simp only: rfind_def Let_def length_rev) simp
  have "takeWhile (\<lambda>x. x \<noteq> newline) (rev (xs @ newline # torn)) = rev torn"
    using assms by (subst rev_append, subst rev.simps, subst append_assoc, subst takeWhile_append2) auto
  then show "rfind newline (xs @ newline # torn) = Some (length xs)"
    by (simp only: rfind_def Let_def length_rev) simp
qed

lemma truncate_complete: "file \<noteq> [] \<Longrightarrow> last file = newline \<Longrightarrow> truncate_torn_tail file = file"
  by (simp add: truncate_torn_tail_def Let_def last_drop)

lemma truncate_torn:
  assumes "lines = [] \<or> last lines = newline" "torn \<noteq> []" "newline \<notin> set torn"
  shows "truncate_torn_tail (lines @ torn) = (if length torn < 4096 then lines else [])"
proof -
  let ?file = "lines @ torn"
  let ?start = "length ?file - 4096"
  have "?start < length ?file" using assms(2) by (cases torn) auto
  then have "last (drop ?start ?file) = last torn" using assms(2) last_drop [of ?start ?file] by simp
  then have last: "last (drop ?start ?file) \<noteq> newline" using assms(3) last_in_set [OF assms(2)] by metis
  show ?thesis
  proof (cases "lines = [] \<or> 4096 \<le> length torn")
    case True
    then have "drop ?start ?file = drop (length torn - 4096) torn" by auto
    moreover have "newline \<notin> set (drop (length torn - 4096) torn)" using assms(3) by (auto dest: in_set_dropD)
    ultimately have "rfind newline (drop ?start ?file) = None" using rfind_torn(1) by metis
    then show ?thesis using True assms(2) last by (auto simp: truncate_torn_tail_def Let_def)
  next
    case False
    then obtain init where l: "lines = init @ [newline]" using assms(1) by (metis append_butlast_last_id)
    have tail: "drop ?start ?file = drop ?start init @ newline # torn" using False l by simp
    then have "rfind newline (drop ?start ?file) = Some (length init - ?start)"
      using rfind_torn(2) [OF assms(3), of "drop ?start init"] by simp
    moreover have "?start \<le> length init" using False l by simp
    ultimately show ?thesis using False l last by (auto simp: truncate_torn_tail_def Let_def)
  qed
qed

section \<open>Every commit request is answered\<close>

text \<open>
  Callers and the writer in any order, the disk failing or not in each turn of the writer. A turn takes one
  item from the queue, so a request is answered within as many turns as there were items before it, plus one.
\<close>

fun wal_step :: "wal_action \<times> bool \<Rightarrow> wal \<Rightarrow> wal" where
  "wal_step (Put r, ok) w = wal_put r w"
| "wal_step (Request tx, ok) w = wal_request tx w"
| "wal_step (Turn, ok) w = writer_turn ok w"

definition wal_steps :: "(wal_action \<times> bool) list \<Rightarrow> wal \<Rightarrow> wal" where
  "wal_steps acts w = fold wal_step acts w"

definition turns :: "(wal_action \<times> bool) list \<Rightarrow> nat" where
  "turns acts = length (filter (\<lambda>a. fst a = Turn) acts)"

definition answered :: "txid \<Rightarrow> wal \<Rightarrow> bool" where
  "answered tx w \<longleftrightarrow> tx \<in> set (wal_done w) \<or> tx \<in> set (wal_failed w)"

lemma wal_step_answers: "answered tx w \<Longrightarrow> answered tx (wal_step a w)"
  by (cases "(a, w)" rule: wal_step.cases)
    (auto simp: answered_def wal_put_def wal_request_def writer_turn_def Let_def split: list.splits option.splits)

lemma wal_step_done: "tx \<in> set (wal_done w) \<Longrightarrow> tx \<in> set (wal_done (wal_step a w))"
  by (cases "(a, w)" rule: wal_step.cases)
    (auto simp: wal_put_def wal_request_def writer_turn_def Let_def split: list.splits option.splits)

lemma wal_steps_keep:
  "answered tx w \<Longrightarrow> answered tx (wal_steps acts w)"
  "tx \<in> set (wal_done w) \<Longrightarrow> tx \<in> set (wal_done (wal_steps acts w))"
  by (induction acts arbitrary: w) (simp_all add: wal_steps_def wal_step_answers wal_step_done)

lemma request_answered:
  assumes "i < length (wal_queue w)" "snd (wal_queue w ! i) = Some tx" "i < turns acts"
  shows "answered tx (wal_steps acts w) \<and> ((\<forall>a\<in>set acts. snd a) \<longrightarrow> tx \<in> set (wal_done (wal_steps acts w)))"
  using assms
proof (induction acts arbitrary: w i)
  case (Cons a acts)
  have steps: "wal_steps (a # acts) w = wal_steps acts (wal_step a w)" by (simp add: wal_steps_def)
  show ?case
  proof (cases "fst a = Turn")
    case False
    then obtain it where "wal_queue (wal_step a w) = wal_queue w @ [it]"
      by (cases "(a, w)" rule: wal_step.cases) (auto simp: wal_put_def wal_request_def)
    then show ?thesis using Cons.IH [of i "wal_step a w"] Cons.prems False by (simp add: steps turns_def nth_append)
  next
    case True
    then have step: "wal_step a w = writer_turn (snd a) w" by (cases a) simp
    obtain r req rest where q: "wal_queue w = (r, req) # rest" using Cons.prems(1) by (cases "wal_queue w") auto
    show ?thesis
    proof (cases i)
      case 0
      then have "req = Some tx" using Cons.prems(2) q by simp
      then have "answered tx (wal_step a w)" "snd a \<Longrightarrow> tx \<in> set (wal_done (wal_step a w))"
        using q by (auto simp: step answered_def writer_turn_def Let_def)
      then show ?thesis using wal_steps_keep by (simp add: steps)
    next
      case (Suc j)
      have "wal_queue (wal_step a w) = rest"
        using q by (cases req) (simp_all add: step writer_turn_def Let_def split: if_split)
      then show ?thesis using Cons.IH [of j "wal_step a w"] Cons.prems Suc q True by (simp add: steps turns_def)
    qed
  qed
qed (simp add: turns_def)

lemma wal_commit_steps: "fst (wal_commit ok tx w) = wal_steps (replicate (Suc (length (wal_queue w))) (Turn, ok)) (wal_request tx w)"
proof -
  have "writer_turns ok n w = wal_steps (replicate n (Turn, ok)) w" for n w
    by (induction n arbitrary: w) (simp_all add: wal_steps_def)
  then show ?thesis by (simp add: wal_commit_def Let_def wal_request_def)
qed

end
