(* ===== verification/TableGc.thy ===== *)
theory TableGc
  imports MvccTable
begin

text \<open>
  Garbage collection of a table, \<open>replace_chains\<close> and \<open>gc\<close> of \<^verbatim>\<open>minidb/storage/table.py\<close>.

  \<open>replace_chains\<close> removes the keys that are not live while a generator over the tree's leaf chain is
  running. The generator holds a leaf and a slot and re-reads the leaf's key list at every step, so
  removing the key it has just yielded moves the next key into the slot it is about to leave. The model
  keeps that: \<open>purge\<close> is the loop with the generator's position, and \<open>sweep\<close> says what it does to one leaf.
\<close>

section \<open>The tree under deletion\<close>

lemma delete_node_leaves:
  fixes n :: "('k::linorder, 'v) node" and cs :: "('k, 'v) node list"
  shows "delete_node key n = Inr (n', True) \<Longrightarrow>
    \<exists>as ks vs bs slot. leaves n = as @ (ks, vs) # bs \<and> slot < length ks \<and> ks ! slot = key \<and>
      leaves n' = as @ (list_pop slot ks, list_pop slot vs) # bs"
proof (induction key n arbitrary: n' rule: delete_node.induct)
  case (1 key ks vs)
  then show ?case
    by (intro exI [of _ "[]"] exI [of _ ks] exI [of _ vs] exI [of _ "leaf_slot ks key"])
      (auto simp: Let_def split: if_splits)
next
  case (2 key ks cs)
  let ?i = "traverse ks key"
  have i: "?i < length cs" using 2(2) by (auto simp: Let_def split: if_splits)
  then obtain c where c: "delete_node key (cs ! ?i) = Inr (c, True)" "n' = Internal ks (cs[?i := c])"
    using 2(2) by (auto simp: Let_def bind_result_eq_Inr)
  obtain as ks' vs bs slot where l: "leaves (cs ! ?i) = as @ (ks', vs) # bs" "slot < length ks'" "ks' ! slot = key"
    "leaves c = as @ (list_pop slot ks', list_pop slot vs) # bs"
    using 2(1) [OF refl i c(1)] by blast
  have old: "leaves (Internal ks cs) =
      concat (map leaves (take ?i cs)) @ leaves (cs ! ?i) @ concat (map leaves (drop (Suc ?i) cs))"
    by (subst (1) id_take_nth_drop [OF i]) simp
  have new: "leaves n' =
      concat (map leaves (take ?i cs)) @ leaves c @ concat (map leaves (drop (Suc ?i) cs))"
    using c(2) i by (simp add: upd_conv_take_nth_drop)
  show ?case unfolding old new
    by (rule exI [of _ "concat (map leaves (take ?i cs)) @ as"], rule exI [of _ ks'], rule exI [of _ vs],
        rule exI [of _ "bs @ concat (map leaves (drop (Suc ?i) cs))"], rule exI [of _ slot])
       (simp add: l)
qed

definition leaf_count :: "('k, 'v) bptree \<Rightarrow> nat" where
  "leaf_count t = length (leaves (bp_root t))"

definition key_count :: "('k, 'v) bptree \<Rightarrow> nat" where
  "key_count t = (\<Sum>l\<leftarrow>leaves (bp_root t). length (fst l))"

lemma collapse_root_leaves: "collapse_root n = Inr n' \<Longrightarrow> \<exists>rest. leaves n = leaves n' @ rest"
  by (induction n rule: collapse_root.induct) auto

lemma tree_delete_counts:
  assumes "tree_delete t key = Inr (t', found)"
  shows "leaf_count t' \<le> leaf_count t \<and> key_count t' \<le> key_count t"
proof (cases found)
  case True
  then obtain n n' where n: "delete_node key (bp_root t) = Inr (n, True)" "collapse_root n = Inr n'"
    "bp_root t' = n'"
    using assms by (auto simp: tree_delete_def bind_result_eq_Inr split: if_splits)
  obtain rest where rest: "leaves n = leaves n' @ rest" using collapse_root_leaves [OF n(2)] by blast
  obtain as ks vs bs slot where l: "leaves (bp_root t) = as @ (ks, vs) # bs" "slot < length ks"
    "leaves n = as @ (list_pop slot ks, list_pop slot vs) # bs"
    using delete_node_leaves [OF n(1)] by blast
  have "length (leaves n') + length rest = length (leaves (bp_root t))"
    using arg_cong [OF rest, of length] by (simp add: l)
  moreover have "(\<Sum>l\<leftarrow>leaves n'. length (fst l)) + (\<Sum>l\<leftarrow>rest. length (fst l)) =
      (\<Sum>l\<leftarrow>leaves n. length (fst l))"
    by (simp add: rest)
  moreover have "(\<Sum>l\<leftarrow>leaves n. length (fst l)) \<le> (\<Sum>l\<leftarrow>leaves (bp_root t). length (fst l))"
    using l(2) by (simp add: l)
  ultimately show ?thesis by (simp add: leaf_count_def key_count_def n(3))
next
  case False
  then have "t' = t" using assms by (auto simp: tree_delete_def bind_result_eq_Inr split: if_splits)
  then show ?thesis by simp
qed

lemma nth_leaf_key_count:
  "drop i (leaves (bp_root t)) = (ks, vs) # rest \<Longrightarrow> length ks \<le> key_count t"
  unfolding key_count_def by (subst append_take_drop_id [symmetric, of _ i]) simp

section \<open>The loop\<close>

function purge ::
  "rowkey list \<Rightarrow> nat \<Rightarrow> nat \<Rightarrow> (rowkey, chain) bptree \<Rightarrow> (rowkey, chain) bptree result" where
  "purge live leaf slot t =
     (case drop leaf (leaves (bp_root t)) of
        [] \<Rightarrow> Inr t
      | (ks, vs) # rest \<Rightarrow>
          if slot < length ks then
            (if ks ! slot \<in> set live then purge live leaf (Suc slot) t
             else case tree_delete t (ks ! slot) of
                    Inl e \<Rightarrow> Inl e
                  | Inr (t', _) \<Rightarrow> purge live leaf (Suc slot) t')
          else purge live (Suc leaf) 0 t)"
  by pat_completeness auto

termination
proof (relation "(\<lambda>(live, leaf, slot, t). leaf_count t - leaf) <*mlex*>
    measure (\<lambda>(live, leaf, slot, t). key_count t - slot)", goal_cases)
  case 1
  show ?case by (intro wf_mlex wf_measure)
next
  case (2 live leaf slot t l rest ks vs)
  then have "slot < key_count t" using nth_leaf_key_count [of leaf t ks vs rest] by simp
  then show ?case by (auto intro: mlex_leq)
next
  case (3 live leaf slot t l rest ks vs r t' found)
  then have "slot < key_count t" "leaf_count t' \<le> leaf_count t" "key_count t' \<le> key_count t"
    using nth_leaf_key_count [of leaf t ks vs rest] tree_delete_counts [of t "ks ! slot" t' found] by auto
  then show ?case by (intro mlex_leq) auto
next
  case (4 live leaf slot t l rest ks vs)
  then have "leaf < leaf_count t" unfolding leaf_count_def by (metis drop_all linorder_not_less list.distinct(1))
  then show ?case by (intro mlex_less) auto
qed

declare purge.simps [simp del]

definition replace_chains :: "(rowkey \<times> chain) list \<Rightarrow> table \<Rightarrow> table result" where
  "replace_chains pairs t =
     bind_result (put_all tree_insert (tb_tree t) (filter (\<lambda>(k, c). c \<noteq> []) pairs))
       (\<lambda>tr. bind_result (purge (map fst pairs) 0 0 tr) (\<lambda>tr'. Inr (t\<lparr>tb_tree := tr'\<rparr>)))"

definition reclaimable :: "status_fn \<Rightarrow> txid \<Rightarrow> version \<Rightarrow> bool" where
  "reclaimable st oldest v \<longleftrightarrow>
     v_xmin v < oldest \<and> st (v_xmin v) = Some False \<or>
     v_xmax v \<noteq> 0 \<and> v_xmax v < oldest \<and> st (v_xmax v) = Some True"

definition gc_collect ::
  "status_fn \<Rightarrow> txid \<Rightarrow> (rowkey \<times> chain) list \<Rightarrow> (rowkey \<times> chain) list \<times> nat" where
  "gc_collect st oldest pairs =
     (filter (\<lambda>(k, c). c \<noteq> []) (map (\<lambda>(k, c). (k, filter (\<lambda>v. \<not> reclaimable st oldest v) c)) pairs),
      \<Sum>(k, c)\<leftarrow>pairs. length (filter (reclaimable st oldest) c))"

definition table_gc :: "status_fn \<Rightarrow> txid \<Rightarrow> table \<Rightarrow> (table \<times> nat) result" where
  "table_gc st oldest t =
     bind_result (iter_chains t)
       (\<lambda>pairs. let (kept, reclaimed) = gc_collect st oldest pairs
                in bind_result (replace_chains kept t) (\<lambda>t'. Inr (t', reclaimed)))"

end
