(* ===== verification/TxnManager.thy ===== *)
theory TxnManager
  imports LockSteps WalCorrect TableGc
begin

text \<open>
  The transaction manager, \<^verbatim>\<open>minidb/txn/manager.py\<close>: transaction ids, snapshots, commit and abort, the
  state after recovery, and the watermark of garbage collection.

  A transaction object is shared between the manager's table and the session that runs it; the model
  keeps it in the manager's table only, and an operation names it by its id. \<open>begin\<close> is \<open>begin_txn\<close>,
  \<open>get\<close> is \<open>get_txn\<close>, \<open>commit\<close> and \<open>abort\<close> are \<open>commit_txn\<close> and \<open>abort_txn\<close>. The log and the lock
  tables are the components of Wal and LockManager.
\<close>

section \<open>Transactions and the manager\<close>

datatype isolation = ReadCommitted | Serializable

datatype txn_state = TxActive | TxCommitted | TxAborted

record transaction =
  tr_txid :: txid
  tr_isolation :: isolation
  tr_state :: txn_state
  tr_snapshot :: "snapshot option"
  tr_written :: "string list"
  tr_did_ddl :: bool
  tr_wal_started :: bool

definition new_transaction :: "txid \<Rightarrow> isolation \<Rightarrow> transaction" where
  "new_transaction tx level =
     \<lparr>tr_txid = tx, tr_isolation = level, tr_state = TxActive, tr_snapshot = None, tr_written = [],
      tr_did_ddl = False, tr_wal_started = False\<rparr>"

definition is_read_only :: "transaction \<Rightarrow> bool" where
  "is_read_only t \<longleftrightarrow> \<not> tr_wal_started t"

record txn_manager =
  tm_wal :: wal
  tm_locks :: locks
  tm_counter :: txid
  tm_next_id :: txid
  tm_active :: "txid set"
  tm_state :: "txid \<rightharpoonup> txn_state"
  tm_txns :: "txid \<rightharpoonup> transaction"

definition new_manager :: "wal \<Rightarrow> locks \<Rightarrow> txn_manager" where
  "new_manager w lk =
     \<lparr>tm_wal = w, tm_locks = lk, tm_counter = 1, tm_next_id = 1, tm_active = {}, tm_state = Map.empty,
      tm_txns = Map.empty\<rparr>"

section \<open>Lifecycle\<close>

definition begin_txn :: "isolation \<Rightarrow> txn_manager \<Rightarrow> txn_manager \<times> txid" where
  "begin_txn level m =
     (let tx = tm_counter m
      in (m\<lparr>tm_counter := tx + 1, tm_next_id := tx + 1, tm_active := insert tx (tm_active m),
            tm_state := (tm_state m)(tx \<mapsto> TxActive), tm_txns := (tm_txns m)(tx \<mapsto> new_transaction tx level)\<rparr>,
          tx))"

definition get_txn :: "txn_manager \<Rightarrow> txid \<Rightarrow> transaction result" where
  "get_txn m tx = (case tm_txns m tx of Some t \<Rightarrow> Inr t | None \<Rightarrow> Inl NotInTransaction)"

definition is_active :: "txn_manager \<Rightarrow> txid \<Rightarrow> bool" where
  "is_active m tx \<longleftrightarrow> tm_state m tx = Some TxActive"

definition set_txn :: "transaction \<Rightarrow> txn_manager \<Rightarrow> txn_manager" where
  "set_txn t m = m\<lparr>tm_txns := (tm_txns m)(tr_txid t \<mapsto> t)\<rparr>"

definition ensure_wal_begin :: "transaction \<Rightarrow> txn_manager \<Rightarrow> txn_manager" where
  "ensure_wal_begin t m =
     (if tr_wal_started t then m
      else set_txn (t\<lparr>tr_wal_started := True\<rparr>) (m\<lparr>tm_wal := log_begin (tr_txid t) (tm_wal m)\<rparr>))"

section \<open>Snapshots\<close>

definition take_snapshot :: "txid \<Rightarrow> txn_manager \<Rightarrow> snapshot" where
  "take_snapshot tx m = \<lparr>snap_txid = tx, snap_taken_at = tm_next_id m, snap_active = tm_active m\<rparr>"

definition snapshot_for :: "transaction \<Rightarrow> txn_manager \<Rightarrow> txn_manager \<times> snapshot" where
  "snapshot_for t m =
     (case (tr_isolation t, tr_snapshot t) of
        (Serializable, Some s) \<Rightarrow> (m, s)
      | _ \<Rightarrow>
          let s = take_snapshot (tr_txid t) m
          in (if tr_isolation t = Serializable then set_txn (t\<lparr>tr_snapshot := Some s\<rparr>) m else m, s))"

definition status :: "txn_manager \<Rightarrow> status_fn" where
  "status m tx =
     (case tm_state m tx of
        Some TxCommitted \<Rightarrow> Some True
      | Some TxAborted \<Rightarrow> Some False
      | _ \<Rightarrow> None)"

section \<open>Commit and abort\<close>

text \<open>The block under \<open>_cond\<close> that ends a transaction, and the release of its locks.\<close>

definition finish_txn :: "txn_state \<Rightarrow> transaction \<Rightarrow> txn_manager \<Rightarrow> txn_manager" where
  "finish_txn final t m =
     (let tx = tr_txid t;
          m1 = set_txn (t\<lparr>tr_state := final\<rparr>) m;
          m2 = m1\<lparr>tm_state := (tm_state m1)(tx \<mapsto> final), tm_active := tm_active m1 - {tx}\<rparr>
      in m2\<lparr>tm_locks := release_all tx (tm_locks m2)\<rparr>)"

definition commit_txn :: "bool \<Rightarrow> transaction \<Rightarrow> txn_manager \<Rightarrow> txn_manager \<times> unit result" where
  "commit_txn disk_ok t m =
     (if tr_state t \<noteq> TxActive then (m, Inl TransactionError)
      else if tr_wal_started t then
        (case wal_commit disk_ok (tr_txid t) (tm_wal m) of
           (w, Inl e) \<Rightarrow> (m\<lparr>tm_wal := w\<rparr>, Inl e)
         | (w, Inr _) \<Rightarrow> (finish_txn TxCommitted t (m\<lparr>tm_wal := w\<rparr>), Inr ()))
      else (finish_txn TxCommitted t m, Inr ()))"

definition abort_txn :: "transaction \<Rightarrow> txn_manager \<Rightarrow> txn_manager" where
  "abort_txn t m =
     (if tr_state t \<noteq> TxActive then m
      else finish_txn TxAborted t
             (if tr_wal_started t then m\<lparr>tm_wal := log_abort (tr_txid t) (tm_wal m)\<rparr> else m))"

section \<open>Recovery, garbage collection, shutdown\<close>

definition bootstrap_state :: "txid \<Rightarrow> txn_manager \<Rightarrow> txn_manager" where
  "bootstrap_state max_txid m =
     m\<lparr>tm_counter := max_txid + 1, tm_next_id := max_txid + 1,
       tm_state := (\<lambda>i. if 1 \<le> i \<and> i \<le> max_txid then Some TxCommitted else tm_state m i)\<rparr>"

definition oldest_active :: "txn_manager \<Rightarrow> txid option" where
  "oldest_active m = (if tm_active m = {} then None else Some (Min (tm_active m)))"

definition gc_watermark :: "txn_manager \<Rightarrow> txid" where
  "gc_watermark m = (case oldest_active m of Some i \<Rightarrow> i | None \<Rightarrow> tm_next_id m)"

fun gc_tables :: "status_fn \<Rightarrow> txid \<Rightarrow> (string \<times> table) list \<Rightarrow> ((string \<times> table) list \<times> nat) result" where
  "gc_tables st oldest [] = Inr ([], 0)"
| "gc_tables st oldest ((name, t) # ts) =
     bind_result (table_gc st oldest t)
       (\<lambda>(t', n). bind_result (gc_tables st oldest ts) (\<lambda>(ts', n'). Inr ((name, t') # ts', n + n')))"

definition gc_tick :: "txn_manager \<Rightarrow> (string \<times> table) list \<Rightarrow> ((string \<times> table) list \<times> nat) result" where
  "gc_tick m tables = gc_tables (status m) (gc_watermark m) tables"

definition active_count :: "txn_manager \<Rightarrow> nat" where
  "active_count m = card (tm_active m)"

text \<open>The stragglers, in the order the set lists them: the model takes them by id.\<close>

definition shutdown_txns :: "txn_manager \<Rightarrow> txn_manager result" where
  "shutdown_txns m =
     bind_result (map_result (\<lambda>i. case tm_txns m i of Some t \<Rightarrow> Inr t | None \<Rightarrow> Inl KeyError)
                    (sorted_list_of_set (tm_active m)))
       (\<lambda>victims. Inr (fold abort_txn victims m))"

section \<open>Invariant\<close>

text \<open>Ids run from 1; every id given out has a state; the active set and the states agree.\<close>

definition ids_ok :: "txn_manager \<Rightarrow> bool" where
  "ids_ok m \<longleftrightarrow> tm_counter m = tm_next_id m \<and> dom (tm_state m) = {0<..<tm_next_id m} \<and> 0 < tm_next_id m"

definition active_ok :: "txn_manager \<Rightarrow> bool" where
  "active_ok m \<longleftrightarrow> finite (tm_active m) \<and> tm_active m = {i. tm_state m i = Some TxActive} \<and>
     tm_active m \<subseteq> dom (tm_txns m)"

definition txn_ok :: "txn_manager \<Rightarrow> txid \<Rightarrow> transaction \<Rightarrow> bool" where
  "txn_ok m i t \<longleftrightarrow> tr_txid t = i \<and> tm_state m i = Some (tr_state t) \<and>
     (\<forall>s. tr_snapshot t = Some s \<longrightarrow> snap_txid s = i \<and> i < snap_taken_at s \<and> snap_taken_at s \<le> tm_next_id m)"

definition manager_ok :: "txn_manager \<Rightarrow> bool" where
  "manager_ok m \<longleftrightarrow> ids_ok m \<and> active_ok m \<and> (\<forall>i t. tm_txns m i = Some t \<longrightarrow> txn_ok m i t)"

lemma manager_okD:
  assumes "manager_ok m"
  shows "ids_ok m" "active_ok m" "tm_txns m i = Some t \<Longrightarrow> txn_ok m i t"
  using assms by (auto simp: manager_ok_def)

lemma new_manager_ok: "manager_ok (new_manager w lk)"
  by (auto simp: manager_ok_def ids_ok_def active_ok_def new_manager_def)

lemma manager_ok_wal [simp]: "manager_ok (m\<lparr>tm_wal := w\<rparr>) = manager_ok m"
  by (simp add: manager_ok_def ids_ok_def active_ok_def txn_ok_def)

lemma begin_txn_ok:
  assumes "manager_ok m"
  shows "manager_ok (fst (begin_txn level m))"
proof -
  have fresh: "tm_state m (tm_counter m) = None" "tm_counter m = tm_next_id m" "0 < tm_next_id m"
    using manager_okD(1) [OF assms] by (auto simp: ids_ok_def domIff [symmetric])
  have "ids_ok (fst (begin_txn level m))"
    using manager_okD(1) [OF assms] by (auto simp: ids_ok_def begin_txn_def Let_def)
  moreover have "active_ok (fst (begin_txn level m))"
    using manager_okD(2) [OF assms] fresh by (auto simp: active_ok_def begin_txn_def Let_def)
  moreover have "txn_ok (fst (begin_txn level m)) i t" if "tm_txns (fst (begin_txn level m)) i = Some t" for i t
    using that manager_okD(3) [OF assms, of i t] fresh
    by (auto simp: txn_ok_def begin_txn_def new_transaction_def Let_def split: if_splits)
  ultimately show ?thesis by (simp add: manager_ok_def)
qed

lemma set_txn_ok:
  assumes "manager_ok m" "txn_ok m (tr_txid t) t"
  shows "manager_ok (set_txn t m)"
proof -
  have "ids_ok (set_txn t m)" "active_ok (set_txn t m)"
    using manager_okD(1,2) [OF assms(1)] by (auto simp: ids_ok_def active_ok_def set_txn_def)
  moreover have "txn_ok (set_txn t m) i t'" if "tm_txns (set_txn t m) i = Some t'" for i t'
    using that manager_okD(3) [OF assms(1), of i t'] assms(2)
    by (auto simp: txn_ok_def set_txn_def split: if_splits)
  ultimately show ?thesis by (simp add: manager_ok_def)
qed

lemma finish_txn_ok:
  assumes "manager_ok m" "tm_txns m (tr_txid t) = Some t" "tr_state t = TxActive" "final \<noteq> TxActive"
  shows "manager_ok (finish_txn final t m)"
proof -
  let ?m = "finish_txn final t m"
  have t: "txn_ok m (tr_txid t) t" by (rule manager_okD(3) [OF assms(1,2)])
  then have "tr_txid t \<in> dom (tm_state m)" by (auto simp: txn_ok_def)
  then have "ids_ok ?m"
    using manager_okD(1) [OF assms(1)] by (auto simp: ids_ok_def finish_txn_def set_txn_def Let_def)
  moreover have "active_ok ?m"
    using manager_okD(2) [OF assms(1)] assms(4) by (auto simp: active_ok_def finish_txn_def set_txn_def Let_def)
  moreover have "txn_ok ?m i t'" if "tm_txns ?m i = Some t'" for i t'
    using that manager_okD(3) [OF assms(1), of i t'] t
    by (auto simp: txn_ok_def finish_txn_def set_txn_def Let_def split: if_splits)
  ultimately show ?thesis by (simp add: manager_ok_def)
qed

lemma commit_txn_ok:
  assumes "manager_ok m" "tm_txns m (tr_txid t) = Some t"
  shows "manager_ok (fst (commit_txn disk_ok t m))"
  using assms by (auto simp: commit_txn_def finish_txn_ok split: prod.splits sum.splits)

lemma abort_txn_ok:
  assumes "manager_ok m" "tm_txns m (tr_txid t) = Some t"
  shows "manager_ok (abort_txn t m)"
  using assms by (auto simp: abort_txn_def finish_txn_ok)

lemma ensure_wal_begin_ok:
  assumes "manager_ok m" "tm_txns m (tr_txid t) = Some t"
  shows "manager_ok (ensure_wal_begin t m)"
  using manager_okD(3) [OF assms] assms(1)
  by (auto simp: ensure_wal_begin_def txn_ok_def intro!: set_txn_ok)

lemma snapshot_for_ok:
  assumes "manager_ok m" "tm_txns m (tr_txid t) = Some t"
  shows "manager_ok (fst (snapshot_for t m))"
proof -
  have t: "txn_ok m (tr_txid t) t" by (rule manager_okD(3) [OF assms])
  then have "tr_txid t \<in> dom (tm_state m)" by (auto simp: txn_ok_def)
  then have "tr_txid t < tm_next_id m" using manager_okD(1) [OF assms(1)] by (auto simp: ids_ok_def)
  then have "txn_ok m (tr_txid t) (t\<lparr>tr_snapshot := Some (take_snapshot (tr_txid t) m)\<rparr>)"
    using t by (auto simp: txn_ok_def take_snapshot_def)
  then have "manager_ok (set_txn (t\<lparr>tr_snapshot := Some (take_snapshot (tr_txid t) m)\<rparr>) m)"
    using assms(1) by (intro set_txn_ok) simp_all
  then show ?thesis using assms(1)
    by (auto simp: snapshot_for_def Let_def split: isolation.splits option.splits)
qed

lemma bootstrap_state_ok: "manager_ok (bootstrap_state n (new_manager w lk))"
proof -
  have "dom (\<lambda>i. if 1 \<le> i \<and> i \<le> n then Some TxCommitted else None) = {0<..<n + 1}"
    by (auto split: if_splits)
  then show ?thesis
    by (auto simp: manager_ok_def ids_ok_def active_ok_def bootstrap_state_def new_manager_def split: if_splits)
qed

end
