(* ===== verification/Database.thy ===== *)
theory Database
  imports TxnManager
begin

text \<open>
  The database kernel, \<^verbatim>\<open>minidb/engine/database.py\<close>: the catalog, recovery from the checkpoint and the
  log, and the checkpoint. The two files are the documents they hold: the checkpoint's parsed JSON, if
  the file exists, and the parsed lines of the log.

  The catalog is a dictionary from lower-cased names to tables, in insertion order. Transaction ids in
  documents are integers; a negative one never occurs, and reading one fails here.
\<close>

record database =
  db_tables :: "(string \<times> table) list"
  db_mgr :: txn_manager
  db_checkpoint :: "json option"

text \<open>\<open>BPlusTree(order=32)\<close>: the order every table of the database has.\<close>

definition make_table :: "table_schema \<Rightarrow> table result" where
  "make_table schema = new_table schema 32"

section \<open>Catalog\<close>

definition check_schema :: "table_schema \<Rightarrow> unit result" where
  "check_schema schema =
     (let names = map (\<lambda>c. py_lower (col_name c)) (sch_columns schema)
      in if sch_columns schema = [] then Inl SchemaError
         else if length (remdups names) \<noteq> length names then Inl SchemaError
         else if length (primary_key_columns schema) > 1 then Inl SchemaError
         else Inr ())"

definition create_table :: "transaction \<Rightarrow> table_schema \<Rightarrow> database \<Rightarrow> database result" where
  "create_table t schema db =
     bind_result (check_schema schema) (\<lambda>_.
       let name = py_lower (sch_name schema)
       in if map_of (db_tables db) name \<noteq> None then Inl CatalogError
          else bind_result (make_table schema) (\<lambda>tab.
            let m1 = ensure_wal_begin t (db_mgr db);
                m2 = m1\<lparr>tm_wal := log_create_table (tr_txid t) (schema_to_dict schema) (tm_wal m1)\<rparr>;
                t' = t\<lparr>tr_wal_started := True, tr_did_ddl := True,
                       tr_written := List.insert name (tr_written t)\<rparr>
            in Inr (db\<lparr>db_tables := AList.update name tab (db_tables db), db_mgr := set_txn t' m2\<rparr>)))"

definition get_table :: "string \<Rightarrow> database \<Rightarrow> table result" where
  "get_table name db =
     (case map_of (db_tables db) (py_lower name) of Some t \<Rightarrow> Inr t | None \<Rightarrow> Inl CatalogError)"

definition has_table :: "string \<Rightarrow> database \<Rightarrow> bool" where
  "has_table name db \<longleftrightarrow> map_of (db_tables db) (py_lower name) \<noteq> None"

definition table_names :: "database \<Rightarrow> string list" where
  "table_names db = sort (map (\<lambda>(_, t). sch_name (tb_schema t)) (db_tables db))"

section \<open>Recovery\<close>

definition read_row :: "json \<Rightarrow> pyval list result" where
  "read_row j = bind_result (as_list j) (map_result value_of_json)"

definition read_txid :: "json \<Rightarrow> txid result" where
  "read_txid j = bind_result (as_int j) (\<lambda>i. if i < 0 then Inl ValueError else Inr (nat i))"

fun load_rows :: "json list \<Rightarrow> table \<Rightarrow> table result" where
  "load_rows [] t = Inr t"
| "load_rows (rd # rds) t =
     bind_result (bind_result (field ''key'' rd) decode_key) (\<lambda>key.
     bind_result (bind_result (field ''row'' rd) read_row) (\<lambda>row.
     bind_result (put_chain key [new_version row 0] t) (load_rows rds)))"

definition load_table :: "json \<Rightarrow> table result" where
  "load_table td =
     bind_result (bind_result (field ''schema'' td) schema_from_dict) (\<lambda>schema.
     bind_result (make_table schema) (\<lambda>t.
     bind_result (bind_result (field ''next_rowid'' td) as_int) (\<lambda>n.
     bind_result (bind_result (field ''rows'' td) as_list) (\<lambda>rows.
       load_rows rows (t\<lparr>tb_next_rowid := n\<rparr>)))))"

fun load_tables :: "json list \<Rightarrow> (string \<times> table) list \<Rightarrow> (string \<times> table) list result" where
  "load_tables [] tabs = Inr tabs"
| "load_tables (td # tds) tabs =
     bind_result (load_table td)
       (\<lambda>t. load_tables tds (AList.update (py_lower (sch_name (tb_schema t))) t tabs))"

definition load_checkpoint :: "json option \<Rightarrow> (string \<times> table) list result" where
  "load_checkpoint cp =
     (case cp of
        None \<Rightarrow> Inr []
      | Some data \<Rightarrow> bind_result (bind_result (field ''tables'' data) as_list) (\<lambda>tds. load_tables tds []))"

definition replay_on :: "string \<Rightarrow> (table \<Rightarrow> table result) \<Rightarrow> (string \<times> table) list \<Rightarrow> (string \<times> table) list result" where
  "replay_on name f tabs =
     (case map_of tabs name of
        None \<Rightarrow> Inl KeyError
      | Some t \<Rightarrow> bind_result (f t) (\<lambda>t'. Inr (AList.update name t' tabs)))"

definition replay_insert :: "txid \<Rightarrow> rowkey \<Rightarrow> pyval list \<Rightarrow> table \<Rightarrow> table result" where
  "replay_insert tx key row t =
     bind_result (append_replayed key (new_version row tx) t) (\<lambda>t'. Inr (bump_rowid key t'))"

definition replay_update :: "txid \<Rightarrow> rowkey \<Rightarrow> pyval list \<Rightarrow> table \<Rightarrow> table result" where
  "replay_update tx key row t =
     bind_result (tree_get (tb_tree t) key) (\<lambda>chain.
     bind_result (stamp_last tx chain) (\<lambda>c. put_chain key (c @ [new_version row tx]) t))"

definition replay_delete :: "txid \<Rightarrow> rowkey \<Rightarrow> table \<Rightarrow> table result" where
  "replay_delete tx key t = mark_deleted_replayed tx key t"

definition replay_create :: "json \<Rightarrow> (string \<times> table) list \<Rightarrow> (string \<times> table) list result" where
  "replay_create j tabs =
     bind_result (schema_from_dict j) (\<lambda>schema.
       let name = py_lower (sch_name schema)
       in if map_of tabs name \<noteq> None then Inr tabs
          else bind_result (make_table schema) (\<lambda>t. Inr (AList.update name t tabs)))"

definition apply_replay_record :: "json \<Rightarrow> (string \<times> table) list \<Rightarrow> (string \<times> table) list result" where
  "apply_replay_record r tabs =
     bind_result (bind_result (field ''ty'' r) as_str) (\<lambda>ty.
     bind_result (bind_result (field ''txid'' r) read_txid) (\<lambda>tx.
       if ty = ''begin'' then Inr tabs
       else if ty = ''create'' then bind_result (field ''schema'' r) (\<lambda>j. replay_create j tabs)
       else
         bind_result (bind_result (field ''table'' r) as_str) (\<lambda>tab.
         if map_of tabs (py_lower tab) = None then Inl KeyError
         else
           bind_result (bind_result (field ''key'' r) decode_key) (\<lambda>key.
           if ty = ''insert'' then
             bind_result (bind_result (field ''row'' r) read_row)
               (\<lambda>row. replay_on (py_lower tab) (replay_insert tx key row) tabs)
           else if ty = ''update'' then
             bind_result (bind_result (field ''row'' r) read_row)
               (\<lambda>row. replay_on (py_lower tab) (replay_update tx key row) tabs)
           else if ty = ''delete'' then replay_on (py_lower tab) (replay_delete tx key) tabs
           else Inr tabs))))"

fun replay_records :: "json list \<Rightarrow> txid \<Rightarrow> (string \<times> table) list \<Rightarrow> (txid \<times> (string \<times> table) list) result" where
  "replay_records [] max_txid tabs = Inr (max_txid, tabs)"
| "replay_records (r # rs) max_txid tabs =
     bind_result (bind_result (field ''txid'' r) read_txid) (\<lambda>tx.
     bind_result (apply_replay_record r tabs) (\<lambda>tabs'. replay_records rs (max max_txid tx) tabs'))"

definition recover :: "json option \<Rightarrow> json option list \<Rightarrow> txn_manager \<Rightarrow> database result" where
  "recover cp log_lines m =
     bind_result (load_checkpoint cp) (\<lambda>tabs.
     bind_result (read_wal log_lines) (\<lambda>(ids, recs).
     bind_result (map_result read_txid ids) (\<lambda>txs.
     bind_result (replay_records recs (foldr max txs 0) tabs) (\<lambda>(max_txid, tabs').
       Inr \<lparr>db_tables = tabs', db_mgr = bootstrap_state max_txid m, db_checkpoint = cp\<rparr>))))"

section \<open>The collection thread\<close>

text \<open>
  A turn of \<open>_gc_loop\<close>: an exception is swallowed, with the tables before the failing one collected. The table
  a collection fails in is kept as it was. The argument of \<open>gc_loop\<close> is the number of turns before the stop event is set.
\<close>

fun collect_tables :: "(txid \<Rightarrow> bool option) \<Rightarrow> txid \<Rightarrow> (string \<times> table) list \<Rightarrow> (string \<times> table) list" where
  "collect_tables st oldest [] = []"
| "collect_tables st oldest ((name, t) # ts) =
     (case table_gc st oldest t of
        Inl e \<Rightarrow> (name, t) # ts
      | Inr (t', n) \<Rightarrow> (name, t') # collect_tables st oldest ts)"

definition gc_turn :: "database \<Rightarrow> database" where
  "gc_turn db = db\<lparr>db_tables := collect_tables (status (db_mgr db)) (gc_watermark (db_mgr db)) (db_tables db)\<rparr>"

fun gc_loop :: "nat \<Rightarrow> database \<Rightarrow> database" where
  "gc_loop 0 db = db"
| "gc_loop (Suc n) db = gc_loop n (gc_turn db)"

lemma collect_tables_tick:
  "gc_tick m ts = Inr (ts', n) \<Longrightarrow> collect_tables (status m) (gc_watermark m) ts = ts'"
proof -
  have "gc_tables st oldest ts = Inr (ts', n) \<Longrightarrow> collect_tables st oldest ts = ts'" for st oldest
    by (induction ts arbitrary: ts' n) (auto simp: bind_result_eq_Inr split: prod.splits)
  then show "gc_tick m ts = Inr (ts', n) \<Longrightarrow> collect_tables (status m) (gc_watermark m) ts = ts'"
    by (simp add: gc_tick_def)
qed

section \<open>Checkpoint and shutdown\<close>

definition checkpoint_row :: "rowkey \<times> chain \<Rightarrow> json result" where
  "checkpoint_row e =
     (case e of (key, chain) \<Rightarrow>
        if chain = [] then Inl IndexError
        else Inr (JObj [(''key'', encode_key key), (''row'', JArr (map json_of_value (v_row (last chain))))]))"

definition checkpoint_table :: "table \<Rightarrow> json result" where
  "checkpoint_table t =
     bind_result (bind_result (tree_items (tb_tree t)) (map_result checkpoint_row)) (\<lambda>rows.
       Inr (JObj [(''schema'', schema_to_dict (tb_schema t)), (''next_rowid'', JInt (tb_next_rowid t)),
                  (''rows'', JArr rows)]))"

definition checkpoint :: "database \<Rightarrow> database result" where
  "checkpoint db =
     (if active_count (db_mgr db) > 0 then Inl CatalogError
      else bind_result (gc_tick (db_mgr db) (db_tables db)) (\<lambda>(tabs, _).
           bind_result (map_result (\<lambda>(_, t). checkpoint_table t) tabs) (\<lambda>tds.
             Inr (db\<lparr>db_tables := tabs, db_checkpoint := Some (JObj [(''tables'', JArr tds)]),
                     db_mgr := (db_mgr db)\<lparr>tm_wal := wal_reset (tm_wal (db_mgr db))\<rparr>\<rparr>))))"

text \<open>
  \<open>shutdown\<close> ignores an exception of the checkpoint. The tables it would leave half collected are not
  read again, and the model keeps the state before the attempt.
\<close>

definition shutdown :: "bool \<Rightarrow> database \<Rightarrow> database result" where
  "shutdown with_checkpoint db =
     bind_result (shutdown_txns (db_mgr db)) (\<lambda>m.
       let db1 = db\<lparr>db_mgr := m\<rparr>;
           db2 = (if with_checkpoint then (case checkpoint db1 of Inr d \<Rightarrow> d | Inl _ \<Rightarrow> db1) else db1)
       in Inr (db2\<lparr>db_mgr := (db_mgr db2)\<lparr>tm_wal := wal_close (tm_wal (db_mgr db2))\<rparr>\<rparr>))"

end
