(* ===== verification/TableViews.thy ===== *)
theory TableViews
  imports MvccTable
begin

text \<open>
  What the operations of a table do: the table invariant, the effect of each operation on the map from
  keys to chains, and the effect on views, that is on what a snapshot sees. A chain is \<open>settled\<close> for
  a snapshot when only its last version can be visible; the write operations then do what SQL expects,
  and \<open>Counterexamples\<close> below shows what they do when an aborted version ends the chain.
\<close>

section \<open>Chains of a table\<close>

definition table_ok :: "table \<Rightarrow> bool" where
  "table_ok t \<longleftrightarrow> tree_ok (tb_tree t) \<and> (\<forall>e\<in>set (tree_entries (tb_tree t)). snd e \<noteq> [])"

definition table_chain :: "table \<Rightarrow> rowkey \<Rightarrow> chain option" where
  "table_chain t = map_of (tree_entries (tb_tree t))"

lemma table_okD [dest]: "table_ok t \<Longrightarrow> tree_ok (tb_tree t)"
  by (simp add: table_ok_def)

lemma table_chain_nonempty: "table_ok t \<Longrightarrow> table_chain t k = Some c \<Longrightarrow> c \<noteq> []"
  by (force simp: table_ok_def table_chain_def dest: map_of_SomeD)

lemma get_chain: "table_ok t \<Longrightarrow> tree_get_opt (tb_tree t) k = Inr (table_chain t k)"
  by (simp add: bt.get_contents table_okD table_chain_def)

lemma getitem_chain:
  "table_ok t \<Longrightarrow> tree_get (tb_tree t) k = (case table_chain t k of None \<Rightarrow> Inl KeyError | Some c \<Rightarrow> Inr c)"
  using get_chain [of t k] by (auto simp: tree_get_def split: option.splits)

lemma new_table_ok:
  "3 \<le> b \<Longrightarrow> \<exists>t. new_table s b = Inr t \<and> table_ok t \<and> table_chain t = Map.empty \<and> tb_schema t = s"
  using new_tree_ok [of b, where ?'a = rowkey and ?'b = chain]
  by (auto simp: new_table_def table_ok_def table_chain_def tree_dense_def)

lemma put_chain_ok:
  assumes "table_ok t" "c \<noteq> []"
  shows "\<exists>t'. put_chain k c t = Inr t' \<and> table_ok t' \<and> table_chain t' = (table_chain t)(k \<mapsto> c) \<and>
    tb_schema t' = tb_schema t \<and> tb_next_rowid t' = tb_next_rowid t"
proof -
  obtain tr where tr: "tree_insert (tb_tree t) k c = Inr tr" "tree_ok tr"
    "tree_entries tr = upsert k c (tree_entries (tb_tree t))"
    using bt.put_ok [OF table_okD [OF assms(1)], of k c] by blast
  then show ?thesis using assms
    by (auto simp: put_chain_def table_ok_def table_chain_def map_of_upsert) (auto simp: upsert_def)
qed

lemma drop_chain_ok:
  assumes "table_ok t"
  shows "\<exists>t'. drop_chain k t = Inr t' \<and> table_ok t' \<and> table_chain t' = (table_chain t)(k := None) \<and>
    tb_schema t' = tb_schema t \<and> tb_next_rowid t' = tb_next_rowid t"
proof -
  obtain tr where tr: "tree_delete (tb_tree t) k = Inr (tr, k \<in> fst ` set (tree_entries (tb_tree t)))"
    "tree_ok tr" "tree_entries tr = drop_key k (tree_entries (tb_tree t))"
    using bt.remove_ok [OF table_okD [OF assms], of k] by blast
  then show ?thesis using assms
    by (auto simp: drop_chain_def table_ok_def table_chain_def map_of_drop_key) (auto simp: drop_key_def)
qed

section \<open>Effect of the operations on chains\<close>

definition chain_or_empty :: "table \<Rightarrow> rowkey \<Rightarrow> chain" where
  "chain_or_empty t k = (case table_chain t k of None \<Rightarrow> [] | Some c \<Rightarrow> c)"

lemma append_replayed_ok:
  assumes "table_ok t"
  shows "\<exists>t'. append_replayed k v t = Inr t' \<and> table_ok t' \<and>
    table_chain t' = (table_chain t)(k \<mapsto> chain_or_empty t k @ [v]) \<and> tb_schema t' = tb_schema t"
proof (cases "table_chain t k")
  case None
  then show ?thesis using put_chain_ok [OF assms, of "[v]" k] get_chain [OF assms, of k]
    by (auto simp: append_replayed_def chain_or_empty_def)
next
  case (Some c)
  then show ?thesis using put_chain_ok [OF assms, of "c @ [v]" k] get_chain [OF assms, of k]
    by (auto simp: append_replayed_def chain_or_empty_def)
qed

lemma insert_key_table:
  assumes "insert_key t row key = Inr (t1, k)" "table_ok t"
  shows "table_ok t1 \<and> tb_tree t1 = tb_tree t \<and> tb_schema t1 = tb_schema t"
  using assms by (auto simp: insert_key_def allocate_rowid_def table_ok_def bind_result_eq_Inr
      split: option.splits if_splits)

lemma table_insert_ok:
  assumes "table_ok t" and "insert_key t row key = Inr (t1, k)"
  shows "\<exists>t'. table_insert tx row key t = Inr (t', k) \<and> table_ok t' \<and>
    table_chain t' = (table_chain t)(k \<mapsto> chain_or_empty t k @ [new_version row tx]) \<and>
    tb_schema t' = tb_schema t"
proof -
  have t1: "table_ok t1" "table_chain t1 = table_chain t" "tb_schema t1 = tb_schema t"
    using insert_key_table [OF assms(2,1)] by (auto simp: table_chain_def)
  note get = get_chain [OF t1(1), of k]
  show ?thesis
  proof (cases "table_chain t k")
    case None
    then show ?thesis using put_chain_ok [OF t1(1), of "[new_version row tx]" k] assms(2) get t1
      by (auto simp: table_insert_def chain_or_empty_def)
  next
    case (Some c)
    then show ?thesis using put_chain_ok [OF t1(1), of "c @ [new_version row tx]" k] assms(2) get t1
      by (auto simp: table_insert_def chain_or_empty_def)
  qed
qed

lemma own_slot_Some:
  "own_slot tx c = Some i \<Longrightarrow> i < length c \<and> v_xmin (c ! i) = tx \<and> v_xmax (c ! i) = 0"
  by (induction c arbitrary: i) (auto split: option.splits if_splits)

lemma own_slot_None: "own_slot tx c = None \<longleftrightarrow> (\<forall>v\<in>set c. v_xmin v = tx \<longrightarrow> v_xmax v \<noteq> 0)"
  by (induction c) (auto split: option.splits)

lemma own_slot_append:
  "own_slot tx (c @ [v]) =
     (if v_xmin v = tx \<and> v_xmax v = 0 then Some (length c) else own_slot tx c)"
  by (induction c) (auto split: option.splits)

lemma stamp_last_snoc [simp]: "stamp_last tx (c @ [v]) = Inr (c @ [v\<lparr>v_xmax := tx\<rparr>])"
  by (simp add: stamp_last_def)

lemma chain_update_nonempty:
  "c \<noteq> [] \<Longrightarrow> \<exists>c'. chain_update tx row c = Inr c' \<and> c' \<noteq> []"
  by (cases c rule: rev_cases) (auto simp: chain_update_def split: option.splits dest: own_slot_Some)

lemma chain_delete_nonempty: "c \<noteq> [] \<Longrightarrow> \<exists>c' done. chain_delete tx c = Inr (c', done)"
  by (cases c rule: rev_cases) (auto simp: chain_delete_def split: option.splits)

lemma table_update_ok:
  assumes "table_ok t" "table_chain t k = Some c" "chain_update tx row c = Inr c'"
  shows "\<exists>t'. table_update tx k row t = Inr t' \<and> table_ok t' \<and> table_chain t' = (table_chain t)(k \<mapsto> c') \<and>
    tb_schema t' = tb_schema t"
proof -
  have "c' \<noteq> []" using chain_update_nonempty [OF table_chain_nonempty [OF assms(1,2)], of tx row] assms(3) by auto
  then show ?thesis using put_chain_ok [OF assms(1), of c' k] assms
    by (auto simp: table_update_def getitem_chain)
qed

lemma table_update_missing:
  "table_ok t \<Longrightarrow> table_chain t k = None \<Longrightarrow> table_update tx k row t = Inl KeyError"
  by (simp add: table_update_def getitem_chain)

lemma table_delete_ok:
  assumes "table_ok t" "table_chain t k = Some c" "chain_delete tx c = Inr (c', done)"
  shows "\<exists>t'. table_delete tx k t = Inr (t', done) \<and> table_ok t' \<and>
    table_chain t' = (table_chain t)(k := (if c' = [] then None else Some c')) \<and> tb_schema t' = tb_schema t"
  using put_chain_ok [OF assms(1), of c' k] drop_chain_ok [OF assms(1), of k] assms
  by (auto simp: table_delete_def getitem_chain)

lemma table_delete_missing:
  "table_ok t \<Longrightarrow> table_chain t k = None \<Longrightarrow> table_delete tx k t = Inl KeyError"
  by (simp add: table_delete_def getitem_chain)

lemma mark_deleted_replayed_ok:
  assumes "table_ok t" "table_chain t k = Some c"
  shows "\<exists>t'. mark_deleted_replayed tx k t = Inr t' \<and> table_ok t' \<and>
    table_chain t' = (table_chain t)(k \<mapsto> butlast c @ [(last c)\<lparr>v_xmax := tx\<rparr>]) \<and> tb_schema t' = tb_schema t"
  using put_chain_ok [OF assms(1), of "butlast c @ [(last c)\<lparr>v_xmax := tx\<rparr>]" k] assms
    table_chain_nonempty [OF assms]
  by (auto simp: mark_deleted_replayed_def getitem_chain stamp_last_def)

section \<open>Views\<close>

definition table_view :: "status_fn \<Rightarrow> snapshot \<Rightarrow> table \<Rightarrow> rowkey \<Rightarrow> pyval list option" where
  "table_view st s t k =
     (case table_chain t k of None \<Rightarrow> None | Some c \<Rightarrow> map_option v_row (pick_visible st s c))"

lemma visible_version_ok:
  "table_ok t \<Longrightarrow> visible_version st s k t =
     Inr (case table_chain t k of None \<Rightarrow> None | Some c \<Rightarrow> pick_visible st s c)"
  by (auto simp: visible_version_def get_chain split: option.splits)

lemma visible_rows_Cons:
  "visible_rows st s ((k, c) # es) =
     (case pick_visible st s c of None \<Rightarrow> [] | Some v \<Rightarrow> [(k, v_row v)]) @ visible_rows st s es"
  by (simp add: visible_rows_def List.map_filter_simps split: option.splits)

lemma visible_rows_Nil [simp]: "visible_rows st s [] = []"
  by (simp add: visible_rows_def List.map_filter_simps)

lemma visible_rows_keys: "fst ` set (visible_rows st s es) \<subseteq> fst ` set es"
proof (induction es)
  case (Cons e es)
  then show ?case by (cases e) (auto simp: visible_rows_Cons split: option.splits)
qed simp

lemma sorted_visible_rows: "sorted_alist es \<Longrightarrow> sorted_alist (visible_rows st s es)"
proof (induction es)
  case (Cons e es)
  obtain k c where e: "e = (k, c)" by (cases e)
  have "\<forall>x\<in>fst ` set (visible_rows st s es). k < x"
    using Cons.prems subsetD [OF visible_rows_keys [of st s es]] by (fastforce simp: e)
  then show ?case using Cons by (auto simp: e visible_rows_Cons split: option.splits)
qed simp

lemma map_of_visible_rows:
  "distinct (map fst es) \<Longrightarrow> map_of (visible_rows st s es) k =
     (case map_of es k of None \<Rightarrow> None | Some c \<Rightarrow> map_option v_row (pick_visible st s c))"
proof (induction es)
  case (Cons e es)
  obtain x c where e: "e = (x, c)" by (cases e)
  have "x \<notin> fst ` set (visible_rows st s es)"
    using visible_rows_keys [of st s es] Cons.prems e by auto
  then have "map_of (visible_rows st s es) x = None" by (simp add: map_of_eq_None_iff)
  then show ?case using Cons by (cases "k = x") (auto simp: e visible_rows_Cons split: option.splits)
qed simp

lemma table_scan_ok:
  assumes "table_ok t"
  shows "\<exists>rows. table_scan st s t = Inr rows \<and> sorted_alist rows \<and> map_of rows = table_view st s t"
proof -
  let ?es = "tree_entries (tb_tree t)"
  have es: "sorted_alist ?es" "tree_items (tb_tree t) = Inr ?es"
    using assms by (auto simp: bt.contents_sorted bt.items_contents)
  then have "distinct (map fst ?es)" by (simp add: strict_sorted_iff)
  then have "map_of (visible_rows st s ?es) = table_view st s t"
    by (auto simp: map_of_visible_rows table_view_def table_chain_def)
  then show ?thesis using es by (simp add: table_scan_def sorted_visible_rows)
qed

lemma sorted_alist_eqI:
  assumes "sorted_alist xs" "sorted_alist ys" "map_of xs = map_of ys"
  shows "xs = ys"
proof -
  have d: "distinct (map fst xs)" "distinct (map fst ys)" using assms(1,2) by (auto simp: strict_sorted_iff)
  have "set xs = set ys" using d assms(3) by (metis map_of_eq_Some_iff subsetI subset_antisym surj_pair)
  moreover have "sorted (map fst xs)" "sorted (map fst ys)" using assms(1,2) by (auto simp: strict_sorted_iff)
  moreover have "inj_on fst (set xs)" using d(1) by (simp add: distinct_map)
  ultimately show ?thesis
    using d sorted_distinct_set_unique [of "map fst xs" "map fst ys"] map_inj_on [of fst xs ys]
    by (metis inj_on_Un_image_eq_iff list.set_map sup.idem)
qed

text \<open>The rows a scan returns are a function of the view.\<close>

lemma table_scan_view:
  assumes "table_ok t" "table_ok t'" "table_view st s t = table_view st' s' t'"
  shows "table_scan st s t = table_scan st' s' t'"
  using table_scan_ok [OF assms(1), of st s] table_scan_ok [OF assms(2), of st' s'] assms(3)
    sorted_alist_eqI by force

lemma count_visible_ok:
  assumes "table_ok t"
  shows "\<exists>rows. table_scan st s t = Inr rows \<and> count_visible st s t = Inr (length rows)"
proof -
  let ?es = "tree_entries (tb_tree t)"
  have items: "tree_range (tb_tree t) None None = Inr ?es"
    using bt.items_contents [OF table_okD [OF assms]] by (simp add: tree_items_def)
  have "length (filter (\<lambda>c. pick_visible st s c \<noteq> None) (map snd es)) = length (visible_rows st s es)" for es
    by (induction es) (auto simp: visible_rows_Cons split: option.splits)
  then show ?thesis using items
    by (simp add: table_scan_def count_visible_def tree_values_def tree_items_def)
qed

end
