(* ===== verification/TableEffects.thy ===== *)
theory TableEffects
  imports TableViews
begin

text \<open>
  What a write does to the views of a table. For a writer that holds the row's lock and reads under a
  fresh snapshot, a chain is either \<open>vacant\<close> (nothing in it is visible: the key is free) or \<open>settled\<close>
  (its last version is visible and nothing else is). INSERT turns a vacant chain into a settled one,
  UPDATE keeps it settled with the new row, DELETE makes it vacant; no other transaction's view
  changes. A chain that ends in an aborted version is neither, and the last section shows what the
  operations do to it.
\<close>

section \<open>Settled and vacant chains\<close>

definition settled :: "status_fn \<Rightarrow> snapshot \<Rightarrow> chain \<Rightarrow> bool" where
  "settled st s c \<longleftrightarrow> c \<noteq> [] \<and> version_visible st s (last c) \<and> v_xmax (last c) = 0 \<and>
     (\<forall>v\<in>set (butlast c). \<not> version_visible st s v)"

definition vacant :: "status_fn \<Rightarrow> snapshot \<Rightarrow> chain \<Rightarrow> bool" where
  "vacant st s c \<longleftrightarrow> (\<forall>v\<in>set c. \<not> version_visible st s v)"

text \<open>A transaction whose writes a reader's snapshot does not count.\<close>

definition unseen :: "status_fn \<Rightarrow> snapshot \<Rightarrow> txid \<Rightarrow> bool" where
  "unseen st s tx \<longleftrightarrow> tx \<noteq> 0 \<and> \<not> counted st s tx"

lemma version_visible_counted:
  "version_visible st s v \<longleftrightarrow>
     (v_xmin v = 0 \<or> counted st s (v_xmin v)) \<and> (v_xmax v = 0 \<or> \<not> counted st s (v_xmax v))"
  by (simp add: version_visible_def stamps_visible_counted)

lemma pick_visible_Nil [simp]: "pick_visible st s [] = None"
  by (simp add: pick_visible_def)

lemma pick_visible_snoc [simp]:
  "pick_visible st s (c @ [v]) = (if version_visible st s v then Some v else pick_visible st s c)"
  by (simp add: pick_visible_def)

lemma pick_visible_None: "pick_visible st s c = None \<longleftrightarrow> vacant st s c"
  by (auto simp: pick_visible_def vacant_def find_None_iff)

lemma pick_visible_append:
  "pick_visible st s (c @ d) =
     (case pick_visible st s d of None \<Rightarrow> pick_visible st s c | Some v \<Rightarrow> Some v)"
  by (induction d rule: rev_induct) (auto simp: append_assoc [symmetric] simp del: append_assoc)

definition row_view :: "status_fn \<Rightarrow> snapshot \<Rightarrow> chain \<Rightarrow> pyval list option" where
  "row_view st s c = map_option v_row (pick_visible st s c)"

lemma row_view_simps [simp]:
  "row_view st s [] = None"
  "row_view st s (c @ [v]) = (if version_visible st s v then Some (v_row v) else row_view st s c)"
  by (simp_all add: row_view_def)

lemma row_view_None: "row_view st s c = None \<longleftrightarrow> vacant st s c"
  by (simp add: row_view_def pick_visible_None)

lemma table_view_chain: "table_view st s t k = row_view st s (chain_or_empty t k)"
  by (auto simp: table_view_def chain_or_empty_def row_view_def split: option.splits)

lemma settled_pick: "settled st s c \<Longrightarrow> pick_visible st s c = Some (last c)"
  by (cases c rule: rev_cases) (auto simp: settled_def)

lemma settled_cases:
  assumes "settled st s c"
  obtains d v where "c = d @ [v]" "vacant st s d" "version_visible st s v" "v_xmax v = 0"
  using assms by (cases c rule: rev_cases) (auto simp: settled_def vacant_def)

lemma settled_snoc:
  "settled st s (d @ [v]) \<longleftrightarrow> vacant st s d \<and> version_visible st s v \<and> v_xmax v = 0"
  by (auto simp: settled_def vacant_def)

lemma vacant_append [simp]: "vacant st s (c @ d) \<longleftrightarrow> vacant st s c \<and> vacant st s d"
  by (auto simp: vacant_def)

lemma vacant_simps [simp]:
  "vacant st s []"
  "vacant st s (v # c) \<longleftrightarrow> \<not> version_visible st s v \<and> vacant st s c"
  by (auto simp: vacant_def)

lemma vacant_own_slot: "vacant st s c \<Longrightarrow> own_slot (snap_txid s) c = None"
  by (auto simp: own_slot_None vacant_def version_visible_counted)

lemma own_version_visible [simp]: "version_visible st s (new_version row (snap_txid s))"
  by (simp add: version_visible_counted)

lemma unseen_version: "unseen st s tx \<Longrightarrow> v_xmin v = tx \<Longrightarrow> \<not> version_visible st s v"
  by (simp add: version_visible_counted unseen_def)

section \<open>The three writes on a chain\<close>

lemma chain_insert_settled:
  "vacant st s c \<Longrightarrow> settled st s (c @ [new_version row (snap_txid s)])"
  by (simp add: settled_snoc)

lemma chain_insert_unseen:
  "unseen st s' tx \<Longrightarrow> row_view st s' (c @ [new_version row tx]) = row_view st s' c"
  by (simp add: unseen_version)

text \<open>Stamping a live version with a transaction the reader does not count changes nothing for it.\<close>

lemma stamp_unseen:
  "unseen st s' tx \<Longrightarrow> v_xmax v = 0 \<Longrightarrow>
     row_view st s' (d @ [v\<lparr>v_xmax := tx\<rparr>]) = row_view st s' (d @ [v])"
  by (simp add: version_visible_counted unseen_def)

lemma chain_update_settled:
  assumes "settled st s c" "tx = snap_txid s" "tx \<noteq> 0"
  shows "\<exists>c'. chain_update tx row c = Inr c' \<and> settled st s c' \<and> v_row (last c') = row \<and>
    (\<forall>s'. unseen st s' tx \<longrightarrow> row_view st s' c' = row_view st s' c)"
proof -
  obtain d v where c: "c = d @ [v]" "vacant st s d" "version_visible st s v" "v_xmax v = 0"
    using assms(1) by (rule settled_cases)
  show ?thesis
  proof (cases "v_xmin v = tx")
    case True
    let ?v = "v\<lparr>v_row := row\<rparr>"
    have "chain_update tx row c = Inr (d @ [?v])"
      using True c by (simp add: chain_update_def own_slot_append)
    moreover have "version_visible st s ?v" using c(3) by (simp add: version_visible_counted)
    moreover have "row_view st s' (d @ [?v]) = row_view st s' c" if "unseen st s' tx" for s'
      using that True c(1) by (simp add: unseen_version)
    ultimately show ?thesis using c by (auto simp: settled_snoc)
  next
    case False
    let ?d = "d @ [v\<lparr>v_xmax := tx\<rparr>]"
    have "chain_update tx row c = Inr (?d @ [new_version row tx])"
      using False c vacant_own_slot [of st s d] assms(2) by (simp add: chain_update_def own_slot_append)
    moreover have "vacant st s ?d" using c(2) assms(2,3) by (simp add: version_visible_counted)
    moreover have "row_view st s' (?d @ [new_version row tx]) = row_view st s' c" if "unseen st s' tx" for s'
      unfolding chain_insert_unseen [OF that] c(1) using that c(4) by (rule stamp_unseen)
    moreover have "settled st s (?d @ [new_version row tx])"
      unfolding assms(2) by (rule chain_insert_settled) (use calculation(2) assms(2) in simp)
    ultimately show ?thesis by (metis last_snoc new_version_simps(1))
  qed
qed

lemma chain_delete_settled:
  assumes "settled st s c" "tx = snap_txid s" "tx \<noteq> 0"
  shows "\<exists>c'. chain_delete tx c = Inr (c', True) \<and> vacant st s c' \<and>
    (\<forall>s'. unseen st s' tx \<longrightarrow> row_view st s' c' = row_view st s' c)"
proof -
  obtain d v where c: "c = d @ [v]" "vacant st s d" "version_visible st s v" "v_xmax v = 0"
    using assms(1) by (rule settled_cases)
  show ?thesis
  proof (cases "v_xmin v = tx")
    case True
    then have "chain_delete tx c = Inr (d, True)"
      using c by (simp add: chain_delete_def own_slot_append)
    moreover have "row_view st s' d = row_view st s' c" if "unseen st s' tx" for s'
      using that True c(1) by (simp add: unseen_version)
    ultimately show ?thesis using c by auto
  next
    case False
    let ?c = "d @ [v\<lparr>v_xmax := tx\<rparr>]"
    have "chain_delete tx c = Inr (?c, True)"
      using False c vacant_own_slot [of st s d] assms(2) by (simp add: chain_delete_def own_slot_append)
    moreover have "vacant st s ?c" using c(2) assms(2,3) by (simp add: version_visible_counted)
    moreover have "row_view st s' ?c = row_view st s' c" if "unseen st s' tx" for s'
      unfolding c(1) using that c(4) by (rule stamp_unseen)
    ultimately show ?thesis by auto
  qed
qed

section \<open>The three writes on the table\<close>

lemma table_view_upd:
  "table_chain t' = (table_chain t)(k \<mapsto> c) \<Longrightarrow>
     table_view st s t' = (table_view st s t)(k := row_view st s c)"
  by (auto simp: table_view_def row_view_def)

lemma table_view_del:
  "table_chain t' = (table_chain t)(k := (if c = [] then None else Some c)) \<Longrightarrow>
     table_view st s t' = (table_view st s t)(k := row_view st s c)"
  by (auto simp: table_view_def row_view_def)

lemma table_insert_view:
  assumes "table_ok t" "insert_key t row key = Inr (t1, k)" "snap_txid s = tx"
    "table_view st s t k = None"
  shows "\<exists>t'. table_insert tx row key t = Inr (t', k) \<and> table_ok t' \<and>
    table_view st s t' = (table_view st s t)(k \<mapsto> row) \<and> settled st s (chain_or_empty t' k) \<and>
    (\<forall>s'. unseen st s' tx \<longrightarrow> table_view st s' t' = table_view st s' t)"
proof -
  obtain t' where t': "table_insert tx row key t = Inr (t', k)" "table_ok t'"
    "table_chain t' = (table_chain t)(k \<mapsto> chain_or_empty t k @ [new_version row tx])"
    using table_insert_ok [OF assms(1,2), of tx] by blast
  note view = table_view_upd [OF t'(3)]
  have "row_view st s' (chain_or_empty t k) = table_view st s' t k" for s' by (simp add: table_view_chain)
  moreover have "vacant st s (chain_or_empty t k)" using assms(4) by (simp add: table_view_chain row_view_None)
  moreover have "chain_or_empty t' k = chain_or_empty t k @ [new_version row tx]"
    using t'(3) by (simp add: chain_or_empty_def)
  moreover have "table_view st s' t' = table_view st s' t" if "unseen st s' tx" for s'
    unfolding view chain_insert_unseen [OF that] by (simp add: fun_upd_idem table_view_chain)
  ultimately show ?thesis
    using t' assms(3) chain_insert_settled by (auto simp: view)
qed

lemma settled_chain:
  "settled st s (chain_or_empty t k) \<Longrightarrow> \<exists>c. table_chain t k = Some c \<and> settled st s c"
  by (auto simp: chain_or_empty_def settled_def split: option.splits)

lemma table_update_view:
  assumes "table_ok t" "settled st s (chain_or_empty t k)" "snap_txid s = tx" "tx \<noteq> 0"
  shows "\<exists>t'. table_update tx k row t = Inr t' \<and> table_ok t' \<and>
    table_view st s t' = (table_view st s t)(k \<mapsto> row) \<and> settled st s (chain_or_empty t' k) \<and>
    (\<forall>s'. unseen st s' tx \<longrightarrow> table_view st s' t' = table_view st s' t)"
proof -
  obtain c where c: "table_chain t k = Some c" "settled st s c" using settled_chain [OF assms(2)] by blast
  obtain c' where c': "chain_update tx row c = Inr c'" "settled st s c'" "v_row (last c') = row"
    "\<forall>s'. unseen st s' tx \<longrightarrow> row_view st s' c' = row_view st s' c"
    using chain_update_settled [OF c(2) assms(3) [symmetric] assms(4), of row] by blast
  obtain t' where t': "table_update tx k row t = Inr t'" "table_ok t'" "table_chain t' = (table_chain t)(k \<mapsto> c')"
    using table_update_ok [OF assms(1) c(1) c'(1)] by blast
  have "row_view st s c' = Some row" using settled_pick [OF c'(2)] c'(3) by (simp add: row_view_def)
  moreover have "row_view st s' c = table_view st s' t k" for s'
    using c(1) by (simp add: table_view_def row_view_def)
  ultimately show ?thesis using t' c' by (auto simp: table_view_upd [OF t'(3)] chain_or_empty_def)
qed

lemma table_delete_view:
  assumes "table_ok t" "settled st s (chain_or_empty t k)" "snap_txid s = tx" "tx \<noteq> 0"
  shows "\<exists>t'. table_delete tx k t = Inr (t', True) \<and> table_ok t' \<and>
    table_view st s t' = (table_view st s t)(k := None) \<and>
    (\<forall>s'. unseen st s' tx \<longrightarrow> table_view st s' t' = table_view st s' t)"
proof -
  obtain c where c: "table_chain t k = Some c" "settled st s c" using settled_chain [OF assms(2)] by blast
  obtain c' where c': "chain_delete tx c = Inr (c', True)" "vacant st s c'"
    "\<forall>s'. unseen st s' tx \<longrightarrow> row_view st s' c' = row_view st s' c"
    using chain_delete_settled [OF c(2) assms(3) [symmetric] assms(4)] by blast
  obtain t' where t': "table_delete tx k t = Inr (t', True)" "table_ok t'"
    "table_chain t' = (table_chain t)(k := (if c' = [] then None else Some c'))"
    using table_delete_ok [OF assms(1) c(1) c'(1)] by blast
  have "row_view st s c' = None" using c'(2) by (simp add: row_view_None)
  moreover have "row_view st s' c = table_view st s' t k" for s'
    using c(1) by (simp add: table_view_def row_view_def)
  ultimately show ?thesis using t' c' by (auto simp: table_view_del [OF t'(3)])
qed

end
