(* ===== verification/GcCorrect.thy ===== *)
theory GcCorrect
  imports TableGc TableEffects
begin

text \<open>
  What garbage collection does. \<open>sweep\<close> is the closed form of the purge loop on one leaf: of a run of
  keys to remove, every second one stays. The chains that stay are dead, so a collection is invisible
  to every snapshot that counts as past all transactions below the watermark.
\<close>

section \<open>The leaves of a tree\<close>

definition leaf_lists :: "('k, 'v) bptree \<Rightarrow> ('k \<times> 'v) list list" where
  "leaf_lists t = map (\<lambda>(ks, vs). zip ks vs) (leaves (bp_root t))"

lemma leaf_lists_entries: "concat (leaf_lists t) = tree_entries t"
  by (simp add: leaf_lists_def tree_entries_def entries_def leaf_entries_def)

lemma ordered_leaf_lengths:
  fixes n :: "('k::linorder, 'v) node" and cs :: "('k, 'v) node list"
  shows "ordered lo n hi \<Longrightarrow> \<forall>(ks, vs)\<in>set (leaves n). length ks = length vs"
    and "ordered_children lo ks cs hi \<Longrightarrow> \<forall>c\<in>set cs. \<forall>(ks, vs)\<in>set (leaves c). length ks = length vs"
  by (induction lo n hi and lo ks cs hi rule: ordered_ordered_children.induct) auto

lemma leaf_list_keys:
  "tree_ok t \<Longrightarrow> (ks, vs) \<in> set (leaves (bp_root t)) \<Longrightarrow> map fst (zip ks vs) = ks"
  using ordered_leaf_lengths(1) by (fastforce simp: tree_ok_def)

lemma drop_key_absent: "k \<notin> fst ` set es \<Longrightarrow> drop_key k es = es"
  by (force simp: drop_key_def filter_id_conv)

lemma drop_key_absent_lists:
  "k \<notin> fst ` set (concat P) \<Longrightarrow> map (drop_key k) P = P"
  by (induction P) (auto simp: drop_key_absent image_Un simp del: set_concat)

lemma list_pop_filter:
  assumes "distinct (map fst es)" "j < length es"
  shows "list_pop j es = drop_key (fst (es ! j)) es"
proof -
  let ?A = "take j es" and ?B = "drop (Suc j) es"
  have es: "es = ?A @ es ! j # ?B" by (rule id_take_nth_drop [OF assms(2)])
  have "distinct (map fst (?A @ es ! j # ?B))" using assms(1) es by simp
  then have "fst (es ! j) \<notin> fst ` set ?A" "fst (es ! j) \<notin> fst ` set ?B" by simp_all
  then have "drop_key (fst (es ! j)) ?A = ?A" "drop_key (fst (es ! j)) ?B = ?B"
    by (simp_all add: drop_key_absent)
  then have "drop_key (fst (es ! j)) (?A @ es ! j # ?B) = ?A @ ?B" by (simp add: drop_key_def)
  then show ?thesis using es by (simp add: list_pop_def)
qed

text \<open>Popping one entry of one list, where no key occurs twice, drops its key from all lists.\<close>

lemma leaf_pop:
  assumes "distinct (map fst (concat (P @ F # Q)))" "i < length F"
  shows "P @ list_pop i F # Q = map (drop_key (fst (F ! i))) (P @ F # Q)"
proof -
  let ?k = "fst (F ! i)"
  have k: "?k \<in> fst ` set F" using assms(2) by auto
  have "?k \<notin> fst ` set (concat P)" "?k \<notin> fst ` set (concat Q)"
    using assms(1) k by (simp_all add: image_image) (blast | force)+
  then show ?thesis using list_pop_filter [of F i] assms by (simp add: drop_key_absent_lists)
qed

text \<open>Deleting a key pops it from the leaf that holds it and leaves the others alone.\<close>

lemma leaf_lengths:
  "tree_ok t \<Longrightarrow> (ks, vs) \<in> set (leaves (bp_root t)) \<Longrightarrow> length ks = length vs"
  using ordered_leaf_lengths(1) by (fastforce simp: tree_ok_def)

lemma tree_delete_root:
  assumes t: "tree_ok t" and "tree_delete t k = Inr (t', True)"
  shows "delete_node k (bp_root t) = Inr (bp_root t', True)"
proof -
  obtain n where n: "delete_node k (bp_root t) = Inr (n, True)" "collapse_root n = Inr (bp_root t')"
    using assms(2) by (auto simp: tree_delete_def bind_result_eq_Inr split: if_splits)
  obtain d where "shape True False (bp_order t) d (bp_root t)" using t by (auto simp: tree_ok_def)
  then have "collapse_root n = Inr n" using delete_node_shape [OF n(1)] shape_no_collapse by blast
  then show ?thesis using n by simp
qed

lemma tree_delete_leaf:
  assumes t: "tree_ok t" and L: "leaf_lists t = pre @ E # post" and j: "j < length E"
  shows "\<exists>t'. tree_delete t (fst (E ! j)) = Inr (t', True) \<and> tree_ok t' \<and> bp_order t' = bp_order t \<and>
    leaf_lists t' = pre @ list_pop j E # post"
proof -
  let ?k = "fst (E ! j)"
  have dist: "distinct (map fst (concat (leaf_lists t)))"
    using bt.contents_distinct [OF t] by (simp add: leaf_lists_entries)
  have "E ! j \<in> set (tree_entries t)" using j L by (auto simp: leaf_lists_entries [symmetric])
  then have "?k \<in> fst ` set (tree_entries t)" by (rule imageI)
  then obtain t' where t': "tree_delete t ?k = Inr (t', True)" "tree_ok t'" "bp_order t' = bp_order t"
    using tree_delete_ok [OF t, of ?k] by auto
  obtain as ks vs bs slot where l: "leaves (bp_root t) = as @ (ks, vs) # bs" "slot < length ks" "ks ! slot = ?k"
    "leaves (bp_root t') = as @ (list_pop slot ks, list_pop slot vs) # bs"
    using delete_node_leaves [OF tree_delete_root [OF t t'(1)]] by blast
  have len: "length ks = length vs" using leaf_lengths [OF t, of ks vs] l(1) by simp
  let ?P = "map (\<lambda>(ks, vs). zip ks vs) as" and ?Q = "map (\<lambda>(ks, vs). zip ks vs) bs"
  have old: "leaf_lists t = ?P @ zip ks vs # ?Q" by (simp add: leaf_lists_def l(1))
  have "leaf_lists t' = ?P @ list_pop slot (zip ks vs) # ?Q"
    by (simp add: leaf_lists_def l(4) zip_list_pop len)
  also have "\<dots> = map (drop_key ?k) (leaf_lists t)"
    using leaf_pop [of ?P "zip ks vs" ?Q slot] dist l(2,3) len by (simp add: old del: map_append concat_append)
  also have "\<dots> = pre @ list_pop j E # post"
    unfolding L by (rule leaf_pop [symmetric]) (use dist L j in auto)
  finally show ?thesis using t' by blast
qed

section \<open>The purge loop\<close>

fun sweep :: "'k list \<Rightarrow> ('k \<times> 'v) list \<Rightarrow> ('k \<times> 'v) list" where
  "sweep live [] = []"
| "sweep live (e # es) =
     (if fst e \<in> set live then e # sweep live es
      else case es of [] \<Rightarrow> [] | e' # es' \<Rightarrow> e' # sweep live es')"

lemma list_pop_nth_drop: "j < length E \<Longrightarrow> drop j E = E ! j # drop (Suc j) E"
  by (simp add: Cons_nth_drop_Suc)

lemma sweep_at:
  assumes "slot < length E" "fst (E ! slot) \<notin> set live"
  shows "take (Suc slot) (list_pop slot E) @ sweep live (drop (Suc slot) (list_pop slot E)) =
    take slot E @ sweep live (drop slot E)"
  using assms
  by (cases "drop (Suc slot) E") (auto simp: list_pop_def list_pop_nth_drop min_def)

lemma purge_ok:
  "tree_ok t \<Longrightarrow> leaf_lists t = pre @ rest \<Longrightarrow> length pre = leaf \<Longrightarrow>
    \<exists>t'. purge live leaf slot t = Inr t' \<and> tree_ok t' \<and> bp_order t' = bp_order t \<and>
      leaf_lists t' = pre @ (case rest of [] \<Rightarrow> [] | E # post \<Rightarrow>
        (take slot E @ sweep live (drop slot E)) # map (sweep live) post)"
proof (induction live leaf slot t arbitrary: pre rest rule: purge.induct)
  case (1 live leaf slot t)
  have drop: "map (\<lambda>(ks, vs). zip ks vs) (drop leaf (leaves (bp_root t))) = rest"
    using 1(5,6) by (simp add: leaf_lists_def drop_map [symmetric])
  show ?case
  proof (cases "drop leaf (leaves (bp_root t))")
    case Nil
    then show ?thesis using 1(4,5) drop by (simp add: purge.simps [of live leaf slot t])
  next
    case (Cons l ls)
    obtain ks vs where l: "l = (ks, vs)" by (cases l)
    let ?E = "zip ks vs" and ?post = "map (\<lambda>(ks, vs). zip ks vs) ls"
    have rest: "rest = ?E # ?post" using drop Cons l by simp
    have mem: "(ks, vs) \<in> set (leaves (bp_root t))" using Cons l by (metis in_set_dropD list.set_intros(1))
    then have keys: "map fst ?E = ks" using leaf_list_keys [OF 1(4)] by blast
    then have len: "length ?E = length ks" by (metis length_map)
    show ?thesis
    proof (cases "slot < length ks")
      case slot: True
      then have key: "fst (?E ! slot) = ks ! slot" using len keys by (metis nth_map)
      show ?thesis
      proof (cases "ks ! slot \<in> set live")
        case live: True
        have step: "purge live leaf slot t = purge live leaf (Suc slot) t"
          using Cons l slot live by (simp add: purge.simps [of live leaf slot t])
        have "take (Suc slot) ?E @ sweep live (drop (Suc slot) ?E) = take slot ?E @ sweep live (drop slot ?E)"
          using slot live len key by (simp add: list_pop_nth_drop take_Suc_conv_app_nth)
        then show ?thesis
          using 1(1) [OF Cons l [symmetric] slot live 1(4) 1(5) 1(6)] rest by (simp add: step)
      next
        case dead: False
        have j: "slot < length ?E" using slot len by simp
        have L: "leaf_lists t = pre @ ?E # ?post" using 1(5) rest by simp
        obtain t' where t': "tree_delete t (ks ! slot) = Inr (t', True)" "tree_ok t'"
          and ord: "bp_order t' = bp_order t" and L': "leaf_lists t' = pre @ list_pop slot ?E # ?post"
          using tree_delete_leaf [OF 1(4) L j] key by auto
        have step: "purge live leaf slot t = purge live leaf (Suc slot) t'"
          using Cons l slot dead t'(1) by (simp add: purge.simps [of live leaf slot t])
        note IH = 1(2) [OF Cons l [symmetric] slot dead t'(1) refl t'(2) L' 1(6)]
        show ?thesis using IH sweep_at [of slot ?E live] slot dead len key rest by (simp add: step ord)
      qed
    next
      case slot: False
      have step: "purge live leaf slot t = purge live (Suc leaf) 0 t"
        using Cons l slot by (simp add: purge.simps [of live leaf slot t])
      have L: "leaf_lists t = (pre @ [?E]) @ ?post" "length (pre @ [?E]) = Suc leaf"
        using 1(5,6) rest by simp_all
      note IH = 1(3) [OF Cons l [symmetric] slot 1(4) L]
      show ?thesis using IH slot len rest by (cases ?post) (auto simp: step)
    qed
  qed
qed

lemma purge_sweeps:
  assumes "tree_ok t"
  shows "\<exists>t'. purge live 0 0 t = Inr t' \<and> tree_ok t' \<and> leaf_lists t' = map (sweep live) (leaf_lists t)"
  using purge_ok [OF assms, of "[]" "leaf_lists t" 0 live 0] by (cases "leaf_lists t") auto

section \<open>A collection is invisible\<close>

lemma sweep_subset: "set (sweep live es) \<subseteq> set es"
  by (induction live es rule: sweep.induct) (auto split: list.splits)

lemma sweep_live: "e \<in> set es \<Longrightarrow> fst e \<in> set live \<Longrightarrow> e \<in> set (sweep live es)"
proof (induction live es rule: sweep.induct)
  case (2 live e' es)
  then show ?case by (cases es) auto
qed simp

lemma purge_entries:
  assumes "tree_ok t"
  shows "\<exists>t'. purge live 0 0 t = Inr t' \<and> tree_ok t' \<and> set (tree_entries t') \<subseteq> set (tree_entries t) \<and>
    (\<forall>e\<in>set (tree_entries t). fst e \<in> set live \<longrightarrow> e \<in> set (tree_entries t'))"
proof -
  obtain t' where t': "purge live 0 0 t = Inr t'" "tree_ok t'" "leaf_lists t' = map (sweep live) (leaf_lists t)"
    using purge_sweeps [OF assms, of live] by blast
  have "set (tree_entries t') \<subseteq> set (tree_entries t)"
    using sweep_subset by (fastforce simp: leaf_lists_entries [symmetric] t'(3))
  moreover have "e \<in> set (tree_entries t')" if "e \<in> set (tree_entries t)" "fst e \<in> set live" for e
    using that sweep_live by (fastforce simp: leaf_lists_entries [symmetric] t'(3))
  ultimately show ?thesis using t' by blast
qed

lemma tree_entries_map: "tree_ok t \<Longrightarrow> (k, v) \<in> set (tree_entries t) \<longleftrightarrow> map_of (tree_entries t) k = Some v"
  using bt.contents_distinct by (metis map_of_eq_Some_iff)

lemma map_of_rev: "distinct (map fst es) \<Longrightarrow> map_of (rev es) = map_of es"
proof
  fix k assume d: "distinct (map fst es)"
  then have "distinct (map fst (rev es))" by (simp add: rev_map [symmetric])
  then have "map_of (rev es) k = Some v \<longleftrightarrow> map_of es k = Some v" for v
    using d by (simp add: map_of_eq_Some_iff)
  then show "map_of (rev es) k = map_of es k" by (metis option.exhaust)
qed

lemma replace_chains_ok:
  assumes "table_ok t" "distinct (map fst pairs)" "\<forall>e\<in>set pairs. snd e \<noteq> []"
  shows "\<exists>t'. replace_chains pairs t = Inr t' \<and> table_ok t' \<and> (\<forall>k. case map_of pairs k of
      Some c \<Rightarrow> table_chain t' k = Some c
    | None \<Rightarrow> table_chain t' k = None \<or> table_chain t' k = table_chain t k)"
proof -
  have all: "filter (\<lambda>(k, c). c \<noteq> []) pairs = pairs" using assms(3) by (auto simp: filter_id_conv)
  obtain t1 where t1: "put_all tree_insert (tb_tree t) pairs = Inr t1" "tree_ok t1"
    "map_of (tree_entries t1) = table_chain t ++ map_of (rev pairs)"
    using bt.put_all_ok [OF table_okD [OF assms(1)], of pairs] by (auto simp: table_chain_def)
  have rev: "map_of (rev pairs) = map_of pairs" using assms(2) by (rule map_of_rev)
  obtain t2 where t2: "purge (map fst pairs) 0 0 t1 = Inr t2" "tree_ok t2"
    "set (tree_entries t2) \<subseteq> set (tree_entries t1)"
    "\<forall>e\<in>set (tree_entries t1). fst e \<in> set (map fst pairs) \<longrightarrow> e \<in> set (tree_entries t2)"
    using purge_entries [OF t1(2), of "map fst pairs"] by blast
  have chain: "map_of (tree_entries t2) k = Some c \<Longrightarrow> map_of (tree_entries t1) k = Some c" for k c
    using subsetD [OF t2(3), of "(k, c)"] by (simp add: tree_entries_map t1(2) t2(2))
  have live: "map_of (tree_entries t2) k = Some c" if "map_of pairs k = Some c" for k c
  proof -
    have "map_of (tree_entries t1) k = Some c" using that by (simp add: t1(3) rev)
    then have "(k, c) \<in> set (tree_entries t1)" by (rule map_of_SomeD)
    moreover have "k \<in> set (map fst pairs)" using that by (force dest: map_of_SomeD)
    ultimately have "(k, c) \<in> set (tree_entries t2)" using t2(4) by fastforce
    then show ?thesis by (simp add: tree_entries_map t2(2))
  qed
  have "c \<noteq> []" if "(k, c) \<in> set (tree_entries t2)" for k c
  proof -
    have "map_of (tree_entries t1) k = Some c" using that chain by (simp add: tree_entries_map t2(2))
    then have "table_chain t k = Some c \<or> map_of pairs k = Some c" by (auto simp: t1(3) rev)
    then show ?thesis using table_chain_nonempty [OF assms(1)] assms(3) by (force dest: map_of_SomeD)
  qed
  then have ok: "table_ok (t\<lparr>tb_tree := t2\<rparr>)" using t2(2) by (auto simp: table_ok_def)
  have "table_chain (t\<lparr>tb_tree := t2\<rparr>) k = None \<or> table_chain (t\<lparr>tb_tree := t2\<rparr>) k = table_chain t k"
    if "map_of pairs k = None" for k
    using chain [of k] that
    by (cases "map_of (tree_entries t2) k") (auto simp: table_chain_def t1(3) rev)
  moreover have "replace_chains pairs t = Inr (t\<lparr>tb_tree := t2\<rparr>)"
    by (simp add: replace_chains_def all t1(1) t2(1))
  ultimately show ?thesis using ok live by (auto simp: table_chain_def split: option.splits)
qed

definition kept_chain :: "status_fn \<Rightarrow> txid \<Rightarrow> table \<Rightarrow> rowkey \<Rightarrow> chain" where
  "kept_chain st oldest t k = filter (\<lambda>v. \<not> reclaimable st oldest v) (chain_or_empty t k)"

lemma map_of_kept:
  "distinct (map fst es) \<Longrightarrow>
     map_of (filter (\<lambda>(k, c). c \<noteq> []) (map (\<lambda>(k, c). (k, f c)) es)) k =
     (case map_of es k of None \<Rightarrow> None | Some c \<Rightarrow> if f c = [] then None else Some (f c))"
proof (induction es)
  case (Cons e es)
  obtain x c where e: "e = (x, c)" by (cases e)
  have "map_of es x = None" using Cons.prems by (simp add: e map_of_eq_None_iff)
  then show ?case using Cons by (cases "k = x") (auto simp: e split: option.splits)
qed simp

lemma distinct_filter_map: "distinct (map f xs) \<Longrightarrow> distinct (map f (filter P xs))"
  by (induction xs) auto

lemma table_gc_ok:
  assumes "table_ok t"
  shows "\<exists>t' n. table_gc st oldest t = Inr (t', n) \<and> table_ok t' \<and>
    n = (\<Sum>(k, c)\<leftarrow>tree_entries (tb_tree t). length (filter (reclaimable st oldest) c)) \<and>
    (\<forall>k. if kept_chain st oldest t k \<noteq> [] then table_chain t' k = Some (kept_chain st oldest t k)
         else table_chain t' k = None \<or> table_chain t' k = table_chain t k)"
proof -
  let ?es = "tree_entries (tb_tree t)"
  let ?keep = "filter (\<lambda>v. \<not> reclaimable st oldest v)"
  let ?pairs = "filter (\<lambda>(k, c). c \<noteq> []) (map (\<lambda>(k, c). (k, ?keep c)) ?es)"
  have d: "distinct (map fst ?es)" using bt.contents_distinct assms by blast
  have "map fst (map (\<lambda>(k, c). (k, ?keep c)) ?es) = map fst ?es" by auto
  then have dp: "distinct (map fst ?pairs)" using d by (metis distinct_filter_map)
  obtain t' where t': "replace_chains ?pairs t = Inr t'" "table_ok t'"
    "\<forall>k. case map_of ?pairs k of Some c \<Rightarrow> table_chain t' k = Some c
       | None \<Rightarrow> table_chain t' k = None \<or> table_chain t' k = table_chain t k"
    using replace_chains_ok [OF assms dp] by auto
  have kept: "map_of ?pairs k = (if kept_chain st oldest t k = [] then None else Some (kept_chain st oldest t k))" for k
    using map_of_kept [OF d, of ?keep k]
    by (auto simp: kept_chain_def chain_or_empty_def table_chain_def split: option.splits)
  have "table_gc st oldest t = Inr (t', \<Sum>(k, c)\<leftarrow>?es. length (filter (reclaimable st oldest) c))"
    using t'(1) bt.items_contents [OF table_okD [OF assms]]
    by (simp add: table_gc_def iter_chains_def gc_collect_def)
  moreover have "if kept_chain st oldest t k \<noteq> [] then table_chain t' k = Some (kept_chain st oldest t k)
      else table_chain t' k = None \<or> table_chain t' k = table_chain t k" for k
    using t'(3) [rule_format, of k] by (simp add: kept split: if_splits)
  ultimately show ?thesis using t'(2) by auto
qed

text \<open>A snapshot above the watermark counts every committed transaction below it.\<close>

definition above_watermark :: "txid \<Rightarrow> snapshot \<Rightarrow> bool" where
  "above_watermark oldest s \<longleftrightarrow>
     oldest \<le> snap_taken_at s \<and> (oldest \<le> snap_txid s \<or> snap_txid s = 0) \<and> (\<forall>t\<in>snap_active s. oldest \<le> t)"

lemma reclaimable_invisible:
  assumes "above_watermark oldest s" "st 0 \<noteq> Some False" "reclaimable st oldest v"
  shows "\<not> version_visible st s v"
proof -
  consider "v_xmin v < oldest" "st (v_xmin v) = Some False"
    | "v_xmax v \<noteq> 0" "v_xmax v < oldest" "st (v_xmax v) = Some True"
    using assms(3) by (auto simp: reclaimable_def)
  then show ?thesis
  proof cases
    case 1
    then have "v_xmin v \<noteq> 0" "\<not> counted st s (v_xmin v)"
      using assms(1,2) by (auto simp: counted_def above_watermark_def intro: gr0I)
    then show ?thesis by (simp add: version_visible_counted)
  next
    case 2
    then have "counted st s (v_xmax v)" using assms(1) by (force simp: counted_def above_watermark_def)
    then show ?thesis using 2(1) by (simp add: version_visible_counted)
  qed
qed

lemma row_view_filter:
  "\<forall>v\<in>set c. \<not> P v \<longrightarrow> \<not> version_visible st s v \<Longrightarrow> row_view st s (filter P c) = row_view st s c"
  by (induction c rule: rev_induct) auto

lemma table_gc_view:
  assumes "table_ok t" "above_watermark oldest s" "st 0 \<noteq> Some False" "table_gc st oldest t = Inr (t', n)"
  shows "table_view st s t' = table_view st s t"
proof
  fix k
  have kept: "row_view st s (kept_chain st oldest t k) = table_view st s t k"
    unfolding kept_chain_def table_view_chain
    by (rule row_view_filter) (use reclaimable_invisible [where st = st, OF assms(2,3)] in blast)
  have "if kept_chain st oldest t k \<noteq> [] then table_chain t' k = Some (kept_chain st oldest t k)
      else table_chain t' k = None \<or> table_chain t' k = table_chain t k"
    using table_gc_ok [OF assms(1), of st oldest] assms(4) by auto
  then show "table_view st s t' k = table_view st s t k"
    using kept by (auto simp: table_view_def row_view_def split: if_splits)
qed

end
