(* ===== verification/MvccSystem.thy ===== *)
theory MvccSystem
  imports TxnManager GcCorrect
begin

text \<open>
  Transactions on a table: the transaction manager, one table and the row locks together, as a labelled
  step relation, and its specification. The specification has the committed rows and, for each
  transaction, its private changes; \<open>spec_op\<close> says what each operation does to them. The refinement says
  that a statement of READ COMMITTED, which reads under a fresh snapshot, sees the committed rows overridden
  by its own transaction's changes, through every interleaving of writers, commits and collections.

  The row locks enter as \<open>sy_owner\<close>, the transaction that holds the X lock of a key; it keeps the lock
  until it ends. An abort is a step of the refinement when the transaction has only inserted;
  \<open>TableAnomalies\<close> shows what an aborted update leaves behind.
\<close>

section \<open>Fresh snapshots\<close>

definition committed :: "txn_manager \<Rightarrow> txid \<Rightarrow> bool" where
  "committed m i \<longleftrightarrow> tm_state m i = Some TxCommitted"

abbreviation fresh_visible :: "txn_manager \<Rightarrow> txid \<Rightarrow> version \<Rightarrow> bool" where
  "fresh_visible m tx \<equiv> version_visible (status m) (take_snapshot tx m)"

lemma status_True [simp]: "status m i = Some True \<longleftrightarrow> committed m i"
  by (auto simp: status_def committed_def split: option.splits txn_state.splits)

lemma committed_id: "manager_ok m \<Longrightarrow> committed m i \<Longrightarrow> 0 < i \<and> i < tm_next_id m \<and> i \<notin> tm_active m"
  using manager_okD(1,2) [of m] by (auto simp: committed_def ids_ok_def active_ok_def)

lemma active_id: "manager_ok m \<Longrightarrow> i \<in> tm_active m \<Longrightarrow> 0 < i \<and> i < tm_next_id m \<and> \<not> committed m i"
  using manager_okD(1,2) [of m] by (auto simp: committed_def ids_ok_def active_ok_def)

lemma counted_fresh: "manager_ok m \<Longrightarrow> counted (status m) (take_snapshot tx m) i \<longleftrightarrow> i = tx \<or> committed m i"
  by (auto simp: counted_def take_snapshot_def dest: committed_id)

lemma fresh_visible_iff:
  "manager_ok m \<Longrightarrow> fresh_visible m tx v \<longleftrightarrow>
     (v_xmin v = 0 \<or> v_xmin v = tx \<or> committed m (v_xmin v)) \<and>
     (v_xmax v = 0 \<or> v_xmax v \<noteq> tx \<and> \<not> committed m (v_xmax v))"
  by (simp add: version_visible_counted counted_fresh)

lemma unseen_fresh:
  "manager_ok m \<Longrightarrow> i \<in> tm_active m \<Longrightarrow> tx \<noteq> i \<Longrightarrow> unseen (status m) (take_snapshot tx m) i"
  using active_id [of m i] by (auto simp: unseen_def counted_fresh)

lemma row_view_cong:
  "(\<And>v. v \<in> set c \<Longrightarrow> version_visible st s v = version_visible st' s' v) \<Longrightarrow>
     row_view st s c = row_view st' s' c \<and> vacant st s c = vacant st' s' c \<and> settled st s c = settled st' s' c"
proof (induction c rule: rev_induct)
  case (snoc v c)
  then show ?case by (auto simp: settled_snoc)
qed (simp add: settled_def)

section \<open>The system\<close>

record mvcc_system =
  sy_mgr :: txn_manager
  sy_table :: table
  sy_owner :: "rowkey \<rightharpoonup> txid"

datatype mvcc_op =
    OBegin isolation
  | OLock txid rowkey
  | OInsert txid rowkey "pyval list"
  | OUpdate txid rowkey "pyval list"
  | ODelete txid rowkey
  | OCommit txid
  | OAbort txid
  | OCollect

definition own_view :: "txid \<Rightarrow> mvcc_system \<Rightarrow> rowkey \<Rightarrow> pyval list option" where
  "own_view tx s = table_view (status (sy_mgr s)) (take_snapshot tx (sy_mgr s)) (sy_table s)"

text \<open>No transaction has the id 0, so its fresh snapshot sees what is committed and nothing else.\<close>

definition committed_view :: "mvcc_system \<Rightarrow> rowkey \<Rightarrow> pyval list option" where
  "committed_view = own_view 0"

definition inserted_only :: "txid \<Rightarrow> table \<Rightarrow> bool" where
  "inserted_only tx t \<longleftrightarrow> (\<forall>k. \<forall>v\<in>set (chain_or_empty t k). v_xmax v \<noteq> tx)"

definition release_rows :: "txid \<Rightarrow> (rowkey \<rightharpoonup> txid) \<Rightarrow> rowkey \<rightharpoonup> txid" where
  "release_rows tx ow k = (if ow k = Some tx then None else ow k)"

inductive sys_step :: "mvcc_op \<Rightarrow> mvcc_system \<Rightarrow> mvcc_system \<Rightarrow> bool" where
  sys_begin: "sys_step (OBegin level) s (s\<lparr>sy_mgr := fst (begin_txn level (sy_mgr s))\<rparr>)"
| sys_lock: "tx \<in> tm_active (sy_mgr s) \<Longrightarrow> sy_owner s k = None \<Longrightarrow>
    sys_step (OLock tx k) s (s\<lparr>sy_owner := (sy_owner s)(k \<mapsto> tx)\<rparr>)"
| sys_insert: "tx \<in> tm_active (sy_mgr s) \<Longrightarrow> sy_owner s k = Some tx \<Longrightarrow> own_view tx s k = None \<Longrightarrow>
    table_insert tx row (Some k) (sy_table s) = Inr (t', k) \<Longrightarrow>
    sys_step (OInsert tx k row) s (s\<lparr>sy_table := t'\<rparr>)"
| sys_update: "tx \<in> tm_active (sy_mgr s) \<Longrightarrow> sy_owner s k = Some tx \<Longrightarrow> own_view tx s k \<noteq> None \<Longrightarrow>
    table_update tx k row (sy_table s) = Inr t' \<Longrightarrow>
    sys_step (OUpdate tx k row) s (s\<lparr>sy_table := t'\<rparr>)"
| sys_delete: "tx \<in> tm_active (sy_mgr s) \<Longrightarrow> sy_owner s k = Some tx \<Longrightarrow> own_view tx s k \<noteq> None \<Longrightarrow>
    table_delete tx k (sy_table s) = Inr (t', found) \<Longrightarrow>
    sys_step (ODelete tx k) s (s\<lparr>sy_table := t'\<rparr>)"
| sys_commit: "tm_txns (sy_mgr s) tx = Some t \<Longrightarrow> tx \<in> tm_active (sy_mgr s) \<Longrightarrow>
    commit_txn disk_ok t (sy_mgr s) = (m', Inr ()) \<Longrightarrow>
    sys_step (OCommit tx) s (s\<lparr>sy_mgr := m', sy_owner := release_rows tx (sy_owner s)\<rparr>)"
| sys_abort: "tm_txns (sy_mgr s) tx = Some t \<Longrightarrow> tx \<in> tm_active (sy_mgr s) \<Longrightarrow>
    inserted_only tx (sy_table s) \<Longrightarrow>
    sys_step (OAbort tx) s
      (s\<lparr>sy_mgr := abort_txn t (sy_mgr s), sy_owner := release_rows tx (sy_owner s)\<rparr>)"
| sys_collect: "table_gc (status (sy_mgr s)) (gc_watermark (sy_mgr s)) (sy_table s) = Inr (t', n) \<Longrightarrow>
    sys_step OCollect s (s\<lparr>sy_table := t'\<rparr>)"

inductive sys_run :: "mvcc_op list \<Rightarrow> mvcc_system \<Rightarrow> mvcc_system \<Rightarrow> bool" where
  run_nil: "sys_run [] s s"
| run_snoc: "sys_run ops s s' \<Longrightarrow> sys_step x s' s'' \<Longrightarrow> sys_run (ops @ [x]) s s''"

section \<open>The specification\<close>

record mvcc_spec =
  sp_comm :: "rowkey \<rightharpoonup> pyval list"
  sp_priv :: "txid \<Rightarrow> rowkey \<rightharpoonup> pyval list option"

definition spec_view :: "txid \<Rightarrow> mvcc_spec \<Rightarrow> rowkey \<Rightarrow> pyval list option" where
  "spec_view tx a k = (case sp_priv a tx k of None \<Rightarrow> sp_comm a k | Some r \<Rightarrow> r)"

definition spec_write :: "txid \<Rightarrow> rowkey \<Rightarrow> pyval list option \<Rightarrow> mvcc_spec \<Rightarrow> mvcc_spec" where
  "spec_write tx k r a = a\<lparr>sp_priv := (sp_priv a)(tx := (sp_priv a tx)(k \<mapsto> r))\<rparr>"

fun spec_op :: "mvcc_op \<Rightarrow> mvcc_spec \<Rightarrow> mvcc_spec" where
  "spec_op (OInsert tx k row) a = spec_write tx k (Some row) a"
| "spec_op (OUpdate tx k row) a = spec_write tx k (Some row) a"
| "spec_op (ODelete tx k) a = spec_write tx k None a"
| "spec_op (OCommit tx) a = a\<lparr>sp_comm := spec_view tx a, sp_priv := (sp_priv a)(tx := Map.empty)\<rparr>"
| "spec_op (OAbort tx) a = a\<lparr>sp_priv := (sp_priv a)(tx := Map.empty)\<rparr>"
| "spec_op _ a = a"

definition spec_run :: "mvcc_op list \<Rightarrow> mvcc_spec \<Rightarrow> mvcc_spec" where
  "spec_run ops a = fold spec_op ops a"

section \<open>The invariant\<close>

definition tidy :: "txn_manager \<Rightarrow> txid \<Rightarrow> chain \<Rightarrow> bool" where
  "tidy m tx c \<longleftrightarrow> vacant (status m) (take_snapshot tx m) c \<or> settled (status m) (take_snapshot tx m) c"

definition owner_id :: "txid option \<Rightarrow> txid" where
  "owner_id ow = (case ow of None \<Rightarrow> 0 | Some tx \<Rightarrow> tx)"

text \<open>A stamp of an active transaction is the lock owner's; an ended version was ended by a commit.\<close>

definition stamped :: "txn_manager \<Rightarrow> txid option \<Rightarrow> version \<Rightarrow> bool" where
  "stamped m ow v \<longleftrightarrow>
     (v_xmin v \<in> tm_active m \<longrightarrow> ow = Some (v_xmin v)) \<and> (v_xmax v \<in> tm_active m \<longrightarrow> ow = Some (v_xmax v)) \<and>
     v_xmin v < tm_next_id m \<and> v_xmax v < tm_next_id m"

definition sys_ok :: "mvcc_system \<Rightarrow> bool" where
  "sys_ok s \<longleftrightarrow> manager_ok (sy_mgr s) \<and> table_ok (sy_table s) \<and>
     (\<forall>k tx. sy_owner s k = Some tx \<longrightarrow> tx \<in> tm_active (sy_mgr s)) \<and>
     (\<forall>k. \<forall>v\<in>set (chain_or_empty (sy_table s) k). stamped (sy_mgr s) (sy_owner s k) v) \<and>
     (\<forall>k. tidy (sy_mgr s) (owner_id (sy_owner s k)) (chain_or_empty (sy_table s) k))"

definition refines :: "mvcc_system \<Rightarrow> mvcc_spec \<Rightarrow> bool" where
  "refines s a \<longleftrightarrow> sp_comm a = committed_view s \<and>
     (\<forall>tx\<in>tm_active (sy_mgr s). spec_view tx a = own_view tx s) \<and>
     (\<forall>tx k. sp_priv a tx k \<noteq> None \<longrightarrow> sy_owner s k = Some tx)"

lemma sys_okD:
  assumes "sys_ok s"
  shows "manager_ok (sy_mgr s)" "table_ok (sy_table s)"
    "sy_owner s k = Some tx \<Longrightarrow> tx \<in> tm_active (sy_mgr s)"
    "v \<in> set (chain_or_empty (sy_table s) k) \<Longrightarrow> stamped (sy_mgr s) (sy_owner s k) v"
    "tidy (sy_mgr s) (owner_id (sy_owner s k)) (chain_or_empty (sy_table s) k)"
  using assms by (auto simp: sys_ok_def)

lemma own_view_chain:
  "own_view tx s k = row_view (status (sy_mgr s)) (take_snapshot tx (sy_mgr s)) (chain_or_empty (sy_table s) k)"
  by (simp add: own_view_def table_view_chain)

section \<open>Writes\<close>

lemma snap_txid_fresh [simp]: "snap_txid (take_snapshot tx m) = tx"
  by (simp add: take_snapshot_def)

lemma fresh_visible_stranger:
  "manager_ok m \<Longrightarrow> v_xmin v \<noteq> tx \<Longrightarrow> v_xmax v \<noteq> tx \<Longrightarrow> fresh_visible m tx v = fresh_visible m 0 v"
  by (auto simp: fresh_visible_iff)

lemma not_owner_no_stamp:
  assumes "sys_ok s" "tx \<in> tm_active (sy_mgr s)" "sy_owner s k \<noteq> Some tx"
    "v \<in> set (chain_or_empty (sy_table s) k)"
  shows "v_xmin v \<noteq> tx \<and> v_xmax v \<noteq> tx"
  using sys_okD(4) [OF assms(1,4)] assms(2,3) by (auto simp: stamped_def)

lemma not_owner_view:
  assumes "sys_ok s" "tx \<in> tm_active (sy_mgr s)" "sy_owner s k \<noteq> Some tx"
  shows "own_view tx s k = committed_view s k \<and>
    tidy (sy_mgr s) tx (chain_or_empty (sy_table s) k) = tidy (sy_mgr s) 0 (chain_or_empty (sy_table s) k)"
  unfolding own_view_chain committed_view_def tidy_def
  using row_view_cong [of "chain_or_empty (sy_table s) k" "status (sy_mgr s)" "take_snapshot tx (sy_mgr s)"
      "status (sy_mgr s)" "take_snapshot 0 (sy_mgr s)"]
    fresh_visible_stranger [OF sys_okD(1) [OF assms(1)]] not_owner_no_stamp [OF assms] by blast

lemma owner_tidy: "sys_ok s \<Longrightarrow> sy_owner s k = Some tx \<Longrightarrow> tidy (sy_mgr s) tx (chain_or_empty (sy_table s) k)"
  using sys_okD(5) [of s k] by (simp add: owner_id_def)

lemma write_ok:
  assumes "sys_ok s" "tx \<in> tm_active (sy_mgr s)" "sy_owner s k = Some tx" "table_ok t'"
    and "\<And>k'. k' \<noteq> k \<Longrightarrow> chain_or_empty t' k' = chain_or_empty (sy_table s) k'"
    and "tidy (sy_mgr s) tx (chain_or_empty t' k)"
    and "\<And>v. v \<in> set (chain_or_empty t' k) \<Longrightarrow> stamped (sy_mgr s) (Some tx) v"
  shows "sys_ok (s\<lparr>sy_table := t'\<rparr>)"
  unfolding sys_ok_def
proof (intro conjI allI ballI impI)
  fix x v assume "v \<in> set (chain_or_empty (sy_table (s\<lparr>sy_table := t'\<rparr>)) x)"
  then show "stamped (sy_mgr (s\<lparr>sy_table := t'\<rparr>)) (sy_owner (s\<lparr>sy_table := t'\<rparr>) x) v"
    using assms(3,5,7) sys_okD(4) [OF assms(1)] by (cases "x = k") auto
next
  fix x show "tidy (sy_mgr (s\<lparr>sy_table := t'\<rparr>)) (owner_id (sy_owner (s\<lparr>sy_table := t'\<rparr>) x))
      (chain_or_empty (sy_table (s\<lparr>sy_table := t'\<rparr>)) x)"
    using assms(3,5,6) sys_okD(5) [OF assms(1), of x] by (cases "x = k") (auto simp: owner_id_def)
qed (use assms(4) sys_okD(1,3) [OF assms(1)] in auto)

lemma spec_view_write:
  "spec_view tx' (spec_write tx k r a) = (if tx' = tx then (spec_view tx a)(k := r) else spec_view tx' a)"
  by (auto simp: fun_eq_iff spec_view_def spec_write_def split: option.split)

lemma write_refines:
  assumes "sys_ok s" "refines s a" "tx \<in> tm_active (sy_mgr s)" "sy_owner s k = Some tx"
    and "own_view tx (s\<lparr>sy_table := t'\<rparr>) = (own_view tx s)(k := r)"
    and "\<And>tx'. tx' \<noteq> tx \<Longrightarrow> own_view tx' (s\<lparr>sy_table := t'\<rparr>) = own_view tx' s"
  shows "refines (s\<lparr>sy_table := t'\<rparr>) (spec_write tx k r a)"
proof -
  let ?a = "spec_write tx k r a"
  have "tx \<noteq> 0" using active_id [OF sys_okD(1) [OF assms(1)] assms(3)] by simp
  then have "committed_view (s\<lparr>sy_table := t'\<rparr>) = sp_comm a"
    using assms(2,6) by (simp add: committed_view_def refines_def)
  moreover have "spec_view tx' ?a = own_view tx' (s\<lparr>sy_table := t'\<rparr>)" if "tx' \<in> tm_active (sy_mgr s)" for tx'
  proof -
    have old: "spec_view tx' a = own_view tx' s" using that assms(2) by (simp add: refines_def)
    show ?thesis using old assms(5,6) by (auto simp: spec_view_write)
  qed
  ultimately show ?thesis
    using assms(2,4) by (auto simp: refines_def spec_write_def split: if_splits)
qed

lemma stamped_new: "sys_ok s \<Longrightarrow> tx \<in> tm_active (sy_mgr s) \<Longrightarrow> stamped (sy_mgr s) (Some tx) (new_version row tx)"
  using active_id [OF sys_okD(1), of s tx] active_id [OF sys_okD(1), of s 0] by (auto simp: stamped_def)

lemma stamped_end:
  "sys_ok s \<Longrightarrow> tx \<in> tm_active (sy_mgr s) \<Longrightarrow> stamped (sy_mgr s) (Some tx) v \<Longrightarrow>
     stamped (sy_mgr s) (Some tx) (v\<lparr>v_xmax := tx\<rparr>)"
  using active_id [OF sys_okD(1), of s tx] by (auto simp: stamped_def)

lemma stamped_row: "stamped m ow v \<Longrightarrow> stamped m ow (v\<lparr>v_row := row\<rparr>)"
  by (simp add: stamped_def)

lemma stamp_last_all:
  assumes "stamp_last tx c = Inr c'" "\<And>v. v \<in> set c \<Longrightarrow> P v" "\<And>v. P v \<Longrightarrow> P (v\<lparr>v_xmax := tx\<rparr>)"
  shows "\<forall>v\<in>set c'. P v"
  using assms by (cases c rule: rev_cases) (auto simp: stamp_last_def)

lemma chain_update_all:
  assumes "chain_update tx row c = Inr c'" "\<And>v. v \<in> set c \<Longrightarrow> P v" "\<And>v. P v \<Longrightarrow> P (v\<lparr>v_xmax := tx\<rparr>)"
    "\<And>v. P v \<Longrightarrow> P (v\<lparr>v_row := row\<rparr>)" "P (new_version row tx)"
  shows "\<forall>v\<in>set c'. P v"
proof (cases "own_slot tx c")
  case None
  then obtain d where "stamp_last tx c = Inr d" "c' = d @ [new_version row tx]"
    using assms(1) by (auto simp: chain_update_def bind_result_eq_Inr)
  then show ?thesis using stamp_last_all [of tx c d P] assms by auto
next
  case (Some i)
  then have "c' = c[i := (c ! i)\<lparr>v_row := row\<rparr>]" "i < length c"
    using assms(1) own_slot_Some [OF Some] by (auto simp: chain_update_def)
  then show ?thesis using assms(2,4) set_update_subset_insert [of c i] by fastforce
qed

lemma chain_delete_all:
  assumes "chain_delete tx c = Inr (c', found)" "\<And>v. v \<in> set c \<Longrightarrow> P v" "\<And>v. P v \<Longrightarrow> P (v\<lparr>v_xmax := tx\<rparr>)"
  shows "\<forall>v\<in>set c'. P v"
proof (cases "own_slot tx c")
  case None
  then show ?thesis using assms(1,2) stamp_last_all [of tx c c' P, OF _ assms(2,3)]
    by (auto simp: chain_delete_def bind_result_eq_Inr split: if_splits)
next
  case (Some i)
  then have "c' = take i c @ drop (Suc i) c" using assms(1) by (simp add: chain_delete_def list_pop_def)
  then show ?thesis using assms(2) by (metis Un_iff in_set_dropD in_set_takeD set_append)
qed

lemma chain_or_empty_upd: "table_chain t' = (table_chain t)(k \<mapsto> c) \<Longrightarrow>
   chain_or_empty t' k' = (if k' = k then c else chain_or_empty t k')"
  by (simp add: chain_or_empty_def)

lemma chain_or_empty_del: "table_chain t' = (table_chain t)(k := (if c = [] then None else Some c)) \<Longrightarrow>
   chain_or_empty t' k' = (if k' = k then c else chain_or_empty t k')"
  by (simp add: chain_or_empty_def)

lemma tidy_visible:
  assumes "tidy m tx c" "row_view (status m) (take_snapshot tx m) c \<noteq> None"
  shows "settled (status m) (take_snapshot tx m) c"
  using assms by (auto simp: tidy_def row_view_None)

text \<open>One write step: the invariant, the writer's view, everyone else's view.\<close>

definition writes :: "txid \<Rightarrow> rowkey \<Rightarrow> pyval list option \<Rightarrow> mvcc_system \<Rightarrow> table \<Rightarrow> bool" where
  "writes tx k r s t' \<longleftrightarrow> sys_ok (s\<lparr>sy_table := t'\<rparr>) \<and>
     own_view tx (s\<lparr>sy_table := t'\<rparr>) = (own_view tx s)(k := r) \<and>
     (\<forall>s'. unseen (status (sy_mgr s)) s' tx \<longrightarrow>
        table_view (status (sy_mgr s)) s' t' = table_view (status (sy_mgr s)) s' (sy_table s))"

lemma insert_writes:
  assumes "sys_ok s" "tx \<in> tm_active (sy_mgr s)" "sy_owner s k = Some tx" "own_view tx s k = None"
    and "table_insert tx row (Some k) (sy_table s) = Inr (t', k)"
  shows "writes tx k (Some row) s t'"
proof -
  let ?m = "sy_mgr s" and ?t = "sy_table s"
  note ok = sys_okD(1,2) [OF assms(1)]
  have key: "insert_key ?t row (Some k) = Inr (?t, k)" by (simp add: insert_key_def)
  have view: "table_ok t' \<and> table_view (status ?m) (take_snapshot tx ?m) t' =
      (table_view (status ?m) (take_snapshot tx ?m) ?t)(k \<mapsto> row) \<and>
      settled (status ?m) (take_snapshot tx ?m) (chain_or_empty t' k) \<and>
      (\<forall>s'. unseen (status ?m) s' tx \<longrightarrow> table_view (status ?m) s' t' = table_view (status ?m) s' ?t)"
    using table_insert_view [OF ok(2) key, of "take_snapshot tx ?m" tx "status ?m"] assms(4,5)
    by (simp add: own_view_def)
  obtain c where c: "c = chain_or_empty ?t k" by blast
  have "table_chain t' = (table_chain ?t)(k \<mapsto> c @ [new_version row tx])"
    using table_insert_ok [OF ok(2) key, of tx] assms(5) c by simp
  note chain = chain_or_empty_upd [OF this]
  have "sys_ok (s\<lparr>sy_table := t'\<rparr>)"
  proof (rule write_ok [OF assms(1-3)])
    fix v assume "v \<in> set (chain_or_empty t' k)"
    then show "stamped ?m (Some tx) v"
      using sys_okD(4) [OF assms(1), of v k] stamped_new [OF assms(1,2)] assms(3) by (auto simp: chain c)
  qed (use view in \<open>auto simp: chain tidy_def\<close>)
  then show ?thesis using view by (simp add: writes_def own_view_def)
qed

lemma update_writes:
  assumes "sys_ok s" "tx \<in> tm_active (sy_mgr s)" "sy_owner s k = Some tx" "own_view tx s k \<noteq> None"
    and "table_update tx k row (sy_table s) = Inr t'"
  shows "writes tx k (Some row) s t'"
proof -
  let ?m = "sy_mgr s" and ?t = "sy_table s"
  note ok = sys_okD(1,2) [OF assms(1)]
  have tx: "tx \<noteq> 0" using active_id [OF ok(1) assms(2)] by simp
  have settled: "settled (status ?m) (take_snapshot tx ?m) (chain_or_empty ?t k)"
    using tidy_visible [OF owner_tidy [OF assms(1,3)]] assms(4) by (simp add: own_view_chain)
  have view: "table_ok t' \<and> table_view (status ?m) (take_snapshot tx ?m) t' =
      (table_view (status ?m) (take_snapshot tx ?m) ?t)(k \<mapsto> row) \<and>
      settled (status ?m) (take_snapshot tx ?m) (chain_or_empty t' k) \<and>
      (\<forall>s'. unseen (status ?m) s' tx \<longrightarrow> table_view (status ?m) s' t' = table_view (status ?m) s' ?t)"
    using table_update_view [OF ok(2) settled _ tx, of row] assms(5) by simp
  obtain c where c: "table_chain ?t k = Some c" using settled_chain [OF settled] by blast
  then obtain c' where c': "chain_update tx row c = Inr c'"
    using chain_update_nonempty [OF table_chain_nonempty [OF ok(2)]] by blast
  then have "table_chain t' = (table_chain ?t)(k \<mapsto> c')" using table_update_ok [OF ok(2) c c'] assms(5) by simp
  note chain = chain_or_empty_upd [OF this]
  have old: "chain_or_empty ?t k = c" using c by (simp add: chain_or_empty_def)
  have "\<forall>v\<in>set c'. stamped ?m (Some tx) v"
    using chain_update_all [OF c', of "stamped ?m (Some tx)"] sys_okD(4) [OF assms(1), of _ k] assms(3) old
      stamped_end [OF assms(1,2)] stamped_row stamped_new [OF assms(1,2)] by auto
  then have "sys_ok (s\<lparr>sy_table := t'\<rparr>)"
    by (intro write_ok [OF assms(1-3)]) (use view in \<open>auto simp: chain tidy_def\<close>)
  then show ?thesis using view by (simp add: writes_def own_view_def)
qed

lemma delete_writes:
  assumes "sys_ok s" "tx \<in> tm_active (sy_mgr s)" "sy_owner s k = Some tx" "own_view tx s k \<noteq> None"
    and "table_delete tx k (sy_table s) = Inr (t', found)"
  shows "writes tx k None s t'"
proof -
  let ?m = "sy_mgr s" and ?t = "sy_table s"
  note ok = sys_okD(1,2) [OF assms(1)]
  have tx: "tx \<noteq> 0" using active_id [OF ok(1) assms(2)] by simp
  have settled: "settled (status ?m) (take_snapshot tx ?m) (chain_or_empty ?t k)"
    using tidy_visible [OF owner_tidy [OF assms(1,3)]] assms(4) by (simp add: own_view_chain)
  have view: "table_ok t' \<and> table_view (status ?m) (take_snapshot tx ?m) t' =
      (table_view (status ?m) (take_snapshot tx ?m) ?t)(k := None) \<and>
      (\<forall>s'. unseen (status ?m) s' tx \<longrightarrow> table_view (status ?m) s' t' = table_view (status ?m) s' ?t)"
    using table_delete_view [OF ok(2) settled _ tx] assms(5) by simp
  obtain c where c: "table_chain ?t k = Some c" using settled_chain [OF settled] by blast
  then obtain c' fnd where c': "chain_delete tx c = Inr (c', fnd)"
    using chain_delete_nonempty [OF table_chain_nonempty [OF ok(2)]] by blast
  then have "table_chain t' = (table_chain ?t)(k := (if c' = [] then None else Some c'))"
    using table_delete_ok [OF ok(2) c c'] assms(5) by simp
  note chain = chain_or_empty_del [OF this]
  have old: "chain_or_empty ?t k = c" using c by (simp add: chain_or_empty_def)
  have "\<forall>v\<in>set c'. stamped ?m (Some tx) v"
    using chain_delete_all [OF c', of "stamped ?m (Some tx)"] sys_okD(4) [OF assms(1), of _ k] assms(3) old
      stamped_end [OF assms(1,2)] by auto
  moreover have "vacant (status ?m) (take_snapshot tx ?m) (chain_or_empty t' k)"
    using view by (simp add: row_view_None [symmetric] table_view_chain [symmetric])
  ultimately have "sys_ok (s\<lparr>sy_table := t'\<rparr>)"
    by (intro write_ok [OF assms(1-3)]) (use view in \<open>auto simp: chain tidy_def\<close>)
  then show ?thesis using view by (simp add: writes_def own_view_def)
qed

section \<open>Steps of the manager\<close>

text \<open>
  A step that leaves the table alone and changes what is committed keeps a chain tidy when the readers'
  verdicts on its versions stay the same.
\<close>

lemma begin_committed [simp]: "manager_ok m \<Longrightarrow> committed (fst (begin_txn level m)) i = committed m i"
  using committed_id [of m i] manager_okD(1) [of m]
  by (auto simp: committed_def begin_txn_def Let_def ids_ok_def)

lemma fresh_visible_committed:
  assumes "manager_ok m" "manager_ok m'" "\<And>i. committed m' i = committed m i"
  shows "fresh_visible m' tx v = fresh_visible m tx v"
  by (simp add: fresh_visible_iff assms)

lemma view_committed:
  assumes "manager_ok m" "manager_ok m'" "\<And>i. committed m' i = committed m i"
  shows "row_view (status m') (take_snapshot tx m') c = row_view (status m) (take_snapshot tx m) c"
    and "tidy m' tx c = tidy m tx c"
  using row_view_cong [of c "status m'" "take_snapshot tx m'" "status m" "take_snapshot tx m"]
    fresh_visible_committed [OF assms] by (auto simp: tidy_def)

lemma begin_step_ok:
  assumes "sys_ok s"
  shows "sys_ok (s\<lparr>sy_mgr := fst (begin_txn level (sy_mgr s))\<rparr>) \<and>
    own_view tx (s\<lparr>sy_mgr := fst (begin_txn level (sy_mgr s))\<rparr>) = own_view tx s"
proof -
  let ?m = "sy_mgr s" and ?m' = "fst (begin_txn level (sy_mgr s))"
  note ok = sys_okD(1) [OF assms]
  note ok' = begin_txn_ok [OF ok, of level]
  have ids: "tm_counter ?m = tm_next_id ?m" "0 < tm_next_id ?m" using manager_okD(1) [OF ok] by (auto simp: ids_ok_def)
  have new: "tm_active ?m' = insert (tm_next_id ?m) (tm_active ?m)" "tm_next_id ?m' = Suc (tm_next_id ?m)"
    using ids by (auto simp: begin_txn_def Let_def)
  note same = view_committed [OF ok ok' begin_committed [OF ok]]
  have "stamped ?m' ow v" if "stamped ?m ow v" for ow v
    using that by (auto simp: stamped_def new)
  then have "sys_ok (s\<lparr>sy_mgr := ?m'\<rparr>)"
    using sys_okD [OF assms] ok' unfolding sys_ok_def by (simp add: same(2) new)
  then show ?thesis by (simp add: fun_eq_iff own_view_chain same(1))
qed

lemma lock_step_sys_ok:
  assumes "sys_ok s" "tx \<in> tm_active (sy_mgr s)" "sy_owner s k = None"
  shows "sys_ok (s\<lparr>sy_owner := (sy_owner s)(k \<mapsto> tx)\<rparr>)"
proof -
  have "tidy (sy_mgr s) tx (chain_or_empty (sy_table s) k)"
    using not_owner_view [OF assms(1,2), of k] sys_okD(5) [OF assms(1), of k] assms(3)
    by (simp add: owner_id_def)
  moreover have "stamped (sy_mgr s) (Some tx) v" if "v \<in> set (chain_or_empty (sy_table s) k)" for v
    using sys_okD(4) [OF assms(1) that] assms(3) by (auto simp: stamped_def)
  ultimately show ?thesis
    using assms sys_okD [OF assms(1)] unfolding sys_ok_def by (auto simp: owner_id_def)
qed

definition ended :: "txid \<Rightarrow> txn_manager \<Rightarrow> txn_manager \<Rightarrow> bool" where
  "ended tx m m' \<longleftrightarrow> manager_ok m' \<and> tm_next_id m' = tm_next_id m \<and> tm_active m' = tm_active m - {tx}"

lemma finish_txn_ended:
  assumes "manager_ok m" "tm_txns m (tr_txid t) = Some t" "tr_state t = TxActive" "final \<noteq> TxActive"
  shows "ended (tr_txid t) m (finish_txn final t m) \<and>
    (\<forall>i. committed (finish_txn final t m) i \<longleftrightarrow>
       (if i = tr_txid t then final = TxCommitted else committed m i))"
  using finish_txn_ok [OF assms] by (auto simp: ended_def finish_txn_def set_txn_def Let_def committed_def)

lemma active_txn:
  assumes "manager_ok m" "tm_txns m tx = Some t" "tx \<in> tm_active m"
  shows "tr_txid t = tx \<and> tr_state t = TxActive \<and> tm_txns m (tr_txid t) = Some t"
  using manager_okD(3) [OF assms(1,2)] manager_okD(2) [OF assms(1)] assms(2,3)
  by (auto simp: txn_ok_def active_ok_def)

lemma commit_ended:
  assumes "manager_ok m" "tm_txns m tx = Some t" "tx \<in> tm_active m" "commit_txn disk_ok t m = (m', Inr ())"
  shows "ended tx m m' \<and> (\<forall>i. committed m' i \<longleftrightarrow> i = tx \<or> committed m i)"
proof -
  note t = active_txn [OF assms(1-3)]
  obtain w where "m' = finish_txn TxCommitted t (m\<lparr>tm_wal := w\<rparr>)"
  proof (cases "tr_wal_started t")
    case True
    then show ?thesis using that assms(4) t by (auto simp: commit_txn_def split: prod.splits sum.splits)
  next
    case False
    then show ?thesis using that [of "tm_wal m"] assms(4) t by (simp add: commit_txn_def)
  qed
  then show ?thesis using finish_txn_ended [of "m\<lparr>tm_wal := w\<rparr>" t TxCommitted] assms(1) t
    by (auto simp: ended_def committed_def split: if_splits)
qed

lemma abort_ended:
  assumes "manager_ok m" "tm_txns m tx = Some t" "tx \<in> tm_active m"
  shows "ended tx m (abort_txn t m) \<and> (\<forall>i. committed (abort_txn t m) i \<longleftrightarrow> i \<noteq> tx \<and> committed m i)"
proof -
  note t = active_txn [OF assms]
  obtain w where "abort_txn t m = finish_txn TxAborted t (m\<lparr>tm_wal := w\<rparr>)"
  proof (cases "tr_wal_started t")
    case True
    then show ?thesis using that t by (simp add: abort_txn_def)
  next
    case False
    then show ?thesis using that [of "tm_wal m"] t by (simp add: abort_txn_def)
  qed
  then show ?thesis using finish_txn_ended [of "m\<lparr>tm_wal := w\<rparr>" t TxAborted] assms(1) t
    by (auto simp: ended_def committed_def split: if_splits)
qed

lemma ended_stamped:
  assumes "ended tx m m'" "stamped m ow v"
  shows "stamped m' (if ow = Some tx then None else ow) v"
  using assms by (auto simp: stamped_def ended_def)

lemma ended_sys_ok:
  assumes "sys_ok s" "tx \<in> tm_active (sy_mgr s)" "ended tx (sy_mgr s) m'"
    and "\<And>k. sy_owner s k = Some tx \<Longrightarrow> tidy m' 0 (chain_or_empty (sy_table s) k)"
    and "\<And>i. i \<noteq> tx \<Longrightarrow> committed m' i = committed (sy_mgr s) i"
  shows "sys_ok (s\<lparr>sy_mgr := m', sy_owner := release_rows tx (sy_owner s)\<rparr>)"
  unfolding sys_ok_def
proof (intro conjI allI ballI impI)
  let ?s = "s\<lparr>sy_mgr := m', sy_owner := release_rows tx (sy_owner s)\<rparr>"
  show "manager_ok (sy_mgr ?s)" using assms(3) by (simp add: ended_def)
  show "table_ok (sy_table ?s)" using sys_okD(2) [OF assms(1)] by simp
  fix k
  show "tidy (sy_mgr ?s) (owner_id (sy_owner ?s k)) (chain_or_empty (sy_table ?s) k)"
  proof (cases "sy_owner s k = Some tx")
    case True
    then show ?thesis using assms(4) by (simp add: release_rows_def owner_id_def)
  next
    case False
    let ?c = "chain_or_empty (sy_table s) k" and ?o = "owner_id (sy_owner s k)"
    have "version_visible (status m') (take_snapshot ?o m') v = fresh_visible (sy_mgr s) ?o v"
      if "v \<in> set ?c" for v
      using not_owner_no_stamp [OF assms(1,2) False that] assms(3,5) sys_okD(1) [OF assms(1)]
      by (simp add: fresh_visible_iff ended_def)
    then have "tidy m' ?o ?c = tidy (sy_mgr s) ?o ?c"
      using row_view_cong [of ?c "status m'" "take_snapshot ?o m'" "status (sy_mgr s)" "take_snapshot ?o (sy_mgr s)"]
      by (simp add: tidy_def)
    then show ?thesis using False sys_okD(5) [OF assms(1), of k] by (simp add: release_rows_def)
  qed
  fix v assume "v \<in> set (chain_or_empty (sy_table ?s) k)"
  then show "stamped (sy_mgr ?s) (sy_owner ?s k) v"
    using ended_stamped [OF assms(3) sys_okD(4) [OF assms(1), of v k]] by (simp add: release_rows_def)
next
  let ?s = "s\<lparr>sy_mgr := m', sy_owner := release_rows tx (sy_owner s)\<rparr>"
  fix k x assume "sy_owner ?s k = Some x"
  then show "x \<in> tm_active (sy_mgr ?s)"
    using sys_okD(3) [OF assms(1), of k x] assms(3) by (auto simp: release_rows_def ended_def split: if_splits)
qed

text \<open>After the end of \<open>tx\<close>, a chain \<open>tx\<close> does not own looks the same to every other reader.\<close>

lemma ended_view:
  assumes "sys_ok s" "tx \<in> tm_active (sy_mgr s)" "ended tx (sy_mgr s) m'" "sy_owner s k \<noteq> Some tx"
    and "\<And>i. i \<noteq> tx \<Longrightarrow> committed m' i = committed (sy_mgr s) i"
  shows "own_view r (s\<lparr>sy_mgr := m', sy_owner := ow\<rparr>) k = own_view r s k"
proof -
  let ?c = "chain_or_empty (sy_table s) k"
  have "version_visible (status m') (take_snapshot r m') v = fresh_visible (sy_mgr s) r v" if "v \<in> set ?c" for v
    using not_owner_no_stamp [OF assms(1,2,4) that] assms(3,5) sys_okD(1) [OF assms(1)]
    by (simp add: fresh_visible_iff ended_def)
  then show ?thesis
    using row_view_cong [of ?c "status m'" "take_snapshot r m'" "status (sy_mgr s)" "take_snapshot r (sy_mgr s)"]
    by (simp add: own_view_chain)
qed

section \<open>Commit, abort and collection\<close>

lemma commit_view:
  assumes "sys_ok s" "tx \<in> tm_active (sy_mgr s)" "ended tx (sy_mgr s) m'" "sy_owner s k = Some tx"
    and "\<And>i. committed m' i \<longleftrightarrow> i = tx \<or> committed (sy_mgr s) i" and "r \<notin> tm_active (sy_mgr s) - {tx} \<Longrightarrow> r = 0"
    and "r \<noteq> tx"
  shows "own_view r (s\<lparr>sy_mgr := m', sy_owner := ow\<rparr>) k = own_view tx s k \<and>
    tidy m' r (chain_or_empty (sy_table s) k) = tidy (sy_mgr s) tx (chain_or_empty (sy_table s) k)"
proof -
  let ?c = "chain_or_empty (sy_table s) k"
  have "version_visible (status m') (take_snapshot r m') v = fresh_visible (sy_mgr s) tx v" if v: "v \<in> set ?c" for v
  proof -
    have "r = 0 \<or> v_xmin v \<noteq> r \<and> v_xmax v \<noteq> r"
      using sys_okD(4) [OF assms(1) v] assms(4,6,7) by (auto simp: stamped_def)
    then show ?thesis using assms(3,5) sys_okD(1) [OF assms(1)]
      by (auto simp: fresh_visible_iff ended_def)
  qed
  then show ?thesis
    using row_view_cong [of ?c "status m'" "take_snapshot r m'" "status (sy_mgr s)" "take_snapshot tx (sy_mgr s)"]
    by (auto simp: own_view_chain tidy_def)
qed

lemma abort_tidy:
  assumes "manager_ok m" "tidy m tx c" "\<forall>v\<in>set c. v_xmax v \<noteq> tx"
  shows "tidy m 0 c"
proof -
  have weaker: "fresh_visible m 0 v \<Longrightarrow> fresh_visible m tx v" if "v \<in> set c" for v
    using that assms(3) by (auto simp: fresh_visible_iff [OF assms(1)])
  show ?thesis
  proof (cases c rule: rev_cases)
    case (snoc d v)
    then show ?thesis using assms(2) weaker by (auto simp: tidy_def settled_snoc vacant_def)
  qed (simp add: tidy_def)
qed

lemma fresh_above_watermark:
  assumes "manager_ok m" "tx \<in> tm_active m \<or> tx = 0"
  shows "above_watermark (gc_watermark m) (take_snapshot tx m)"
proof (cases "tm_active m = {}")
  case True
  then show ?thesis using assms(2)
    by (simp add: above_watermark_def gc_watermark_def oldest_active_def take_snapshot_def)
next
  case False
  have fin: "finite (tm_active m)" using manager_okD(2) [OF assms(1)] unfolding active_ok_def by blast
  have "Min (tm_active m) \<in> tm_active m" using fin False by simp
  then have "Min (tm_active m) < tm_next_id m" using active_id [OF assms(1)] by blast
  then show ?thesis using assms(2) fin False
    by (auto simp: above_watermark_def gc_watermark_def oldest_active_def take_snapshot_def)
qed

lemma status_zero: "manager_ok m \<Longrightarrow> status m 0 \<noteq> Some False"
  using manager_okD(1) [of m] by (auto simp: status_def ids_ok_def split: option.splits txn_state.splits)

lemma gc_chain:
  assumes "table_ok t" "table_gc st oldest t = Inr (t', n)"
  shows "chain_or_empty t' k = kept_chain st oldest t k \<or>
    kept_chain st oldest t k = [] \<and> chain_or_empty t' k = chain_or_empty t k"
proof -
  have "if kept_chain st oldest t k \<noteq> [] then table_chain t' k = Some (kept_chain st oldest t k)
      else table_chain t' k = None \<or> table_chain t' k = table_chain t k"
    using table_gc_ok [OF assms(1), of st oldest] assms(2) by auto
  then show ?thesis by (auto simp: chain_or_empty_def split: if_splits)
qed

lemma tidy_filter:
  assumes "\<forall>v\<in>set c. \<not> P v \<longrightarrow> \<not> fresh_visible m tx v" "tidy m tx c"
  shows "tidy m tx (filter P c)"
proof (cases c rule: rev_cases)
  case (snoc d v)
  then show ?thesis using assms by (auto simp: tidy_def settled_snoc vacant_def)
qed (use assms in simp)

lemma collect_step:
  assumes "sys_ok s" "table_gc (status (sy_mgr s)) (gc_watermark (sy_mgr s)) (sy_table s) = Inr (t', n)"
  shows "sys_ok (s\<lparr>sy_table := t'\<rparr>)"
    and "r \<in> tm_active (sy_mgr s) \<or> r = 0 \<Longrightarrow> own_view r (s\<lparr>sy_table := t'\<rparr>) = own_view r s"
proof -
  let ?m = "sy_mgr s"
  let ?w = "gc_watermark ?m"
  note ok = sys_okD(1,2) [OF assms(1)]
  note zero = status_zero [OF ok(1)]
  show "own_view r (s\<lparr>sy_table := t'\<rparr>) = own_view r s" if "r \<in> tm_active ?m \<or> r = 0"
    using table_gc_view [OF ok(2) fresh_above_watermark [OF ok(1) that] zero assms(2)] by (simp add: own_view_def)
  have table: "table_ok t'" using table_gc_ok [OF ok(2), of "status ?m" ?w] assms(2) by auto
  have reader: "owner_id (sy_owner s k) \<in> tm_active ?m \<or> owner_id (sy_owner s k) = 0" for k
    using sys_okD(3) [OF assms(1), of k] by (auto simp: owner_id_def split: option.splits)
  have dead: "\<not> fresh_visible ?m (owner_id (sy_owner s k)) v" if "reclaimable (status ?m) ?w v" for k v
    using reclaimable_invisible [where st = "status ?m", OF fresh_above_watermark [OF ok(1) reader] zero that] .
  have chain: "set (chain_or_empty t' k) \<subseteq> set (chain_or_empty (sy_table s) k)" for k
    using gc_chain [OF ok(2) assms(2), of k] by (auto simp: kept_chain_def)
  have "tidy ?m (owner_id (sy_owner s k)) (chain_or_empty t' k)" for k
    using gc_chain [OF ok(2) assms(2), of k] sys_okD(5) [OF assms(1), of k] dead
      tidy_filter [of "chain_or_empty (sy_table s) k" "\<lambda>v. \<not> reclaimable (status ?m) ?w v" ?m "owner_id (sy_owner s k)"]
    by (auto simp: kept_chain_def)
  then show "sys_ok (s\<lparr>sy_table := t'\<rparr>)"
    using sys_okD [OF assms(1)] table subsetD [OF chain] unfolding sys_ok_def by auto
qed

section \<open>The refinement\<close>

lemma refinesD:
  assumes "refines s a"
  shows "sp_comm a = committed_view s" "tx \<in> tm_active (sy_mgr s) \<Longrightarrow> spec_view tx a = own_view tx s"
    "sy_owner s k \<noteq> Some tx \<Longrightarrow> sp_priv a tx k = None"
  using assms unfolding refines_def by blast+

lemma refines_owner: "refines s a \<Longrightarrow> sp_priv a tx k = Some r \<Longrightarrow> sy_owner s k = Some tx"
  unfolding refines_def by (metis option.distinct(1))

lemma spec_view_ended [simp]:
  "r \<noteq> tx \<Longrightarrow> spec_view r (a\<lparr>sp_priv := (sp_priv a)(tx := x)\<rparr>) = spec_view r a"
  by (simp add: spec_view_def fun_eq_iff split: option.split)

lemma writes_step:
  assumes "writes tx k r s t'" "sys_ok s" "refines s a" "tx \<in> tm_active (sy_mgr s)" "sy_owner s k = Some tx"
  shows "sys_ok (s\<lparr>sy_table := t'\<rparr>) \<and> refines (s\<lparr>sy_table := t'\<rparr>) (spec_write tx k r a)"
proof -
  have "own_view tx' (s\<lparr>sy_table := t'\<rparr>) = own_view tx' s" if "tx' \<noteq> tx" for tx'
    using assms(1) unseen_fresh [OF sys_okD(1) [OF assms(2)] assms(4) that] by (simp add: writes_def own_view_def)
  then show ?thesis using assms(1) write_refines [OF assms(2-5), of t' r] by (simp add: writes_def)
qed

lemma begin_step_refines:
  assumes "sys_ok s" "refines s a"
  shows "refines (s\<lparr>sy_mgr := fst (begin_txn level (sy_mgr s))\<rparr>) a"
proof -
  let ?m = "sy_mgr s" and ?s = "s\<lparr>sy_mgr := fst (begin_txn level (sy_mgr s))\<rparr>"
  let ?n = "tm_next_id ?m"
  have ids: "tm_counter ?m = ?n" "?n \<notin> tm_active ?m"
    using manager_okD(1) [OF sys_okD(1) [OF assms(1)]] active_id [OF sys_okD(1) [OF assms(1)], of ?n]
    by (auto simp: ids_ok_def)
  have act: "tm_active (fst (begin_txn level ?m)) = insert ?n (tm_active ?m)"
    using ids by (simp add: begin_txn_def Let_def)
  note same = conjunct2 [OF begin_step_ok [OF assms(1)]]
  have "own_view ?n s k = committed_view s k" for k
  proof -
    have "fresh_visible ?m ?n v = fresh_visible ?m 0 v" if "v \<in> set (chain_or_empty (sy_table s) k)" for v
      using sys_okD(4) [OF assms(1) that] sys_okD(1) [OF assms(1)]
      by (intro fresh_visible_stranger) (auto simp: stamped_def)
    then show ?thesis
      using row_view_cong [of "chain_or_empty (sy_table s) k" "status ?m" "take_snapshot ?n ?m" "status ?m" "take_snapshot 0 ?m"]
      by (simp add: committed_view_def own_view_chain)
  qed
  moreover have "sp_priv a ?n k = None" for k
    using refinesD(3) [OF assms(2), of k ?n] sys_okD(3) [OF assms(1), of k ?n] ids(2) by blast
  ultimately have new: "spec_view ?n a = own_view ?n s"
    using refinesD(1) [OF assms(2)] by (auto simp: spec_view_def)
  show ?thesis unfolding refines_def committed_view_def
    using assms(2) new by (auto simp: same act refines_def committed_view_def)
qed

lemma commit_step_refines:
  assumes "sys_ok s" "refines s a" "tx \<in> tm_active (sy_mgr s)" "ended tx (sy_mgr s) m'"
    and "\<And>i. committed m' i \<longleftrightarrow> i = tx \<or> committed (sy_mgr s) i"
  shows "sys_ok (s\<lparr>sy_mgr := m', sy_owner := release_rows tx (sy_owner s)\<rparr>) \<and>
    refines (s\<lparr>sy_mgr := m', sy_owner := release_rows tx (sy_owner s)\<rparr>) (spec_op (OCommit tx) a)"
proof -
  let ?s = "s\<lparr>sy_mgr := m', sy_owner := release_rows tx (sy_owner s)\<rparr>"
  have tx: "tx \<noteq> 0" using active_id [OF sys_okD(1) [OF assms(1)] assms(3)] by simp
  have ok: "sys_ok ?s"
    using commit_view [OF assms(1,3,4) _ assms(5), of _ 0] owner_tidy [OF assms(1)] tx assms(5)
    by (intro ended_sys_ok [OF assms(1,3,4)]) auto
  have view: "own_view r ?s k = (if sy_owner s k = Some tx then own_view tx s k else own_view r s k)"
    if "r \<in> tm_active (sy_mgr s) - {tx} \<or> r = 0" for r k
    using commit_view [OF assms(1,3,4) _ assms(5), of k r] ended_view [OF assms(1,3,4), of k r] assms(5) that tx
    by auto
  have comm: "spec_view tx a k = (if sy_owner s k = Some tx then own_view tx s k else committed_view s k)" for k
    using refinesD(2) [OF assms(2,3)] not_owner_view [OF assms(1,3), of k] by auto
  have "committed_view ?s = spec_view tx a"
    using view [of 0] comm by (auto simp: committed_view_def)
  moreover have "spec_view r (spec_op (OCommit tx) a) k = own_view r ?s k" if "r \<in> tm_active m'" for r k
  proof -
    have r: "r \<in> tm_active (sy_mgr s)" "r \<noteq> tx" using that assms(4) by (auto simp: ended_def)
    show ?thesis
    proof (cases "sp_priv a r k")
      case None
      then have "spec_view r a k = committed_view s k" using refinesD(1) [OF assms(2)] by (simp add: spec_view_def)
      then have "own_view r s k = committed_view s k" using refinesD(2) [OF assms(2) r(1)] by simp
      then show ?thesis using None r view [of r k] comm [of k] by (simp add: spec_view_def)
    next
      case (Some w)
      then have "sy_owner s k = Some r" using refinesD(3) [OF assms(2), of k r] by force
      moreover have "own_view r s k = w"
        unfolding refinesD(2) [OF assms(2) r(1), symmetric] using Some by (simp add: spec_view_def)
      ultimately show ?thesis using Some r view [of r k] by (simp add: spec_view_def)
    qed
  qed
  moreover have "sp_priv (spec_op (OCommit tx) a) r k \<noteq> None \<longrightarrow> sy_owner ?s k = Some r" for r k
    using refines_owner [OF assms(2), of r k] by (cases "sp_priv a r k") (auto simp: release_rows_def)
  ultimately show ?thesis using ok by (auto simp: refines_def fun_eq_iff)
qed

lemma abort_step_refines:
  assumes "sys_ok s" "refines s a" "tx \<in> tm_active (sy_mgr s)" "ended tx (sy_mgr s) m'"
    and "\<And>i. committed m' i \<longleftrightarrow> i \<noteq> tx \<and> committed (sy_mgr s) i" and "inserted_only tx (sy_table s)"
  shows "sys_ok (s\<lparr>sy_mgr := m', sy_owner := release_rows tx (sy_owner s)\<rparr>) \<and>
    refines (s\<lparr>sy_mgr := m', sy_owner := release_rows tx (sy_owner s)\<rparr>) (spec_op (OAbort tx) a)"
proof -
  let ?s = "s\<lparr>sy_mgr := m', sy_owner := release_rows tx (sy_owner s)\<rparr>"
  note ok = sys_okD(1) [OF assms(1)]
  have comm: "committed m' i = committed (sy_mgr s) i" for i
    using assms(5) active_id [OF ok assms(3)] by auto
  have ok': "manager_ok m'" using assms(4) by (simp add: ended_def)
  note same = view_committed [OF ok ok' comm]
  have "tidy m' 0 (chain_or_empty (sy_table s) k)" if "sy_owner s k = Some tx" for k
    using abort_tidy [OF ok owner_tidy [OF assms(1) that]] assms(6) by (simp add: same(2) inserted_only_def)
  then have "sys_ok ?s" using comm by (intro ended_sys_ok [OF assms(1,3,4)]) auto
  moreover have view: "own_view r ?s = own_view r s" for r
    by (simp add: fun_eq_iff own_view_chain same(1))
  moreover have "spec_view r (spec_op (OAbort tx) a) = own_view r ?s" if "r \<in> tm_active m'" for r
    using that refinesD(2) [OF assms(2), of r] assms(4) by (simp add: ended_def view)
  moreover have "sp_priv (spec_op (OAbort tx) a) r k \<noteq> None \<longrightarrow> sy_owner ?s k = Some r" for r k
    using refines_owner [OF assms(2), of r k] by (cases "sp_priv a r k") (auto simp: release_rows_def)
  ultimately show ?thesis using refinesD(1) [OF assms(2)] by (auto simp: refines_def committed_view_def)
qed

lemma sys_step_refines:
  assumes "sys_step x s s'" "sys_ok s" "refines s a"
  shows "sys_ok s' \<and> refines s' (spec_op x a)"
  using assms
proof (induction rule: sys_step.induct)
  case (sys_begin level s)
  then show ?case using begin_step_ok begin_step_refines by auto
next
  case (sys_lock tx s k)
  have "sp_priv a r k = None" for r using refinesD(3) [OF sys_lock(4), of k r] sys_lock(2) by simp
  then show ?case using sys_lock lock_step_sys_ok [of s tx k]
    by (auto simp: refines_def committed_view_def own_view_def)
next
  case (sys_insert tx s k row t')
  then show ?case using writes_step [OF insert_writes] by simp
next
  case (sys_update tx s k row t')
  then show ?case using writes_step [OF update_writes] by simp
next
  case (sys_delete tx s k t' found)
  then show ?case using writes_step [OF delete_writes] by simp
next
  case (sys_commit s tx t disk_ok m')
  then show ?case using commit_ended [OF sys_okD(1)] by (intro commit_step_refines) auto
next
  case (sys_abort s tx t)
  then show ?case using abort_ended [OF sys_okD(1)] by (intro abort_step_refines) auto
next
  case (sys_collect s t' n)
  then show ?case using collect_step [OF sys_collect(2,1)]
    by (auto simp: refines_def committed_view_def)
qed

lemma sys_run_refines:
  "sys_run ops s s' \<Longrightarrow> sys_ok s \<Longrightarrow> refines s a \<Longrightarrow> sys_ok s' \<and> refines s' (spec_run ops a)"
proof (induction rule: sys_run.induct)
  case (run_snoc ops s s' x s'')
  then show ?case using sys_step_refines [OF run_snoc(2), of "fold spec_op ops a"] by (simp add: spec_run_def)
qed (simp add: spec_run_def)

section \<open>Pinned snapshots\<close>

text \<open>
  The snapshot a SERIALIZABLE transaction keeps. Whoever was active when it was taken, or began later, stays
  uncounted for good, so nothing another transaction does changes what the snapshot sees. Collection is
  not among the steps here: its watermark ignores the snapshot's own list of active transactions.
\<close>

definition pinned :: "txn_manager \<Rightarrow> snapshot \<Rightarrow> bool" where
  "pinned m s \<longleftrightarrow> snap_txid s < snap_taken_at s \<and> snap_taken_at s \<le> tm_next_id m \<and>
     (\<forall>i\<in>tm_active m. i \<noteq> snap_txid s \<longrightarrow> snap_taken_at s \<le> i \<or> i \<in> snap_active s)"

fun acts_for :: "mvcc_op \<Rightarrow> txid option" where
  "acts_for (OBegin level) = None"
| "acts_for (OLock tx k) = Some tx"
| "acts_for (OInsert tx k row) = Some tx"
| "acts_for (OUpdate tx k row) = Some tx"
| "acts_for (ODelete tx k) = Some tx"
| "acts_for (OCommit tx) = Some tx"
| "acts_for (OAbort tx) = Some tx"
| "acts_for OCollect = None"

lemma pinned_take: "manager_ok m \<Longrightarrow> tx \<in> tm_active m \<Longrightarrow> pinned m (take_snapshot tx m)"
  using active_id [of m tx] by (auto simp: pinned_def take_snapshot_def)

lemma pinned_unseen:
  assumes "manager_ok m" "pinned m s" "tx \<in> tm_active m" "tx \<noteq> snap_txid s"
  shows "unseen st s tx"
  using assms active_id [OF assms(1,3)] by (auto simp: unseen_def counted_def pinned_def)

lemma table_view_counted:
  assumes "\<And>i. counted st' s i = counted st s i"
  shows "table_view st' s t = table_view st s t"
proof
  fix k show "table_view st' s t k = table_view st s t k"
    using row_view_cong [of "chain_or_empty t k" st' s st s]
    by (simp add: table_view_chain version_visible_counted assms)
qed

lemma ended_pinned:
  assumes "manager_ok m" "pinned m s" "ended tx m m'" "tx \<in> tm_active m" "tx \<noteq> snap_txid s"
    and "\<And>i. i \<noteq> tx \<Longrightarrow> committed m' i = committed m i"
  shows "pinned m' s \<and> table_view (status m') s t = table_view (status m) s t"
proof -
  have "counted (status m') s i = counted (status m) s i" for i
    using assms(6) [of i] pinned_unseen [OF assms(1,2,4,5), of "status m"]
      pinned_unseen [OF assms(1,2,4,5), of "status m'"]
    by (cases "i = tx") (simp_all add: unseen_def, simp add: counted_def)
  then have "table_view (status m') s t = table_view (status m) s t" by (rule table_view_counted)
  moreover have "pinned m' s" using assms(2,3) by (auto simp: pinned_def ended_def)
  ultimately show ?thesis by blast
qed

lemma begin_pinned:
  assumes "manager_ok m" "pinned m s"
  shows "pinned (fst (begin_txn level m)) s \<and> table_view (status (fst (begin_txn level m))) s t = table_view (status m) s t"
proof -
  have view: "table_view (status (fst (begin_txn level m))) s t = table_view (status m) s t"
    by (rule table_view_counted) (simp add: counted_def assms(1))
  have ids: "tm_counter m = tm_next_id m" using manager_okD(1) [OF assms(1)] by (simp add: ids_ok_def)
  have "tm_active (fst (begin_txn level m)) = insert (tm_next_id m) (tm_active m)"
    "tm_next_id (fst (begin_txn level m)) = Suc (tm_next_id m)"
    by (simp_all add: begin_txn_def Let_def ids)
  then have "pinned (fst (begin_txn level m)) s" using assms(2) unfolding pinned_def by auto
  with view show ?thesis by blast
qed

lemma sys_step_pinned:
  assumes "sys_step x s s'" "sys_ok s" "pinned (sy_mgr s) sn" "acts_for x \<noteq> Some (snap_txid sn)" "x \<noteq> OCollect"
  shows "pinned (sy_mgr s') sn \<and>
    table_view (status (sy_mgr s')) sn (sy_table s') = table_view (status (sy_mgr s)) sn (sy_table s)"
  using assms
proof (induction rule: sys_step.induct)
  case (sys_begin level s)
  then show ?case using begin_pinned [OF sys_okD(1)] by simp
next
  case (sys_insert tx s k row t')
  then show ?case using insert_writes [of s tx k row t'] pinned_unseen [OF sys_okD(1), of s sn tx "status (sy_mgr s)"]
    by (simp add: writes_def)
next
  case (sys_update tx s k row t')
  then show ?case using update_writes [of s tx k row t'] pinned_unseen [OF sys_okD(1), of s sn tx "status (sy_mgr s)"]
    by (simp add: writes_def)
next
  case (sys_delete tx s k t' found)
  then show ?case using delete_writes [of s tx k t' found] pinned_unseen [OF sys_okD(1), of s sn tx "status (sy_mgr s)"]
    by (simp add: writes_def)
next
  case (sys_commit s tx t disk_ok m')
  then show ?case using commit_ended [OF sys_okD(1)] ended_pinned [OF sys_okD(1), of s sn tx m' "sy_table s"] by simp
next
  case (sys_abort s tx t)
  have "i \<noteq> tx \<Longrightarrow> committed (abort_txn t (sy_mgr s)) i = committed (sy_mgr s) i" for i
    using abort_ended [OF sys_okD(1) sys_abort(1,2)] sys_abort(4) by simp
  then show ?case
    using sys_abort abort_ended [OF sys_okD(1) sys_abort(1,2)]
      ended_pinned [OF sys_okD(1), of s sn tx "abort_txn t (sy_mgr s)" "sy_table s"] by simp
qed auto

definition start_mvcc :: "wal \<Rightarrow> locks \<Rightarrow> table \<Rightarrow> mvcc_system" where
  "start_mvcc w lk t = \<lparr>sy_mgr = new_manager w lk, sy_table = t, sy_owner = Map.empty\<rparr>"

definition start_spec :: mvcc_spec where
  "start_spec = \<lparr>sp_comm = Map.empty, sp_priv = (\<lambda>_. Map.empty)\<rparr>"

lemma start_mvcc_ok:
  assumes "3 \<le> b" "new_table schema b = Inr t"
  shows "sys_ok (start_mvcc w lk t) \<and> refines (start_mvcc w lk t) start_spec"
proof -
  have t: "table_ok t" "table_chain t = Map.empty" using new_table_ok [OF assms(1), of schema] assms(2) by auto
  then have "chain_or_empty t k = []" for k by (simp add: chain_or_empty_def)
  moreover have "tm_active (new_manager w lk) = {}" by (simp add: new_manager_def)
  ultimately show ?thesis using t new_manager_ok
    by (auto simp: start_mvcc_def start_spec_def sys_ok_def refines_def tidy_def committed_view_def own_view_chain)
qed

end
