(* ===== verification/RecoveryCorrect.thy ===== *)
theory RecoveryCorrect
  imports Database MvccSystem
begin

text \<open>
  What recovery restores. The specification of a log is the map it describes, \<open>abs_log\<close>: a table is a
  partial function from keys to rows, an insert needs a free key, an update or delete a taken one.
  Replaying a log that satisfies it rebuilds exactly that map, as every fresh snapshot of the recovered
  database sees it. A checkpoint stores the last row of every chain and recovery reads them back.
\<close>

section \<open>The specification of a log\<close>

datatype log_op =
    LBegin
  | LCreate table_schema
  | LInsert string rowkey "pyval list"
  | LUpdate string rowkey "pyval list"
  | LDelete string rowkey

fun log_record :: "txid \<Rightarrow> log_op \<Rightarrow> json" where
  "log_record tx LBegin = rec_begin tx"
| "log_record tx (LCreate schema) = rec_create tx (schema_to_dict schema)"
| "log_record tx (LInsert tab k row) = rec_insert tx tab k row"
| "log_record tx (LUpdate tab k row) = rec_update tx tab k row"
| "log_record tx (LDelete tab k) = rec_delete tx tab k"

type_synonym abs_db = "string \<rightharpoonup> (rowkey \<rightharpoonup> pyval list)"

fun abs_op :: "log_op \<Rightarrow> abs_db \<Rightarrow> abs_db option" where
  "abs_op LBegin d = Some d"
| "abs_op (LCreate schema) d =
     (let n = py_lower (sch_name schema) in Some (if d n \<noteq> None then d else d(n \<mapsto> Map.empty)))"
| "abs_op (LInsert tab k row) d =
     (case d (py_lower tab) of
        None \<Rightarrow> None
      | Some rows \<Rightarrow> if rows k \<noteq> None then None else Some (d(py_lower tab \<mapsto> rows(k \<mapsto> row))))"
| "abs_op (LUpdate tab k row) d =
     (case d (py_lower tab) of
        None \<Rightarrow> None
      | Some rows \<Rightarrow> if rows k = None then None else Some (d(py_lower tab \<mapsto> rows(k \<mapsto> row))))"
| "abs_op (LDelete tab k) d =
     (case d (py_lower tab) of
        None \<Rightarrow> None
      | Some rows \<Rightarrow> if rows k = None then None else Some (d(py_lower tab \<mapsto> rows(k := None))))"

fun abs_log :: "log_op list \<Rightarrow> abs_db \<Rightarrow> abs_db option" where
  "abs_log [] d = Some d"
| "abs_log (x # xs) d = (case abs_op x d of None \<Rightarrow> None | Some d' \<Rightarrow> abs_log xs d')"

section \<open>Replayed chains\<close>

text \<open>Replay ends every version but the last, and the last one when the row is gone.\<close>

definition replayed :: "txid set \<Rightarrow> chain \<Rightarrow> bool" where
  "replayed ids c \<longleftrightarrow> (\<forall>v\<in>set (butlast c). v_xmax v \<noteq> 0) \<and>
     (\<forall>v\<in>set c. v_xmin v \<in> insert 0 ids \<and> v_xmax v \<in> insert 0 ids)"

definition live_row :: "chain \<Rightarrow> pyval list option" where
  "live_row c = (if c = [] \<or> v_xmax (last c) \<noteq> 0 then None else Some (v_row (last c)))"

definition live_rows :: "table \<Rightarrow> rowkey \<rightharpoonup> pyval list" where
  "live_rows t k = live_row (chain_or_empty t k)"

definition table_replayed :: "txid set \<Rightarrow> table \<Rightarrow> bool" where
  "table_replayed ids t \<longleftrightarrow> table_ok t \<and> (\<forall>k. replayed ids (chain_or_empty t k))"

definition represents :: "txid set \<Rightarrow> (string \<times> table) list \<Rightarrow> abs_db \<Rightarrow> bool" where
  "represents ids tabs d \<longleftrightarrow> (\<forall>n. map_of tabs n = None \<longleftrightarrow> d n = None) \<and>
     (\<forall>n t. map_of tabs n = Some t \<longrightarrow> table_replayed ids t \<and> d n = Some (live_rows t))"

lemma replayed_snoc:
  "replayed ids (c @ [v]) \<longleftrightarrow> (\<forall>u\<in>set c. v_xmax u \<noteq> 0) \<and> (\<forall>u\<in>set c \<union> {v}. v_xmin u \<in> insert 0 ids \<and> v_xmax u \<in> insert 0 ids)"
  by (auto simp: replayed_def)

lemma live_row_snoc [simp]: "live_row (c @ [v]) = (if v_xmax v \<noteq> 0 then None else Some (v_row v))"
  by (simp add: live_row_def)

lemma replayed_dead: "replayed ids c \<Longrightarrow> live_row c = None \<Longrightarrow> \<forall>v\<in>set c. v_xmax v \<noteq> 0"
  by (cases c rule: rev_cases) (auto simp: replayed_snoc split: if_splits)

lemma bump_rowid_simps [simp]:
  "tb_tree (bump_rowid k t) = tb_tree t" "tb_schema (bump_rowid k t) = tb_schema t"
  by (auto simp: bump_rowid_def split: option.splits)

lemma bump_rowid_table [simp]:
  "table_ok (bump_rowid k t) = table_ok t" "table_chain (bump_rowid k t) = table_chain t"
  by (auto simp: table_ok_def table_chain_def)

lemma table_replayed_upd:
  assumes "table_replayed ids t" "table_ok t'" "table_chain t' = (table_chain t)(k \<mapsto> c)" "replayed ids c"
  shows "table_replayed ids t' \<and> live_rows t' = (live_rows t)(k := live_row c)"
  using assms by (auto simp: table_replayed_def live_rows_def chain_or_empty_upd)

lemma replay_insert_ok:
  assumes "table_replayed ids t" "live_rows t k = None" "tx \<in> ids"
  shows "\<exists>t'. replay_insert tx k row t = Inr t' \<and> table_replayed ids t' \<and> live_rows t' = (live_rows t)(k \<mapsto> row)"
proof -
  let ?c = "chain_or_empty t k"
  have t: "table_ok t" "replayed ids ?c" using assms(1) by (auto simp: table_replayed_def)
  have dead: "\<forall>v\<in>set ?c. v_xmax v \<noteq> 0" using replayed_dead [OF t(2)] assms(2) by (simp add: live_rows_def)
  obtain t' where t': "append_replayed k (new_version row tx) t = Inr t'" "table_ok t'"
    "table_chain t' = (table_chain t)(k \<mapsto> ?c @ [new_version row tx])"
    using append_replayed_ok [OF t(1), of k "new_version row tx"] by blast
  have "replayed ids (?c @ [new_version row tx])"
    using t(2) dead assms(3) by (auto simp: replayed_snoc replayed_def)
  from table_replayed_upd [OF assms(1) _ _ this, of "bump_rowid k t'" k] show ?thesis
    using t' by (auto simp: replay_insert_def)
qed

lemma live_chain:
  assumes "table_replayed ids t" "live_rows t k \<noteq> None"
  obtains d v where "table_chain t k = Some (d @ [v])" "v_xmax v = 0" "replayed ids (d @ [v])"
    "chain_or_empty t k = d @ [v]"
proof -
  have "chain_or_empty t k \<noteq> []" using assms(2) by (auto simp: live_rows_def live_row_def)
  then obtain d v where dv: "chain_or_empty t k = d @ [v]" by (metis rev_exhaust)
  then have "table_chain t k = Some (d @ [v])" by (auto simp: chain_or_empty_def split: option.splits)
  moreover have "v_xmax v = 0" using assms(2) by (auto simp: live_rows_def dv split: if_splits)
  ultimately show ?thesis using that dv assms(1) by (auto simp: table_replayed_def) (metis dv)
qed

lemma stamped_replayed:
  "replayed ids (d @ [v]) \<Longrightarrow> tx \<in> ids \<Longrightarrow> 0 < tx \<Longrightarrow> replayed ids (d @ [v\<lparr>v_xmax := tx\<rparr>])"
  by (simp add: replayed_snoc)

lemma replay_update_ok:
  assumes "table_replayed ids t" "live_rows t k \<noteq> None" "tx \<in> ids" "0 < tx"
  shows "\<exists>t'. replay_update tx k row t = Inr t' \<and> table_replayed ids t' \<and> live_rows t' = (live_rows t)(k \<mapsto> row)"
proof -
  have t: "table_ok t" using assms(1) by (simp add: table_replayed_def)
  obtain d v where dv: "table_chain t k = Some (d @ [v])" "replayed ids (d @ [v])"
    using live_chain [OF assms(1,2)] by metis
  let ?c = "(d @ [v\<lparr>v_xmax := tx\<rparr>]) @ [new_version row tx]"
  obtain t' where t': "put_chain k ?c t = Inr t'" "table_ok t'" "table_chain t' = (table_chain t)(k \<mapsto> ?c)"
    using put_chain_ok [OF t, of ?c k] by auto
  have "replayed ids ?c" using dv(2) assms(3,4) by (auto simp: replayed_snoc simp del: append_assoc)
  from table_replayed_upd [OF assms(1) t'(2,3) this] show ?thesis
    using t'(1) dv(1) by (auto simp: replay_update_def getitem_chain [OF t] live_row_def)
qed

lemma replay_delete_ok:
  assumes "table_replayed ids t" "live_rows t k \<noteq> None" "tx \<in> ids" "0 < tx"
  shows "\<exists>t'. replay_delete tx k t = Inr t' \<and> table_replayed ids t' \<and> live_rows t' = (live_rows t)(k := None)"
proof -
  have t: "table_ok t" using assms(1) by (simp add: table_replayed_def)
  obtain d v where dv: "table_chain t k = Some (d @ [v])" "replayed ids (d @ [v])"
    using live_chain [OF assms(1,2)] by metis
  let ?c = "d @ [v\<lparr>v_xmax := tx\<rparr>]"
  obtain t' where t': "replay_delete tx k t = Inr t'" "table_ok t'" "table_chain t' = (table_chain t)(k \<mapsto> ?c)"
    using mark_deleted_replayed_ok [OF t dv(1), of tx] by (auto simp: replay_delete_def)
  from table_replayed_upd [OF assms(1) t'(2,3) stamped_replayed [OF dv(2) assms(3,4)]] show ?thesis
    using t'(1) assms(4) by simp
qed

section \<open>Replay of a log\<close>

lemma represents_upd:
  assumes "represents ids tabs d" "table_replayed ids t"
  shows "represents ids (AList.update n t tabs) (d(n \<mapsto> live_rows t))"
  using assms by (auto simp: represents_def update_conv')

lemma make_table_replayed:
  "\<exists>t. make_table schema = Inr t \<and> table_replayed ids t \<and> live_rows t = Map.empty \<and> tb_schema t = schema"
  using new_table_ok [of 32 schema]
  by (auto simp: make_table_def table_replayed_def live_rows_def chain_or_empty_def replayed_def live_row_def fun_eq_iff)

lemma replay_on_ok:
  assumes "represents ids tabs d" "d n = Some rows"
    and "\<And>t. table_replayed ids t \<Longrightarrow> live_rows t = rows \<Longrightarrow>
      \<exists>t'. f t = Inr t' \<and> table_replayed ids t' \<and> live_rows t' = rows'"
  shows "map_of tabs n \<noteq> None \<and>
    (\<exists>tabs'. replay_on n f tabs = Inr tabs' \<and> represents ids tabs' (d(n \<mapsto> rows')))"
proof -
  obtain t where t: "map_of tabs n = Some t" "table_replayed ids t" "live_rows t = rows"
    using assms(1,2) by (cases "map_of tabs n") (auto simp: represents_def)
  obtain t' where "f t = Inr t'" "table_replayed ids t'" "live_rows t' = rows'" using assms(3) [OF t(2,3)] by blast
  then show ?thesis using t(1) represents_upd [OF assms(1), of t' n] by (auto simp: replay_on_def)
qed

lemma represents_None: "represents ids tabs d \<Longrightarrow> map_of tabs n = None \<longleftrightarrow> d n = None"
  by (simp add: represents_def)

lemma replay_record_ok:
  assumes "represents ids tabs d" "abs_op x d = Some d'" "tx \<in> ids" "0 < tx"
  shows "\<exists>tabs'. apply_replay_record (log_record tx x) tabs = Inr tabs' \<and> represents ids tabs' d'"
proof (cases x)
  case LBegin
  then show ?thesis using assms by (simp add: apply_replay_record_def rec_begin_def read_txid_def)
next
  case (LCreate schema)
  let ?n = "py_lower (sch_name schema)"
  obtain t where t: "make_table schema = Inr t" "table_replayed ids t" "live_rows t = Map.empty"
    using make_table_replayed by blast
  show ?thesis
    using LCreate assms t represents_None [OF assms(1), of ?n] represents_upd [OF assms(1) t(2), of ?n]
    by (auto simp: apply_replay_record_def rec_create_def read_txid_def replay_create_def schema_from_to_dict
        Let_def split: if_splits)
next
  case (LInsert tab k row)
  then obtain rows where rows: "d (py_lower tab) = Some rows" "rows k = None" "d' = d(py_lower tab \<mapsto> rows(k \<mapsto> row))"
    using assms(2) by (auto split: option.splits if_splits)
  have "\<exists>t'. replay_insert tx k row t = Inr t' \<and> table_replayed ids t' \<and> live_rows t' = rows(k \<mapsto> row)"
    if "table_replayed ids t" "live_rows t = rows" for t
    using that replay_insert_ok [OF that(1), of k tx] assms(3) rows(2) by auto
  from replay_on_ok [OF assms(1) rows(1) this] show ?thesis using LInsert rows(3)
    by (auto simp: apply_replay_record_def rec_insert_def read_txid_def read_row_def)
next
  case (LUpdate tab k row)
  then obtain rows where rows: "d (py_lower tab) = Some rows" "rows k \<noteq> None" "d' = d(py_lower tab \<mapsto> rows(k \<mapsto> row))"
    using assms(2) by (auto split: option.splits if_splits)
  have "\<exists>t'. replay_update tx k row t = Inr t' \<and> table_replayed ids t' \<and> live_rows t' = rows(k \<mapsto> row)"
    if "table_replayed ids t" "live_rows t = rows" for t
    using that replay_update_ok [OF that(1), of k tx] assms(3,4) rows(2) by auto
  from replay_on_ok [OF assms(1) rows(1) this] show ?thesis using LUpdate rows(3)
    by (auto simp: apply_replay_record_def rec_update_def read_txid_def read_row_def)
next
  case (LDelete tab k)
  then obtain rows where rows: "d (py_lower tab) = Some rows" "rows k \<noteq> None" "d' = d(py_lower tab \<mapsto> rows(k := None))"
    using assms(2) by (auto split: option.splits if_splits)
  have "\<exists>t'. replay_delete tx k t = Inr t' \<and> table_replayed ids t' \<and> live_rows t' = rows(k := None)"
    if "table_replayed ids t" "live_rows t = rows" for t
    using that replay_delete_ok [OF that(1), of k tx] assms(3,4) rows(2) by auto
  from replay_on_ok [OF assms(1) rows(1) this] show ?thesis using LDelete rows(3)
    by (auto simp: apply_replay_record_def rec_delete_def read_txid_def)
qed

lemma log_record_txid: "bind_result (field ''txid'' (log_record tx x)) read_txid = Inr tx"
  by (cases x) (simp_all add: rec_begin_def rec_create_def rec_insert_def rec_update_def rec_delete_def read_txid_def)

lemma replay_records_ok:
  assumes "represents ids tabs d" "abs_log (map snd xs) d = Some d'" "fst ` set xs \<subseteq> ids" "\<forall>tx\<in>ids. 0 < tx"
  shows "\<exists>tabs'. replay_records (map (\<lambda>(tx, x). log_record tx x) xs) n tabs = Inr (foldl max n (map fst xs), tabs') \<and>
    represents ids tabs' d'"
  using assms(1-3)
proof (induction xs arbitrary: tabs d n)
  case (Cons e xs)
  obtain tx x where e: "e = (tx, x)" by (cases e)
  obtain d1 where d1: "abs_op x d = Some d1" "abs_log (map snd xs) d1 = Some d'"
    using Cons.prems(2) by (auto simp: e split: option.splits)
  obtain tabs1 where "apply_replay_record (log_record tx x) tabs = Inr tabs1" "represents ids tabs1 d1"
    using replay_record_ok [OF Cons.prems(1) d1(1), of tx] Cons.prems(3) assms(4) by (auto simp: e)
  then show ?case using Cons.IH [OF _ d1(2), of tabs1 "max n tx"] Cons.prems(3)
    by (simp add: e log_record_txid)
qed simp

section \<open>The recovered views\<close>

lemma bootstrap_committed:
  "committed (bootstrap_state n (new_manager w lk)) i \<longleftrightarrow> 0 < i \<and> i \<le> n"
  by (auto simp: committed_def bootstrap_state_def new_manager_def split: if_splits)

lemma recovered_view:
  assumes "table_replayed ids t" "\<forall>i\<in>ids. 0 < i \<and> i \<le> n" "tx = 0 \<or> n < tx"
  shows "table_view (status (bootstrap_state n (new_manager w lk)))
      (take_snapshot tx (bootstrap_state n (new_manager w lk))) t = live_rows t"
proof
  fix k
  let ?m = "bootstrap_state n (new_manager w lk)" and ?c = "chain_or_empty t k"
  have r: "replayed ids ?c" using assms(1) by (simp add: table_replayed_def)
  have vis: "fresh_visible ?m tx v \<longleftrightarrow> v_xmax v = 0" if "v \<in> set ?c" for v
  proof -
    have "v_xmin v = 0 \<or> committed ?m (v_xmin v)" "v_xmax v = 0 \<or> committed ?m (v_xmax v)"
      using r that assms(2) by (auto simp: replayed_def bootstrap_committed)
    then show ?thesis using assms(2,3) r that
      by (auto simp: fresh_visible_iff [OF bootstrap_state_ok] replayed_def)
  qed
  show "table_view (status ?m) (take_snapshot tx ?m) t k = live_rows t k"
  proof (cases ?c rule: rev_cases)
    case Nil
    then show ?thesis by (simp add: table_view_chain live_rows_def live_row_def)
  next
    case (snoc d v)
    have "vacant (status ?m) (take_snapshot tx ?m) d" using vis r snoc by (auto simp: vacant_def replayed_snoc)
    then show ?thesis using vis [of v] snoc
      by (auto simp: table_view_chain live_rows_def row_view_None)
  qed
qed

lemma recover_log:
  assumes "read_wal log_lines = Inr (ids, map (\<lambda>(tx, x). log_record tx x) xs)"
    and "map_result read_txid ids = Inr txs" "fst ` set xs \<subseteq> set txs" "\<forall>tx\<in>set txs. 0 < tx"
    and "abs_log (map snd xs) Map.empty = Some d"
  shows "\<exists>db. recover None log_lines (new_manager w lk) = Inr db \<and> manager_ok (db_mgr db) \<and>
    tm_active (db_mgr db) = {} \<and>
    (\<forall>name. map_of (db_tables db) name = None \<longleftrightarrow> d name = None) \<and>
    (\<forall>name t. map_of (db_tables db) name = Some t \<longrightarrow> table_ok t \<and>
       d name = Some (table_view (status (db_mgr db)) (take_snapshot 0 (db_mgr db)) t))"
proof -
  let ?n = "foldr max txs 0"
  have le: "\<forall>tx\<in>set txs. 0 < tx \<and> tx \<le> ?n"
  proof
    fix tx assume "tx \<in> set txs"
    moreover have "tx \<in> set ys \<Longrightarrow> tx \<le> foldr max ys 0" for ys :: "nat list"
      by (induction ys) auto
    ultimately show "0 < tx \<and> tx \<le> ?n" using assms(4) by blast
  qed
  have top: "foldl max ?n (map fst xs) = ?n"
  proof -
    have keep: "\<forall>y\<in>set ys. y \<le> n \<Longrightarrow> foldl max n ys = n" for n :: nat and ys
      by (induction ys) (auto simp: max_def)
    show ?thesis by (rule keep) (use le assms(3) in auto)
  qed
  have "represents (set txs) [] Map.empty" by (simp add: represents_def)
  from replay_records_ok [OF this assms(5,3), of ?n] obtain tabs where
    tabs: "replay_records (map (\<lambda>(tx, x). log_record tx x) xs) ?n [] = Inr (?n, tabs)" "represents (set txs) tabs d"
    using assms(4) top by auto
  let ?m = "bootstrap_state ?n (new_manager w lk)"
  let ?db = "\<lparr>db_tables = tabs, db_mgr = ?m, db_checkpoint = None\<rparr>"
  have rec: "recover None log_lines (new_manager w lk) = Inr ?db"
    using assms(1,2) tabs(1) by (simp add: recover_def load_checkpoint_def)
  have "table_ok t \<and> d name = Some (table_view (status ?m) (take_snapshot 0 ?m) t)"
    if "map_of tabs name = Some t" for name t
  proof -
    have t: "table_replayed (set txs) t" "d name = Some (live_rows t)"
      using tabs(2) that by (auto simp: represents_def)
    then show ?thesis using recovered_view [OF t(1) le, of 0 w lk] by (simp add: table_replayed_def)
  qed
  moreover have "map_of tabs name = None \<longleftrightarrow> d name = None" for name
    using represents_None [OF tabs(2)] by blast
  moreover have "tm_active ?m = {}" by (simp add: bootstrap_state_def new_manager_def)
  ultimately show ?thesis using rec bootstrap_state_ok [of ?n w lk]
    by (intro exI [of _ ?db]) simp
qed

section \<open>The checkpoint round trip\<close>

definition last_rows :: "table \<Rightarrow> rowkey \<rightharpoonup> pyval list" where
  "last_rows t k = map_option (\<lambda>c. v_row (last c)) (table_chain t k)"

definition entry_json :: "rowkey \<times> chain \<Rightarrow> json" where
  "entry_json e = JObj [(''key'', encode_key (fst e)), (''row'', JArr (map json_of_value (v_row (last (snd e)))))]"

definition stored :: "chain \<Rightarrow> chain" where
  "stored c = [new_version (v_row (last c)) 0]"

lemma load_rows_ok:
  "table_ok t \<Longrightarrow> \<exists>t'. load_rows (map entry_json es) t = Inr t' \<and> table_ok t' \<and>
     table_chain t' = table_chain t ++ map_of (rev (map (apsnd stored) es)) \<and>
     tb_schema t' = tb_schema t \<and> tb_next_rowid t' = tb_next_rowid t"
proof (induction es arbitrary: t)
  case (Cons e es)
  obtain k c where e: "e = (k, c)" by (cases e)
  obtain t1 where t1: "put_chain k [new_version (v_row (last c)) 0] t = Inr t1" "table_ok t1"
    "table_chain t1 = (table_chain t)(k \<mapsto> [new_version (v_row (last c)) 0])"
    "tb_schema t1 = tb_schema t" "tb_next_rowid t1 = tb_next_rowid t"
    using put_chain_ok [OF Cons.prems, of "[new_version (v_row (last c)) 0]" k] by blast
  obtain t' where t': "load_rows (map entry_json es) t1 = Inr t'" "table_ok t'"
    "table_chain t' = table_chain t1 ++ map_of (rev (map (apsnd stored) es))"
    "tb_schema t' = tb_schema t1" "tb_next_rowid t' = tb_next_rowid t1"
    using Cons.IH [OF t1(2)] by blast
  have "load_rows (map entry_json (e # es)) t = Inr t'"
    using t1(1) t'(1) by (simp add: e entry_json_def [of "(k, c)"] read_row_def)
  moreover have "table_chain t' = table_chain t ++ map_of (rev (map (apsnd stored) (e # es)))"
    by (simp add: t'(3) t1(3) e stored_def)
  ultimately show ?case using t' t1 by auto
qed simp

lemma checkpoint_rows:
  "\<forall>e\<in>set es. snd e \<noteq> [] \<Longrightarrow> map_result checkpoint_row es = Inr (map entry_json es)"
  by (rule map_result_Inr) (auto simp: checkpoint_row_def entry_json_def split_beta)

lemma checkpoint_table_roundtrip:
  assumes "table_ok t"
  shows "\<exists>td t'. checkpoint_table t = Inr td \<and> load_table td = Inr t' \<and> table_ok t' \<and>
    tb_schema t' = tb_schema t \<and> tb_next_rowid t' = tb_next_rowid t \<and>
    table_chain t' = (\<lambda>k. map_option (\<lambda>row. [new_version row 0]) (last_rows t k))"
proof -
  let ?es = "tree_entries (tb_tree t)"
  have ne: "\<forall>e\<in>set ?es. snd e \<noteq> []" using assms by (simp add: table_ok_def)
  have d: "distinct (map fst ?es)" using bt.contents_distinct assms by blast
  obtain t0 where t0: "make_table (tb_schema t) = Inr t0" "table_ok t0" "table_chain t0 = Map.empty"
    "tb_schema t0 = tb_schema t"
    using new_table_ok [of 32 "tb_schema t"] by (auto simp: make_table_def)
  let ?t0 = "t0\<lparr>tb_next_rowid := tb_next_rowid t\<rparr>"
  have "table_ok ?t0" "table_chain ?t0 = Map.empty" using t0 by (auto simp: table_ok_def table_chain_def)
  then obtain t' where t': "load_rows (map entry_json ?es) ?t0 = Inr t'" "table_ok t'"
    "table_chain t' = map_of (rev (map (apsnd stored) ?es))"
    "tb_schema t' = tb_schema t" "tb_next_rowid t' = tb_next_rowid t"
    using load_rows_ok [of ?t0 ?es] t0(4) by auto
  have "map_of (rev (map (apsnd stored) ?es)) = map_of (map (apsnd stored) ?es)"
    using d by (intro map_of_rev) (simp add: comp_def)
  moreover have "map_of (map (apsnd f) es) k = map_option f (map_of es k)" for f :: "chain \<Rightarrow> chain" and es k
    by (induction es) auto
  ultimately have "table_chain t' k = map_option stored (table_chain t k)" for k
    unfolding t'(3) table_chain_def [of t] by metis
  then have "table_chain t' = (\<lambda>k. map_option (\<lambda>row. [new_version row 0]) (last_rows t k))"
    by (simp add: fun_eq_iff last_rows_def option.map_comp comp_def stored_def [abs_def])
  moreover have "checkpoint_table t = Inr (JObj [(''schema'', schema_to_dict (tb_schema t)),
      (''next_rowid'', JInt (tb_next_rowid t)), (''rows'', JArr (map entry_json ?es))])"
    using bt.items_contents [OF table_okD [OF assms]] checkpoint_rows [OF ne] by (simp add: checkpoint_table_def)
  ultimately show ?thesis using t0(1) t' by (auto simp: load_table_def schema_from_to_dict)
qed

text \<open>When every chain is settled for the committed view, the last rows are the committed rows.\<close>

lemma settled_last_rows:
  assumes "\<And>k c. table_chain t k = Some c \<Longrightarrow> settled st s c"
  shows "last_rows t = table_view st s t"
proof
  fix k show "last_rows t k = table_view st s t k"
    using assms [of k] settled_pick by (cases "table_chain t k") (auto simp: last_rows_def table_view_def)
qed

lemma checkpointed_view:
  assumes "table_chain t' = (\<lambda>k. map_option (\<lambda>row. [new_version row 0]) (rows k))"
  shows "table_view st s t' = rows"
proof
  fix k
  have "version_visible st s (new_version row 0)" for row
    by (simp add: version_visible_counted)
  then show "table_view st s t' k = rows k"
    using assms by (cases "rows k") (simp_all add: table_view_def pick_visible_def)
qed

end
