(* ===== verification/TableAnomalies.thy ===== *)
theory TableAnomalies
  imports RecoveryCorrect
begin

text \<open>
  Runs of the modelled operations whose outcome is not what the documentation promises. Each is evaluated
  by the kernel on a table \<open>t (id INT PRIMARY KEY, v INT)\<close>. The first group needs an aborted UPDATE or
  DELETE, which is why the refinement of MvccSystem has no such step; the second concerns collection, the
  checkpoint and the reuse of transaction ids after a crash.
\<close>

section \<open>The table of the examples\<close>

definition demo_schema :: table_schema where
  "demo_schema =
     \<lparr>sch_name = ''t'',
      sch_columns =
        [\<lparr>col_name = ''id'', col_type = TInt, col_length = None, col_nullable = False, col_primary_key = True\<rparr>,
         \<lparr>col_name = ''v'', col_type = TInt, col_length = None, col_nullable = True, col_primary_key = False\<rparr>]\<rparr>"

definition demo_row :: "int \<Rightarrow> int \<Rightarrow> pyval list" where
  "demo_row i x = [VInt i, VInt x]"

definition demo_key :: "int \<Rightarrow> rowkey" where
  "demo_key i = KVal (VInt i)"

definition demo_table :: "table result" where
  "demo_table = new_table demo_schema 32"

definition do_insert :: "txid \<Rightarrow> int \<Rightarrow> int \<Rightarrow> table \<Rightarrow> table result" where
  "do_insert tx i x t = bind_result (table_insert tx (demo_row i x) None t) (\<lambda>(t', _). Inr t')"

definition do_update :: "txid \<Rightarrow> int \<Rightarrow> int \<Rightarrow> table \<Rightarrow> table result" where
  "do_update tx i x t = table_update tx (demo_key i) (demo_row i x) t"

definition do_delete :: "txid \<Rightarrow> int \<Rightarrow> table \<Rightarrow> table result" where
  "do_delete tx i t = bind_result (table_delete tx (demo_key i) t) (\<lambda>(t', _). Inr t')"

fun do_all :: "(table \<Rightarrow> table result) list \<Rightarrow> table result \<Rightarrow> table result" where
  "do_all [] r = r"
| "do_all (f # fs) r = do_all fs (bind_result r f)"

text \<open>A fresh reader that began after all the others, and the statuses of the others.\<close>

definition late_reader :: "txid \<Rightarrow> snapshot" where
  "late_reader tx = \<lparr>snap_txid = tx, snap_taken_at = tx + 1, snap_active = {tx}\<rparr>"

definition finals :: "(txid \<times> bool) list \<Rightarrow> status_fn" where
  "finals xs tx = map_of xs tx"

section \<open>After an aborted UPDATE or DELETE\<close>

text \<open>
  \<open>delete\<close> and \<open>update\<close> stamp the last version of the chain. After an aborted UPDATE that is the aborted
  version, and the committed version below it stays alive.
\<close>

lemma delete_after_aborted_update:
  "bind_result (do_all [do_insert 1 1 10, do_update 2 1 20, do_delete 3 1] demo_table)
     (table_scan (finals [(1, True), (2, False), (3, True)]) (late_reader 4)) =
   Inr [(demo_key 1, demo_row 1 10)]"
  by code_simp

lemma old_row_returns:
  "bind_result (do_all [do_insert 1 1 10, do_update 2 1 20, do_update 3 1 30, do_delete 4 1] demo_table)
     (table_scan (finals [(1, True), (2, False), (3, True), (4, True)]) (late_reader 5)) =
   Inr [(demo_key 1, demo_row 1 10)]"
  by code_simp

lemma delete_after_aborted_delete:
  "bind_result (do_all [do_insert 1 1 10, do_delete 2 1] demo_table)
     (\<lambda>t. bind_result (table_delete 3 (demo_key 1) t) (\<lambda>(_, found). Inr found)) = Inr False"
  "bind_result (do_all [do_insert 1 1 10, do_delete 2 1] demo_table)
     (table_scan (finals [(1, True), (2, False)]) (late_reader 3)) = Inr [(demo_key 1, demo_row 1 10)]"
  by code_simp+

section \<open>Collection\<close>

text \<open>
  Transaction 3 pins its snapshot while 2 is active; 2 deletes the row and commits; the watermark is then
  3, the only active transaction, and the version 3 still sees is reclaimed.
\<close>

definition pinned_reader :: snapshot where
  "pinned_reader = \<lparr>snap_txid = 3, snap_taken_at = 4, snap_active = {2, 3}\<rparr>"

lemma gc_under_pinned_snapshot:
  "bind_result (do_all [do_insert 1 1 10, do_delete 2 1] demo_table)
     (table_scan (finals [(1, True), (2, True)]) pinned_reader) = Inr [(demo_key 1, demo_row 1 10)]"
  "bind_result (do_all [do_insert 1 1 10, do_delete 2 1] demo_table)
     (\<lambda>t. bind_result (table_gc (finals [(1, True), (2, True)]) 3 t)
        (\<lambda>(t', _). table_scan (finals [(1, True), (2, True)]) pinned_reader t')) = Inr []"
  by code_simp+

text \<open>
  \<open>gc\<close> releases the latch between \<open>iter_chains\<close> and \<open>replace_chains\<close>. A row inserted between the two, on a
  key that has a chain, is gone.
\<close>

definition gc_around :: "(table \<Rightarrow> table result) \<Rightarrow> status_fn \<Rightarrow> txid \<Rightarrow> table \<Rightarrow> table result" where
  "gc_around f st oldest t =
     bind_result (iter_chains t)
       (\<lambda>pairs. bind_result (f t) (replace_chains (fst (gc_collect st oldest pairs))))"

lemma gc_loses_insert:
  "bind_result (do_all [do_insert 1 1 10, do_delete 3 1, do_insert 4 1 40] demo_table)
     (table_scan (finals [(1, True), (3, True), (4, True)]) (late_reader 5)) = Inr [(demo_key 1, demo_row 1 40)]"
  "bind_result (do_all [do_insert 1 1 10, do_delete 3 1] demo_table)
     (\<lambda>t. bind_result (gc_around (do_insert 4 1 40) (finals [(1, True), (3, True)]) 2 t)
        (table_scan (finals [(1, True), (3, True), (4, True)]) (late_reader 5))) = Inr []"
  by code_simp+

section \<open>Checkpoint and restart\<close>

text \<open>
  Two neighbouring keys are deleted and committed. The purge skips the second, the checkpoint writes the
  last version of its dead chain, and after the restart the row is back.
\<close>

definition demo_db :: "table \<Rightarrow> database" where
  "demo_db t =
     \<lparr>db_tables = [(''t'', t)], db_mgr = bootstrap_state 2 (new_manager (new_wal []) (new_locks 100)),
      db_checkpoint = None\<rparr>"

definition db_scan :: "database \<Rightarrow> (rowkey \<times> pyval list) list result" where
  "db_scan db =
     bind_result (get_table ''t'' db) (table_scan (status (db_mgr db)) (take_snapshot 0 (db_mgr db)))"

definition restart :: "database \<Rightarrow> database result" where
  "restart db =
     bind_result (checkpoint db)
       (\<lambda>d. recover (db_checkpoint d) (map Some (wal_lines (tm_wal (db_mgr d)))) (new_manager (new_wal []) (new_locks 100)))"

lemma deleted_row_returns:
  "bind_result (do_all [do_insert 1 1 10, do_insert 1 2 20, do_delete 2 1, do_delete 2 2] demo_table)
     (\<lambda>t. db_scan (demo_db t)) = Inr []"
  "bind_result (do_all [do_insert 1 1 10, do_insert 1 2 20, do_delete 2 1, do_delete 2 2] demo_table)
     (\<lambda>t. bind_result (restart (demo_db t)) db_scan) = Inr [(demo_key 2, demo_row 2 20)]"
  by code_simp+

text \<open>
  Transaction 2 crashes before it commits. Recovery hands out its id again, and when the new transaction 2
  commits, the next recovery takes the old records for its own.
\<close>

definition crash_log :: "json option list" where
  "crash_log = map Some
     [rec_begin 1, rec_create 1 (schema_to_dict demo_schema), rec_commit 1,
      rec_begin 2, rec_insert 2 ''t'' (demo_key 1) (demo_row 1 10)]"

definition later_log :: "json option list" where
  "later_log = crash_log @ map Some [rec_begin 2, rec_insert 2 ''t'' (demo_key 7) (demo_row 7 70), rec_commit 2]"

definition recovered :: "json option list \<Rightarrow> database result" where
  "recovered ls = recover None ls (new_manager (new_wal []) (new_locks 100))"

lemma txid_reuse:
  "bind_result (recovered crash_log) (\<lambda>db. Inr (snd (begin_txn ReadCommitted (db_mgr db)))) = Inr 2"
  "bind_result (recovered crash_log) db_scan = Inr []"
  "bind_result (recovered later_log) db_scan = Inr [(demo_key 1, demo_row 1 10), (demo_key 7, demo_row 7 70)]"
  by code_simp+

end
