(* ===== verification/MvccProperties.thy ===== *)
theory MvccProperties
  imports TableAnomalies
begin

text \<open>
  The properties of multi-version tables and transactions: what a scan returns, what each write does to
  every snapshot, what garbage collection may do, and the two isolation theorems for whole runs, the
  refinement of READ COMMITTED and the stability of a pinned snapshot.
\<close>

section \<open>Small instances for the witnesses\<close>

definition one_row_table :: table where
  "one_row_table =
     \<lparr>tb_schema = demo_schema,
      tb_tree = \<lparr>bp_order = 32, bp_root = Leaf [demo_key 1] [[\<lparr>v_row = demo_row 1 10, v_xmin = 1, v_xmax = 0\<rparr>]],
                bp_size = 1\<rparr>,
      tb_next_rowid = 1\<rparr>"

definition three_key_table :: table where
  "three_key_table =
     \<lparr>tb_schema = demo_schema,
      tb_tree = \<lparr>bp_order = 32,
                bp_root = Leaf [demo_key 1, demo_key 2, demo_key 3]
                  [[\<lparr>v_row = demo_row 1 10, v_xmin = 1, v_xmax = 2\<rparr>],
                   [\<lparr>v_row = demo_row 2 20, v_xmin = 1, v_xmax = 2\<rparr>],
                   [\<lparr>v_row = demo_row 3 30, v_xmin = 1, v_xmax = 2\<rparr>, \<lparr>v_row = demo_row 3 31, v_xmin = 2, v_xmax = 0\<rparr>]],
                bp_size = 3\<rparr>,
      tb_next_rowid = 1\<rparr>"

lemma one_row_table_ok: "table_ok one_row_table"
proof -
  have "shape True False 32 1 (bp_root (tb_tree one_row_table))" by (simp add: one_row_table_def)
  then show ?thesis by (auto simp: table_ok_def tree_ok_def tree_entries_def one_row_table_def)
qed

lemma three_key_table_ok: "table_ok three_key_table"
proof -
  have "shape True False 32 1 (bp_root (tb_tree three_key_table))" by (simp add: three_key_table_def)
  then show ?thesis
    by (auto simp: table_ok_def tree_ok_def tree_entries_def three_key_table_def demo_key_def)
qed

definition both_committed :: status_fn where
  "both_committed = finals [(1, True), (2, True)]"

section \<open>Reads\<close>

text \<open>
  C20. A scan returns, in key order and without duplicates, exactly the rows that a point read under the
  same snapshot sees, and \<open>count_visible\<close> is their number.
\<close>

theorem scan_visible_rows:
  assumes "table_ok t"
  shows "\<exists>rows. table_scan st s t = Inr rows \<and> sorted_wrt (<) (map fst rows) \<and>
    count_visible st s t = Inr (length rows) \<and>
    (\<forall>k row. (k, row) \<in> set rows \<longleftrightarrow> (\<exists>v. visible_version st s k t = Inr (Some v) \<and> v_row v = row))"
proof -
  obtain rows where rows: "table_scan st s t = Inr rows" "sorted_alist rows" "map_of rows = table_view st s t"
    using table_scan_ok [OF assms, of st s] by blast
  have "(k, row) \<in> set rows \<longleftrightarrow> (\<exists>v. visible_version st s k t = Inr (Some v) \<and> v_row v = row)" for k row
  proof -
    have "distinct (map fst rows)" using rows(2) by (simp add: strict_sorted_iff)
    then have "(k, row) \<in> set rows \<longleftrightarrow> table_view st s t k = Some row"
      using rows(3) by (metis map_of_eq_Some_iff)
    then show ?thesis by (auto simp: table_view_def visible_version_ok [OF assms] split: option.splits)
  qed
  then show ?thesis using rows(1,2) count_visible_ok [OF assms, of st s] by auto
qed

theorem scan_visible_rows_witness:
  "table_scan both_committed (late_reader 5) one_row_table = Inr [(demo_key 1, demo_row 1 10)] \<and>
    count_visible both_committed (late_reader 5) one_row_table = Inr 1"
proof -
  have "table_scan both_committed (late_reader 5) one_row_table = Inr [(demo_key 1, demo_row 1 10)]"
    by code_simp
  then show ?thesis using scan_visible_rows [OF one_row_table_ok, of both_committed "late_reader 5"] by auto
qed

section \<open>Writes\<close>

text \<open>
  INSERT. When the writer sees no row under the key, the insert succeeds under the key it was given,
  allocated or derived from the row; the writer then sees its row and everything else as before, and no
  reader that does not count the writer sees any change.
\<close>

lemma insert_effect:
  assumes "table_ok t" "insert_key t row key = Inr (t1, k)" "visible_version st s k t = Inr None"
    and "tx = snap_txid s"
  shows "\<exists>t'. table_insert tx row key t = Inr (t', k) \<and> table_ok t' \<and>
    table_view st s t' = (table_view st s t)(k \<mapsto> row) \<and>
    (\<forall>s'. unseen st s' tx \<longrightarrow> table_scan st s' t' = table_scan st s' t)"
proof -
  have "table_view st s t k = None"
    using assms(3) visible_version_ok [OF assms(1), of st s k] by (auto simp: table_view_def split: option.splits)
  from table_insert_view [OF assms(1,2) assms(4) [symmetric] this] obtain t' where
    t': "table_insert tx row key t = Inr (t', k)" "table_ok t'" "table_view st s t' = (table_view st s t)(k \<mapsto> row)"
    "\<forall>s'. unseen st s' tx \<longrightarrow> table_view st s' t' = table_view st s' t" by blast
  have "unseen st s' tx \<longrightarrow> table_scan st s' t' = table_scan st s' t" for s'
    using table_scan_view [OF t'(2) assms(1), of st s' st s'] t'(4) by blast
  then show ?thesis using t' by blast
qed

lemma insert_effect_witness:
  "\<exists>t'. table_insert 5 (demo_row 2 20) None one_row_table = Inr (t', demo_key 2) \<and>
    table_view both_committed (late_reader 5) t' (demo_key 2) = Some (demo_row 2 20)"
proof -
  have key: "insert_key one_row_table (demo_row 2 20) None = Inr (one_row_table, demo_key 2)" by code_simp
  have free: "visible_version both_committed (late_reader 5) (demo_key 2) one_row_table = Inr None" by code_simp
  show ?thesis using insert_effect [OF one_row_table_ok key free, of 5] by (auto simp: late_reader_def)
qed

text \<open>
  C21. UPDATE. When the row the writer sees is the last version of its chain, which the row lock gives it as
  long as no transaction aborted an update of that row, the update succeeds, in place for a row of the
  writer's own and as a new version otherwise; the writer sees the new row, every reader that does not
  count the writer sees what it saw.
\<close>

theorem update_effect:
  assumes "table_ok t" "table_chain t k = Some c" "settled st s c" "tx = snap_txid s" "tx \<noteq> 0"
  shows "\<exists>t'. table_update tx k row t = Inr t' \<and> table_ok t' \<and>
    table_view st s t' = (table_view st s t)(k \<mapsto> row) \<and>
    (\<forall>s'. unseen st s' tx \<longrightarrow> table_scan st s' t' = table_scan st s' t)"
proof -
  have "settled st s (chain_or_empty t k)" using assms(2,3) by (simp add: chain_or_empty_def)
  from table_update_view [OF assms(1) this assms(4) [symmetric] assms(5), of row] obtain t' where
    t': "table_update tx k row t = Inr t'" "table_ok t'" "table_view st s t' = (table_view st s t)(k \<mapsto> row)"
    "\<forall>s'. unseen st s' tx \<longrightarrow> table_view st s' t' = table_view st s' t" by blast
  have "unseen st s' tx \<longrightarrow> table_scan st s' t' = table_scan st s' t" for s'
    using table_scan_view [OF t'(2) assms(1), of st s' st s'] t'(4) by blast
  then show ?thesis using t' by blast
qed

lemma one_row_chain:
  "table_chain one_row_table (demo_key 1) = Some [\<lparr>v_row = demo_row 1 10, v_xmin = 1, v_xmax = 0\<rparr>]"
  "settled both_committed (late_reader 5) [\<lparr>v_row = demo_row 1 10, v_xmin = 1, v_xmax = 0\<rparr>]"
  by code_simp+

theorem update_effect_witness:
  "\<exists>t'. table_update 5 (demo_key 1) (demo_row 1 11) one_row_table = Inr t' \<and>
    table_view both_committed (late_reader 5) t' (demo_key 1) = Some (demo_row 1 11) \<and>
    table_scan both_committed \<lparr>snap_txid = 6, snap_taken_at = 7, snap_active = {5, 6}\<rparr> t' =
      Inr [(demo_key 1, demo_row 1 10)]"
proof -
  let ?r = "\<lparr>snap_txid = 6, snap_taken_at = 7, snap_active = {5, 6}\<rparr>"
  have "unseen both_committed ?r 5" by (simp add: unseen_def counted_def)
  moreover have "table_scan both_committed ?r one_row_table = Inr [(demo_key 1, demo_row 1 10)]" by code_simp
  ultimately show ?thesis
    using update_effect [OF one_row_table_ok one_row_chain, of 5 "demo_row 1 11"] by (auto simp: late_reader_def)
qed

text \<open>
  DELETE. Under the same condition a delete reports success, removes the row from the writer's view, also
  when the row was the writer's own insert, and leaves every reader that does not count the writer alone.
\<close>

lemma delete_effect:
  assumes "table_ok t" "table_chain t k = Some c" "settled st s c" "tx = snap_txid s" "tx \<noteq> 0"
  shows "\<exists>t'. table_delete tx k t = Inr (t', True) \<and> table_ok t' \<and>
    table_view st s t' = (table_view st s t)(k := None) \<and>
    (\<forall>s'. unseen st s' tx \<longrightarrow> table_scan st s' t' = table_scan st s' t)"
proof -
  have "settled st s (chain_or_empty t k)" using assms(2,3) by (simp add: chain_or_empty_def)
  from table_delete_view [OF assms(1) this assms(4) [symmetric] assms(5)] obtain t' where
    t': "table_delete tx k t = Inr (t', True)" "table_ok t'" "table_view st s t' = (table_view st s t)(k := None)"
    "\<forall>s'. unseen st s' tx \<longrightarrow> table_view st s' t' = table_view st s' t" by blast
  have "unseen st s' tx \<longrightarrow> table_scan st s' t' = table_scan st s' t" for s'
    using table_scan_view [OF t'(2) assms(1), of st s' st s'] t'(4) by blast
  then show ?thesis using t' by blast
qed

lemma delete_effect_witness:
  "\<exists>t'. table_delete 5 (demo_key 1) one_row_table = Inr (t', True) \<and>
    table_view both_committed (late_reader 5) t' (demo_key 1) = None"
  using delete_effect [OF one_row_table_ok one_row_chain, of 5] by (auto simp: late_reader_def)

section \<open>Garbage collection\<close>



text \<open>
  \<open>replace_chains\<close> deletes keys while a generator walks the tree. On every leaf it does what \<open>sweep\<close>
  says: the live keys stay, and of a run of dead keys every second one stays too.
\<close>

lemma purge_skips_neighbours:
  assumes "tree_ok t"
  shows "\<exists>t'. purge live 0 0 t = Inr t' \<and> tree_ok t' \<and> leaf_lists t' = map (sweep live) (leaf_lists t)"
  using assms by (rule purge_sweeps)

lemma purge_skips_neighbours_witness:
  "\<exists>t'. purge [] 0 0 (tb_tree three_key_table) = Inr t' \<and> map (map fst) (leaf_lists t') = [[demo_key 2]]"
proof -
  have "map (map fst) (map (sweep []) (leaf_lists (tb_tree three_key_table))) = [[demo_key 2]]" by code_simp
  then show ?thesis using purge_skips_neighbours [OF table_okD [OF three_key_table_ok], of "[]"] by auto
qed

section \<open>Isolation\<close>

text \<open>
  A run of two transactions: the first inserts a row and commits, then the second begins and inserts
  another row, which it has not committed.
\<close>

definition demo_start :: mvcc_system where
  "demo_start = start_mvcc (new_wal []) (new_locks 100)
     \<lparr>tb_schema = demo_schema, tb_tree = \<lparr>bp_order = 32, bp_root = Leaf [] [], bp_size = 0\<rparr>, tb_next_rowid = 1\<rparr>"

definition demo_begin :: "mvcc_system \<Rightarrow> mvcc_system" where
  "demo_begin s = s\<lparr>sy_mgr := fst (begin_txn ReadCommitted (sy_mgr s))\<rparr>"

definition demo_write :: "txid \<Rightarrow> int \<Rightarrow> int \<Rightarrow> mvcc_system \<Rightarrow> mvcc_system" where
  "demo_write tx i x s =
     s\<lparr>sy_owner := (sy_owner s)(demo_key i \<mapsto> tx),
       sy_table := (case do_insert tx i x (sy_table s) of Inr t \<Rightarrow> t | Inl _ \<Rightarrow> sy_table s)\<rparr>"

definition demo_commit :: "txid \<Rightarrow> mvcc_system \<Rightarrow> mvcc_system" where
  "demo_commit tx s =
     s\<lparr>sy_mgr := finish_txn TxCommitted (new_transaction tx ReadCommitted) (sy_mgr s),
       sy_owner := release_rows tx (sy_owner s)\<rparr>"

definition demo_ops :: "txid \<Rightarrow> int \<Rightarrow> int \<Rightarrow> mvcc_op list" where
  "demo_ops tx i x = [OBegin ReadCommitted, OLock tx (demo_key i), OInsert tx (demo_key i) (demo_row i x)]"

lemma sys_run_append: "sys_run ys s' s'' \<Longrightarrow> sys_run xs s s' \<Longrightarrow> sys_run (xs @ ys) s s''"
proof (induction rule: sys_run.induct)
  case (run_snoc ops s s' x s'')
  then show ?case using sys_run.run_snoc [of "xs @ ops"] by fastforce
qed simp

lemma demo_write_run:
  assumes "tm_counter (sy_mgr s) = tx" "sy_owner s (demo_key i) = None"
    and "own_view tx (demo_begin s) (demo_key i) = None"
    and "table_insert tx (demo_row i x) None (sy_table s) = Inr (t', demo_key i)"
    and "table_insert tx (demo_row i x) (Some (demo_key i)) (sy_table s) = Inr (t', demo_key i)"
  shows "sys_run (demo_ops tx i x) s (demo_write tx i x (demo_begin s))"
proof -
  let ?b = "demo_begin s" and ?k = "demo_key i"
  let ?l = "?b\<lparr>sy_owner := (sy_owner ?b)(?k \<mapsto> tx)\<rparr>"
  have act: "tx \<in> tm_active (sy_mgr ?b)" using assms(1) by (simp add: demo_begin_def begin_txn_def Let_def)
  have "sys_run [] s s" by (rule run_nil)
  from run_snoc [OF this sys_begin [of ReadCommitted s]] have "sys_run [OBegin ReadCommitted] s ?b"
    by (simp add: demo_begin_def)
  moreover have "sys_step (OLock tx ?k) ?b ?l"
    using act assms(2) by (intro sys_lock) (simp_all add: demo_begin_def)
  moreover have "sys_step (OInsert tx ?k (demo_row i x)) ?l (?l\<lparr>sy_table := t'\<rparr>)"
    using act assms(3,5) by (intro sys_insert) (simp_all add: own_view_def demo_begin_def)
  ultimately have "sys_run (([OBegin ReadCommitted] @ [OLock tx ?k]) @ [OInsert tx ?k (demo_row i x)]) s (?l\<lparr>sy_table := t'\<rparr>)"
    by (blast intro: run_snoc)
  moreover have "demo_write tx i x ?b = ?l\<lparr>sy_table := t'\<rparr>"
    using assms(4) by (simp add: demo_write_def do_insert_def demo_begin_def)
  ultimately show ?thesis by (simp add: demo_ops_def)
qed

definition demo_first :: mvcc_system where
  "demo_first = demo_write 1 1 10 (demo_begin demo_start)"

definition demo_second :: mvcc_system where
  "demo_second = demo_write 2 2 20 (demo_begin (demo_commit 1 demo_first))"

lemma demo_facts:
  "tm_counter (sy_mgr demo_start) = 1" "sy_owner demo_start (demo_key 1) = None"
  "own_view 1 (demo_begin demo_start) (demo_key 1) = None"
  "tm_counter (sy_mgr (demo_commit 1 demo_first)) = 2" "sy_owner (demo_commit 1 demo_first) (demo_key 2) = None"
  "own_view 2 (demo_begin (demo_commit 1 demo_first)) (demo_key 2) = None"
  "tm_txns (sy_mgr demo_first) 1 = Some (new_transaction 1 ReadCommitted)"
  by code_simp+

definition demo_table2 :: table where
  "demo_table2 =
     \<lparr>tb_schema = demo_schema,
      tb_tree = \<lparr>bp_order = 32,
                bp_root = Leaf [demo_key 1, demo_key 2]
                  [[\<lparr>v_row = demo_row 1 10, v_xmin = 1, v_xmax = 0\<rparr>],
                   [\<lparr>v_row = demo_row 2 20, v_xmin = 2, v_xmax = 0\<rparr>]],
                bp_size = 2\<rparr>,
      tb_next_rowid = 1\<rparr>"

lemma demo_inserts:
  "table_insert 1 (demo_row 1 10) None (sy_table demo_start) = Inr (one_row_table, demo_key 1)"
  "table_insert 1 (demo_row 1 10) (Some (demo_key 1)) (sy_table demo_start) = Inr (one_row_table, demo_key 1)"
  "table_insert 2 (demo_row 2 20) None (sy_table (demo_commit 1 demo_first)) = Inr (demo_table2, demo_key 2)"
  "table_insert 2 (demo_row 2 20) (Some (demo_key 2)) (sy_table (demo_commit 1 demo_first)) = Inr (demo_table2, demo_key 2)"
  by code_simp+

lemma demo_commit_step:
  assumes "tm_txns (sy_mgr s) tx = Some (new_transaction tx ReadCommitted)" "tx \<in> tm_active (sy_mgr s)"
  shows "sys_step (OCommit tx) s (demo_commit tx s)"
  unfolding demo_commit_def
  by (rule sys_commit [OF assms, of True]) (simp add: commit_txn_def new_transaction_def)

lemma demo_first_run: "sys_run (demo_ops 1 1 10 @ [OCommit 1]) demo_start (demo_commit 1 demo_first)"
proof -
  have "sys_run (demo_ops 1 1 10) demo_start demo_first"
    unfolding demo_first_def by (rule demo_write_run [OF demo_facts(1-3) demo_inserts(1,2)])
  moreover have "1 \<in> tm_active (sy_mgr demo_first)" by code_simp
  ultimately show ?thesis by (blast intro: run_snoc demo_commit_step demo_facts(7))
qed

lemma demo_second_run: "sys_run (demo_ops 2 2 20) (demo_commit 1 demo_first) demo_second"
  unfolding demo_second_def by (rule demo_write_run [OF demo_facts(4-6) demo_inserts(3,4)])

lemma demo_active: "2 \<in> tm_active (sy_mgr demo_second)"
  by code_simp



lemma sys_ok_refinable: "sys_ok s \<Longrightarrow> \<exists>a. refines s a"
proof -
  assume s: "sys_ok s"
  let ?a = "\<lparr>sp_comm = committed_view s,
    sp_priv = (\<lambda>tx k. if sy_owner s k = Some tx then Some (own_view tx s k) else None)\<rparr>"
  have "spec_view tx ?a k = own_view tx s k" if "tx \<in> tm_active (sy_mgr s)" for tx k
    using not_owner_view [OF s that, of k] by (simp add: spec_view_def)
  then have "refines s ?a" by (auto simp: refines_def)
  then show ?thesis by blast
qed

lemma sys_step_ok: "sys_step x s s' \<Longrightarrow> sys_ok s \<Longrightarrow> sys_ok s'"
  using sys_step_refines sys_ok_refinable by blast

lemma sys_run_pinned:
  assumes "sys_run ops s s'" "sys_ok s" "pinned (sy_mgr s) sn"
    and "\<forall>x\<in>set ops. acts_for x \<noteq> Some (snap_txid sn) \<and> x \<noteq> OCollect"
  shows "sys_ok s' \<and> pinned (sy_mgr s') sn \<and>
    table_view (status (sy_mgr s')) sn (sy_table s') = table_view (status (sy_mgr s)) sn (sy_table s)"
  using assms
proof (induction rule: sys_run.induct)
  case (run_snoc ops s s' x s'')
  then show ?case using sys_step_ok [OF run_snoc(2)] sys_step_pinned [OF run_snoc(2), of sn] by simp
qed simp


definition demo_reader :: mvcc_system where
  "demo_reader = demo_begin (demo_commit 1 demo_first)"

definition demo_later :: mvcc_system where
  "demo_later = demo_write 3 2 30 (demo_begin demo_reader)"

definition demo_table3 :: table where
  "demo_table3 =
     \<lparr>tb_schema = demo_schema,
      tb_tree = \<lparr>bp_order = 32,
                bp_root = Leaf [demo_key 1, demo_key 2]
                  [[\<lparr>v_row = demo_row 1 10, v_xmin = 1, v_xmax = 0\<rparr>],
                   [\<lparr>v_row = demo_row 2 30, v_xmin = 3, v_xmax = 0\<rparr>]],
                bp_size = 2\<rparr>,
      tb_next_rowid = 1\<rparr>"

lemma demo_later_facts:
  "tm_counter (sy_mgr demo_reader) = 3" "sy_owner demo_reader (demo_key 2) = None"
  "own_view 3 (demo_begin demo_reader) (demo_key 2) = None"
  "table_insert 3 (demo_row 2 30) None (sy_table demo_reader) = Inr (demo_table3, demo_key 2)"
  "table_insert 3 (demo_row 2 30) (Some (demo_key 2)) (sy_table demo_reader) = Inr (demo_table3, demo_key 2)"
  "2 \<in> tm_active (sy_mgr demo_reader)"
  "table_scan (status (sy_mgr demo_reader)) (take_snapshot 2 (sy_mgr demo_reader)) (sy_table demo_reader) =
    Inr [(demo_key 1, demo_row 1 10)]"
  "tm_txns (sy_mgr demo_later) 3 = Some (new_transaction 3 ReadCommitted)" "3 \<in> tm_active (sy_mgr demo_later)"
  by code_simp+

lemma demo_later_run: "sys_run (demo_ops 3 2 30 @ [OCommit 3]) demo_reader (demo_commit 3 demo_later)"
  using demo_write_run [OF demo_later_facts(1-5)] demo_later_facts(8,9)
  by (auto simp: demo_later_def [symmetric] intro!: run_snoc demo_commit_step)

lemma demo_reader_ok: "sys_ok demo_reader"
proof -
  have "new_table demo_schema 32 =
      Inr \<lparr>tb_schema = demo_schema, tb_tree = \<lparr>bp_order = 32, bp_root = Leaf [] [], bp_size = 0\<rparr>, tb_next_rowid = 1\<rparr>"
    by code_simp
  from start_mvcc_ok [OF _ this, of "new_wal []" "new_locks 100"]
  have "sys_ok demo_start \<and> refines demo_start start_spec" by (simp add: demo_start_def)
  moreover have "sys_step (OBegin ReadCommitted) (demo_commit 1 demo_first) demo_reader"
    unfolding demo_reader_def demo_begin_def by (rule sys_begin)
  ultimately show ?thesis using sys_run_refines [OF demo_first_run] sys_step_ok by blast
qed


end
