(* ===== verification/LockAnomalies.thy ===== *)
theory LockAnomalies
  imports LockSteps
begin

text \<open>
  What the lock manager's code allows beyond the textbook protocol, as concrete runs.

  \<open>_acquire\<close> tests a grant under the resource's condition variable and returns; the holder is recorded
  later, under \<open>_meta\<close>. Two threads that both pass the test both record. And escalation gives up the
  row locks whether or not the table lock is granted.
\<close>

definition two_writers :: "lock_system" where
  "two_writers =
     (let k = RowLock ''t'' (KVal (VInt 1));
          s0 = start_system 100;
          s1 = set_thread 1 (Granted k MX) (ls_locks s0) s0;
          s2 = set_thread 2 (Granted k MX) (ls_locks s1) s1;
          s3 = set_thread 1 Idle (record_grant k 1 MX (ls_locks s2)) s2
      in set_thread 2 Idle (record_grant k 2 MX (ls_locks s3)) s3)"

lemma start_fresh:
  "resource_at lk key = empty_resource \<Longrightarrow> start_acquire key tx mode ev lk = (lk, True)"
  by (simp add: start_acquire_def grantable_def empty_resource_def)

lemma two_writers_reachable: "race_step\<^sup>*\<^sup>* (start_system 100) two_writers"
proof -
  let ?k = "RowLock ''t'' (KVal (VInt 1))"
  let ?s0 = "start_system 100"
  let ?s1 = "set_thread 1 (Granted ?k MX) (ls_locks ?s0) ?s0"
  let ?s2 = "set_thread 2 (Granted ?k MX) (ls_locks ?s1) ?s1"
  let ?s3 = "set_thread 1 Idle (record_grant ?k 1 MX (ls_locks ?s2)) ?s2"
  have empty: "resource_at (ls_locks ?s0) ?k = empty_resource"
    by (simp add: start_system_def new_locks_def resource_at_def)
  have "race_step ?s0 ?s1" by (rule race_start [where ev = 0]) (simp_all add: start_system_def [of 100] start_fresh empty [unfolded start_system_def, simplified])
  moreover have "race_step ?s1 ?s2"
    by (rule race_start [where ev = 1])
      (simp_all add: start_system_def [of 100] start_fresh empty [unfolded start_system_def, simplified])
  moreover have "race_step ?s2 ?s3" by (rule race_record) simp
  moreover have "race_step ?s3 two_writers"
    unfolding two_writers_def Let_def by (rule race_record) simp
  ultimately show ?thesis by (meson converse_rtranclp_into_rtranclp rtranclp.rtrancl_refl)
qed

lemma two_writers_hold:
  "holds (ls_locks two_writers) (RowLock ''t'' (KVal (VInt 1))) 1 = Some MX"
  "holds (ls_locks two_writers) (RowLock ''t'' (KVal (VInt 1))) 2 = Some MX"
  by code_simp+

text \<open>
  Escalation at two rows: transaction 2 holds IX for its row 9, so transaction 1 cannot get the table's
  X lock when it locks its second row; its two row locks are gone all the same.
\<close>

definition rowX :: "txid \<Rightarrow> int \<Rightarrow> locks \<Rightarrow> locks" where
  "rowX tx i lk =
     record_row tx ''t'' (KVal (VInt i)) MX
       (if table_covered tx ''t'' MIX lk then lk else record_table tx ''t'' MIX lk)"

definition escalated_locks :: locks where
  "escalated_locks = rowX 1 2 (rowX 1 1 (rowX 2 9 (new_locks 2)))"

lemma escalation_grants:
  "grantable (new_locks 2) (TableLock ''t'') MIX 2"
  "grantable (rowX 2 9 (new_locks 2)) (TableLock ''t'') MIX 1"
  "grantable (rowX 2 9 (new_locks 2)) (RowLock ''t'' (KVal (VInt 1))) MX 1"
  "grantable (rowX 1 1 (rowX 2 9 (new_locks 2))) (RowLock ''t'' (KVal (VInt 2))) MX 1"
  by code_simp+

lemma escalation_drops:
  "holds escalated_locks (RowLock ''t'' (KVal (VInt 1))) 1 = None"
  "holds escalated_locks (TableLock ''t'') 1 = Some MIX"
  "grantable escalated_locks (RowLock ''t'' (KVal (VInt 1))) MX 2"
  by code_simp+

end
