(* ===== verification/LockHandlers.thy ===== *)
theory LockHandlers
  imports LockAnomalies
begin

text \<open>
  The calls a session makes on the lock manager, \<open>acquire_table\<close> and \<open>acquire_row\<close> of
  \<^verbatim>\<open>minidb/txn/locks.py\<close>, whole: the fast path, the wait loop, the recording of the grant.

  The other threads enter as functions on the lock tables. A wait loop of \<open>n\<close> rounds is given \<open>n\<close> pairs
  of them: what the others do between the deadlock check and the grant test, and what they do while the
  thread waits. When the list ends the deadline has passed. One more function is what they do between
  the grant and its recording.
\<close>

section \<open>The wait loop\<close>

type_synonym turn = "(locks \<Rightarrow> locks) \<times> (locks \<Rightarrow> locks)"

fun acquire_loop :: "lock_key \<Rightarrow> txid \<Rightarrow> mode \<Rightarrow> lock_event \<Rightarrow> turn list \<Rightarrow> locks \<Rightarrow> locks \<times> unit result" where
  "acquire_loop key tx mode ev [] lk = (dequeue_waiter key ev lk, Inl LockError)"
| "acquire_loop key tx mode ev ((before, while_waiting) # turns) lk =
     (if detect_deadlock lk = Some tx then (dequeue_waiter key ev lk, Inl (DeadlockError tx))
      else let lk1 = before lk
           in if grantable lk1 key mode tx then (dequeue_waiter key ev lk1, Inr ())
              else acquire_loop key tx mode ev turns (while_waiting lk1))"

definition acquire :: "lock_key \<Rightarrow> txid \<Rightarrow> mode \<Rightarrow> lock_event \<Rightarrow> turn list \<Rightarrow> locks \<Rightarrow> locks \<times> unit result" where
  "acquire key tx mode ev turns lk =
     (case start_acquire key tx mode ev lk of
        (lk', True) \<Rightarrow> (lk', Inr ())
      | (lk', False) \<Rightarrow> acquire_loop key tx mode ev turns lk')"

section \<open>The handlers\<close>

definition acquire_table ::
    "txid \<Rightarrow> string \<Rightarrow> mode \<Rightarrow> lock_event \<Rightarrow> turn list \<Rightarrow> (locks \<Rightarrow> locks) \<Rightarrow> locks \<Rightarrow> locks \<times> unit result" where
  "acquire_table tx tab mode ev turns gap lk =
     (if table_covered tx tab mode lk then (lk, Inr ())
      else case acquire (TableLock tab) tx mode ev turns lk of
             (lk', Inl e) \<Rightarrow> (lk', Inl e)
           | (lk', Inr _) \<Rightarrow> (record_table tx tab mode (gap lk'), Inr ()))"

definition acquire_row ::
    "txid \<Rightarrow> string \<Rightarrow> rowkey \<Rightarrow> mode \<Rightarrow> lock_event \<Rightarrow> turn list \<Rightarrow> (locks \<Rightarrow> locks) \<Rightarrow>
     lock_event \<Rightarrow> turn list \<Rightarrow> (locks \<Rightarrow> locks) \<Rightarrow> locks \<Rightarrow> locks \<times> unit result" where
  "acquire_row tx tab k mode ev1 turns1 gap1 ev2 turns2 gap2 lk =
     (if escalated lk tx tab then acquire_table tx tab MX ev1 turns1 gap1 lk
      else case acquire_table tx tab (if mode = MX then MIX else MIS) ev1 turns1 gap1 lk of
             (lk1, Inl e) \<Rightarrow> (lk1, Inl e)
           | (lk1, Inr _) \<Rightarrow>
               (case acquire (RowLock tab k) tx mode ev2 turns2 lk1 of
                  (lk2, Inl e) \<Rightarrow> (lk2, Inl e)
                | (lk2, Inr _) \<Rightarrow> (record_row tx tab k mode (gap2 lk2), Inr ())))"

section \<open>What a call leaves\<close>

definition waits_with :: "locks \<Rightarrow> lock_key \<Rightarrow> lock_event \<Rightarrow> bool" where
  "waits_with lk key ev \<longleftrightarrow> (\<exists>(tx, m, e)\<in>set (res_waiters (resource_at lk key)). e = ev)"

lemma waits_dequeued [simp]: "\<not> waits_with (dequeue_waiter key ev lk) key ev"
  by (auto simp: waits_with_def dequeue_waiter_def Let_def)

lemma acquire_loop_unwaits:
  "acquire_loop key tx mode ev turns lk = (lk', r) \<Longrightarrow> \<not> waits_with lk' key ev"
  by (induction key tx mode ev turns lk rule: acquire_loop.induct)
    (auto simp: Let_def split: if_splits)

lemma acquire_unwaits:
  "acquire key tx mode ev turns lk = (lk', r) \<Longrightarrow> \<not> waits_with lk key ev \<Longrightarrow> \<not> waits_with lk' key ev"
  by (auto simp: acquire_def start_acquire_def dest: acquire_loop_unwaits split: if_splits)

lemma acquire_loop_errors:
  "acquire_loop key tx mode ev turns lk = (lk', Inl e) \<Longrightarrow> e = LockError \<or> e = DeadlockError tx"
  by (induction key tx mode ev turns lk rule: acquire_loop.induct)
    (auto simp: Let_def split: if_splits)

lemma acquire_errors:
  "acquire key tx mode ev turns lk = (lk', Inl e) \<Longrightarrow> e = LockError \<or> e = DeadlockError tx"
  by (auto simp: acquire_def start_acquire_def dest: acquire_loop_errors split: if_splits)

lemma acquire_loop_alone:
  "acquire_loop key tx mode ev turns lk = (lk', r) \<Longrightarrow> \<forall>(f, g)\<in>set turns. f = id \<and> g = id \<Longrightarrow>
     lk' = dequeue_waiter key ev lk \<and> (r = Inr () \<longrightarrow> grantable lk key mode tx)"
  by (induction key tx mode ev turns lk rule: acquire_loop.induct)
    (auto simp: Let_def split: if_splits)

lemma grantable_enqueue [simp]: "grantable (enqueue_waiter key tx mode ev lk) = grantable lk"
  by (auto simp: fun_eq_iff grantable_iff holders_def enqueue_waiter_def Let_def)

lemma acquire_alone:
  assumes "acquire key tx mode ev turns lk = (lk', r)" "\<forall>(f, g)\<in>set turns. f = id \<and> g = id"
  shows "holds lk' = holds lk \<and> (r = Inr () \<longleftrightarrow> grantable lk key mode tx)"
proof (cases "grantable lk key mode tx")
  case True
  then show ?thesis using assms(1) by (auto simp: acquire_def start_acquire_def)
next
  case False
  then have "acquire_loop key tx mode ev turns (enqueue_waiter key tx mode ev lk) = (lk', r)"
    using assms(1) by (simp add: acquire_def start_acquire_def)
  from acquire_loop_alone [OF this assms(2)] show ?thesis
    using False by (auto simp: fun_eq_iff)
qed

text \<open>The others keep the lock tables in order.\<close>

definition tame :: "(locks \<Rightarrow> locks) \<Rightarrow> bool" where
  "tame f \<longleftrightarrow> (\<forall>lk. locks_ok lk \<longrightarrow> locks_ok (f lk))"

definition tame_turns :: "turn list \<Rightarrow> bool" where
  "tame_turns turns \<longleftrightarrow> (\<forall>(f, g)\<in>set turns. tame f \<and> tame g)"

lemma acquire_loop_ok:
  "acquire_loop key tx mode ev turns lk = (lk', r) \<Longrightarrow> tame_turns turns \<Longrightarrow> locks_ok lk \<Longrightarrow>
     locks_ok lk' \<and> (r = Inr () \<longrightarrow> grantable lk' key mode tx)"
  by (induction key tx mode ev turns lk rule: acquire_loop.induct)
    (auto simp: Let_def tame_turns_def tame_def split: if_splits)

lemma acquire_ok:
  assumes "acquire key tx mode ev turns lk = (lk', r)" "tame_turns turns" "locks_ok lk"
  shows "locks_ok lk' \<and> (r = Inr () \<longrightarrow> grantable lk' key mode tx)"
  using assms acquire_loop_ok [of key tx mode ev turns "enqueue_waiter key tx mode ev lk" lk' r]
  by (auto simp: acquire_def start_acquire_def split: if_splits)

lemma acquire_table_ok:
  assumes "acquire_table tx tab mode ev turns id lk = (lk', r)" "tame_turns turns" "locks_ok lk"
  shows "locks_ok lk'"
  using assms locks_ok_record_grant [of _ "TableLock tab" mode tx]
  by (auto simp: acquire_table_def dest: acquire_ok split: if_splits prod.splits sum.splits)

lemma acquire_row_ok:
  assumes "acquire_row tx tab k mode ev1 turns1 id ev2 turns2 id lk = (lk', r)"
    and "tame_turns turns1" "tame_turns turns2" "locks_ok lk"
  shows "locks_ok lk'"
  using assms locks_ok_record_grant [of _ "RowLock tab k" mode tx]
  by (auto simp: acquire_row_def dest!: acquire_ok acquire_table_ok split: if_splits prod.splits sum.splits)

lemma combined_covers: "mode_covers (combined_mode held mode) mode"
proof (cases held)
  case (Some h)
  then show ?thesis
    by (cases h; cases mode) (simp_all add: combined_mode_def mode_covers_def doubleton_eq_iff)
qed (simp add: combined_mode_def mode_covers_def)

lemma acquire_table_covers:
  assumes "acquire_table tx tab mode ev turns gap lk = (lk', Inr ())"
  shows "table_covered tx tab mode lk'"
  using assms by (auto simp: acquire_table_def table_covered_def combined_covers split: if_splits prod.splits sum.splits)

lemma escalated_set_resource [simp]:
  "escalated (set_resource key r lk) = escalated lk"
  "escalated (set_rows tx tab ks lk) = escalated lk"
  "escalated (release_key tx key lk) = escalated lk"
  "escalated (set_holder key tx m lk) = escalated lk"
  "escalated (record_table tx tab m lk) = escalated lk"
  "escalated (fold (\<lambda>k. release_key tx (f k)) ks lk) = escalated lk"
  by (auto simp: fun_eq_iff escalated_def set_rows_def record_table_def set_holder_def Let_def)

lemma escalated_escalate [simp]: "escalated (escalate tx tab lk) tx tab"
  by (simp add: escalate_def Let_def) (simp add: escalated_def mark_escalated_def)

lemma record_row_holds:
  "escalated (record_row tx tab k mode lk) tx tab \<or> holds (record_row tx tab k mode lk) (RowLock tab k) tx = Some mode"
  by (auto simp: record_row_def Let_def)

end
