(* ===== verification/LockProperties.thy ===== *)
theory LockProperties
  imports LockHandlers
begin

text \<open>
  The properties of the lock manager: what modes mean, mutual exclusion, release, deadlock detection, and
  what the two acquisition calls guarantee.
\<close>

section \<open>Modes\<close>

text \<open>
  C22. The covering test is exact: a held mode covers a requested one if and only if every mode that may
  stand beside the held one may stand beside the requested one. And an upgrade records the least mode that
  covers both the held and the requested one.
\<close>

theorem modes_form_a_lattice:
  "(mode_covers held requested \<longleftrightarrow> (\<forall>other. table_compat other held \<longrightarrow> table_compat other requested)) \<and>
   (mode_covers m (combined_mode (Some held) requested) \<longleftrightarrow> mode_covers m held \<and> mode_covers m requested)"
proof
  have all: "(\<forall>other. P other) \<longleftrightarrow> P MIS \<and> P MIX \<and> P MS \<and> P MX" for P :: "mode \<Rightarrow> bool"
    by (metis mode.exhaust)
  show "mode_covers held requested \<longleftrightarrow> (\<forall>other. table_compat other held \<longrightarrow> table_compat other requested)"
    by (cases held; cases requested) (simp_all add: all mode_covers_def)
  show "mode_covers m (combined_mode (Some held) requested) \<longleftrightarrow> mode_covers m held \<and> mode_covers m requested"
    by (cases held; cases requested; cases m) (simp_all add: combined_mode_def mode_covers_def doubleton_eq_iff)
qed

theorem modes_form_a_lattice_witness:
  "\<not> mode_covers MIX MS \<and> mode_covers MX (combined_mode (Some MS) MIX)"
  using modes_form_a_lattice [of MIX MS MX] modes_form_a_lattice [of MS MIX MX]
  by (auto simp: mode_covers_def dest: spec [of _ MIX])

section \<open>Exclusion and release\<close>


lemma one_step: "ls_thread s tx = Idle \<Longrightarrow> grantable (ls_locks s) key mode tx \<Longrightarrow>
    lock_step s (set_thread tx Idle (record_grant key tx mode (ls_locks s)) s)"
  by (rule step_start [where ev = 0]) (simp_all add: start_acquire_def)

definition two_readers :: lock_system where
  "two_readers =
     (let s0 = start_system 100;
          s1 = set_thread 1 Idle (record_grant (TableLock ''t'') 1 MS (ls_locks s0)) s0
      in set_thread 2 Idle (record_grant (TableLock ''t'') 2 MIS (ls_locks s1)) s1)"

lemma two_readers_reachable: "lock_step\<^sup>*\<^sup>* (start_system 100) two_readers"
proof -
  let ?s1 = "set_thread 1 Idle (record_grant (TableLock ''t'') 1 MS (ls_locks (start_system 100))) (start_system 100)"
  have "grantable (ls_locks (start_system 100)) (TableLock ''t'') MS 1" "grantable (ls_locks ?s1) (TableLock ''t'') MIS 2"
    by code_simp+
  then have "lock_step (start_system 100) ?s1" "lock_step ?s1 two_readers"
    unfolding two_readers_def Let_def by (intro one_step; simp add: start_system_def)+
  then show ?thesis by (meson converse_rtranclp_into_rtranclp rtranclp.rtrancl_refl)
qed


text \<open>
  C23. Release. In every state the code reaches, under any interleaving of its critical sections, a
  release frees every lock of the transaction, escalated or not, and no lock of another one.
\<close>

theorem release_frees_everything:
  assumes "race_step\<^sup>*\<^sup>* (start_system threshold) s"
  shows "holds (release_all tx (ls_locks s)) key tx' = (if tx' = tx then None else holds (ls_locks s) key tx') \<and>
    held_table_modes tx (release_all tx (ls_locks s)) = [] \<and> held_row_locks tx (release_all tx (ls_locks s)) = 0"
proof (intro conjI)
  show "holds (release_all tx (ls_locks s)) key tx' = (if tx' = tx then None else holds (ls_locks s) key tx')"
    by (rule holds_release_all [OF race_reachable_indexed [OF assms]])
  show "held_table_modes tx (release_all tx (ls_locks s)) = []" "held_row_locks tx (release_all tx (ls_locks s)) = 0"
    by (simp_all add: held_table_modes_def held_row_locks_def release_all_def Let_def tx_tables_def tx_rows_def)
qed

theorem release_frees_everything_witness:
  "holds (release_all 1 (ls_locks two_writers)) (RowLock ''t'' (KVal (VInt 1))) 1 = None \<and>
    holds (release_all 1 (ls_locks two_writers)) (RowLock ''t'' (KVal (VInt 1))) 2 = Some MX"
  using release_frees_everything [OF two_writers_reachable, of 1 "RowLock ''t'' (KVal (VInt 1))"] two_writers_hold
  by simp

section \<open>Deadlock detection\<close>

text \<open>
  C24. Detection is sound and complete. It names a victim exactly when some transaction waits, through
  others, for itself; and the victim is such a transaction, so that aborting it breaks a cycle.
\<close>

theorem deadlock_detection:
  "(detect_deadlock lk = None \<longleftrightarrow> (\<forall>v. \<not> (waits_for lk)\<^sup>+\<^sup>+ v v)) \<and>
   (\<forall>v. detect_deadlock lk = Some v \<longrightarrow> (waits_for lk)\<^sup>+\<^sup>+ v v)"
proof
  have "edges (build_graph lk) = {(u, v). waits_for lk u v}" using edges_build_graph by auto
  then have cycle: "on_cycle (build_graph lk) v \<longleftrightarrow> (waits_for lk)\<^sup>+\<^sup>+ v v" for v
    by (simp add: on_cycle_def trancl_def)
  show "detect_deadlock lk = None \<longleftrightarrow> (\<forall>v. \<not> (waits_for lk)\<^sup>+\<^sup>+ v v)"
    by (simp add: detect_deadlock_def detect_victim_iff cycle)
  show "\<forall>v. detect_deadlock lk = Some v \<longrightarrow> (waits_for lk)\<^sup>+\<^sup>+ v v"
    using detect_victim_sound cycle by (auto simp: detect_deadlock_def)
qed

text \<open>Transactions 1 and 2 hold one row each and wait for the other's.\<close>

definition crossed_locks :: locks where
  "crossed_locks =
     enqueue_waiter (RowLock ''t'' (KVal (VInt 1))) 2 MX 21 (enqueue_waiter (RowLock ''t'' (KVal (VInt 2))) 1 MX 12
       (record_row 2 ''t'' (KVal (VInt 2)) MX (record_row 1 ''t'' (KVal (VInt 1)) MX (new_locks 100))))"

theorem deadlock_detection_witness: "detect_deadlock crossed_locks = Some 2 \<and> (waits_for crossed_locks)\<^sup>+\<^sup>+ 2 2"
proof -
  have "detect_deadlock crossed_locks = Some 2" by code_simp
  then show ?thesis using deadlock_detection [of crossed_locks] by blast
qed

text \<open>
  The victim need not be the youngest transaction on a cycle, as \<open>_detect_deadlock\<close> is documented to
  return: here all four transactions are on cycles and the search reports 3.
\<close>

definition four_waiters :: wait_graph where
  "four_waiters = [(1, [2]), (2, [1, 3]), (3, [2, 4]), (4, [1])]"

lemma victim_not_youngest: "detect_victim four_waiters = Some 3 \<and> on_cycle four_waiters 4"
proof
  show "detect_victim four_waiters = Some 3" by code_simp
  have "(4, 1) \<in> edges four_waiters" "(1, 2) \<in> edges four_waiters" "(2, 3) \<in> edges four_waiters"
    "(3, 4) \<in> edges four_waiters"
    by (simp_all add: edges_def successors_def dict_get_def four_waiters_def)
  then show "on_cycle four_waiters 4" unfolding on_cycle_def by (meson trancl.simps)
qed

section \<open>The acquisition calls\<close>



text \<open>
  The only failures are a timeout and being the victim of a deadlock, and a call that returns, either
  way, leaves no waiter of its own behind.
\<close>

lemma acquire_failures:
  assumes "acquire key tx mode ev turns lk = (lk', r)" "\<not> waits_with lk key ev"
  shows "\<not> waits_with lk' key ev \<and> r \<in> {Inr (), Inl LockError, Inl (DeadlockError tx)}"
  using acquire_unwaits [OF assms] acquire_errors [of key tx mode ev turns lk lk'] assms(1)
  by (cases r) auto

lemma acquire_failures_witness:
  "snd (acquire (RowLock ''t'' (KVal (VInt 1))) 2 MX 21 [(id, id)] crossed_locks) = Inl (DeadlockError 2) \<and>
    \<not> waits_with (fst (acquire (RowLock ''t'' (KVal (VInt 1))) 2 MX 22 [(id, id)] crossed_locks)) (RowLock ''t'' (KVal (VInt 1))) 22"
proof -
  have "snd (acquire (RowLock ''t'' (KVal (VInt 1))) 2 MX 21 [(id, id)] crossed_locks) = Inl (DeadlockError 2)"
    by code_simp
  moreover have "\<not> waits_with crossed_locks (RowLock ''t'' (KVal (VInt 1))) 22" by code_simp
  ultimately show ?thesis using acquire_failures [OF prod.collapse [symmetric]] by blast
qed

text \<open>
  When nothing runs between a grant and its recording, \<open>acquire_row\<close> keeps the lock tables indexed and
  their holders compatible, for every behaviour of the other threads that does, and also when it fails.
\<close>

lemma acquire_row_keeps_order:
  assumes "acquire_row tx tab k mode ev1 turns1 id ev2 turns2 id lk = (lk', r)"
    and "tame_turns turns1" "tame_turns turns2" "locks_ok lk"
  shows "locks_ok lk'"
  using assms by (rule acquire_row_ok)

lemma acquire_row_keeps_order_witness:
  "locks_ok (fst (acquire_row 1 ''t'' (KVal (VInt 1)) MX 1 [] id 2 [(release_all 2, id)] id (new_locks 1)))"
proof -
  have "tame_turns [(release_all 2, id)]"
    by (simp add: tame_turns_def tame_def locks_ok_def indexed_release_all compatible_release_all)
  moreover have "tame_turns []" "locks_ok (new_locks 1)" by (simp_all add: tame_turns_def locks_ok_def)
  ultimately show ?thesis using acquire_row_keeps_order [OF prod.collapse [symmetric]] by blast
qed

end
