(* ===== verification/LogProperties.thy ===== *)
theory LogProperties
  imports MvccProperties
begin

text \<open>
  The properties of durability: the manager's commit, the log, recovery and the checkpoint; and of the
  data they store, validated rows and their document form.
\<close>

section \<open>The transaction manager\<close>

lemma writer_turns_append:
  "length (wal_queue w) = n \<Longrightarrow> wal_queue w = q @ [(r, Some tx)] \<Longrightarrow>
     wal_lines (writer_turns True n w) = wal_lines w @ map fst (wal_queue w) \<and>
     wal_synced (writer_turns True n w) = length (wal_lines (writer_turns True n w)) \<and>
     wal_failed (writer_turns True n w) = wal_failed w"
proof (induction n arbitrary: w q)
  case (Suc n)
  obtain x req rest where q: "wal_queue w = (x, req) # rest" using Suc.prems(1) by (cases "wal_queue w") auto
  let ?w = "writer_turn True w"
  have w: "wal_queue ?w = rest" "wal_lines ?w = wal_lines w @ [x]" "wal_failed ?w = wal_failed w"
    using q by (cases req; simp add: writer_turn_def)+
  show ?case
  proof (cases "rest = []")
    case True
    then have "n = 0" "req = Some tx" using Suc.prems q by (cases q; auto)+
    then show ?thesis using q True by (simp add: writer_turn_def)
  next
    case False
    then obtain q' where "rest = q' @ [(r, Some tx)]" using Suc.prems(2) q by (cases q) auto
    then show ?thesis using Suc.IH [of ?w q'] Suc.prems(1) w q by simp
  qed
qed simp

lemma wal_commit_ok:
  assumes "tx \<notin> set (wal_failed w)"
  shows "\<exists>w'. wal_commit True tx w = (w', Inr ()) \<and>
    wal_lines w' = wal_lines w @ map fst (wal_queue w) @ [rec_commit tx] \<and> wal_synced w' = length (wal_lines w')"
  using writer_turns_append [of "wal_request tx w" "Suc (length (wal_queue w))" "wal_queue w" "rec_commit tx" tx] assms
  by (auto simp: wal_commit_def Let_def wal_request_def)

lemma writer_turns_fail:
  "length (wal_queue w) = n \<Longrightarrow> wal_lines (writer_turns False n w) = wal_lines w \<and>
     set (wal_failed (writer_turns False n w)) = set (wal_failed w) \<union> set (List.map_filter snd (wal_queue w))"
proof (induction n arbitrary: w)
  case (Suc n)
  obtain x req rest where q: "wal_queue w = (x, req) # rest" using Suc.prems(1) by (cases "wal_queue w") auto
  let ?w = "writer_turn False w"
  have w: "wal_queue ?w = rest" "wal_lines ?w = wal_lines w"
    "wal_failed ?w = wal_failed w @ (case req of None \<Rightarrow> [] | Some tx \<Rightarrow> [tx])"
    using q by (cases req; simp add: writer_turn_def)+
  show ?case using Suc.IH [of ?w] Suc.prems w q by (cases req) (auto simp: List.map_filter_simps)
qed (simp add: List.map_filter_simps)

lemma wal_commit_fail: "\<exists>w'. wal_commit False tx w = (w', Inl WALError) \<and> wal_lines w' = wal_lines w"
  using writer_turns_fail [of "wal_request tx w" "Suc (length (wal_queue w))"]
  by (auto simp: wal_commit_def Let_def wal_request_def List.map_filter_def)


definition logged_writer :: txn_manager where
  "logged_writer =
     (let m = fst (begin_txn ReadCommitted (new_manager (new_wal []) (new_locks 100)))
      in ensure_wal_begin (new_transaction 1 ReadCommitted) m)"

lemma logged_writer_ok:
  "manager_ok logged_writer"
  "tm_txns logged_writer 1 = Some ((new_transaction 1 ReadCommitted)\<lparr>tr_wal_started := True\<rparr>)"
  "1 \<in> tm_active logged_writer" "1 \<notin> set (wal_failed (tm_wal logged_writer))"
proof -
  have m: "manager_ok (fst (begin_txn ReadCommitted (new_manager (new_wal []) (new_locks 100))))"
    by (rule begin_txn_ok [OF new_manager_ok])
  show "manager_ok logged_writer" unfolding logged_writer_def Let_def
    by (rule ensure_wal_begin_ok [OF m]) (simp add: begin_txn_def new_manager_def new_transaction_def Let_def)
qed code_simp+


text \<open>
  Ids and snapshots. A new transaction gets an id no one has had, above every earlier one; it starts
  active; the status of every other transaction is unchanged; and a snapshot taken before does not count it,
  whatever becomes of it.
\<close>

lemma begin_is_fresh:
  assumes "manager_ok m"
  shows "\<exists>m' tx. begin_txn level m = (m', tx) \<and> manager_ok m' \<and> tm_state m tx = None \<and>
    (\<forall>i. tm_state m i \<noteq> None \<longrightarrow> i < tx) \<and> is_active m' tx \<and>
    (\<forall>i. i \<noteq> tx \<longrightarrow> status m' i = status m i) \<and>
    (\<forall>r st. r \<noteq> tx \<longrightarrow> \<not> counted st (take_snapshot r m) tx)"
proof -
  obtain m' tx where b: "begin_txn level m = (m', tx)" by (cases "begin_txn level m") auto
  have tx: "tx = tm_next_id m" "tm_counter m = tm_next_id m" "dom (tm_state m) = {0<..<tm_next_id m}"
    using b manager_okD(1) [OF assms] by (auto simp: begin_txn_def Let_def ids_ok_def)
  then have "tm_state m tx = None" "\<forall>i. tm_state m i \<noteq> None \<longrightarrow> i < tx" by (auto simp: domIff [symmetric])
  moreover have "manager_ok m'" using begin_txn_ok [OF assms, of level] b by simp
  moreover have "is_active m' tx" "\<forall>i. i \<noteq> tx \<longrightarrow> status m' i = status m i"
    using b by (auto simp: begin_txn_def Let_def is_active_def status_def)
  moreover have "\<forall>r st. r \<noteq> tx \<longrightarrow> \<not> counted st (take_snapshot r m) tx"
    by (simp add: counted_def take_snapshot_def tx(1))
  ultimately show ?thesis using b by blast
qed

lemma begin_is_fresh_witness: "snd (begin_txn Serializable logged_writer) = 2 \<and> tm_state logged_writer 2 = None"
proof -
  have "snd (begin_txn Serializable logged_writer) = 2" by code_simp
  then show ?thesis using begin_is_fresh [OF logged_writer_ok(1), of Serializable] by auto
qed

section \<open>The log\<close>


definition two_sessions :: "wal_action list" where
  "two_sessions =
     [Put (rec_begin 1), Put (rec_begin 2), Put (rec_insert 1 ''t'' (demo_key 1) (demo_row 1 10)), Request 1, Turn,
      Turn, Turn, Turn, Put (rec_delete 2 ''t'' (demo_key 1)), Turn]"


text \<open>
  C26. Reading a log is all or nothing per transaction. The data records returned are exactly those, in
  their order, of the transactions with a commit record and no abort record before the first unreadable
  line.
\<close>

theorem read_wal_whole_transactions:
  assumes "\<forall>r\<in>set rs. is_record r" "unreadable rest"
  shows "\<exists>ids. read_wal (map Some rs @ rest) = Inr (ids, filter (\<lambda>r. is_data r \<and> rec_txid r \<in> set ids) rs) \<and>
    set ids = committed_in rs - aborted_in rs"
  using assms by (rule read_wal_records)

theorem read_wal_whole_transactions_witness:
  "\<exists>ids. read_wal (map Some [rec_begin 1, rec_commit 1, rec_begin 2] @ [None]) =
    Inr (ids, filter (\<lambda>r. is_data r \<and> rec_txid r \<in> set ids) [rec_begin 1, rec_commit 1, rec_begin 2])"
proof -
  have "\<forall>r\<in>set [rec_begin 1, rec_commit 1, rec_begin 2]. is_record r" "unreadable [None]"
    by (simp_all add: unreadable_def)
  from read_wal_whole_transactions [OF this] show ?thesis by blast
qed

text \<open>
  C27. The repair of a torn tail. A file that ends in a newline is left alone. A torn last line is cut off,
  and nothing else, if it is shorter than 4096 bytes; if it is longer, the whole file is emptied.
\<close>

theorem torn_tail_repair:
  assumes "lines = [] \<or> last lines = newline" "newline \<notin> set torn"
  shows "truncate_torn_tail (lines @ torn) = (if length torn < 4096 then lines else [])"
proof (cases "torn = []")
  case True
  then show ?thesis
    using assms(1) truncate_complete [of lines] by (cases "lines = []") (auto simp: truncate_torn_tail_def)
next
  case False
  then show ?thesis by (rule truncate_torn [OF assms(1) _ assms(2)])
qed

theorem torn_tail_repair_witness:
  "truncate_torn_tail (''ab'' @ [newline] @ ''cd'') = ''ab'' @ [newline] \<and>
    truncate_torn_tail (''ab'' @ [newline] @ replicate 4096 CHR ''x'') = []"
  using torn_tail_repair [of "''ab'' @ [newline]" "''cd''"]
    torn_tail_repair [of "''ab'' @ [newline]" "replicate 4096 CHR ''x''"]
  by (simp add: newline_def)

section \<open>Recovery and the checkpoint\<close>

text \<open>
  C14. Recovery rebuilds what the log describes. If the committed records of the log describe a database,
  inserting under free keys and updating and deleting taken ones, recovery succeeds, has the tables of that
  database and no active transaction, and a fresh snapshot of each table sees exactly its rows.
\<close>

theorem recovery_rebuilds:
  assumes "read_wal log_lines = Inr (ids, map (\<lambda>(tx, x). log_record tx x) xs)"
    and "map_result read_txid ids = Inr txs" "fst ` set xs \<subseteq> set txs" "\<forall>tx\<in>set txs. 0 < tx"
    and "abs_log (map snd xs) Map.empty = Some d"
  shows "\<exists>db. recover None log_lines (new_manager w lk) = Inr db \<and> manager_ok (db_mgr db) \<and>
    tm_active (db_mgr db) = {} \<and>
    (\<forall>name. map_of (db_tables db) name = None \<longleftrightarrow> d name = None) \<and>
    (\<forall>name t. map_of (db_tables db) name = Some t \<longrightarrow> table_ok t \<and>
       d name = Some (table_view (status (db_mgr db)) (take_snapshot 0 (db_mgr db)) t))"
  using assms by (rule recover_log)

definition good_log :: "(txid \<times> log_op) list" where
  "good_log =
     [(1, LBegin), (1, LCreate demo_schema), (1, LInsert ''T'' (demo_key 1) (demo_row 1 10)),
      (3, LBegin), (3, LUpdate ''t'' (demo_key 1) (demo_row 1 11))]"

definition good_lines :: "json option list" where
  "good_lines =
     map Some [rec_begin 1, rec_begin 2, rec_create 1 (schema_to_dict demo_schema),
       rec_insert 1 ''T'' (demo_key 1) (demo_row 1 10), rec_commit 1, rec_delete 2 ''t'' (demo_key 1),
       rec_begin 3, rec_update 3 ''t'' (demo_key 1) (demo_row 1 11), rec_commit 3]"

theorem recovery_rebuilds_witness:
  "\<exists>db. recover None good_lines (new_manager (new_wal []) (new_locks 100)) = Inr db \<and>
    (\<forall>t. map_of (db_tables db) ''t'' = Some t \<longrightarrow>
       table_view (status (db_mgr db)) (take_snapshot 0 (db_mgr db)) t = [demo_key 1 \<mapsto> demo_row 1 11])"
proof -
  have read: "read_wal good_lines = Inr ([JInt 3, JInt 1], map (\<lambda>(tx, x). log_record tx x) good_log)"
    and txs: "map_result read_txid [JInt 3, JInt 1] = Inr [3, 1]"
    by code_simp+
  have low: "py_lower ''T'' = ''t''" "py_lower ''t'' = ''t''" by code_simp+
  have abs: "abs_log (map snd good_log) Map.empty = Some [''t'' \<mapsto> [demo_key 1 \<mapsto> demo_row 1 11]]"
    by (auto simp: good_log_def Let_def demo_schema_def low)
  have sub: "fst ` set good_log \<subseteq> set [3, 1]" by (auto simp: good_log_def)
  show ?thesis using recovery_rebuilds [OF read txs sub _ abs, of "new_wal []" "new_locks 100"] by fastforce
qed



section \<open>Rows and documents\<close>

text \<open>
  C29. Validation. A converted row has the type, the nullability and the length its columns ask for, and
  converting it again changes nothing; a row that fits already is returned as it is; and the only exception
  besides TypeConversionError is the OverflowError of a FLOAT column given an int too large for a double.
\<close>

theorem validation_is_a_projection:
  "(\<forall>row'. validate_and_convert s row = Inr row' \<longrightarrow> row_fits s row' \<and> validate_and_convert s row' = Inr row') \<and>
   (row_fits s row \<longrightarrow> validate_and_convert s row = Inr row) \<and>
   (\<forall>col v e. convert_value col v = Inl e \<longrightarrow>
      e = TypeConversionError \<or> e = OverflowError \<and> col_type col = TFloat \<and> (\<exists>i. v = VInt i))"
  using validate_row_fits validate_fitting_row convert_value_errors by metis

theorem validation_is_a_projection_witness:
  "validate_and_convert demo_schema [VStr ''7'', VNone] = Inr [VInt 7, VNone] \<and> row_fits demo_schema [VInt 7, VNone]"
proof -
  have "validate_and_convert demo_schema [VStr ''7'', VNone] = Inr [VInt 7, VNone]" by code_simp
  then show ?thesis using validation_is_a_projection [of demo_schema "[VStr ''7'', VNone]"] by blast
qed

text \<open>
  C30. The document forms lose nothing: reading back a schema, a row key or a row of values from the
  document that was written for it gives the same one.
\<close>

theorem documents_roundtrip:
  "schema_from_dict (schema_to_dict s) = Inr s \<and> decode_key (encode_key k) = Inr k \<and>
   read_row (JArr (map json_of_value row)) = Inr row"
proof -
  have "map_result value_of_json (map json_of_value row) = Inr row" by (induction row) simp_all
  then show ?thesis by (simp add: schema_from_to_dict read_row_def)
qed



end
