(* ===== verification/Effects.thy ===== *)
theory Effects
  imports Prelude
begin

text \<open>
  Steps that change a state and may raise: what a method of the engine does to the database, and the
  value or exception it ends with. The state survives an exception, as it does in the program.
\<close>

type_synonym ('s, 'a) eff = "'s \<Rightarrow> 's \<times> 'a result"

definition ret :: "'a \<Rightarrow> ('s, 'a) eff" where
  "ret x s = (s, Inr x)"

definition raise :: "py_error \<Rightarrow> ('s, 'a) eff" where
  "raise e s = (s, Inl e)"

definition lift :: "'a result \<Rightarrow> ('s, 'a) eff" where
  "lift r s = (s, r)"

definition bind_eff :: "('s, 'a) eff \<Rightarrow> ('a \<Rightarrow> ('s, 'b) eff) \<Rightarrow> ('s, 'b) eff" where
  "bind_eff m f s = (case m s of (s', Inl e) \<Rightarrow> (s', Inl e) | (s', Inr x) \<Rightarrow> f x s')"

text \<open>\<open>except Exception\<close>: the value that replaces an exception.\<close>

definition recover_with :: "'a \<Rightarrow> ('s, 'a) eff \<Rightarrow> ('s, 'a) eff" where
  "recover_with d m s = (case m s of (s', Inl e) \<Rightarrow> (s', Inr d) | (s', Inr x) \<Rightarrow> (s', Inr x))"

definition get_state :: "('s, 's) eff" where
  "get_state s = (s, Inr s)"

definition modify :: "('s \<Rightarrow> 's) \<Rightarrow> ('s, unit) eff" where
  "modify f s = (f s, Inr ())"

fun map_eff :: "('a \<Rightarrow> ('s, 'b) eff) \<Rightarrow> 'a list \<Rightarrow> ('s, 'b list) eff" where
  "map_eff f [] = ret []"
| "map_eff f (x # xs) = bind_eff (f x) (\<lambda>y. bind_eff (map_eff f xs) (\<lambda>ys. ret (y # ys)))"

fun filter_eff :: "('a \<Rightarrow> ('s, bool) eff) \<Rightarrow> 'a list \<Rightarrow> ('s, 'a list) eff" where
  "filter_eff p [] = ret []"
| "filter_eff p (x # xs) =
     bind_eff (p x) (\<lambda>keep. bind_eff (filter_eff p xs) (\<lambda>ys. ret (if keep then x # ys else ys)))"

fun fold_eff :: "('a \<Rightarrow> 'b \<Rightarrow> ('s, 'b) eff) \<Rightarrow> 'a list \<Rightarrow> 'b \<Rightarrow> ('s, 'b) eff" where
  "fold_eff f [] acc = ret acc"
| "fold_eff f (x # xs) acc = bind_eff (f x acc) (fold_eff f xs)"

section \<open>Laws\<close>

lemma bind_eff_simps [simp]:
  "bind_eff (ret x) f = f x"
  "bind_eff (raise e) f = raise e"
  "bind_eff (lift (Inl e)) f = raise e"
  "bind_eff (lift (Inr x)) f = f x"
  by (simp_all add: fun_eq_iff bind_eff_def ret_def raise_def lift_def)

lemma lift_simps [simp]: "lift (Inr x) = ret x" "lift (Inl e) = raise e"
  by (simp_all add: fun_eq_iff lift_def ret_def raise_def)

lemma bind_eff_assoc: "bind_eff (bind_eff m f) g = bind_eff m (\<lambda>x. bind_eff (f x) g)"
  by (auto simp: fun_eq_iff bind_eff_def split: prod.splits sum.splits)

lemma bind_ret [simp]: "bind_eff m ret = m"
  by (auto simp: fun_eq_iff bind_eff_def ret_def split: prod.splits sum.splits)

lemma bind_lift: "bind_eff (lift r) (\<lambda>x. lift (f x)) = lift (bind_result r f)"
  by (cases r) simp_all

lemma lift_same [simp]: "lift r s = (s', r') \<longleftrightarrow> s' = s \<and> r' = r"
  by (auto simp: lift_def)

lemma bind_eff_Inr:
  "bind_eff m f s = (s', Inr y) \<longleftrightarrow> (\<exists>s1 x. m s = (s1, Inr x) \<and> f x s1 = (s', Inr y))"
  by (auto simp: bind_eff_def split: prod.splits sum.splits)

lemma map_eff_lift: "(\<And>x. x \<in> set xs \<Longrightarrow> f x = lift (g x)) \<Longrightarrow> map_eff f xs = lift (map_result g xs)"
proof (induction xs)
  case (Cons x xs)
  then show ?case by (cases "g x"; cases "map_result g xs") simp_all
qed simp

text \<open>The pure filter: the first exception of the test, or the elements that pass.\<close>

fun filter_result :: "('a \<Rightarrow> bool result) \<Rightarrow> 'a list \<Rightarrow> 'a list result" where
  "filter_result p [] = Inr []"
| "filter_result p (x # xs) =
     bind_result (p x) (\<lambda>keep. bind_result (filter_result p xs) (\<lambda>ys. Inr (if keep then x # ys else ys)))"

lemma filter_eff_lift: "(\<And>x. x \<in> set xs \<Longrightarrow> p x = lift (q x)) \<Longrightarrow> filter_eff p xs = lift (filter_result q xs)"
proof (induction xs)
  case (Cons x xs)
  then show ?case by (cases "q x"; cases "filter_result q xs") simp_all
qed simp

lemma filter_result_Inr: "(\<And>x. x \<in> set xs \<Longrightarrow> p x = Inr (q x)) \<Longrightarrow> filter_result p xs = Inr (filter q xs)"
  by (induction xs) auto

lemma map_eff_cong [fundef_cong]:
  "xs = ys \<Longrightarrow> (\<And>x. x \<in> set ys \<Longrightarrow> f x = g x) \<Longrightarrow> map_eff f xs = map_eff g ys"
  by (induction ys arbitrary: xs) auto

end
