(* ===== verification/Ast.thy ===== *)
theory Ast
  imports Schema
begin

text \<open>
  The syntax trees of \<^verbatim>\<open>minidb/sql/ast.py\<close>: expressions, queries and statements. The operator strings
  of \<open>UnaryOp\<close> and \<open>BinaryOp\<close> are the ones the parser builds, one constructor each; an optional field is
  an option, and a missing expression (\<open>None\<close> where an expression may stand) is \<open>Missing\<close>; the sort
  direction of an ORDER BY item is True for DESC. An expression and a query contain each
  other, so both are one mutually recursive datatype.
\<close>

section \<open>Expressions and queries\<close>

datatype unop = UMinus | UNot | UIsNull | UIsNotNull

datatype binop =
    BEq | BNe | BLt | BLe | BGt | BGe
  | BAdd | BSub | BMul | BDiv
  | BAnd | BOr
  | BLike | BNotLike | BBetween

datatype join_kind = JInner | JLeft

datatype expr =
    Missing
  | Literal pyval
  | ColumnRef string "string option"
  | Star "string option"
  | UnaryOp unop expr
  | BinaryOp binop expr expr
  | FuncCall string "expr list" bool bool
  | Subquery select
  | InSubquery expr select bool
  | Exists select bool
and select =
    SelectStmt (sel_projections: "expr list") (sel_from: "string option") (sel_alias: "string option")
      (sel_joins: "join_spec list") (sel_where: expr) (sel_group_by: "expr list")
      (sel_having: expr) (sel_order_by: "(expr \<times> bool) list") (sel_limit: "int option")
      (sel_offset: "int option") (sel_distinct: bool)
and join_spec =
    JoinSpec (js_table: string) (js_alias: "string option") (js_kind: join_kind) (js_on: expr)

section \<open>Statements\<close>

record column_def =
  cd_name :: string
  cd_type :: coltype
  cd_length :: "int option"
  cd_nullable :: bool
  cd_primary_key :: bool

datatype statement =
    CreateTable string "column_def list"
  | Insert string "string list option" "expr list list"
  | Update string "(string \<times> expr) list" expr
  | Delete string expr
  | Select select
  | BeginStmt "string option"
  | CommitStmt
  | RollbackStmt
  | ShowTables
  | Describe string

end
