(* ===== verification/Expressions.thy ===== *)
theory Expressions
  imports Effects Ast
begin

text \<open>
  Expression evaluation with three-valued logic, \<^verbatim>\<open>minidb/engine/expressions.py\<close>. An \<open>EvalContext\<close> is
  its list of source bindings, a \<open>scope\<close>; the context variable with the outer contexts of correlated
  subqueries is the list \<open>outer\<close>, innermost first. The subquery runner is an optional argument: it is given
  the stack of contexts and the query, and may change the state (a serializable reader locks tables), so
  evaluation is a step of a state of any type.
\<close>

section \<open>Contexts\<close>

record source_binding =
  sb_alias :: string
  sb_columns :: "string list"
  sb_row :: "pyval list option"

type_synonym scope = "source_binding list"

fun position :: "('a \<Rightarrow> bool) \<Rightarrow> 'a list \<Rightarrow> nat option" where
  "position p [] = None"
| "position p (x # xs) = (if p x then Some 0 else map_option Suc (position p xs))"

definition with_rows :: "scope \<Rightarrow> pyval list option list \<Rightarrow> scope" where
  "with_rows sc rows = map (\<lambda>(b, row). b\<lparr>sb_row := row\<rparr>) (zip sc rows)"

definition cell :: "source_binding \<Rightarrow> nat \<Rightarrow> pyval result" where
  "cell b i =
     (case sb_row b of
        None \<Rightarrow> Inr VNone
      | Some row \<Rightarrow> if i < length row then Inr (row ! i) else Inl IndexError)"

text \<open>\<open>_alias_map\<close>, where a later binding overrides an earlier one, and the first entry of \<open>_name_map\<close>.\<close>

definition alias_binding :: "scope \<Rightarrow> string \<Rightarrow> source_binding option" where
  "alias_binding sc t = find (\<lambda>b. py_lower (sb_alias b) = py_lower t) (rev sc)"

fun named_column :: "scope \<Rightarrow> string \<Rightarrow> (source_binding \<times> nat) option" where
  "named_column [] name = None"
| "named_column (b # bs) name =
     (case position (\<lambda>c. py_lower c = py_lower name) (sb_columns b) of
        Some i \<Rightarrow> Some (b, i)
      | None \<Rightarrow> named_column bs name)"

text \<open>What one context knows of a reference; None when it does not know the alias or the column.\<close>

definition resolve_here :: "scope \<Rightarrow> string \<Rightarrow> string option \<Rightarrow> pyval result option" where
  "resolve_here sc name tab =
     (case tab of
        Some (c # cs) \<Rightarrow>
          (case alias_binding sc (c # cs) of
             None \<Rightarrow> None
           | Some b \<Rightarrow>
               Some (case position (\<lambda>x. x = py_lower name) (sb_columns b) of
                       None \<Rightarrow> Inl EvalError
                     | Some i \<Rightarrow> cell b i))
      | _ \<Rightarrow> map_option (\<lambda>(b, i). cell b i) (named_column sc name))"

fun resolve :: "scope list \<Rightarrow> string \<Rightarrow> string option \<Rightarrow> pyval result" where
  "resolve [] name tab = Inl EvalError"
| "resolve (sc # scs) name tab =
     (case resolve_here sc name tab of Some r \<Rightarrow> r | None \<Rightarrow> resolve scs name tab)"

section \<open>Operators\<close>

definition truthy :: "pyval \<Rightarrow> bool" where
  "truthy v \<longleftrightarrow> v = VBool True"

definition and_value :: "pyval \<Rightarrow> pyval \<Rightarrow> pyval" where
  "and_value l r =
     (if l = VBool False \<or> r = VBool False then VBool False
      else if l = VNone \<or> r = VNone then VNone
      else VBool (py_truth l \<and> py_truth r))"

definition or_value :: "pyval \<Rightarrow> pyval \<Rightarrow> pyval" where
  "or_value l r =
     (if l = VBool True \<or> r = VBool True then VBool True
      else if l = VNone \<or> r = VNone then VNone
      else VBool (py_truth l \<or> py_truth r))"

definition not_value :: "pyval \<Rightarrow> pyval" where
  "not_value v = (if v = VNone then VNone else VBool (\<not> py_truth v))"

definition unary_value :: "unop \<Rightarrow> pyval \<Rightarrow> pyval result" where
  "unary_value op v =
     (case op of
        UMinus \<Rightarrow> if v = VNone then Inr VNone else py_neg v
      | UNot \<Rightarrow> Inr (not_value v)
      | UIsNull \<Rightarrow> Inr (VBool (v = VNone))
      | UIsNotNull \<Rightarrow> Inr (VBool (v \<noteq> VNone)))"

text \<open>\<open>_like_match\<close>: the regular expression piece by piece, and its full match.\<close>

datatype like_piece = AnyRun | AnyChar | Exactly char

definition like_pieces :: "string \<Rightarrow> like_piece list" where
  "like_pieces pattern =
     map (\<lambda>c. if c = CHR ''%'' then AnyRun else if c = CHR ''_'' then AnyChar else Exactly c) pattern"

fun full_match :: "like_piece list \<Rightarrow> string \<Rightarrow> bool" where
  "full_match [] s = (s = [])"
| "full_match (AnyRun # ps) s = (full_match ps s \<or> (case s of [] \<Rightarrow> False | c # cs \<Rightarrow> full_match (AnyRun # ps) cs))"
| "full_match (AnyChar # ps) s = (case s of [] \<Rightarrow> False | c # cs \<Rightarrow> full_match ps cs)"
| "full_match (Exactly x # ps) s = (case s of [] \<Rightarrow> False | c # cs \<Rightarrow> c = x \<and> full_match ps cs)"

definition like_match :: "string \<Rightarrow> string \<Rightarrow> bool" where
  "like_match s pattern = full_match (like_pieces pattern) s"

text \<open>A TypeError of the guarded operators becomes an EvalError.\<close>

definition type_guard :: "'a result \<Rightarrow> 'a result" where
  "type_guard r = (case r of Inl e \<Rightarrow> Inl (if e = TypeError then EvalError else e) | Inr x \<Rightarrow> Inr x)"

definition bool_result :: "bool result \<Rightarrow> pyval result" where
  "bool_result r = bind_result r (\<lambda>b. Inr (VBool b))"

definition plain_binary :: "binop \<Rightarrow> pyval \<Rightarrow> pyval \<Rightarrow> pyval result" where
  "plain_binary op l r =
     (case op of
        BEq \<Rightarrow> Inr (VBool (py_eq l r))
      | BNe \<Rightarrow> Inr (VBool (\<not> py_eq l r))
      | BLt \<Rightarrow> bool_result (py_lt l r)
      | BLe \<Rightarrow> bool_result (py_le l r)
      | BGt \<Rightarrow> bool_result (py_lt r l)
      | BGe \<Rightarrow> bool_result (py_le r l)
      | BAdd \<Rightarrow> py_add l r
      | BSub \<Rightarrow> py_sub l r
      | BMul \<Rightarrow> py_mul l r
      | BDiv \<Rightarrow> if py_eq r (VInt 0) then Inl EvalError else py_truediv l r
      | _ \<Rightarrow> Inl EvalError)"

definition binary_value :: "binop \<Rightarrow> pyval \<Rightarrow> pyval \<Rightarrow> pyval result" where
  "binary_value op l r =
     (if op = BAnd then Inr (and_value l r)
      else if op = BOr then Inr (or_value l r)
      else if l = VNone \<or> r = VNone then Inr VNone
      else if op = BLike then Inr (VBool (like_match (py_str l) (py_str r)))
      else if op = BNotLike then Inr (VBool (\<not> like_match (py_str l) (py_str r)))
      else type_guard (plain_binary op l r))"

text \<open>\<open>low <= l <= high\<close>, outside the guard: a TypeError escapes as it is.\<close>

definition between_value :: "pyval \<Rightarrow> pyval \<Rightarrow> pyval \<Rightarrow> pyval result" where
  "between_value l low high =
     (if l = VNone \<or> low = VNone \<or> high = VNone then Inr VNone
      else bind_result (py_le low l)
             (\<lambda>above. if above then bool_result (py_le l high) else Inr (VBool False)))"

definition scalar_func :: "string \<Rightarrow> pyval \<Rightarrow> pyval result" where
  "scalar_func name v =
     (if py_upper name = ''UPPER'' then Inr (if v = VNone then VNone else VStr (py_upper (py_str v)))
      else if py_upper name = ''LOWER'' then Inr (if v = VNone then VNone else VStr (py_lower (py_str v)))
      else Inl EvalError)"

section \<open>Evaluation\<close>

type_synonym 's runner = "scope list \<Rightarrow> select \<Rightarrow> ('s, pyval list list) eff"

definition first_cell :: "pyval list \<Rightarrow> pyval result" where
  "first_cell row = (case row of [] \<Rightarrow> Inl IndexError | v # _ \<Rightarrow> Inr v)"

definition scalar_of :: "pyval list list \<Rightarrow> pyval result" where
  "scalar_of rows = (case rows of [] \<Rightarrow> Inr VNone | row # _ \<Rightarrow> first_cell row)"

text \<open>Membership in a set of values, by \<open>==\<close>.\<close>

definition member_value :: "bool \<Rightarrow> pyval \<Rightarrow> pyval list \<Rightarrow> pyval" where
  "member_value negated v members =
     (if v = VNone then VNone else VBool ((\<exists>w\<in>set members. py_eq v w) \<noteq> negated))"

fun evaluate :: "'s runner option \<Rightarrow> scope list \<Rightarrow> scope \<Rightarrow> expr \<Rightarrow> ('s, pyval) eff" where
  "evaluate run outer ctx Missing = raise EvalError"
| "evaluate run outer ctx (Literal v) = ret v"
| "evaluate run outer ctx (ColumnRef name tab) = lift (resolve (ctx # outer) name tab)"
| "evaluate run outer ctx (Star tab) = raise EvalError"
| "evaluate run outer ctx (UnaryOp op e) =
     bind_eff (evaluate run outer ctx e) (\<lambda>v. lift (unary_value op v))"
| "evaluate run outer ctx (BinaryOp op a b) =
     bind_eff (evaluate run outer ctx a) (\<lambda>l.
     bind_eff (evaluate run outer ctx b) (\<lambda>r.
       if op = BBetween then
         (case b of
            BinaryOp _ lo hi \<Rightarrow>
              bind_eff (evaluate run outer ctx lo) (\<lambda>low.
              bind_eff (evaluate run outer ctx hi) (\<lambda>high. lift (between_value l low high)))
          | _ \<Rightarrow> raise AttributeError)
       else lift (binary_value op l r)))"
| "evaluate run outer ctx (FuncCall name args dct star) =
     (case args of
        [] \<Rightarrow> raise EvalError
      | e # _ \<Rightarrow> bind_eff (evaluate run outer ctx e) (\<lambda>v. lift (scalar_func name v)))"
| "evaluate run outer ctx (Subquery q) =
     (case run of
        None \<Rightarrow> raise EvalError
      | Some f \<Rightarrow> bind_eff (f (ctx # outer) q) (\<lambda>rows. lift (scalar_of rows)))"
| "evaluate run outer ctx (InSubquery e q negated) =
     (case run of
        None \<Rightarrow> raise EvalError
      | Some f \<Rightarrow>
          bind_eff (evaluate run (ctx # outer) ctx e) (\<lambda>v.
          bind_eff (f (ctx # outer) q) (\<lambda>rows.
          bind_eff (lift (map_result first_cell rows)) (\<lambda>members. ret (member_value negated v members)))))"
| "evaluate run outer ctx (Exists q negated) =
     (case run of
        None \<Rightarrow> raise EvalError
      | Some f \<Rightarrow> bind_eff (f (ctx # outer) q) (\<lambda>rows. ret (VBool ((rows \<noteq> []) \<noteq> negated))))"

section \<open>Names and conjuncts\<close>

fun expr_references :: "expr \<Rightarrow> string set" where
  "expr_references (ColumnRef name tab) = {py_lower name}"
| "expr_references (UnaryOp op e) = expr_references e"
| "expr_references (BinaryOp op a b) = expr_references a \<union> expr_references b"
| "expr_references (FuncCall name args dct star) = \<Union> (set (map expr_references args))"
| "expr_references _ = {}"

text \<open>A missing expression is one conjunct, \<open>split_conjuncts(None)\<close> is \<open>[None]\<close>.\<close>

fun split_conjuncts :: "expr \<Rightarrow> expr list" where
  "split_conjuncts (BinaryOp BAnd a b) = split_conjuncts a @ split_conjuncts b"
| "split_conjuncts e = [e]"

definition combine_conjuncts :: "expr list \<Rightarrow> expr" where
  "combine_conjuncts preds = (case preds of [] \<Rightarrow> Missing | p # ps \<Rightarrow> foldl (BinaryOp BAnd) p ps)"

end
