(* ===== verification/ExprLemmas.thy ===== *)
theory ExprLemmas
  imports Expressions
begin

text \<open>
  Lemmas on expression evaluation: expressions without subqueries are functions of the scopes, AND trees
  are determined by the values of their conjuncts, the LIKE matcher against its specification, and name
  resolution through scopes.
\<close>

section \<open>Expressions without subqueries\<close>

fun no_subquery :: "expr \<Rightarrow> bool" where
  "no_subquery (UnaryOp op e) = no_subquery e"
| "no_subquery (BinaryOp op a b) = (no_subquery a \<and> no_subquery b)"
| "no_subquery (FuncCall name args dct star) = (\<forall>a\<in>set args. no_subquery a)"
| "no_subquery (Subquery q) = False"
| "no_subquery (InSubquery e q negated) = False"
| "no_subquery (Exists q negated) = False"
| "no_subquery _ = True"

text \<open>The value of such an expression, as a function of the scopes.\<close>

fun eval_plain :: "scope list \<Rightarrow> expr \<Rightarrow> pyval result" where
  "eval_plain scs (Literal v) = Inr v"
| "eval_plain scs (ColumnRef name tab) = resolve scs name tab"
| "eval_plain scs (UnaryOp op e) = bind_result (eval_plain scs e) (unary_value op)"
| "eval_plain scs (BinaryOp op a b) =
     bind_result (eval_plain scs a) (\<lambda>l.
     bind_result (eval_plain scs b) (\<lambda>r.
       if op = BBetween then
         (case b of
            BinaryOp _ lo hi \<Rightarrow>
              bind_result (eval_plain scs lo) (\<lambda>low.
              bind_result (eval_plain scs hi) (\<lambda>high. between_value l low high))
          | _ \<Rightarrow> Inl AttributeError)
       else binary_value op l r))"
| "eval_plain scs (FuncCall name args dct star) =
     (case args of [] \<Rightarrow> Inl EvalError | e # _ \<Rightarrow> bind_result (eval_plain scs e) (scalar_func name))"
| "eval_plain scs _ = Inl EvalError"

lemma bind_lift_eq: "bind_eff (lift r) f = (case r of Inl e \<Rightarrow> raise e | Inr x \<Rightarrow> f x)"
  by (cases r) simp_all

lemma lift_bind: "lift (bind_result r f) = bind_eff (lift r) (\<lambda>x. lift (f x))"
  by (cases r) simp_all

lemma evaluate_plain: "no_subquery e \<Longrightarrow> evaluate run outer ctx e = lift (eval_plain (ctx # outer) e)"
proof (induction "ctx # outer" e rule: eval_plain.induct)
  case (4 op a b)
  then have a: "evaluate run outer ctx a = lift (eval_plain (ctx # outer) a)"
    and b: "evaluate run outer ctx b = lift (eval_plain (ctx # outer) b)" by simp_all
  show ?case
  proof (cases "eval_plain (ctx # outer) a")
    case (Inr l)
    show ?thesis
    proof (cases "eval_plain (ctx # outer) b")
      case (Inr r)
      then show ?thesis using 4 a b \<open>eval_plain (ctx # outer) a = Inr l\<close>
        by (auto simp: lift_bind simp del: lift_simps(1) split: expr.splits)
    qed (simp add: a b Inr)
  qed (simp add: a b)
qed (auto simp: lift_bind lift_simps(1) [symmetric] simp del: lift_simps(1) split: list.splits)

section \<open>AND trees\<close>

text \<open>The three truth values.\<close>

definition logical :: "pyval \<Rightarrow> bool" where
  "logical v \<longleftrightarrow> v = VNone \<or> v = VBool True \<or> v = VBool False"


lemma truthy_and: "truthy (and_value l r) \<longleftrightarrow> py_truth l \<and> py_truth r"
  by (auto simp: truthy_def and_value_def)

lemma py_truth_and [simp]: "py_truth (and_value l r) \<longleftrightarrow> py_truth l \<and> py_truth r"
  by (auto simp: and_value_def)

text \<open>When the conjuncts have the values \<open>vs\<close>, an AND tree over them is true.\<close>

definition chain_true :: "pyval list \<Rightarrow> bool" where
  "chain_true vs = (case vs of [v] \<Rightarrow> truthy v | _ \<Rightarrow> \<forall>v\<in>set vs. py_truth v)"

lemma chain_true_append:
  "xs \<noteq> [] \<Longrightarrow> ys \<noteq> [] \<Longrightarrow> chain_true (xs @ ys) \<longleftrightarrow> (\<forall>v\<in>set xs. py_truth v) \<and> (\<forall>v\<in>set ys. py_truth v)"
  by (cases xs; cases ys; cases "tl xs"; cases "tl ys") (auto simp: chain_true_def)

definition and_fold :: "(pyval list \<Rightarrow> pyval) \<Rightarrow> nat \<Rightarrow> bool" where
  "and_fold f n \<longleftrightarrow> (\<forall>vs. length vs = n \<longrightarrow>
     (py_truth (f vs) \<longleftrightarrow> (\<forall>v\<in>set vs. py_truth v)) \<and> (truthy (f vs) \<longleftrightarrow> chain_true vs))"

lemma and_fold_hd: "and_fold hd 1"
  unfolding and_fold_def by (auto simp: length_Suc_conv chain_true_def)

lemma and_fold_join:
  assumes "and_fold f m" "and_fold g n" "0 < m" "0 < n"
  shows "and_fold (\<lambda>vs. and_value (f (take m vs)) (g (drop m vs))) (m + n)"
  unfolding and_fold_def
proof (intro allI impI)
  fix vs :: "pyval list" assume len: "length vs = m + n"
  let ?l = "take m vs" and ?r = "drop m vs"
  have l: "length ?l = m" "length ?r = n" "?l \<noteq> []" "?r \<noteq> []" using len assms(3,4) by auto
  have truth: "py_truth (f ?l) \<longleftrightarrow> (\<forall>v\<in>set ?l. py_truth v)" "py_truth (g ?r) \<longleftrightarrow> (\<forall>v\<in>set ?r. py_truth v)"
    using assms(1,2) l(1,2) unfolding and_fold_def by blast+
  have "set vs = set ?l \<union> set ?r" by (metis append_take_drop_id set_append)
  moreover have "chain_true vs \<longleftrightarrow> (\<forall>v\<in>set ?l. py_truth v) \<and> (\<forall>v\<in>set ?r. py_truth v)"
    using chain_true_append [OF l(3,4)] by simp
  ultimately show "(py_truth (and_value (f ?l) (g ?r)) \<longleftrightarrow> (\<forall>v\<in>set vs. py_truth v)) \<and>
      (truthy (and_value (f ?l) (g ?r)) \<longleftrightarrow> chain_true vs)"
    using truth by (auto simp: truthy_and)
qed

lemma map_eff_append:
  "map_eff f (xs @ ys) = bind_eff (map_eff f xs) (\<lambda>us. bind_eff (map_eff f ys) (\<lambda>vs. ret (us @ vs)))"
  by (induction xs) (simp_all add: bind_eff_assoc)

lemma map_eff_length: "map_eff f xs s = (s', Inr ys) \<Longrightarrow> length ys = length xs"
  by (induction xs arbitrary: s ys) (auto simp: bind_eff_Inr ret_def)

lemma split_conjuncts_nonempty [simp]: "split_conjuncts e \<noteq> []" "0 < length (split_conjuncts e)"
  by (induction e rule: split_conjuncts.induct) auto

lemma bind_map_eff_cong:
  "(\<And>vs. length vs = length xs \<Longrightarrow> k vs = k' vs) \<Longrightarrow> bind_eff (map_eff f xs) k = bind_eff (map_eff f xs) k'"
  by (rule ext) (auto simp: bind_eff_def dest: map_eff_length split: prod.splits sum.splits)

lemma single_conjunct:
  assumes "split_conjuncts e = [e]"
  shows "\<exists>f. evaluate run outer ctx e =
      bind_eff (map_eff (evaluate run outer ctx) (split_conjuncts e)) (\<lambda>vs. ret (f vs)) \<and>
    and_fold f (length (split_conjuncts e))"
  using and_fold_hd by (intro exI [of _ hd]) (simp add: assms bind_eff_assoc)

lemma conjunct_values:
  "\<exists>f. evaluate run outer ctx e =
      bind_eff (map_eff (evaluate run outer ctx) (split_conjuncts e)) (\<lambda>vs. ret (f vs)) \<and>
    and_fold f (length (split_conjuncts e))"
proof (induction e rule: split_conjuncts.induct)
  case (1 a b)
  let ?ev = "evaluate run outer ctx"
  obtain f where f: "?ev a = bind_eff (map_eff ?ev (split_conjuncts a)) (\<lambda>vs. ret (f vs))"
    "and_fold f (length (split_conjuncts a))" using 1 by blast
  obtain g where g: "?ev b = bind_eff (map_eff ?ev (split_conjuncts b)) (\<lambda>vs. ret (g vs))"
    "and_fold g (length (split_conjuncts b))" using 1 by blast
  let ?m = "length (split_conjuncts a)"
  let ?h = "\<lambda>vs. and_value (f (take ?m vs)) (g (drop ?m vs))"
  have "?ev (BinaryOp BAnd a b) = bind_eff (?ev a) (\<lambda>l. bind_eff (?ev b) (\<lambda>r. ret (and_value l r)))"
    by (simp add: binary_value_def)
  also have "\<dots> = bind_eff (map_eff ?ev (split_conjuncts a)) (\<lambda>us.
      bind_eff (map_eff ?ev (split_conjuncts b)) (\<lambda>vs. ret (and_value (f us) (g vs))))"
    unfolding f(1) g(1) by (simp add: bind_eff_assoc)
  also have "\<dots> = bind_eff (map_eff ?ev (split_conjuncts a)) (\<lambda>us.
      bind_eff (map_eff ?ev (split_conjuncts b)) (\<lambda>vs. ret (?h (us @ vs))))"
    by (rule bind_map_eff_cong) simp
  also have "\<dots> = bind_eff (map_eff ?ev (split_conjuncts (BinaryOp BAnd a b))) (\<lambda>vs. ret (?h vs))"
    by (simp add: map_eff_append bind_eff_assoc)
  finally have "?ev (BinaryOp BAnd a b) =
      bind_eff (map_eff ?ev (split_conjuncts (BinaryOp BAnd a b))) (\<lambda>vs. ret (?h vs))" .
  moreover have "and_fold ?h (length (split_conjuncts (BinaryOp BAnd a b)))"
    using and_fold_join [OF f(2) g(2)] by simp
  ultimately show ?case by (intro exI [of _ ?h] conjI)
qed (rule single_conjunct, simp)+

lemma split_chain:
  "\<forall>p\<in>set (q # ps). split_conjuncts p = [p] \<Longrightarrow> split_conjuncts (foldl (BinaryOp BAnd) q ps) = q # ps"
  by (induction ps rule: rev_induct) auto

lemma split_split: "p \<in> set (split_conjuncts e) \<Longrightarrow> split_conjuncts p = [p]"
  by (induction e rule: split_conjuncts.induct) auto

lemma split_combine:
  assumes "ps \<noteq> []" "\<forall>p\<in>set ps. split_conjuncts p = [p]"
  shows "split_conjuncts (combine_conjuncts ps) = ps"
proof -
  obtain q qs where ps: "ps = q # qs" using assms(1) by (cases ps) auto
  then show ?thesis using split_chain [of q qs] assms(2) by (simp add: combine_conjuncts_def)
qed

lemma split_combine_split [simp]: "split_conjuncts (combine_conjuncts (split_conjuncts e)) = split_conjuncts e"
  by (rule split_combine) (auto dest: split_split)

section \<open>LIKE\<close>

fun piece_fits :: "like_piece \<Rightarrow> string \<Rightarrow> bool" where
  "piece_fits AnyRun part = True"
| "piece_fits AnyChar part = (length part = 1)"
| "piece_fits (Exactly c) part = (part = [c])"

lemma full_match_run: "full_match (AnyRun # ps) s \<longleftrightarrow> (\<exists>u v. s = u @ v \<and> full_match ps v)"
proof (induction s)
  case (Cons c s)
  have "full_match (AnyRun # ps) (c # s) \<longleftrightarrow> full_match ps (c # s) \<or> (\<exists>u v. s = u @ v \<and> full_match ps v)"
    using Cons by simp
  also have "\<dots> \<longleftrightarrow> (\<exists>u v. c # s = u @ v \<and> full_match ps v)" by (auto simp: Cons_eq_append_conv)
  finally show ?case .
qed simp

lemma one_char: "(\<exists>u v. s = u @ v \<and> length u = 1 \<and> P v) \<longleftrightarrow> (\<exists>c cs. s = c # cs \<and> P cs)"
  by (auto simp: length_Suc_conv) (metis append_Cons append_Nil)

lemma length_like_pieces [simp]: "length (like_pieces pattern) = length pattern"
  by (simp add: like_pieces_def)

lemma piece_at:
  "i < length pattern \<Longrightarrow> piece_fits (like_pieces pattern ! i) part \<longleftrightarrow>
     pattern ! i = CHR ''%'' \<or> (if pattern ! i = CHR ''_'' then length part = 1 else part = [pattern ! i])"
  by (simp add: like_pieces_def)

lemma full_match_parts: "full_match ps s \<longleftrightarrow> (\<exists>parts. list_all2 piece_fits ps parts \<and> concat parts = s)"
proof (induction ps arbitrary: s)
  case (Cons p ps)
  have "full_match (p # ps) s \<longleftrightarrow> (\<exists>u v. s = u @ v \<and> piece_fits p u \<and> full_match ps v)"
  proof (cases p)
    case AnyChar
    then show ?thesis by (cases s) (auto simp: one_char [of _ "full_match ps", unfolded One_nat_def])
  next
    case (Exactly x)
    then show ?thesis by (cases s) auto
  qed (simp add: full_match_run del: full_match.simps)
  also have "\<dots> \<longleftrightarrow> (\<exists>u parts. s = u @ concat parts \<and> piece_fits p u \<and> list_all2 piece_fits ps parts)"
    unfolding Cons.IH by blast
  also have "\<dots> \<longleftrightarrow> (\<exists>parts. list_all2 piece_fits (p # ps) parts \<and> concat parts = s)"
  proof
    assume "\<exists>u parts. s = u @ concat parts \<and> piece_fits p u \<and> list_all2 piece_fits ps parts"
    then obtain u parts where "s = concat (u # parts)" "list_all2 piece_fits (p # ps) (u # parts)" by auto
    then show "\<exists>parts. list_all2 piece_fits (p # ps) parts \<and> concat parts = s" by blast
  next
    assume "\<exists>parts. list_all2 piece_fits (p # ps) parts \<and> concat parts = s"
    then obtain u parts where "list_all2 piece_fits (p # ps) (u # parts)" "concat (u # parts) = s"
      by (metis list_all2_Cons1)
    then show "\<exists>u parts. s = u @ concat parts \<and> piece_fits p u \<and> list_all2 piece_fits ps parts" by auto
  qed
  finally show ?case .
qed auto

end
