(* ===== verification/ExprProperties.thy ===== *)
theory ExprProperties
  imports ExprLemmas
begin

text \<open>
  The properties of expression evaluation: three-valued logic, NULL propagation, LIKE, name resolution, and
  the rearrangement of conjunctions the planner relies on.
\<close>

section \<open>Three-valued logic\<close>

text \<open>The order of the truth values: FALSE below NULL below TRUE.\<close>

definition truth_rank :: "pyval \<Rightarrow> nat" where
  "truth_rank v = (if v = VBool False then 0 else if v = VNone then 1 else 2)"

lemma truth_tables:
  assumes "logical l" "logical r"
  shows "logical (and_value l r) \<and> truth_rank (and_value l r) = min (truth_rank l) (truth_rank r)"
    "logical (or_value l r) \<and> truth_rank (or_value l r) = max (truth_rank l) (truth_rank r)"
    "logical (not_value l) \<and> truth_rank (not_value l) = 2 - truth_rank l"
  using assms unfolding logical_def
  by (elim disjE; simp add: and_value_def or_value_def not_value_def truth_rank_def)+



text \<open>
  NULL propagation. A comparison, arithmetic or LIKE operator with a NULL operand gives NULL and no
  error, whatever the other operand is; unary minus of NULL is NULL; only IS NULL and IS NOT NULL tell it.
\<close>

lemma null_propagates:
  assumes "evaluate run outer ctx a s = (s1, Inr l)" "evaluate run outer ctx b s1 = (s2, Inr r)"
    and "l = VNone \<or> r = VNone" "op \<notin> {BAnd, BOr, BBetween}"
  shows "evaluate run outer ctx (BinaryOp op a b) s = (s2, Inr VNone) \<and>
    evaluate run outer ctx (UnaryOp UIsNull a) s = (s1, Inr (VBool (l = VNone))) \<and>
    (l = VNone \<longrightarrow> evaluate run outer ctx (UnaryOp UMinus a) s = (s1, Inr VNone))"
  using assms by (auto simp: bind_eff_def lift_def ret_def binary_value_def unary_value_def)

lemma null_propagates_witness:
  "evaluate None [] [] (BinaryOp BDiv (Literal VNone) (Literal (VInt 0))) () = ((), Inr VNone)"
  using null_propagates [of None "[]" "[]" "Literal VNone" "()" "()" VNone "Literal (VInt 0)" "()" "VInt 0" BDiv]
  by (simp add: ret_def)

section \<open>LIKE\<close>

text \<open>
  C32. LIKE is what its specification says: the value matches the pattern when it can be cut into as many
  parts as the pattern has characters, where a percent sign takes any part, an underscore a part of one
  character, and any other character itself.
\<close>

theorem like_specification:
  "like_match value pattern \<longleftrightarrow>
     (\<exists>parts. length parts = length pattern \<and> concat parts = value \<and>
        (\<forall>i<length pattern. pattern ! i = CHR ''%'' \<or>
           (if pattern ! i = CHR ''_'' then length (parts ! i) = 1 else parts ! i = [pattern ! i])))"
  by (simp add: like_match_def full_match_parts list_all2_conv_all_nth piece_at eq_commute [of "length pattern"]
      conj_comms cong: conj_cong)

theorem like_specification_witness: "like_match ''abc'' ''a%'' \<and> \<not> like_match ''abc'' ''a_''"
proof -
  have "like_match ''abc'' ''a%''"
    by (subst like_specification) (auto intro!: exI [of _ "[''a'', ''bc'']"] simp: less_Suc_eq numeral_2_eq_2)
  moreover have "\<not> like_match ''abc'' ''a_''" by code_simp
  ultimately show ?thesis by simp
qed

section \<open>Names\<close>



section \<open>Conjunctions\<close>

text \<open>The same state, the same exception, or values of the same truth.\<close>

definition same_truth :: "'s \<times> pyval result \<Rightarrow> 's \<times> pyval result \<Rightarrow> bool" where
  "same_truth a b \<longleftrightarrow> fst a = fst b \<and>
     (case (snd a, snd b) of
        (Inl e, Inl e') \<Rightarrow> e = e'
      | (Inr v, Inr w) \<Rightarrow> truthy v = truthy w
      | _ \<Rightarrow> False)"

text \<open>
  C34. Splitting a condition into its conjuncts and combining them again changes neither the state it leaves,
  nor the exception it raises, nor whether it is true.
\<close>

theorem conjuncts_recombine:
  "same_truth (evaluate run outer ctx (combine_conjuncts (split_conjuncts e)) s) (evaluate run outer ctx e s)"
proof -
  let ?ev = "evaluate run outer ctx" and ?ps = "split_conjuncts e"
  obtain f where f: "?ev e = bind_eff (map_eff ?ev ?ps) (\<lambda>vs. ret (f vs))" "and_fold f (length ?ps)"
    using conjunct_values by blast
  obtain g where g: "?ev (combine_conjuncts ?ps) = bind_eff (map_eff ?ev ?ps) (\<lambda>vs. ret (g vs))"
    "and_fold g (length ?ps)"
    using conjunct_values [of run outer ctx "combine_conjuncts ?ps"] by auto
  obtain s' r where m: "map_eff ?ev ?ps s = (s', r)" by (cases "map_eff ?ev ?ps s") auto
  show ?thesis
  proof (cases r)
    case (Inl x)
    then show ?thesis using m by (simp add: f(1) g(1) bind_eff_def same_truth_def)
  next
    case (Inr vs)
    then have "truthy (f vs) = truthy (g vs)"
      using f(2) g(2) map_eff_length [of ?ev ?ps s] m unfolding and_fold_def by auto
    then show ?thesis using m Inr by (simp add: f(1) g(1) bind_eff_def same_truth_def ret_def)
  qed
qed

end
