(* ===== verification/Planner.thy ===== *)
theory Planner
  imports Expressions
begin

text \<open>
  The query planner, \<^verbatim>\<open>minidb/engine/planner.py\<close>: the conjuncts of WHERE and ON are distributed over the
  scans of the base table and the joined tables. The program's list of scans holds the very objects the
  join plans hold; here a plan has the base scan and the join plans, and \<open>plan_scans\<close> is the list. The
  test \<open>jp.scan is scan and jp.kind == "LEFT"\<close> is then the kind of the join plan itself.
\<close>

section \<open>Plans\<close>

record scan_plan =
  sp_table :: string
  sp_alias :: string
  sp_columns :: "string list"
  sp_pushed :: "expr list"

record join_plan =
  jp_scan :: scan_plan
  jp_kind :: join_kind
  jp_pushed :: "expr list"
  jp_pred :: expr

record query_plan =
  qp_base :: "scan_plan option"
  qp_joins :: "join_plan list"
  qp_remainder :: "expr list"
  qp_having :: expr
  qp_aggregates :: bool
  qp_description :: string

definition plan_scans :: "query_plan \<Rightarrow> scan_plan list" where
  "plan_scans p = (case qp_base p of None \<Rightarrow> [] | Some b \<Rightarrow> [b]) @ map jp_scan (qp_joins p)"

definition alias_columns :: "scan_plan \<Rightarrow> string set" where
  "alias_columns p = insert (py_lower (sp_alias p)) (set (sp_columns p))"

section \<open>Tests on expressions\<close>

fun contains_subquery :: "expr \<Rightarrow> bool" where
  "contains_subquery (Subquery q) = True"
| "contains_subquery (InSubquery e q negated) = True"
| "contains_subquery (Exists q negated) = True"
| "contains_subquery (UnaryOp op e) = contains_subquery e"
| "contains_subquery (BinaryOp op a b) = (contains_subquery a \<or> contains_subquery b)"
| "contains_subquery (FuncCall name args dct star) = list_ex contains_subquery args"
| "contains_subquery _ = False"

fun refers_locally :: "string list \<Rightarrow> string \<Rightarrow> expr \<Rightarrow> bool" where
  "refers_locally cols al (ColumnRef name tab) =
     ((case tab of None \<Rightarrow> True | Some t \<Rightarrow> py_lower t = al) \<and> py_lower name \<in> set cols)"
| "refers_locally cols al (UnaryOp op e) = refers_locally cols al e"
| "refers_locally cols al (BinaryOp op a b) = (refers_locally cols al a \<and> refers_locally cols al b)"
| "refers_locally cols al (FuncCall name args dct star) = list_all (refers_locally cols al) args"
| "refers_locally cols al _ = True"

definition conjunct_is_local :: "expr \<Rightarrow> scan_plan \<Rightarrow> bool" where
  "conjunct_is_local pred p \<longleftrightarrow>
     \<not> contains_subquery pred \<and> refers_locally (sp_columns p) (py_lower (sp_alias p)) pred"

definition AGG_FUNCS :: "string list" where
  "AGG_FUNCS = [''COUNT'', ''SUM'', ''AVG'', ''MIN'', ''MAX'']"

fun contains_aggregate :: "expr \<Rightarrow> bool" where
  "contains_aggregate (FuncCall name args dct star) =
     (py_upper name \<in> set AGG_FUNCS \<or> list_ex contains_aggregate args)"
| "contains_aggregate (UnaryOp op e) = contains_aggregate e"
| "contains_aggregate (BinaryOp op a b) = (contains_aggregate a \<or> contains_aggregate b)"
| "contains_aggregate _ = False"

section \<open>Distribution of the conjuncts\<close>

definition push_to_scan :: "expr \<Rightarrow> scan_plan \<Rightarrow> scan_plan" where
  "push_to_scan pred p = p\<lparr>sp_pushed := sp_pushed p @ [pred]\<rparr>"

text \<open>The first join, from the left, that is no LEFT JOIN and whose table the conjunct is local to.\<close>

fun place_in_joins :: "expr \<Rightarrow> join_plan list \<Rightarrow> join_plan list option" where
  "place_in_joins pred [] = None"
| "place_in_joins pred (j # js) =
     (if jp_kind j \<noteq> JLeft \<and> conjunct_is_local pred (jp_scan j)
      then Some (j\<lparr>jp_scan := push_to_scan pred (jp_scan j)\<rparr> # js)
      else map_option ((#) j) (place_in_joins pred js))"

type_synonym layout = "scan_plan option \<times> join_plan list"

definition place_where :: "expr \<Rightarrow> layout \<Rightarrow> layout option" where
  "place_where pred lay =
     (case lay of (base, js) \<Rightarrow>
        if contains_subquery pred then None
        else case base of
          Some b \<Rightarrow>
            if conjunct_is_local pred b then Some (Some (push_to_scan pred b), js)
            else map_option (\<lambda>js'. (base, js')) (place_in_joins pred js)
        | None \<Rightarrow> map_option (\<lambda>js'. (base, js')) (place_in_joins pred js))"

fun distribute_where :: "expr list \<Rightarrow> layout \<Rightarrow> layout \<times> expr list" where
  "distribute_where [] lay = (lay, [])"
| "distribute_where (pred # cs) lay =
     (case place_where pred lay of
        Some lay' \<Rightarrow> distribute_where cs lay'
      | None \<Rightarrow> (case distribute_where cs lay of (lay', rest) \<Rightarrow> (lay', pred # rest)))"

definition and_chain :: "expr list \<Rightarrow> expr" where
  "and_chain preds = (case preds of [] \<Rightarrow> Missing | p # ps \<Rightarrow> foldl (BinaryOp BAnd) p ps)"

text \<open>The conjuncts of one ON condition; the third component collects what stays in the join.\<close>

definition local_to_base :: "expr \<Rightarrow> scan_plan option \<Rightarrow> join_plan \<Rightarrow> bool" where
  "local_to_base pred base j \<longleftrightarrow>
     jp_kind j = JInner \<and> (case base of None \<Rightarrow> False | Some b \<Rightarrow> conjunct_is_local pred b)"

fun distribute_on :: "expr list \<Rightarrow> scan_plan option \<Rightarrow> join_plan \<Rightarrow> scan_plan option \<times> join_plan \<times> expr list" where
  "distribute_on [] base j = (base, j, [])"
| "distribute_on (pred # cs) base j =
     (if conjunct_is_local pred (jp_scan j)
      then distribute_on cs base (j\<lparr>jp_pushed := jp_pushed j @ [pred]\<rparr>)
      else if local_to_base pred base j
      then distribute_on cs (map_option (push_to_scan pred) base) j
      else case distribute_on cs base j of (base', j', rest) \<Rightarrow> (base', j', pred # rest))"

fun distribute_ons :: "join_spec list \<Rightarrow> scan_plan option \<Rightarrow> join_plan list \<Rightarrow> layout" where
  "distribute_ons (s # ss) base (j # js) =
     (case distribute_on (split_conjuncts (js_on s)) base j of
        (base', j', rest) \<Rightarrow>
          (case distribute_ons ss base' js of
             (base'', js') \<Rightarrow> (base'', j'\<lparr>jp_pred := and_chain rest\<rparr> # js')))"
| "distribute_ons _ base js = (base, js)"

section \<open>The description\<close>

fun kind_name :: "join_kind \<Rightarrow> string" where
  "kind_name JInner = ''INNER''"
| "kind_name JLeft = ''LEFT''"

definition show_length :: "'a list \<Rightarrow> string" where
  "show_length xs = show_int (int (length xs))"

definition pushed_note :: "expr list \<Rightarrow> string" where
  "pushed_note ps = (if ps = [] then [] else '' | filter pushed: '' @ show_length ps)"

definition describe_join :: "join_plan \<Rightarrow> string" where
  "describe_join j =
     kind_name (jp_kind j) @ '' JOIN '' @ sp_table (jp_scan j) @ '' as '' @ sp_alias (jp_scan j) @
     pushed_note (jp_pushed j)"

definition describe_tail :: "expr list \<Rightarrow> select \<Rightarrow> string list" where
  "describe_tail remaining stmt =
     (if remaining = [] then [] else [''Filter | '' @ show_length remaining @ '' cross-table/residual predicate(s)'']) @
     (if sel_group_by stmt = [] then [] else [''GroupBy | '' @ show_length (sel_group_by stmt) @ '' key(s)'']) @
     (if sel_having stmt = Missing then [] else [''Having'']) @
     (if sel_distinct stmt then [''Distinct''] else []) @
     (if sel_order_by stmt = [] then [] else [''OrderBy | '' @ show_length (sel_order_by stmt) @ '' key(s)'']) @
     (case sel_limit stmt of
        None \<Rightarrow> []
      | Some n \<Rightarrow>
          [''Limit '' @ show_int n @
           (case sel_offset stmt of
              None \<Rightarrow> []
            | Some k \<Rightarrow> if k = 0 then [] else '' offset '' @ show_int k)])"

fun join_lines :: "string list \<Rightarrow> string" where
  "join_lines [] = []"
| "join_lines [l] = l"
| "join_lines (l # ls) = l @ CHR 10 # join_lines ls"

definition describe_plan :: "scan_plan option \<Rightarrow> join_plan list \<Rightarrow> expr list \<Rightarrow> select \<Rightarrow> bool \<Rightarrow> string" where
  "describe_plan base js remaining stmt has_aggs =
     (let lines =
            (case base of
               None \<Rightarrow> []
             | Some b \<Rightarrow> [''Scan '' @ sp_table b @ '' as '' @ sp_alias b @ pushed_note (sp_pushed b)]) @
            map describe_join js @ describe_tail remaining stmt
      in join_lines (if has_aggs \<and> sel_group_by stmt = []
                     then list_insert 1 ''Aggregate | scalar aggregation'' lines else lines))"

section \<open>The planner\<close>

type_synonym schemas = "(string \<times> string list) list"

definition columns_in :: "schemas \<Rightarrow> string \<Rightarrow> string list result" where
  "columns_in schemas t = (case map_of schemas t of Some cs \<Rightarrow> Inr cs | None \<Rightarrow> Inl KeyError)"

text \<open>\<open>a or b\<close> on an optional string and a string: the empty string counts as absent.\<close>

definition or_name :: "string option \<Rightarrow> string \<Rightarrow> string" where
  "or_name a b = (case a of Some (c # cs) \<Rightarrow> c # cs | _ \<Rightarrow> b)"

definition from_name :: "select \<Rightarrow> string" where
  "from_name stmt = or_name (sel_from stmt) []"

definition new_scan :: "schemas \<Rightarrow> string \<Rightarrow> string \<Rightarrow> scan_plan result" where
  "new_scan schemas t al =
     bind_result (columns_in schemas t)
       (\<lambda>cs. Inr \<lparr>sp_table = t, sp_alias = py_lower al, sp_columns = cs, sp_pushed = []\<rparr>)"

definition new_join :: "schemas \<Rightarrow> join_spec \<Rightarrow> join_plan result" where
  "new_join schemas s =
     bind_result (new_scan schemas (js_table s) (or_name (js_alias s) (js_table s)))
       (\<lambda>p. Inr \<lparr>jp_scan = p, jp_kind = js_kind s, jp_pushed = [], jp_pred = Missing\<rparr>)"

definition base_plan :: "schemas \<Rightarrow> select \<Rightarrow> scan_plan option result" where
  "base_plan schemas stmt =
     (if from_name stmt = [] then Inr None
      else bind_result (new_scan schemas (from_name stmt) (or_name (sel_alias stmt) (from_name stmt)))
             (\<lambda>p. Inr (Some p)))"

definition is_star :: "expr \<Rightarrow> bool" where
  "is_star e = (case e of Star _ \<Rightarrow> True | _ \<Rightarrow> False)"

definition has_aggregates :: "select \<Rightarrow> bool" where
  "has_aggregates stmt \<longleftrightarrow>
     sel_group_by stmt \<noteq> [] \<or> list_ex (\<lambda>p. \<not> is_star p \<and> contains_aggregate p) (sel_projections stmt) \<or>
     sel_having stmt \<noteq> Missing"

definition finish_plan :: "select \<Rightarrow> scan_plan option \<Rightarrow> join_plan list \<Rightarrow> query_plan" where
  "finish_plan stmt base js =
     (case distribute_where (split_conjuncts (sel_where stmt)) (base, js) of
        ((base1, js1), remaining) \<Rightarrow>
          (case distribute_ons (sel_joins stmt) base1 js1 of
             (base2, js2) \<Rightarrow>
               \<lparr>qp_base = base2, qp_joins = js2, qp_remainder = remaining, qp_having = sel_having stmt,
                qp_aggregates = has_aggregates stmt,
                qp_description = describe_plan base2 js2 remaining stmt (has_aggregates stmt)\<rparr>))"

definition plan_select :: "select \<Rightarrow> schemas \<Rightarrow> query_plan result" where
  "plan_select stmt schemas =
     bind_result (base_plan schemas stmt) (\<lambda>base.
     bind_result (map_result (new_join schemas) (sel_joins stmt)) (\<lambda>js.
       Inr (finish_plan stmt base js)))"

end
