(* ===== verification/ExecBase.thy ===== *)
theory ExecBase
  imports Planner Database
begin

text \<open>
  The utilities at the end of \<^verbatim>\<open>minidb/engine/executor.py\<close>: sort keys with their NULL placement, the
  stable sort, binary operators over aggregates, display names and equality of expressions; also the
  Python operations on rows the executor uses (slices, indexing, duplicate removal).
\<close>

section \<open>Sort keys\<close>

text \<open>\<open>_OrderKey\<close>: the rank of NULL, the value and the direction (True for DESC) of its \<open>_Cmp\<close>.\<close>

record order_key =
  ok_rank :: nat
  ok_value :: pyval
  ok_desc :: bool

definition new_order_key :: "pyval \<Rightarrow> bool \<Rightarrow> order_key" where
  "new_order_key v desc =
     \<lparr>ok_rank = (if desc then (if v = VNone then 0 else 1) else (if v = VNone then 1 else 0)),
      ok_value = v, ok_desc = desc\<rparr>"

fun type_label :: "pyval \<Rightarrow> string" where
  "type_label VNone = ''NoneType''"
| "type_label (VBool b) = ''bool''"
| "type_label (VInt i) = ''int''"
| "type_label (VFloat x) = ''float''"
| "type_label (VStr s) = ''str''"

definition labelled :: "pyval \<Rightarrow> string" where
  "labelled v = type_label v @ '':'' @ py_str v"

text \<open>\<open>_cmp\<close>; a TypeError of the comparison means a comparison of the labelled texts.\<close>

definition cmp_values :: "pyval \<Rightarrow> pyval \<Rightarrow> int" where
  "cmp_values a b =
     (if a = VNone \<or> b = VNone then 0
      else case (py_lt a b, py_lt b a) of
             (Inr lt, Inr gt) \<Rightarrow> if lt then - 1 else if gt then 1 else 0
           | _ \<Rightarrow> if labelled a < labelled b then - 1 else if labelled b < labelled a then 1 else 0)"

definition cmp_less :: "order_key \<Rightarrow> order_key \<Rightarrow> bool" where
  "cmp_less a b =
     (let c = cmp_values (ok_value a) (ok_value b) in if ok_desc a then c > 0 else c < 0)"

definition cmp_equal :: "order_key \<Rightarrow> order_key \<Rightarrow> bool" where
  "cmp_equal a b \<longleftrightarrow> cmp_values (ok_value a) (ok_value b) = 0"

definition key_less :: "order_key \<Rightarrow> order_key \<Rightarrow> bool" where
  "key_less a b \<longleftrightarrow> ok_rank a < ok_rank b \<or> (ok_rank a = ok_rank b \<and> \<not> cmp_equal a b \<and> cmp_less a b)"

definition key_equal :: "order_key \<Rightarrow> order_key \<Rightarrow> bool" where
  "key_equal a b \<longleftrightarrow> ok_rank a = ok_rank b \<and> cmp_equal a b"

text \<open>Comparison of tuples: the first position whose entries differ decides.\<close>

fun keys_less :: "order_key list \<Rightarrow> order_key list \<Rightarrow> bool" where
  "keys_less (a # as) (b # bs) = (if key_equal a b then keys_less as bs else key_less a b)"
| "keys_less [] bs = (bs \<noteq> [])"
| "keys_less as [] = False"

text \<open>
  \<open>sorted\<close> with a key: the stable sort. Only \<open><\<close> of the keys is used; for a weak order every stable sort
  returns this list.
\<close>

fun insert_by :: "('a \<Rightarrow> 'a \<Rightarrow> bool) \<Rightarrow> 'a \<Rightarrow> 'a list \<Rightarrow> 'a list" where
  "insert_by lt x [] = [x]"
| "insert_by lt x (y # ys) = (if lt y x then y # insert_by lt x ys else x # y # ys)"

definition sort_by :: "('a \<Rightarrow> 'a \<Rightarrow> bool) \<Rightarrow> 'a list \<Rightarrow> 'a list" where
  "sort_by lt xs = foldr (insert_by lt) xs []"

definition sort_rows :: "(order_key list \<times> 'r) list \<Rightarrow> 'r list" where
  "sort_rows rows = map snd (sort_by (\<lambda>a b. keys_less (fst a) (fst b)) rows)"

section \<open>repr()\<close>

definition hex_digit :: "nat \<Rightarrow> char" where
  "hex_digit n = (if n < 10 then char_of (48 + n) else char_of (87 + n))"

definition repr_char :: "char \<Rightarrow> char \<Rightarrow> string" where
  "repr_char q c =
     (let n = char_code c
      in if c = q \<or> n = 92 then [CHR 92, c]
         else if n = 10 then [CHR 92, CHR ''n'']
         else if n = 13 then [CHR 92, CHR ''r'']
         else if n = 9 then [CHR 92, CHR ''t'']
         else if n < 32 \<or> n = 127 then [CHR 92, CHR ''x'', hex_digit (n div 16), hex_digit (n mod 16)]
         else [c])"

definition repr_str :: "string \<Rightarrow> string" where
  "repr_str s =
     (let q = (if CHR 39 \<in> set s \<and> CHR 34 \<notin> set s then CHR 34 else CHR 39)
      in [q] @ concat (map (repr_char q) s) @ [q])"

fun py_repr :: "pyval \<Rightarrow> string" where
  "py_repr (VStr s) = repr_str s"
| "py_repr v = py_str v"

fun comma_separated :: "string list \<Rightarrow> string" where
  "comma_separated [] = []"
| "comma_separated [x] = x"
| "comma_separated (x # xs) = x @ '', '' @ comma_separated xs"

definition key_sort_text :: "rowkey \<Rightarrow> string \<times> string" where
  "key_sort_text k =
     (case k of
        KVal v \<Rightarrow> (type_label v, py_repr v)
      | KTup vs \<Rightarrow>
          (''tuple'', ''('' @ comma_separated (map py_repr vs) @ (if length vs = 1 then '','' else []) @ '')''))"

definition sort_candidates :: "rowkey list \<Rightarrow> rowkey list" where
  "sort_candidates ks = sort_by (\<lambda>a b. key_sort_text a < key_sort_text b) ks"

section \<open>Rows\<close>

text \<open>Equality of tuples of values, as sets and dictionaries use it; a NaN equals nothing.\<close>

definition row_eq :: "pyval list \<Rightarrow> pyval list \<Rightarrow> bool" where
  "row_eq r s \<longleftrightarrow> list_all2 py_eq r s"

definition distinct_by :: "('a \<Rightarrow> 'a \<Rightarrow> bool) \<Rightarrow> 'a list \<Rightarrow> 'a list" where
  "distinct_by eq xs = rev (fold (\<lambda>x seen. if list_ex (\<lambda>y. eq y x) seen then seen else x # seen) xs [])"

definition slice_start :: "int \<Rightarrow> 'a list \<Rightarrow> nat" where
  "slice_start k xs = nat (if k < 0 then int (length xs) + k else k)"

definition slice_from :: "int \<Rightarrow> 'a list \<Rightarrow> 'a list" where
  "slice_from k xs = drop (slice_start k xs) xs"

definition slice_to :: "int \<Rightarrow> 'a list \<Rightarrow> 'a list" where
  "slice_to k xs = take (slice_start k xs) xs"

text \<open>\<open>row[idx] if idx < len(row) else None\<close>: a negative index counts from the end.\<close>

definition ordinal_value :: "int \<Rightarrow> pyval list \<Rightarrow> pyval result" where
  "ordinal_value idx row =
     (if idx < int (length row) then
        (if 0 \<le> idx then Inr (row ! nat idx)
         else if - int (length row) \<le> idx then Inr (row ! nat (int (length row) + idx))
         else Inl IndexError)
      else Inr VNone)"

section \<open>Operators in HAVING\<close>

text \<open>
  \<open>_apply_binary\<close> has the operators of \<open>_eval_binary\<close> without LIKE and BETWEEN; a division by zero or an
  operator it does not have is an ExecutionError, and a TypeError escapes.
\<close>

definition apply_binary :: "binop \<Rightarrow> pyval \<Rightarrow> pyval \<Rightarrow> pyval result" where
  "apply_binary op l r =
     (if op = BAnd then Inr (and_value l r)
      else if op = BOr then Inr (or_value l r)
      else if l = VNone \<or> r = VNone then Inr VNone
      else case plain_binary op l r of
             Inl e \<Rightarrow> Inl (if e = EvalError then ExecutionError else e)
           | Inr v \<Rightarrow> Inr v)"

section \<open>Names\<close>

fun expr_name :: "expr \<Rightarrow> string" where
  "expr_name (ColumnRef name tab) = (case tab of Some (c # cs) \<Rightarrow> (c # cs) @ ''.'' @ name | _ \<Rightarrow> name)"
| "expr_name (FuncCall name args dct star) =
     name @ ''('' @ (if dct then ''DISTINCT '' else []) @
     (if star then ''*'' else comma_separated (map expr_name args)) @ '')''"
| "expr_name _ = ''expr''"

definition agg_name :: "string \<Rightarrow> expr list \<Rightarrow> bool \<Rightarrow> string result" where
  "agg_name name args star =
     (if star then Inr (name @ ''(*)'')
      else case args of [] \<Rightarrow> Inl IndexError | e # _ \<Rightarrow> Inr (name @ ''('' @ expr_name e @ '')''))"

section \<open>Equality of expressions\<close>

text \<open>
  \<open>==\<close> of two syntax trees compares them field by field; literals compare as values, so \<open>1\<close>, \<open>1.0\<close> and
  \<open>TRUE\<close> are equal. \<open>plain\<close> writes every literal in one form per value.
\<close>

definition plain_value :: "pyval \<Rightarrow> pyval" where
  "plain_value v =
     (case as_num v of
        Some n \<Rightarrow> (case num_float n of FFin q \<Rightarrow> (if of_int \<lfloor>q\<rfloor> = q then VInt \<lfloor>q\<rfloor> else VFloat (FFin q)) | x \<Rightarrow> VFloat x)
      | None \<Rightarrow> v)"

primrec plain :: "expr \<Rightarrow> expr" and plain_select :: "select \<Rightarrow> select" and plain_join :: "join_spec \<Rightarrow> join_spec" where
  "plain Missing = Missing"
| "plain (Literal v) = Literal (plain_value v)"
| "plain (ColumnRef name tab) = ColumnRef name tab"
| "plain (Star tab) = Star tab"
| "plain (UnaryOp op e) = UnaryOp op (plain e)"
| "plain (BinaryOp op a b) = BinaryOp op (plain a) (plain b)"
| "plain (FuncCall name args dct star) = FuncCall name (map plain args) dct star"
| "plain (Subquery q) = Subquery (plain_select q)"
| "plain (InSubquery e q negated) = InSubquery (plain e) (plain_select q) negated"
| "plain (Exists q negated) = Exists (plain_select q) negated"
| "plain_select (SelectStmt ps ft fa js wh gb hv ob lm off dst) =
     SelectStmt (map plain ps) ft fa (map plain_join js) (plain wh) (map plain gb) (plain hv)
       (map (map_prod plain id) ob) lm off dst"
| "plain_join (JoinSpec t a k e) = JoinSpec t a k (plain e)"

definition expr_equiv :: "expr \<Rightarrow> expr \<Rightarrow> bool" where
  "expr_equiv a b =
     (case (a, b) of
        (ColumnRef n t, ColumnRef m u) \<Rightarrow>
          py_lower n = py_lower m \<and>
          py_lower (case t of Some s \<Rightarrow> s | None \<Rightarrow> []) = py_lower (case u of Some s \<Rightarrow> s | None \<Rightarrow> [])
      | _ \<Rightarrow> plain a = plain b)"

end
