(* ===== verification/ExecSelect.thy ===== *)
theory ExecSelect
  imports ExecBase LockHandlers
begin

text \<open>
  The query part of \<^verbatim>\<open>minidb/engine/executor.py\<close>: scans with index lookup, nested-loop joins, grouping
  and aggregates, projection, ordering, and \<open>_exec_select\<close> itself.

  A step changes the database and returns a result or raises. The transaction object is the entry of the
  manager's table, named by its id. The argument \<open>w\<close> of the steps that ask for a lock is what the other
  sessions do to the database up to the moment the lock tables are examined; after one more look at the
  unchanged tables the deadline has passed.

  The context-dependent evaluation, with the subquery runner and the stack of outer contexts already in
  place, is an argument \<open>ev\<close> of the functions below.
\<close>

record result_set =
  rs_columns :: "string list"
  rs_rows :: "pyval list list"

type_synonym world = "database \<Rightarrow> database"
type_synonym 's evaluator = "scope \<Rightarrow> expr \<Rightarrow> ('s, pyval) eff"
type_synonym joined_row = "pyval list list"

definition scalar :: "result_set \<Rightarrow> pyval result" where
  "scalar rs = scalar_of (rs_rows rs)"

section \<open>Steps on the database\<close>

definition on_manager :: "(txn_manager \<Rightarrow> txn_manager) \<Rightarrow> database \<Rightarrow> database" where
  "on_manager f db = db\<lparr>db_mgr := f (db_mgr db)\<rparr>"

definition the_txn :: "txid \<Rightarrow> (database, transaction) eff" where
  "the_txn tx db = lift (get_txn (db_mgr db) tx) db"

definition the_table :: "string \<Rightarrow> (database, table) eff" where
  "the_table name db = lift (get_table name db) db"

definition statement_snapshot :: "txid \<Rightarrow> (database, snapshot) eff" where
  "statement_snapshot tx =
     bind_eff (the_txn tx)
       (\<lambda>t db. case snapshot_for t (db_mgr db) of (m, s) \<Rightarrow> (db\<lparr>db_mgr := m\<rparr>, Inr s))"

text \<open>A fresh event for a waiter.\<close>

definition fresh_event :: "locks \<Rightarrow> lock_event" where
  "fresh_event lk =
     Suc (foldr max (concat (map (\<lambda>(_, r). map (\<lambda>(_, _, e). e) (res_waiters r)) (lk_resources lk))) 0)"

definition with_locks :: "world \<Rightarrow> (lock_event \<Rightarrow> locks \<Rightarrow> locks \<times> unit result) \<Rightarrow> (database, unit) eff" where
  "with_locks w f db =
     (let db1 = w db; lk = tm_locks (db_mgr db1)
      in case f (fresh_event lk) lk of
           (lk', r) \<Rightarrow> (on_manager (tm_locks_update (\<lambda>_. lk')) db1, r))"

definition lock_table :: "world \<Rightarrow> txid \<Rightarrow> string \<Rightarrow> mode \<Rightarrow> (database, unit) eff" where
  "lock_table w tx tab mode = with_locks w (\<lambda>ev. acquire_table tx tab mode ev [(id, id)] id)"

definition lock_row :: "world \<Rightarrow> txid \<Rightarrow> string \<Rightarrow> rowkey \<Rightarrow> mode \<Rightarrow> (database, unit) eff" where
  "lock_row w tx tab k mode =
     with_locks w (\<lambda>ev. acquire_row tx tab k mode ev [(id, id)] id ev [(id, id)] id)"

definition read_version :: "string \<Rightarrow> snapshot \<Rightarrow> rowkey \<Rightarrow> (database, version option) eff" where
  "read_version name snap key =
     bind_eff (the_table name) (\<lambda>t db. lift (visible_version (status (db_mgr db)) snap key t) db)"

definition read_scan :: "string \<Rightarrow> snapshot \<Rightarrow> (database, (rowkey \<times> pyval list) list) eff" where
  "read_scan name snap =
     bind_eff (the_table name) (\<lambda>t db. lift (table_scan (status (db_mgr db)) snap t) db)"

section \<open>Index lookup\<close>

definition is_key_ref :: "string \<Rightarrow> string \<Rightarrow> expr \<Rightarrow> bool" where
  "is_key_ref pk_name al ref =
     (case ref of
        ColumnRef name tab \<Rightarrow>
          py_lower name = pk_name \<and> (case tab of None \<Rightarrow> True | Some t \<Rightarrow> py_lower t = al)
      | _ \<Rightarrow> False)"

text \<open>The literal of \<open>pk = literal\<close> or \<open>literal = pk\<close>.\<close>

definition key_literal :: "string \<Rightarrow> string \<Rightarrow> expr \<Rightarrow> pyval option" where
  "key_literal pk_name al pred =
     (case pred of
        BinaryOp BEq l r \<Rightarrow>
          (case (is_key_ref pk_name al l, r) of
             (True, Literal v) \<Rightarrow> Some v
           | _ \<Rightarrow> (case (is_key_ref pk_name al r, l) of (True, Literal v) \<Rightarrow> Some v | _ \<Rightarrow> None))
      | _ \<Rightarrow> None)"

text \<open>\<open>_pk_eq_key\<close>; the lookup of the column is outside its \<open>try\<close>.\<close>

definition pk_eq_key :: "expr \<Rightarrow> string \<Rightarrow> string \<Rightarrow> table_schema \<Rightarrow> pyval option result" where
  "pk_eq_key pred pk_name al schema =
     (case key_literal pk_name al pred of
        None \<Rightarrow> Inr None
      | Some raw \<Rightarrow>
          bind_result (column_of schema pk_name) (\<lambda>col.
            Inr (case convert_value col raw of
                   Inl _ \<Rightarrow> None
                 | Inr v \<Rightarrow> if v = VNone then None else Some v)))"

definition pk_column :: "table_schema \<Rightarrow> column result" where
  "pk_column s = (case primary_key_columns s of [] \<Rightarrow> Inl IndexError | c # _ \<Rightarrow> Inr c)"

definition equality_keys :: "string \<Rightarrow> expr list \<Rightarrow> table_schema \<Rightarrow> pyval list result" where
  "equality_keys al preds schema =
     bind_result (pk_column schema) (\<lambda>c.
     bind_result (map_result (\<lambda>p. pk_eq_key p (py_lower (col_name c)) al schema) preds)
       (\<lambda>ks. Inr (List.map_filter id ks)))"

definition combine_keys :: "pyval list \<Rightarrow> pyval list option" where
  "combine_keys ks =
     (case ks of
        [] \<Rightarrow> None
      | k # rest \<Rightarrow> Some (if list_all (\<lambda>k'. py_eq k' k) rest then [k] else []))"

definition index_keys :: "table \<Rightarrow> scan_plan \<Rightarrow> pyval list option result" where
  "index_keys t p =
     (if \<not> has_user_pk t then Inr None
      else bind_result (equality_keys (sp_alias p) (sp_pushed p) (tb_schema t)) (\<lambda>ks. Inr (combine_keys ks)))"

definition where_pk_keys :: "table \<Rightarrow> expr \<Rightarrow> pyval list option result" where
  "where_pk_keys t wh =
     (if \<not> has_user_pk t \<or> wh = Missing then Inr None
      else bind_result (equality_keys (py_lower (sch_name (tb_schema t))) (split_conjuncts wh) (tb_schema t))
             (\<lambda>ks. Inr (combine_keys ks)))"

section \<open>Scans and joins\<close>

definition test :: "'s evaluator \<Rightarrow> scope \<Rightarrow> expr \<Rightarrow> ('s, bool) eff" where
  "test ev ctx pred = (if pred = Missing then ret True else bind_eff (ev ctx pred) (\<lambda>v. ret (truthy v)))"

definition row_scope :: "string \<Rightarrow> string list \<Rightarrow> pyval list \<Rightarrow> scope" where
  "row_scope al cols row = [\<lparr>sb_alias = al, sb_columns = cols, sb_row = Some row\<rparr>]"

definition accept_row :: "'s evaluator \<Rightarrow> scan_plan \<Rightarrow> pyval list \<Rightarrow> ('s, bool) eff" where
  "accept_row ev p row =
     test ev (row_scope (sp_alias p) (sp_columns p) row) (combine_conjuncts (sp_pushed p))"

definition lookup_key :: "database evaluator \<Rightarrow> snapshot \<Rightarrow> scan_plan \<Rightarrow> pyval \<Rightarrow> (database, pyval list list) eff" where
  "lookup_key ev snap p k =
     bind_eff (read_version (sp_table p) snap (KVal k)) (\<lambda>v.
       case v of
         None \<Rightarrow> ret []
       | Some ver \<Rightarrow> bind_eff (accept_row ev p (v_row ver)) (\<lambda>ok. ret (if ok then [v_row ver] else [])))"

definition run_scan :: "database evaluator \<Rightarrow> snapshot \<Rightarrow> scan_plan \<Rightarrow> (database, pyval list list) eff" where
  "run_scan ev snap p =
     bind_eff (the_table (sp_table p)) (\<lambda>t.
     bind_eff (lift (index_keys t p)) (\<lambda>idx.
       case idx of
         Some ks \<Rightarrow> bind_eff (map_eff (lookup_key ev snap p) ks) (\<lambda>rss. ret (concat rss))
       | None \<Rightarrow> bind_eff (read_scan (sp_table p) snap) (\<lambda>rows. filter_eff (accept_row ev p) (map snd rows))))"

definition row_context :: "scope \<Rightarrow> joined_row \<Rightarrow> scope" where
  "row_context sources row = with_rows sources (map Some row)"

definition join_row ::
  "'s evaluator \<Rightarrow> scope \<Rightarrow> join_plan \<Rightarrow> pyval list list \<Rightarrow> joined_row \<Rightarrow> ('s, joined_row list) eff" where
  "join_row ev sources jp right_rows lrow =
     bind_eff (filter_eff (\<lambda>rrow. test ev (row_context sources (lrow @ [rrow])) (jp_pred jp)) right_rows)
       (\<lambda>matches. ret (if matches = [] \<and> jp_kind jp = JLeft
                       then [lrow @ [replicate (length (sp_columns (jp_scan jp))) VNone]]
                       else map (\<lambda>rrow. lrow @ [rrow]) matches))"

fun join_all ::
  "database evaluator \<Rightarrow> snapshot \<Rightarrow> scope \<Rightarrow> join_plan list \<Rightarrow> joined_row list \<Rightarrow> (database, joined_row list) eff" where
  "join_all ev snap sources [] left = ret left"
| "join_all ev snap sources (jp # jps) left =
     bind_eff (run_scan ev snap (jp_scan jp)) (\<lambda>right.
     bind_eff (map_eff (join_row ev sources jp right) left) (\<lambda>parts.
       join_all ev snap sources jps (concat parts)))"

definition nested_loop_join ::
  "database evaluator \<Rightarrow> snapshot \<Rightarrow> scope \<Rightarrow> query_plan \<Rightarrow> (database, joined_row list) eff" where
  "nested_loop_join ev snap sources plan =
     (case plan_scans plan of
        [] \<Rightarrow> raise IndexError
      | p # _ \<Rightarrow> bind_eff (run_scan ev snap p) (\<lambda>rows. join_all ev snap sources (qp_joins plan) (map (\<lambda>r. [r]) rows)))"

section \<open>Aggregates\<close>

definition is_aggregate :: "string \<Rightarrow> bool" where
  "is_aggregate name \<longleftrightarrow> py_upper name \<in> set AGG_FUNCS"

fun sum_values :: "pyval \<Rightarrow> pyval list \<Rightarrow> pyval result" where
  "sum_values acc [] = Inr acc"
| "sum_values acc (v # vs) = bind_result (py_add acc v) (\<lambda>acc'. sum_values acc' vs)"

fun least_value :: "(pyval \<Rightarrow> pyval \<Rightarrow> bool result) \<Rightarrow> pyval \<Rightarrow> pyval list \<Rightarrow> pyval result" where
  "least_value lt best [] = Inr best"
| "least_value lt best (v # vs) = bind_result (lt v best) (\<lambda>b. least_value lt (if b then v else best) vs)"

definition reduce_values :: "string \<Rightarrow> pyval list \<Rightarrow> pyval result" where
  "reduce_values name values =
     (if name = ''COUNT'' then Inr (VInt (int (length values)))
      else case values of
             [] \<Rightarrow> Inr VNone
           | v # vs \<Rightarrow>
               if name = ''SUM'' then sum_values (VInt 0) values
               else if name = ''AVG'' then
                 bind_result (sum_values (VInt 0) values) (\<lambda>s. py_truediv s (VInt (int (length values))))
               else if name = ''MIN'' then least_value py_lt v vs
               else if name = ''MAX'' then least_value (\<lambda>a b. py_lt b a) v vs
               else Inl ExecutionError)"

definition agg_value ::
  "'s evaluator \<Rightarrow> scope \<Rightarrow> string \<Rightarrow> expr list \<Rightarrow> bool \<Rightarrow> bool \<Rightarrow> joined_row list \<Rightarrow> ('s, pyval) eff" where
  "agg_value ev sources name args dct star rows =
     (if star then
        (if py_upper name \<noteq> ''COUNT'' then raise ExecutionError else ret (VInt (int (length rows))))
      else case args of
             [] \<Rightarrow> raise IndexError
           | arg # _ \<Rightarrow>
               bind_eff (map_eff (\<lambda>row. ev (row_context sources row) arg) rows) (\<lambda>vs.
                 let values = filter (\<lambda>v. v \<noteq> VNone) vs
                 in lift (reduce_values (py_upper name) (if dct then distinct_by py_eq values else values))))"

definition having_unary :: "unop \<Rightarrow> pyval \<Rightarrow> pyval result" where
  "having_unary op v =
     (case op of
        UNot \<Rightarrow> Inr (not_value v)
      | UMinus \<Rightarrow> if v = VNone then Inr VNone else py_neg v
      | _ \<Rightarrow> Inr v)"

fun eval_having :: "'s evaluator \<Rightarrow> scope \<Rightarrow> scope \<Rightarrow> joined_row list \<Rightarrow> expr \<Rightarrow> ('s, pyval) eff" where
  "eval_having ev sources ctx rows (FuncCall name args dct star) =
     (if is_aggregate name then agg_value ev sources name args dct star rows
      else ev ctx (FuncCall name args dct star))"
| "eval_having ev sources ctx rows (UnaryOp op e) =
     bind_eff (eval_having ev sources ctx rows e) (\<lambda>v. lift (having_unary op v))"
| "eval_having ev sources ctx rows (BinaryOp op a b) =
     bind_eff (eval_having ev sources ctx rows a) (\<lambda>l.
     bind_eff (eval_having ev sources ctx rows b) (\<lambda>r. lift (apply_binary op l r)))"
| "eval_having ev sources ctx rows e = ev ctx e"

section \<open>Grouping\<close>

type_synonym group = "pyval list \<times> joined_row list"

fun add_group :: "pyval list \<Rightarrow> joined_row \<Rightarrow> group list \<Rightarrow> group list" where
  "add_group k row [] = [(k, [row])]"
| "add_group k row ((k', rows) # gs) =
     (if row_eq k' k then (k', rows @ [row]) # gs else (k', rows) # add_group k row gs)"

definition make_groups :: "'s evaluator \<Rightarrow> scope \<Rightarrow> expr list \<Rightarrow> joined_row list \<Rightarrow> ('s, group list) eff" where
  "make_groups ev sources key_exprs rows =
     (if key_exprs = [] then ret [([], rows)]
      else bind_eff (map_eff (\<lambda>row. map_eff (ev (row_context sources row)) key_exprs) rows)
             (\<lambda>keys. ret (fold (\<lambda>(k, row). add_group k row) (zip keys rows) [])))"

definition first_context :: "scope \<Rightarrow> joined_row list \<Rightarrow> scope" where
  "first_context sources rows =
     (case rows of
        [] \<Rightarrow> with_rows sources (replicate (length sources) None)
      | row # _ \<Rightarrow> row_context sources row)"

definition project_one_agg :: "'s evaluator \<Rightarrow> scope \<Rightarrow> expr list \<Rightarrow> group \<Rightarrow> expr \<Rightarrow> ('s, pyval \<times> string) eff" where
  "project_one_agg ev sources key_exprs g proj =
     (case g of (key, rows) \<Rightarrow>
        let ctx = first_context sources rows;
            plainly = bind_eff (ev ctx proj) (\<lambda>v. ret (v, expr_name proj));
            otherwise =
              (if key_exprs \<noteq> [] then
                 (case position (\<lambda>e. expr_equiv e proj) key_exprs of
                    Some i \<Rightarrow> ret (key ! i, expr_name proj)
                  | None \<Rightarrow> plainly)
               else if rows = [] then ret (VNone, expr_name proj)
               else plainly)
        in case proj of
             Star _ \<Rightarrow> raise ExecutionError
           | FuncCall name args dct star \<Rightarrow>
               if is_aggregate name then
                 bind_eff (agg_value ev sources name args dct star rows) (\<lambda>v.
                 bind_eff (lift (agg_name name args star)) (\<lambda>n. ret (v, n)))
               else otherwise
           | _ \<Rightarrow> otherwise)"

type_synonym group_row = "pyval list \<times> string list \<times> group"

definition group_output :: "'s evaluator \<Rightarrow> scope \<Rightarrow> select \<Rightarrow> group \<Rightarrow> ('s, group_row list) eff" where
  "group_output ev sources node g =
     bind_eff
       (if sel_having node = Missing then ret True
        else bind_eff (eval_having ev sources (first_context sources (snd g)) (snd g) (sel_having node))
               (\<lambda>v. ret (truthy v)))
       (\<lambda>keep. if \<not> keep then ret []
               else bind_eff (map_eff (project_one_agg ev sources (sel_group_by node) g) (sel_projections node))
                      (\<lambda>cells. ret [(map fst cells, map snd cells, g)]))"

definition group_and_aggregate :: "'s evaluator \<Rightarrow> scope \<Rightarrow> select \<Rightarrow> joined_row list \<Rightarrow> ('s, group_row list) eff" where
  "group_and_aggregate ev sources node rows =
     bind_eff (make_groups ev sources (sel_group_by node) rows) (\<lambda>gs.
     bind_eff (map_eff (group_output ev sources node) gs) (\<lambda>outs. ret (concat outs)))"

text \<open>\<open>if not out_cols: out_cols = cols\<close> over all rows.\<close>

definition output_columns :: "string list list \<Rightarrow> string list" where
  "output_columns colss = (case find (\<lambda>cs. cs \<noteq> []) colss of Some cs \<Rightarrow> cs | None \<Rightarrow> [])"

section \<open>Ordering\<close>

definition int_literal :: "expr \<Rightarrow> int option" where
  "int_literal e =
     (case e of
        Literal (VInt n) \<Rightarrow> Some n
      | Literal (VBool b) \<Rightarrow> Some (if b then 1 else 0)
      | _ \<Rightarrow> None)"

text \<open>The output position an ORDER BY item names; None when its value comes from elsewhere.\<close>

definition order_slot :: "string list \<Rightarrow> expr \<Rightarrow> int option" where
  "order_slot out_cols e =
     (case int_literal e of
        Some n \<Rightarrow> Some (n - 1)
      | None \<Rightarrow>
          (case e of
             ColumnRef name None \<Rightarrow> map_option int (position (\<lambda>c. py_lower c = py_lower name) out_cols)
           | _ \<Rightarrow> None))"

definition special_value :: "'s evaluator \<Rightarrow> scope \<Rightarrow> expr list \<Rightarrow> expr \<Rightarrow> group \<Rightarrow> ('s, pyval) eff" where
  "special_value ev sources key_exprs e g =
     (case g of (key, rows) \<Rightarrow>
        let otherwise =
              (case position (\<lambda>k. expr_equiv k e) key_exprs of
                 Some i \<Rightarrow> ret (key ! i)
               | None \<Rightarrow> recover_with VNone (ev (first_context sources rows) e))
        in case e of
             FuncCall name args dct star \<Rightarrow>
               if is_aggregate name then agg_value ev sources name args dct star rows else otherwise
           | _ \<Rightarrow> otherwise)"

definition group_keys ::
  "'s evaluator \<Rightarrow> scope \<Rightarrow> select \<Rightarrow> string list \<Rightarrow> group_row list \<Rightarrow> ('s, order_key list list) eff" where
  "group_keys ev sources node out_cols outs =
     map_eff (\<lambda>(e, desc).
       map_eff (\<lambda>(vals, _, g).
         bind_eff (case order_slot out_cols e of
                     None \<Rightarrow> special_value ev sources (sel_group_by node) e g
                   | Some idx \<Rightarrow> lift (ordinal_value idx vals))
           (\<lambda>v. ret (new_order_key v desc))) outs) (sel_order_by node)"

definition order_groups ::
  "'s evaluator \<Rightarrow> scope \<Rightarrow> select \<Rightarrow> string list \<Rightarrow> group_row list \<Rightarrow> ('s, pyval list list) eff" where
  "order_groups ev sources node out_cols outs =
     bind_eff (group_keys ev sources node out_cols outs) (\<lambda>keyss.
       ret (sort_rows (map (\<lambda>r. (map (\<lambda>ks. ks ! r) keyss, fst (outs ! r))) [0..<length outs])))"

text \<open>One row of the flat path: projected values, column names, and the fallback keys.\<close>

type_synonym flat_row = "pyval list \<times> string list \<times> pyval list"

definition flat_keys :: "select \<Rightarrow> string list \<Rightarrow> flat_row \<Rightarrow> order_key list result" where
  "flat_keys node out_cols fr =
     (case fr of (vals, _, src) \<Rightarrow>
        map_result (\<lambda>((e, desc), k).
          bind_result (case order_slot out_cols e of None \<Rightarrow> Inr k | Some idx \<Rightarrow> ordinal_value idx vals)
            (\<lambda>v. Inr (new_order_key v desc))) (zip (sel_order_by node) src))"

definition order_flat :: "select \<Rightarrow> string list \<Rightarrow> flat_row list \<Rightarrow> pyval list list result" where
  "order_flat node out_cols frs =
     bind_result (map_result (flat_keys node out_cols) frs) (\<lambda>keyss. Inr (sort_rows (zip keyss (map fst frs))))"

section \<open>Projection\<close>

definition star_cells :: "string option \<Rightarrow> scope \<Rightarrow> (pyval \<times> string) list result" where
  "star_cells tab ctx =
     bind_result
       (map_result (\<lambda>b. map_result (\<lambda>i. bind_result (cell b i) (\<lambda>v. Inr (v, sb_columns b ! i)))
                          [0..<length (sb_columns b)])
          (filter (\<lambda>b. case tab of None \<Rightarrow> True | Some t \<Rightarrow> sb_alias b = py_lower t) ctx))
       (\<lambda>cs. Inr (concat cs))"

definition project_item :: "'s evaluator \<Rightarrow> scope \<Rightarrow> expr \<Rightarrow> ('s, (pyval \<times> string) list) eff" where
  "project_item ev ctx proj =
     (case proj of
        Star tab \<Rightarrow> lift (star_cells tab ctx)
      | _ \<Rightarrow> bind_eff (ev ctx proj) (\<lambda>v. ret [(v, expr_name proj)]))"

definition project :: "'s evaluator \<Rightarrow> scope \<Rightarrow> expr list \<Rightarrow> ('s, pyval list \<times> string list) eff" where
  "project ev ctx projs =
     bind_eff (map_eff (project_item ev ctx) projs) (\<lambda>cs. ret (map fst (concat cs), map snd (concat cs)))"

definition project_no_from :: "'s evaluator \<Rightarrow> select \<Rightarrow> ('s, result_set) eff" where
  "project_no_from ev node =
     bind_eff (project ev [] (sel_projections node)) (\<lambda>(vals, cols). ret \<lparr>rs_columns = cols, rs_rows = [vals]\<rparr>)"

definition source_key :: "'s evaluator \<Rightarrow> scope \<Rightarrow> expr \<Rightarrow> ('s, pyval) eff" where
  "source_key ev ctx e = (if int_literal e \<noteq> None then ret VNone else recover_with VNone (ev ctx e))"

definition flat_row :: "'s evaluator \<Rightarrow> scope \<Rightarrow> select \<Rightarrow> joined_row \<Rightarrow> ('s, flat_row) eff" where
  "flat_row ev sources node row =
     (let ctx = row_context sources row
      in bind_eff (project ev ctx (sel_projections node)) (\<lambda>(vals, cols).
         bind_eff (map_eff (\<lambda>(e, _). source_key ev ctx e) (sel_order_by node)) (\<lambda>keys. ret (vals, cols, keys))))"

section \<open>The query\<close>

definition distinct_rows :: "pyval list list \<Rightarrow> pyval list list" where
  "distinct_rows rows = distinct_by row_eq rows"

definition distinct_pairs :: "flat_row list \<Rightarrow> flat_row list" where
  "distinct_pairs frs = distinct_by (\<lambda>a b. row_eq (fst a) (fst b)) frs"

definition flat_output :: "'s evaluator \<Rightarrow> scope \<Rightarrow> select \<Rightarrow> joined_row list \<Rightarrow> ('s, result_set) eff" where
  "flat_output ev sources node joined =
     bind_eff (map_eff (flat_row ev sources node) joined) (\<lambda>frs.
       let cols = output_columns (map (\<lambda>(_, cs, _). cs) frs);
           kept = (if sel_distinct node then distinct_pairs frs else frs)
       in bind_eff (if sel_order_by node = [] then ret (map fst kept) else lift (order_flat node cols kept))
            (\<lambda>rows. ret \<lparr>rs_columns = cols, rs_rows = rows\<rparr>))"

definition group_result :: "'s evaluator \<Rightarrow> scope \<Rightarrow> select \<Rightarrow> joined_row list \<Rightarrow> ('s, result_set) eff" where
  "group_result ev sources node joined =
     bind_eff (group_and_aggregate ev sources node joined) (\<lambda>outs.
       let cols = output_columns (map (\<lambda>(_, cs, _). cs) outs)
       in bind_eff (if sel_order_by node = [] then ret (map fst outs) else order_groups ev sources node cols outs)
            (\<lambda>rows. ret \<lparr>rs_columns = cols, rs_rows = (if sel_distinct node then distinct_rows rows else rows)\<rparr>))"

definition query_tables :: "select \<Rightarrow> string list" where
  "query_tables node = (case sel_from node of None \<Rightarrow> [] | Some t \<Rightarrow> [t]) @ map js_table (sel_joins node)"

definition query_schemas :: "select \<Rightarrow> (database, schemas) eff" where
  "query_schemas node =
     map_eff (\<lambda>t. bind_eff (the_table t) (\<lambda>tab. ret (t, column_names_lower (tb_schema tab)))) (query_tables node)"

definition build_sources :: "select \<Rightarrow> schemas \<Rightarrow> scope result" where
  "build_sources node schemas =
     map_result (\<lambda>(t, al). bind_result (columns_in schemas t) (\<lambda>cs.
         Inr \<lparr>sb_alias = py_lower (or_name al t), sb_columns = cs, sb_row = None\<rparr>))
       ((case sel_from node of None \<Rightarrow> [] | Some t \<Rightarrow> [(t, sel_alias node)]) @
        map (\<lambda>j. (js_table j, js_alias j)) (sel_joins node))"

definition lock_tables :: "world \<Rightarrow> txid \<Rightarrow> string list \<Rightarrow> (database, unit) eff" where
  "lock_tables w tx ts = bind_eff (map_eff (\<lambda>t. lock_table w tx (py_lower t) MS) ts) (\<lambda>_. ret ())"

definition when_serializable :: "txid \<Rightarrow> (database, unit) eff \<Rightarrow> (database, unit) eff" where
  "when_serializable tx m =
     bind_eff (the_txn tx) (\<lambda>t. if tr_isolation t = Serializable then m else ret ())"

definition select_from ::
  "world \<Rightarrow> txid \<Rightarrow> database evaluator \<Rightarrow> snapshot \<Rightarrow> select \<Rightarrow> (database, result_set) eff" where
  "select_from w tx ev snap node =
     bind_eff (query_schemas node) (\<lambda>schemas.
     bind_eff (lift (plan_select node schemas)) (\<lambda>plan.
     bind_eff (when_serializable tx (lock_tables w tx (query_tables node))) (\<lambda>_.
     bind_eff (lift (build_sources node schemas)) (\<lambda>sources.
     bind_eff (nested_loop_join ev snap sources plan) (\<lambda>joined.
     bind_eff (filter_eff (\<lambda>row. test ev (row_context sources row) (combine_conjuncts (qp_remainder plan))) joined)
       (\<lambda>kept. if qp_aggregates plan then group_result ev sources node kept
               else flat_output ev sources node kept))))))"

definition choose_snapshot :: "world \<Rightarrow> txid \<Rightarrow> snapshot option \<Rightarrow> select \<Rightarrow> (database, snapshot) eff" where
  "choose_snapshot w tx override node =
     (case override of
        Some s \<Rightarrow> ret s
      | None \<Rightarrow>
          bind_eff (if sel_from node = None then ret ()
                    else when_serializable tx (lock_tables w tx (query_tables node)))
            (\<lambda>_. statement_snapshot tx))"

definition cut_rows :: "select \<Rightarrow> result_set \<Rightarrow> result_set" where
  "cut_rows node rs =
     (let rows = (case sel_offset node of None \<Rightarrow> rs_rows rs | Some k \<Rightarrow> if k = 0 then rs_rows rs else slice_from k (rs_rows rs))
      in rs\<lparr>rs_rows := (case sel_limit node of None \<Rightarrow> rows | Some n \<Rightarrow> slice_to n rows)\<rparr>)"

text \<open>
  \<open>_exec_select\<close>: one level of it, over the runner its subqueries get for the snapshot, and the recursion.
  The recursion goes down one level of nesting per call; \<open>n\<close> bounds the levels, and the program's own bound,
  Python's recursion limit, shows as a RuntimeError.
\<close>

definition select_step ::
  "world \<Rightarrow> txid \<Rightarrow> (snapshot \<Rightarrow> database runner) \<Rightarrow> snapshot option \<Rightarrow> scope list \<Rightarrow> select \<Rightarrow> (database, result_set) eff" where
  "select_step w tx run override outer node =
     bind_eff (choose_snapshot w tx override node) (\<lambda>snap.
     bind_eff (if sel_from node = None then project_no_from (evaluate (Some (run snap)) outer) node
               else select_from w tx (evaluate (Some (run snap)) outer) snap node)
       (\<lambda>rs. ret (cut_rows node rs)))"

fun exec_select ::
  "world \<Rightarrow> txid \<Rightarrow> nat \<Rightarrow> snapshot option \<Rightarrow> scope list \<Rightarrow> select \<Rightarrow> (database, result_set) eff" where
  "exec_select w tx 0 override outer node = raise RuntimeError"
| "exec_select w tx (Suc n) override outer node =
     select_step w tx (\<lambda>snap stack q. bind_eff (exec_select w tx n (Some snap) stack q) (\<lambda>rs. ret (rs_rows rs)))
       override outer node"

definition subquery_runner :: "world \<Rightarrow> txid \<Rightarrow> nat \<Rightarrow> snapshot \<Rightarrow> database runner" where
  "subquery_runner w tx n snap stack q =
     bind_eff (exec_select w tx n (Some snap) stack q) (\<lambda>rs. ret (rs_rows rs))"

end
