(* ===== verification/ExecWrite.thy ===== *)
theory ExecWrite
  imports ExecSelect
begin

text \<open>
  The statements of \<^verbatim>\<open>minidb/engine/executor.py\<close> that change tables, and the dispatch: INSERT, UPDATE,
  DELETE, CREATE TABLE, DESCRIBE, SHOW TABLES. The program's \<open>table\<close> variable is the table object of the
  catalog; the model looks the table up again at every use, and writes it back.
\<close>

section \<open>Steps\<close>

definition log_step :: "(wal \<Rightarrow> wal) \<Rightarrow> (database, unit) eff" where
  "log_step f = modify (on_manager (tm_wal_update f))"

definition begin_in_wal :: "txid \<Rightarrow> (database, unit) eff" where
  "begin_in_wal tx = bind_eff (the_txn tx) (\<lambda>t. modify (on_manager (ensure_wal_begin t)))"

definition mark_written :: "txid \<Rightarrow> string \<Rightarrow> (database, unit) eff" where
  "mark_written tx tname =
     bind_eff (the_txn tx) (\<lambda>t. modify (on_manager (set_txn (t\<lparr>tr_written := List.insert tname (tr_written t)\<rparr>))))"

definition on_table :: "string \<Rightarrow> (table \<Rightarrow> (table \<times> 'a) result) \<Rightarrow> (database, 'a) eff" where
  "on_table name f =
     bind_eff (the_table name) (\<lambda>t db.
       case f t of
         Inl e \<Rightarrow> (db, Inl e)
       | Inr (t', x) \<Rightarrow> (db\<lparr>db_tables := AList.update (py_lower name) t' (db_tables db)\<rparr>, Inr x))"

definition integrity :: "'a result \<Rightarrow> 'a result" where
  "integrity r =
     (case r of Inl e \<Rightarrow> Inl (if e = TypeConversionError then IntegrityError else e) | Inr x \<Rightarrow> Inr x)"

definition statement_evaluator :: "world \<Rightarrow> txid \<Rightarrow> nat \<Rightarrow> snapshot \<Rightarrow> database evaluator" where
  "statement_evaluator w tx n snap = evaluate (Some (subquery_runner w tx n snap)) []"

section \<open>CREATE TABLE, DESCRIBE, SHOW TABLES\<close>

definition column_of_def :: "column_def \<Rightarrow> column" where
  "column_of_def c =
     \<lparr>col_name = cd_name c, col_type = cd_type c, col_length = cd_length c, col_nullable = cd_nullable c,
      col_primary_key = cd_primary_key c\<rparr>"

definition exec_create :: "txid \<Rightarrow> string \<Rightarrow> column_def list \<Rightarrow> (database, result_set) eff" where
  "exec_create tx name cols =
     bind_eff (the_txn tx) (\<lambda>t.
     bind_eff (\<lambda>db. case create_table t \<lparr>sch_name = name, sch_columns = map column_of_def cols\<rparr> db of
                      Inl e \<Rightarrow> (db, Inl e)
                    | Inr db' \<Rightarrow> (db', Inr ()))
       (\<lambda>_. ret \<lparr>rs_columns = [''status''], rs_rows = [[VStr ''CREATED'']]\<rparr>))"

definition describe_column :: "column \<Rightarrow> pyval list" where
  "describe_column c =
     [VStr (col_name c),
      VStr (type_name (col_type c) @
            (case col_length c of
               None \<Rightarrow> []
             | Some n \<Rightarrow> if n = 0 then [] else ''('' @ show_int n @ '')'')),
      VStr (if \<not> col_nullable c then ''NO'' else ''YES''),
      VStr (if col_primary_key c then ''YES'' else [])]"

definition exec_describe :: "string \<Rightarrow> (database, result_set) eff" where
  "exec_describe name =
     bind_eff (the_table name) (\<lambda>t.
       ret \<lparr>rs_columns = [''column'', ''type'', ''nullable'', ''primary_key''],
            rs_rows = map describe_column (sch_columns (tb_schema t))\<rparr>)"

definition exec_show_tables :: "(database, result_set) eff" where
  "exec_show_tables =
     bind_eff get_state (\<lambda>db. ret \<lparr>rs_columns = [''table''], rs_rows = map (\<lambda>n. [VStr n]) (table_names db)\<rparr>)"

section \<open>INSERT\<close>

text \<open>The column list in lower case; an empty list counts as none.\<close>

definition wanted_columns :: "table_schema \<Rightarrow> string list option \<Rightarrow> string list option result" where
  "wanted_columns schema cols =
     (case cols of
        None \<Rightarrow> Inr None
      | Some [] \<Rightarrow> Inr None
      | Some (c # cs) \<Rightarrow>
          let ws = map py_lower (c # cs)
          in if list_ex (\<lambda>x. \<not> has_column schema x) ws then Inl ExecutionError
             else if length (remdups ws) \<noteq> length ws then Inl ExecutionError
             else Inr (Some ws))"

definition set_cell :: "pyval list \<Rightarrow> nat \<Rightarrow> pyval \<Rightarrow> pyval list result" where
  "set_cell row i v = (if i < length row then Inr (row[i := v]) else Inl IndexError)"

fun fill_row :: "table_schema \<Rightarrow> (string \<times> pyval) list \<Rightarrow> pyval list \<Rightarrow> pyval list result" where
  "fill_row schema [] row = Inr row"
| "fill_row schema ((name, v) # nvs) row =
     bind_result (index_of schema name) (\<lambda>i. bind_result (set_cell row i v) (fill_row schema nvs))"

text \<open>The NOT NULL check of a filled row, primary-key columns excepted.\<close>

fun check_not_null :: "table_schema \<Rightarrow> column list \<Rightarrow> pyval list \<Rightarrow> unit result" where
  "check_not_null schema [] row = Inr ()"
| "check_not_null schema (c # cs) row =
     (if \<not> col_primary_key c \<and> \<not> col_nullable c then
        bind_result (bind_result (index_of schema (col_name c)) (row_at row)) (\<lambda>v.
          if v = VNone then Inl IntegrityError else check_not_null schema cs row)
      else check_not_null schema cs row)"

definition full_row :: "table_schema \<Rightarrow> string list option \<Rightarrow> pyval list \<Rightarrow> pyval list result" where
  "full_row schema wanted values =
     (case wanted of
        None \<Rightarrow> Inr values
      | Some ws \<Rightarrow>
          bind_result (fill_row schema (zip ws values) (replicate (length (sch_columns schema)) VNone)) (\<lambda>row.
          bind_result (check_not_null schema (sch_columns schema) row) (\<lambda>_. Inr row)))"

definition insert_values ::
  "table_schema \<Rightarrow> string list option \<Rightarrow> expr list \<Rightarrow> (database, pyval list) eff" where
  "insert_values schema wanted raw =
     (if length raw \<noteq> (case wanted of Some ws \<Rightarrow> length ws | None \<Rightarrow> length (sch_columns schema))
      then raise ExecutionError
      else bind_eff (map_eff (evaluate None [] []) raw) (\<lambda>values.
           bind_eff (lift (full_row schema wanted values)) (\<lambda>row.
             lift (integrity (validate_and_convert schema row)))))"

text \<open>The key of a new row, locked; for a user key, after the duplicate check.\<close>

definition claim_key :: "world \<Rightarrow> txid \<Rightarrow> string \<Rightarrow> table_schema \<Rightarrow> pyval list \<Rightarrow> (database, rowkey) eff" where
  "claim_key w tx name schema row =
     bind_eff (the_table name) (\<lambda>t.
       if has_user_pk t then
         bind_eff (lift (bind_result (pk_column schema) (\<lambda>c. bind_result (index_of schema (col_name c)) (row_at row))))
           (\<lambda>v. if v = VNone then raise IntegrityError
                else bind_eff (lock_row w tx (py_lower name) (KVal v) MX) (\<lambda>_.
                     bind_eff (statement_snapshot tx) (\<lambda>snap.
                     bind_eff (read_version name snap (KVal v)) (\<lambda>ver.
                       if ver \<noteq> None then raise IntegrityError else ret (KVal v)))))
       else
         bind_eff (on_table name (\<lambda>t. Inr (allocate_rowid t))) (\<lambda>key.
         bind_eff (lock_row w tx (py_lower name) key MX) (\<lambda>_. ret key)))"

definition insert_row ::
  "world \<Rightarrow> txid \<Rightarrow> string \<Rightarrow> table_schema \<Rightarrow> string list option \<Rightarrow> expr list \<Rightarrow> (database, unit) eff" where
  "insert_row w tx name schema wanted raw =
     bind_eff (insert_values schema wanted raw) (\<lambda>row.
     bind_eff (claim_key w tx name schema row) (\<lambda>key.
     bind_eff (log_step (log_insert tx name key row)) (\<lambda>_.
     bind_eff (on_table name (table_insert tx row (Some key))) (\<lambda>_. ret ()))))"

definition count_result :: "string \<Rightarrow> nat \<Rightarrow> result_set" where
  "count_result label n = \<lparr>rs_columns = [label], rs_rows = [[VInt (int n)]]\<rparr>"

definition exec_insert ::
  "world \<Rightarrow> txid \<Rightarrow> string \<Rightarrow> string list option \<Rightarrow> expr list list \<Rightarrow> (database, result_set) eff" where
  "exec_insert w tx name cols rows =
     bind_eff (the_table name) (\<lambda>t.
     bind_eff (lock_table w tx (py_lower name) MIX) (\<lambda>_.
     bind_eff (begin_in_wal tx) (\<lambda>_.
     bind_eff (lift (wanted_columns (tb_schema t) cols)) (\<lambda>wanted.
     bind_eff (map_eff (insert_row w tx name (tb_schema t) wanted) rows) (\<lambda>_.
     bind_eff (mark_written tx (py_lower name)) (\<lambda>_. ret (count_result ''inserted'' (length rows))))))))"

section \<open>UPDATE and DELETE\<close>

definition target_scope :: "string \<Rightarrow> table_schema \<Rightarrow> pyval list \<Rightarrow> scope" where
  "target_scope name schema row = row_scope (py_lower name) (column_names_lower schema) row"

definition candidate_at ::
  "database evaluator \<Rightarrow> snapshot \<Rightarrow> string \<Rightarrow> table_schema \<Rightarrow> expr \<Rightarrow> pyval \<Rightarrow> (database, rowkey list) eff" where
  "candidate_at ev snap name schema wh k =
     bind_eff (read_version name snap (KVal k)) (\<lambda>v.
       case v of
         None \<Rightarrow> ret []
       | Some ver \<Rightarrow>
           bind_eff (test ev (target_scope name schema (v_row ver)) wh) (\<lambda>ok. ret (if ok then [KVal k] else [])))"

definition candidate_keys ::
  "database evaluator \<Rightarrow> snapshot \<Rightarrow> string \<Rightarrow> expr \<Rightarrow> (database, rowkey list) eff" where
  "candidate_keys ev snap name wh =
     bind_eff (the_table name) (\<lambda>t.
     bind_eff (lift (where_pk_keys t wh)) (\<lambda>idx.
       case idx of
         Some ks \<Rightarrow> bind_eff (map_eff (candidate_at ev snap name (tb_schema t) wh) ks) (\<lambda>kss. ret (concat kss))
       | None \<Rightarrow>
           bind_eff (read_scan name snap) (\<lambda>rows.
           bind_eff (filter_eff (\<lambda>(k, row). test ev (target_scope name (tb_schema t) row) wh) rows)
             (\<lambda>kept. ret (map fst kept)))))"

definition post_lock_snapshot :: "txid \<Rightarrow> snapshot \<Rightarrow> (database, snapshot) eff" where
  "post_lock_snapshot tx snap =
     bind_eff (the_txn tx) (\<lambda>t db.
       (db, Inr (if tr_isolation t = ReadCommitted then take_snapshot (tr_txid t) (db_mgr db) else snap)))"

text \<open>
  The common part of UPDATE and DELETE: the candidates under the statement's snapshot, their locks in
  the global order, the snapshot after the locks, and the row a candidate still has under it.
\<close>

definition lock_candidates ::
  "world \<Rightarrow> txid \<Rightarrow> nat \<Rightarrow> string \<Rightarrow> expr \<Rightarrow> (database, rowkey list \<times> snapshot) eff" where
  "lock_candidates w tx n name wh =
     bind_eff (statement_snapshot tx) (\<lambda>snap.
     bind_eff (candidate_keys (statement_evaluator w tx n snap) snap name wh) (\<lambda>ks.
     bind_eff (map_eff (\<lambda>k. lock_row w tx (py_lower name) k MX) (sort_candidates ks)) (\<lambda>_.
     bind_eff (post_lock_snapshot tx snap) (\<lambda>snap'. ret (sort_candidates ks, snap')))))"

definition current_row ::
  "database evaluator \<Rightarrow> snapshot \<Rightarrow> string \<Rightarrow> table_schema \<Rightarrow> expr \<Rightarrow> rowkey \<Rightarrow> (database, pyval list option) eff" where
  "current_row ev snap name schema wh k =
     bind_eff (read_version name snap k) (\<lambda>v.
       case v of
         None \<Rightarrow> ret None
       | Some ver \<Rightarrow>
           bind_eff (test ev (target_scope name schema (v_row ver)) wh)
             (\<lambda>ok. ret (if ok then Some (v_row ver) else None)))"

definition assign_indexes :: "table_schema \<Rightarrow> (string \<times> expr) list \<Rightarrow> nat list result" where
  "assign_indexes schema assigns =
     map_result (\<lambda>(c, _). if has_column schema c then index_of schema c else Inl ExecutionError) assigns"

definition assigned_row ::
  "'s evaluator \<Rightarrow> scope \<Rightarrow> nat list \<Rightarrow> (string \<times> expr) list \<Rightarrow> pyval list \<Rightarrow> ('s, pyval list) eff" where
  "assigned_row ev ctx idxs assigns current =
     fold_eff (\<lambda>(i, _, e) row. bind_eff (ev ctx e) (\<lambda>v. lift (set_cell row i v))) (zip idxs assigns) current"

definition move_primary_key ::
  "world \<Rightarrow> txid \<Rightarrow> string \<Rightarrow> table_schema \<Rightarrow> rowkey \<Rightarrow> pyval list \<Rightarrow> snapshot \<Rightarrow> (database, unit) eff" where
  "move_primary_key w tx name schema old_key new_row snap =
     bind_eff (lift (bind_result (pk_column schema) (\<lambda>c. bind_result (index_of schema (col_name c)) (row_at new_row))))
       (\<lambda>v. bind_eff (lock_row w tx (py_lower name) (KVal v) MX) (\<lambda>_.
            bind_eff (read_version name snap (KVal v)) (\<lambda>ver.
              if ver \<noteq> None then raise IntegrityError
              else bind_eff (log_step (log_delete tx name old_key)) (\<lambda>_.
                   bind_eff (log_step (log_insert tx name (KVal v) new_row)) (\<lambda>_.
                   bind_eff (on_table name (table_delete tx old_key)) (\<lambda>_.
                   bind_eff (on_table name (table_insert tx new_row (Some (KVal v)))) (\<lambda>_. ret ())))))))"

definition same_key :: "nat option \<Rightarrow> pyval list \<Rightarrow> pyval list \<Rightarrow> bool result" where
  "same_key pk converted current =
     (case pk of
        None \<Rightarrow> Inr True
      | Some i \<Rightarrow> bind_result (row_at converted i) (\<lambda>a. bind_result (row_at current i) (\<lambda>b. Inr (py_eq a b))))"

definition update_row ::
  "world \<Rightarrow> txid \<Rightarrow> nat \<Rightarrow> string \<Rightarrow> table_schema \<Rightarrow> nat option \<Rightarrow> nat list \<Rightarrow> (string \<times> expr) list \<Rightarrow> expr \<Rightarrow>
     snapshot \<Rightarrow> rowkey \<Rightarrow> (database, bool) eff" where
  "update_row w tx n name schema pk idxs assigns wh snap k =
     (let ev = statement_evaluator w tx n snap
      in bind_eff (current_row ev snap name schema wh k) (\<lambda>cur.
           case cur of
             None \<Rightarrow> ret False
           | Some current \<Rightarrow>
               bind_eff (assigned_row ev (target_scope name schema current) idxs assigns current) (\<lambda>new_row.
               bind_eff (lift (integrity (validate_and_convert schema new_row))) (\<lambda>converted.
               bind_eff (lift (same_key pk converted current)) (\<lambda>same.
               bind_eff
                 (if same then
                    bind_eff (log_step (log_update tx name k converted)) (\<lambda>_.
                      on_table name (\<lambda>t. bind_result (table_update tx k converted t) (\<lambda>t'. Inr (t', ()))))
                  else move_primary_key w tx name schema k converted snap)
                 (\<lambda>_. ret True))))))"

definition pk_index :: "table \<Rightarrow> nat option result" where
  "pk_index t =
     (if has_user_pk t
      then bind_result (pk_column (tb_schema t)) (\<lambda>c. bind_result (index_of (tb_schema t) (col_name c)) (\<lambda>i. Inr (Some i)))
      else Inr None)"

definition count_true :: "bool list \<Rightarrow> nat" where
  "count_true bs = length (filter id bs)"

definition exec_update ::
  "world \<Rightarrow> txid \<Rightarrow> nat \<Rightarrow> string \<Rightarrow> (string \<times> expr) list \<Rightarrow> expr \<Rightarrow> (database, result_set) eff" where
  "exec_update w tx n name assigns wh =
     bind_eff (the_table name) (\<lambda>t.
     bind_eff (lock_table w tx (py_lower name) MIX) (\<lambda>_.
     bind_eff (begin_in_wal tx) (\<lambda>_.
     bind_eff (lift (assign_indexes (tb_schema t) assigns)) (\<lambda>idxs.
     bind_eff (lift (pk_index t)) (\<lambda>pk.
     bind_eff (lock_candidates w tx n name wh) (\<lambda>(ks, snap).
     bind_eff (map_eff (update_row w tx n name (tb_schema t) pk idxs assigns wh snap) ks) (\<lambda>flags.
     bind_eff (mark_written tx (py_lower name)) (\<lambda>_. ret (count_result ''updated'' (count_true flags))))))))))"

definition delete_row ::
  "world \<Rightarrow> txid \<Rightarrow> nat \<Rightarrow> string \<Rightarrow> table_schema \<Rightarrow> expr \<Rightarrow> snapshot \<Rightarrow> rowkey \<Rightarrow> (database, bool) eff" where
  "delete_row w tx n name schema wh snap k =
     bind_eff (current_row (statement_evaluator w tx n snap) snap name schema wh k) (\<lambda>cur.
       case cur of
         None \<Rightarrow> ret False
       | Some row \<Rightarrow>
           bind_eff (log_step (log_delete tx name k)) (\<lambda>_. on_table name (table_delete tx k)))"

definition exec_delete :: "world \<Rightarrow> txid \<Rightarrow> nat \<Rightarrow> string \<Rightarrow> expr \<Rightarrow> (database, result_set) eff" where
  "exec_delete w tx n name wh =
     bind_eff (the_table name) (\<lambda>t.
     bind_eff (lock_table w tx (py_lower name) MIX) (\<lambda>_.
     bind_eff (begin_in_wal tx) (\<lambda>_.
     bind_eff (lock_candidates w tx n name wh) (\<lambda>(ks, snap).
     bind_eff (map_eff (delete_row w tx n name (tb_schema t) wh snap) ks) (\<lambda>flags.
     bind_eff (mark_written tx (py_lower name)) (\<lambda>_. ret (count_result ''deleted'' (count_true flags))))))))"

section \<open>Dispatch\<close>

definition execute :: "world \<Rightarrow> txid \<Rightarrow> nat \<Rightarrow> statement \<Rightarrow> (database, result_set) eff" where
  "execute w tx n node =
     (case node of
        CreateTable name cols \<Rightarrow> exec_create tx name cols
      | Insert name cols rows \<Rightarrow> exec_insert w tx name cols rows
      | Update name assigns wh \<Rightarrow> exec_update w tx n name assigns wh
      | Delete name wh \<Rightarrow> exec_delete w tx n name wh
      | Select q \<Rightarrow> exec_select w tx n None [] q
      | ShowTables \<Rightarrow> exec_show_tables
      | Describe name \<Rightarrow> exec_describe name
      | _ \<Rightarrow> raise ExecutionError)"

end
