(* ===== verification/Session.thy ===== *)
theory Session
  imports ExecWrite
begin

text \<open>
  A session, \<^verbatim>\<open>minidb/engine/session.py\<close>: explicit transactions, autocommit, EXPLAIN. The state is the
  database with the id of the session's transaction. \<open>sql\<close> takes the text apart, \<open>run_statement\<close> does
  what follows the call of the parser. \<open>disk_ok\<close> says whether the log can be written and synced.
\<close>

record session =
  ss_db :: database
  ss_txn :: "txid option"

datatype sql_result = Rows result_set | PlanText string | StatusText string

definition on_db :: "(database, 'a) eff \<Rightarrow> (session, 'a) eff" where
  "on_db m s = (case m (ss_db s) of (db, r) \<Rightarrow> (s\<lparr>ss_db := db\<rparr>, r))"

definition set_session_txn :: "txid option \<Rightarrow> (session, unit) eff" where
  "set_session_txn t = modify (\<lambda>s. s\<lparr>ss_txn := t\<rparr>)"

definition in_transaction :: "session \<Rightarrow> bool" where
  "in_transaction s \<longleftrightarrow>
     (case ss_txn s of
        None \<Rightarrow> False
      | Some tx \<Rightarrow> (case tm_txns (db_mgr (ss_db s)) tx of Some t \<Rightarrow> tr_state t = TxActive | None \<Rightarrow> False))"

definition session_begin :: "isolation \<Rightarrow> (session, txid) eff" where
  "session_begin level s =
     (if in_transaction s then (s, Inl RuntimeError)
      else case begin_txn level (db_mgr (ss_db s)) of
             (m, tx) \<Rightarrow> (s\<lparr>ss_db := (ss_db s)\<lparr>db_mgr := m\<rparr>, ss_txn := Some tx\<rparr>, Inr tx))"

definition require_txn :: "(session, txid) eff" where
  "require_txn s = (case ss_txn s of None \<Rightarrow> (s, Inl RuntimeError) | Some tx \<Rightarrow> (s, Inr tx))"

definition commit_step :: "bool \<Rightarrow> txid \<Rightarrow> (database, unit) eff" where
  "commit_step disk_ok tx =
     bind_eff (the_txn tx) (\<lambda>t db. case commit_txn disk_ok t (db_mgr db) of (m, r) \<Rightarrow> (db\<lparr>db_mgr := m\<rparr>, r))"

definition abort_step :: "txid \<Rightarrow> (database, unit) eff" where
  "abort_step tx = bind_eff (the_txn tx) (\<lambda>t. modify (on_manager (abort_txn t)))"

definition session_commit :: "bool \<Rightarrow> (session, unit) eff" where
  "session_commit disk_ok =
     bind_eff require_txn (\<lambda>tx. bind_eff (on_db (commit_step disk_ok tx)) (\<lambda>_. set_session_txn None))"

definition session_rollback :: "(session, unit) eff" where
  "session_rollback = bind_eff require_txn (\<lambda>tx. bind_eff (on_db (abort_step tx)) (\<lambda>_. set_session_txn None))"

section \<open>Statements\<close>

definition explain_statement :: "statement \<Rightarrow> (database, sql_result) eff" where
  "explain_statement node =
     (case node of
        Select q \<Rightarrow>
          if sel_from q = None then raise RuntimeError
          else bind_eff (query_schemas q) (\<lambda>schemas.
               bind_eff (lift (plan_select q schemas)) (\<lambda>plan. ret (PlanText (qp_description plan))))
      | _ \<Rightarrow> raise RuntimeError)"

definition isolation_of :: "string option \<Rightarrow> isolation" where
  "isolation_of name = (if name = Some ''SERIALIZABLE'' then Serializable else ReadCommitted)"

fun isolation_name :: "isolation \<Rightarrow> string" where
  "isolation_name ReadCommitted = ''READ COMMITTED''"
| "isolation_name Serializable = ''SERIALIZABLE''"

text \<open>The \<open>except BaseException\<close> block: abort, forget the transaction, raise again.\<close>

definition abort_and_raise :: "txid \<Rightarrow> py_error \<Rightarrow> (session, 'a) eff" where
  "abort_and_raise tx e =
     bind_eff (on_db (abort_step tx)) (\<lambda>_. bind_eff (set_session_txn None) (\<lambda>_. raise e))"

definition autocommit_body :: "world \<Rightarrow> bool \<Rightarrow> nat \<Rightarrow> txid \<Rightarrow> statement \<Rightarrow> (session, sql_result) eff" where
  "autocommit_body w disk_ok n tx node =
     bind_eff (on_db (execute w tx n node)) (\<lambda>rs.
     bind_eff (session_commit disk_ok) (\<lambda>_. ret (Rows rs)))"

definition autocommit :: "world \<Rightarrow> bool \<Rightarrow> nat \<Rightarrow> statement \<Rightarrow> (session, sql_result) eff" where
  "autocommit w disk_ok n node =
     bind_eff (session_begin ReadCommitted) (\<lambda>tx s.
       case autocommit_body w disk_ok n tx node s of
         (s', Inl e) \<Rightarrow> abort_and_raise tx e s'
       | (s', Inr r) \<Rightarrow> (s', Inr r))"

definition run_plain :: "world \<Rightarrow> bool \<Rightarrow> nat \<Rightarrow> statement \<Rightarrow> (session, sql_result) eff" where
  "run_plain w disk_ok n node s =
     (case ss_txn s of
        None \<Rightarrow> autocommit w disk_ok n node s
      | Some tx \<Rightarrow> bind_eff (on_db (execute w tx n node)) (\<lambda>rs. ret (Rows rs)) s)"

definition run_statement :: "world \<Rightarrow> bool \<Rightarrow> nat \<Rightarrow> bool \<Rightarrow> statement \<Rightarrow> (session, sql_result) eff" where
  "run_statement w disk_ok n explain node =
     (case node of
        BeginStmt iso_name \<Rightarrow>
          bind_eff (session_begin (isolation_of iso_name))
            (\<lambda>_. ret (StatusText (''BEGIN (isolation: '' @ isolation_name (isolation_of iso_name) @ '')'')))
      | CommitStmt \<Rightarrow> bind_eff (session_commit disk_ok) (\<lambda>_. ret (StatusText ''COMMIT''))
      | RollbackStmt \<Rightarrow> bind_eff session_rollback (\<lambda>_. ret (StatusText ''ROLLBACK''))
      | _ \<Rightarrow> if explain then on_db (explain_statement node) else run_plain w disk_ok n node)"

text \<open>The prefix EXPLAIN of the text.\<close>

definition split_explain :: "string \<Rightarrow> (bool \<times> string) result" where
  "split_explain text =
     (let stripped = py_strip text; upper = py_upper stripped
      in if upper = ''EXPLAIN'' \<or> take 8 upper = ''EXPLAIN '' then
           (let rest = py_strip (drop 7 stripped) in if rest = [] then Inl RuntimeError else Inr (True, rest))
         else Inr (False, stripped))"

definition session_close :: "(session, unit) eff" where
  "session_close s = (if in_transaction s then session_rollback s else (s, Inr ()))"

end
