(* ===== verification/SortLemmas.thy ===== *)
theory SortLemmas
  imports ExecWrite "HOL-Library.Multiset"
begin

text \<open>
  The stable sort and the sort keys. A weak order on a set of keys makes \<open>sort_by\<close> a permutation that is
  sorted and stable; the key tuples of one ORDER BY clause form such an order when they hold no NaN.
\<close>

section \<open>Sorting by a weak order\<close>

locale weak_order =
  fixes A :: "'a set" and lt :: "'a \<Rightarrow> 'a \<Rightarrow> bool"
  assumes asym: "x \<in> A \<Longrightarrow> y \<in> A \<Longrightarrow> lt x y \<Longrightarrow> \<not> lt y x"
    and negtrans: "x \<in> A \<Longrightarrow> y \<in> A \<Longrightarrow> z \<in> A \<Longrightarrow> lt x z \<Longrightarrow> lt x y \<or> lt y z"
begin

definition same :: "'a \<Rightarrow> 'a \<Rightarrow> bool" where
  "same x y \<longleftrightarrow> \<not> lt x y \<and> \<not> lt y x"

lemma same_refl: "x \<in> A \<Longrightarrow> same x x"
  using asym by (auto simp: same_def)

lemma same_trans: "x \<in> A \<Longrightarrow> y \<in> A \<Longrightarrow> z \<in> A \<Longrightarrow> same x y \<Longrightarrow> same y z \<Longrightarrow> same x z"
  using negtrans unfolding same_def by blast

lemma mset_insert_by: "mset (insert_by lt x xs) = add_mset x (mset xs)"
  by (induction xs) auto

lemma set_insert_by: "set (insert_by lt x xs) = insert x (set xs)"
  by (induction xs) auto

lemma sorted_insert_by:
  "x \<in> A \<Longrightarrow> set xs \<subseteq> A \<Longrightarrow> sorted_wrt (\<lambda>a b. \<not> lt b a) xs \<Longrightarrow> sorted_wrt (\<lambda>a b. \<not> lt b a) (insert_by lt x xs)"
proof (induction xs)
  case (Cons y ys)
  show ?case
  proof (cases "lt y x")
    case True
    then show ?thesis using Cons asym by (auto simp: set_insert_by)
  next
    case False
    then have "\<not> lt z x" if "z \<in> set ys" for z
      using that Cons.prems negtrans [of z y x] by auto
    then show ?thesis using False Cons.prems by auto
  qed
qed simp

lemma filter_insert_by:
  "x \<in> A \<Longrightarrow> set xs \<subseteq> A \<Longrightarrow> k \<in> A \<Longrightarrow> filter (same k) (insert_by lt x xs) = filter (same k) (x # xs)"
proof (induction xs)
  case (Cons y ys)
  then show ?case using same_trans [of k x y] asym [of y x] by (auto simp: same_def dest: negtrans)
qed simp

lemma sort_by_facts:
  assumes "set xs \<subseteq> A"
  shows "mset (sort_by lt xs) = mset xs \<and> sorted_wrt (\<lambda>a b. \<not> lt b a) (sort_by lt xs) \<and>
    (\<forall>k\<in>A. filter (same k) (sort_by lt xs) = filter (same k) xs)"
  using assms unfolding sort_by_def
proof (induction xs)
  case (Cons x xs)
  let ?s = "foldr (insert_by lt) xs []"
  have s: "set ?s \<subseteq> A" using Cons by (metis (no_types, lifting) mset_eq_setD insert_subset list.simps(15))
  then show ?case using Cons by (simp add: mset_insert_by sorted_insert_by filter_insert_by)
qed simp

end

section \<open>The order of values\<close>

definition is_nan :: "pyval \<Rightarrow> bool" where
  "is_nan v \<longleftrightarrow> v = VFloat FNan"

text \<open>Numbers by value, before all strings.\<close>

definition value_rank :: "pyval \<Rightarrow> nat \<times> (nat \<times> rat) \<times> string" where
  "value_rank v =
     (case as_num v of
        Some n \<Rightarrow> (0, frank (num_float n), [])
      | None \<Rightarrow> (case v of VStr s \<Rightarrow> (1, (0, 0), s) | _ \<Rightarrow> (2, (0, 0), [])))"

lemma flt_frank: "x \<noteq> FNan \<Longrightarrow> y \<noteq> FNan \<Longrightarrow> flt x y \<longleftrightarrow> frank x < frank y"
  by (cases x; cases y) (auto simp: frank_def)

lemma num_not_nan: "as_num v = Some n \<Longrightarrow> \<not> is_nan v \<Longrightarrow> num_float n \<noteq> FNan"
  by (cases v) (auto simp: num_float_def is_nan_def)

lemma label_number_string:
  "as_num a = Some n \<Longrightarrow> labelled a < labelled (VStr s) \<and> \<not> labelled (VStr s) < labelled a"
  by (cases a) (auto simp: labelled_def)

lemma cmp_values_rank:
  assumes "a \<noteq> VNone" "b \<noteq> VNone" "\<not> is_nan a" "\<not> is_nan b"
  shows "cmp_values a b < 0 \<longleftrightarrow> value_rank a < value_rank b"
    "cmp_values a b > 0 \<longleftrightarrow> value_rank b < value_rank a"
proof -
  have "(cmp_values a b < 0 \<longleftrightarrow> value_rank a < value_rank b) \<and>
    (cmp_values a b > 0 \<longleftrightarrow> value_rank b < value_rank a)"
  proof (cases "as_num a")
    case (Some n)
    show ?thesis
    proof (cases "as_num b")
      case b: (Some m)
      have "num_float n \<noteq> FNan" "num_float m \<noteq> FNan" using Some b assms num_not_nan by blast+
      then show ?thesis using Some b assms
        by (auto simp: cmp_values_def py_lt_def value_rank_def flt_frank less_not_sym)
    next
      case None
      then obtain s where "b = VStr s" using assms by (cases b) auto
      then show ?thesis using Some assms label_number_string [OF Some, of s]
        by (cases a) (auto simp: cmp_values_def py_lt_def value_rank_def)
    qed
  next
    case None
    then obtain s where a: "a = VStr s" using assms by (cases a) auto
    show ?thesis
    proof (cases "as_num b")
      case b: (Some m)
      then show ?thesis using a assms label_number_string [OF b, of s]
        by (cases b) (auto simp: cmp_values_def py_lt_def value_rank_def)
    next
      case b: None
      then obtain t where "b = VStr t" using assms by (cases b) auto
      then show ?thesis using a by (auto simp: cmp_values_def py_lt_def value_rank_def)
    qed
  qed
  then show "cmp_values a b < 0 \<longleftrightarrow> value_rank a < value_rank b"
    "cmp_values a b > 0 \<longleftrightarrow> value_rank b < value_rank a" by auto
qed

text \<open>NULL above every value; DESC reverses the order.\<close>

definition null_rank :: "pyval \<Rightarrow> nat \<times> nat \<times> (nat \<times> rat) \<times> string" where
  "null_rank v = (if v = VNone then 1 else 0, value_rank v)"

lemma order_key_rank:
  assumes "\<not> is_nan v" "\<not> is_nan u"
  shows "key_less (new_order_key v d) (new_order_key u d) \<longleftrightarrow>
      (if d then null_rank u < null_rank v else null_rank v < null_rank u)"
    "key_equal (new_order_key v d) (new_order_key u d) \<longleftrightarrow> null_rank v = null_rank u"
proof -
  have none: "cmp_values v u = 0" if "v = VNone \<or> u = VNone"
    using that by (auto simp: cmp_values_def)
  note simps = key_less_def key_equal_def cmp_equal_def cmp_less_def Let_def new_order_key_def null_rank_def
  show "key_less (new_order_key v d) (new_order_key u d) \<longleftrightarrow>
      (if d then null_rank u < null_rank v else null_rank v < null_rank u)"
    using none cmp_values_rank [of v u] assms by (cases "v = VNone"; cases "u = VNone") (auto simp: simps)
  show "key_equal (new_order_key v d) (new_order_key u d) \<longleftrightarrow> null_rank v = null_rank u"
    using none cmp_values_rank [of v u] assms
    by (cases "v = VNone"; cases "u = VNone") (auto simp: simps not_less_iff_gr_or_eq neq_iff)
qed

section \<open>Key tuples\<close>

definition sort_key_of :: "bool \<Rightarrow> order_key \<Rightarrow> bool" where
  "sort_key_of d k \<longleftrightarrow> (\<exists>v. \<not> is_nan v \<and> k = new_order_key v d)"

definition key_tuples :: "bool list \<Rightarrow> order_key list set" where
  "key_tuples ds = {ks. list_all2 sort_key_of ds ks}"

lemma key_pair:
  assumes "sort_key_of d a" "sort_key_of d b"
  shows "key_equal a b \<longleftrightarrow> \<not> key_less a b \<and> \<not> key_less b a" "key_less a b \<Longrightarrow> \<not> key_less b a"
  using assms by (cases d; auto simp: sort_key_of_def order_key_rank neq_iff)+

lemma key_triple:
  assumes "sort_key_of d a" "sort_key_of d b" "sort_key_of d c"
  shows "key_less a c \<Longrightarrow> key_less a b \<or> key_less b c" "key_equal a b \<Longrightarrow> key_equal b c \<Longrightarrow> key_equal a c"
    "key_equal a b \<Longrightarrow> key_less b c = key_less a c" "key_equal b c \<Longrightarrow> key_less a b = key_less a c"
  using assms by (cases d; auto simp: sort_key_of_def order_key_rank)+

lemma keys_less_asym:
  "list_all2 sort_key_of ds xs \<Longrightarrow> list_all2 sort_key_of ds ys \<Longrightarrow> keys_less xs ys \<Longrightarrow> \<not> keys_less ys xs"
proof (induction ds arbitrary: xs ys)
  case (Cons d ds)
  then obtain a as b bs where l: "xs = a # as" "ys = b # bs"
    and k: "sort_key_of d a" "sort_key_of d b" and tl: "list_all2 sort_key_of ds as" "list_all2 sort_key_of ds bs"
    by (auto simp: list_all2_Cons1)
  have "key_equal b a = key_equal a b" using key_pair(1) [OF k] key_pair(1) [OF k(2,1)] by blast
  then show ?case using Cons.prems(3) Cons.IH [OF tl] key_pair(2) [OF k] by (simp add: l split: if_splits)
qed simp

lemma keys_less_negtrans:
  "list_all2 sort_key_of ds xs \<Longrightarrow> list_all2 sort_key_of ds ys \<Longrightarrow> list_all2 sort_key_of ds zs \<Longrightarrow>
     keys_less xs zs \<Longrightarrow> keys_less xs ys \<or> keys_less ys zs"
proof (induction ds arbitrary: xs ys zs)
  case (Cons d ds)
  then obtain a as b bs c cs where l: "xs = a # as" "ys = b # bs" "zs = c # cs"
    and k: "sort_key_of d a" "sort_key_of d b" "sort_key_of d c"
    and tl: "list_all2 sort_key_of ds as" "list_all2 sort_key_of ds bs" "list_all2 sort_key_of ds cs"
    by (auto simp: list_all2_Cons1)
  show ?case
  proof (cases "key_equal a c")
    case True
    then have eq: "key_equal a b \<longleftrightarrow> key_equal b c" "key_less a b \<or> key_less b c \<or> key_equal a b"
      using key_triple [OF k] key_triple [OF k(2,3,1)] key_triple [OF k(2,1,3)] key_pair [OF k(1,2)] key_pair [OF k(2,3)]
        key_pair [OF k(1,3)] key_pair [OF k(3,1)] key_pair [OF k(2,1)] key_pair [OF k(3,2)] by metis+
    have "keys_less as cs" using Cons.prems(4) True by (simp add: l)
    then show ?thesis using Cons.IH [OF tl] eq by (auto simp: l)
  next
    case False
    then have "key_less a c" using Cons.prems(4) by (simp add: l)
    then have "key_less a b \<or> key_less b c" "key_equal a b \<Longrightarrow> key_less b c" "key_equal b c \<Longrightarrow> key_less a b"
      using key_triple [OF k] by blast+
    moreover have "\<not> key_equal a b \<or> \<not> key_less a b" "\<not> key_equal b c \<or> \<not> key_less b c"
      using key_pair(1) [OF k(1,2)] key_pair(1) [OF k(2,3)] by blast+
    ultimately show ?thesis by (auto simp: l)
  qed
qed simp

interpretation order_by: weak_order "{e. fst e \<in> key_tuples ds}" "\<lambda>a b. keys_less (fst a) (fst b)" for ds
proof
  fix x y z :: "order_key list \<times> 'b"
  assume xy: "x \<in> {e. fst e \<in> key_tuples ds}" "y \<in> {e. fst e \<in> key_tuples ds}"
  show "keys_less (fst x) (fst y) \<Longrightarrow> \<not> keys_less (fst y) (fst x)"
    using xy keys_less_asym unfolding key_tuples_def by blast
  assume "z \<in> {e. fst e \<in> key_tuples ds}"
  then show "keys_less (fst x) (fst z) \<Longrightarrow> keys_less (fst x) (fst y) \<or> keys_less (fst y) (fst z)"
    using xy keys_less_negtrans unfolding key_tuples_def by blast
qed

end
