(* ===== verification/QueryDepth.thy ===== *)
theory QueryDepth
  imports ExecWrite
begin

text \<open>
  The nesting depth of a query bounds the recursion of \<open>exec_select\<close>: with at least that many levels the
  result no longer depends on the bound. Every function of the executor looks at its evaluator on the
  expressions of the statement only, so two evaluators that agree on expressions of a depth can replace
  each other.
\<close>

primrec expr_depth :: "expr \<Rightarrow> nat" and select_depth :: "select \<Rightarrow> nat" and join_depth :: "join_spec \<Rightarrow> nat" where
  "expr_depth Missing = 0"
| "expr_depth (Literal v) = 0"
| "expr_depth (ColumnRef name tab) = 0"
| "expr_depth (Star tab) = 0"
| "expr_depth (UnaryOp op e) = expr_depth e"
| "expr_depth (BinaryOp op a b) = max (expr_depth a) (expr_depth b)"
| "expr_depth (FuncCall name args dct star) = foldr max (map expr_depth args) 0"
| "expr_depth (Subquery q) = select_depth q"
| "expr_depth (InSubquery e q negated) = max (expr_depth e) (select_depth q)"
| "expr_depth (Exists q negated) = select_depth q"
| "select_depth (SelectStmt ps ft fa js wh gb hv ob lm off dst) =
     Suc (foldr max (map expr_depth ps @ map join_depth js @ expr_depth wh # map expr_depth gb @
            expr_depth hv # map fst (map (map_prod expr_depth id) ob)) 0)"
| "join_depth (JoinSpec t a k e) = expr_depth e"

definition statement_depth :: "statement \<Rightarrow> nat" where
  "statement_depth node =
     (case node of
        Select q \<Rightarrow> select_depth q
      | Update name assigns wh \<Rightarrow> foldr max (expr_depth wh # map (\<lambda>(_, e). expr_depth e) assigns) 0
      | Delete name wh \<Rightarrow> expr_depth wh
      | _ \<Rightarrow> 0)"

abbreviation shallow :: "nat \<Rightarrow> expr \<Rightarrow> bool" where
  "shallow d e \<equiv> expr_depth e \<le> d"

lemma foldr_max_le: "foldr max xs (n::nat) \<le> d \<longleftrightarrow> (\<forall>x\<in>set xs. x \<le> d) \<and> n \<le> d"
  by (induction xs) auto

definition shallow_select :: "nat \<Rightarrow> select \<Rightarrow> bool" where
  "shallow_select d q \<longleftrightarrow>
     (\<forall>e\<in>set (sel_projections q). shallow d e) \<and> (\<forall>j\<in>set (sel_joins q). shallow d (js_on j)) \<and>
     shallow d (sel_where q) \<and> (\<forall>e\<in>set (sel_group_by q). shallow d e) \<and> shallow d (sel_having q) \<and>
     (\<forall>p\<in>set (sel_order_by q). shallow d (fst p))"

lemma join_depth_on: "join_depth j = expr_depth (js_on j)"
  by (cases j) simp

lemma select_depth_Suc: "select_depth q \<le> Suc d \<longleftrightarrow> shallow_select d q"
  by (cases q) (auto simp: foldr_max_le shallow_select_def join_depth_on)

lemma select_depth_pos: "0 < select_depth q"
  by (cases q) simp

section \<open>Evaluators that agree\<close>

definition runners_agree :: "nat \<Rightarrow> 's runner \<Rightarrow> 's runner \<Rightarrow> bool" where
  "runners_agree d f g \<longleftrightarrow> (\<forall>stack q. select_depth q \<le> d \<longrightarrow> f stack q = g stack q)"

definition agree :: "nat \<Rightarrow> 's evaluator \<Rightarrow> 's evaluator \<Rightarrow> bool" where
  "agree d ev ev' \<longleftrightarrow> (\<forall>ctx e. shallow d e \<longrightarrow> ev ctx e = ev' ctx e)"

lemma agreeD: "agree d ev ev' \<Longrightarrow> shallow d e \<Longrightarrow> ev ctx e = ev' ctx e"
  by (simp add: agree_def)

lemma evaluate_agrees:
  assumes "runners_agree d f g"
  shows "shallow d e \<Longrightarrow> evaluate (Some f) outer ctx e = evaluate (Some g) outer ctx e"
proof (induction "Some f" outer ctx e rule: evaluate.induct)
  case (6 outer ctx op a b)
  show ?case
  proof (cases "\<exists>op' lo hi. op = BBetween \<and> b = BinaryOp op' lo hi")
    case True
    then obtain op' lo hi where b: "op = BBetween" "b = BinaryOp op' lo hi" by blast
    show ?thesis using 6 unfolding b by simp
  next
    case False
    then show ?thesis using 6(1,2,5) by (cases b; cases "op = BBetween") simp_all
  qed
next
  case (7 outer ctx name args dct star)
  then show ?case by (cases args) auto
qed (use assms in \<open>auto simp: runners_agree_def\<close>)

lemma filter_eff_cong: "(\<And>x. x \<in> set xs \<Longrightarrow> p x = q x) \<Longrightarrow> filter_eff p xs = filter_eff q xs"
  by (induction xs) auto

lemma map_eff_eq: "(\<And>x. x \<in> set xs \<Longrightarrow> f x = g x) \<Longrightarrow> map_eff f xs = map_eff g xs"
  by (rule map_eff_cong) simp_all

section \<open>Expressions of the plan\<close>

lemma split_conjuncts_depth: "p \<in> set (split_conjuncts e) \<Longrightarrow> expr_depth p \<le> expr_depth e"
proof (induction e rule: split_conjuncts.induct)
  case (1 a b)
  then show ?case by (auto simp: le_max_iff_disj)
qed auto

lemma foldl_and_depth: "shallow d e \<Longrightarrow> \<forall>p\<in>set ps. shallow d p \<Longrightarrow> shallow d (foldl (BinaryOp BAnd) e ps)"
  by (induction ps arbitrary: e) auto

lemma combine_depth: "\<forall>p\<in>set ps. shallow d p \<Longrightarrow> shallow d (combine_conjuncts ps)"
  by (cases ps) (auto simp: combine_conjuncts_def foldl_and_depth)

lemma and_chain_depth: "\<forall>p\<in>set ps. shallow d p \<Longrightarrow> shallow d (and_chain ps)"
  by (cases ps) (auto simp: and_chain_def foldl_and_depth)

definition scan_shallow :: "nat \<Rightarrow> scan_plan \<Rightarrow> bool" where
  "scan_shallow d p \<longleftrightarrow> (\<forall>e\<in>set (sp_pushed p). shallow d e)"

definition join_shallow :: "nat \<Rightarrow> join_plan \<Rightarrow> bool" where
  "join_shallow d j \<longleftrightarrow> scan_shallow d (jp_scan j) \<and> shallow d (jp_pred j)"

fun base_shallow :: "nat \<Rightarrow> scan_plan option \<Rightarrow> bool" where
  "base_shallow d None = True"
| "base_shallow d (Some b) = scan_shallow d b"

definition layout_shallow :: "nat \<Rightarrow> layout \<Rightarrow> bool" where
  "layout_shallow d lay \<longleftrightarrow> base_shallow d (fst lay) \<and> (\<forall>j\<in>set (snd lay). join_shallow d j)"

lemma push_shallow: "scan_shallow d p \<Longrightarrow> shallow d e \<Longrightarrow> scan_shallow d (push_to_scan e p)"
  by (auto simp: scan_shallow_def push_to_scan_def)

lemma place_in_joins_shallow:
  "place_in_joins e js = Some js' \<Longrightarrow> shallow d e \<Longrightarrow> \<forall>j\<in>set js. join_shallow d j \<Longrightarrow> \<forall>j\<in>set js'. join_shallow d j"
  by (induction js arbitrary: js') (auto simp: join_shallow_def push_shallow split: if_splits)

lemma place_where_shallow:
  "place_where e lay = Some lay' \<Longrightarrow> shallow d e \<Longrightarrow> layout_shallow d lay \<Longrightarrow> layout_shallow d lay'"
  by (auto simp: place_where_def layout_shallow_def push_shallow dest: place_in_joins_shallow
      split: prod.splits option.splits if_splits)

lemma distribute_where_shallow:
  "distribute_where cs lay = (lay', rest) \<Longrightarrow> \<forall>e\<in>set cs. shallow d e \<Longrightarrow> layout_shallow d lay \<Longrightarrow>
     layout_shallow d lay' \<and> (\<forall>e\<in>set rest. shallow d e)"
  by (induction cs lay arbitrary: lay' rest rule: distribute_where.induct)
    (auto split: option.splits prod.splits dest: place_where_shallow)

lemma distribute_on_shallow:
  "distribute_on cs base j = (base', j', rest) \<Longrightarrow> \<forall>e\<in>set cs. shallow d e \<Longrightarrow>
     base_shallow d base \<Longrightarrow> join_shallow d j \<Longrightarrow>
     base_shallow d base' \<and> join_shallow d j' \<and> (\<forall>e\<in>set rest. shallow d e)"
proof (induction cs base j arbitrary: base' j' rest rule: distribute_on.induct)
  case (2 e cs base j)
  have "base_shallow d (map_option (push_to_scan e) base)"
    using 2(5,6) by (cases base) (auto simp: push_shallow)
  moreover have "join_shallow d (j\<lparr>jp_pushed := ps\<rparr>)" for ps using 2(7) by (simp add: join_shallow_def)
  ultimately show ?case using 2 by (simp split: if_splits prod.splits) force
qed simp

lemma distribute_ons_shallow:
  "distribute_ons ss base js = (base', js') \<Longrightarrow> \<forall>s\<in>set ss. shallow d (js_on s) \<Longrightarrow>
     layout_shallow d (base, js) \<Longrightarrow> layout_shallow d (base', js')"
proof (induction ss base js arbitrary: base' js' rule: distribute_ons.induct)
  case (1 s ss base j js)
  obtain b1 j1 rest where one: "distribute_on (split_conjuncts (js_on s)) base j = (b1, j1, rest)"
    by (metis prod_cases3)
  obtain b2 js2 where two: "distribute_ons ss b1 js = (b2, js2)" by fastforce
  have "\<forall>e\<in>set (split_conjuncts (js_on s)). shallow d e"
    using 1(3) split_conjuncts_depth order_trans by fastforce
  from distribute_on_shallow [OF one this] have b1: "layout_shallow d (b1, js)" "join_shallow d j1" "\<forall>e\<in>set rest. shallow d e"
    using 1(4) by (auto simp: layout_shallow_def)
  have "layout_shallow d (b2, js2)" using 1(1) [OF one [symmetric] refl two] 1(3) b1 by simp
  then show ?case using 1(2) one two b1 and_chain_depth
    by (auto simp: layout_shallow_def join_shallow_def)
qed auto

definition plan_shallow :: "nat \<Rightarrow> query_plan \<Rightarrow> bool" where
  "plan_shallow d plan \<longleftrightarrow> layout_shallow d (qp_base plan, qp_joins plan) \<and> (\<forall>e\<in>set (qp_remainder plan). shallow d e)"

lemma new_join_shallow: "new_join schemas s = Inr j \<Longrightarrow> join_shallow d j"
  by (auto simp: new_join_def new_scan_def join_shallow_def scan_shallow_def bind_result_eq_Inr)

lemma new_joins_shallow: "map_result (new_join schemas) ss = Inr js \<Longrightarrow> j \<in> set js \<Longrightarrow> join_shallow d j"
  by (induction ss arbitrary: js) (auto simp: bind_result_eq_Inr new_join_shallow)

lemma plan_select_shallow:
  assumes "plan_select q schemas = Inr plan" "shallow_select d q"
  shows "plan_shallow d plan"
proof -
  obtain base js where b: "base_plan schemas q = Inr base" "map_result (new_join schemas) (sel_joins q) = Inr js"
    and plan: "plan = finish_plan q base js"
    using assms(1) by (auto simp: plan_select_def bind_result_eq_Inr)
  have "base_shallow d base"
    using b(1) by (auto simp: base_plan_def new_scan_def bind_result_eq_Inr scan_shallow_def split: if_splits)
  then have lay: "layout_shallow d (base, js)"
    using new_joins_shallow [OF b(2)] by (simp add: layout_shallow_def)
  obtain b1 js1 rest where one: "distribute_where (split_conjuncts (sel_where q)) (base, js) = ((b1, js1), rest)"
    by (metis surj_pair)
  obtain b2 js2 where two: "distribute_ons (sel_joins q) b1 js1 = (b2, js2)" by fastforce
  have "\<forall>e\<in>set (split_conjuncts (sel_where q)). shallow d e"
    using assms(2) split_conjuncts_depth order_trans by (fastforce simp: shallow_select_def)
  from distribute_where_shallow [OF one this lay] distribute_ons_shallow [OF two]
  show ?thesis using assms(2) by (simp add: plan plan_shallow_def finish_plan_def one two shallow_select_def)
qed

section \<open>The executor under an agreeing evaluator\<close>

named_theorems agreeing

lemma test_agrees [agreeing]: "agree d ev ev' \<Longrightarrow> shallow d e \<Longrightarrow> test ev ctx e = test ev' ctx e"
  by (simp add: test_def agreeD)

lemma accept_row_agrees [agreeing]: "agree d ev ev' \<Longrightarrow> scan_shallow d p \<Longrightarrow> accept_row ev p = accept_row ev' p"
  by (rule ext) (simp add: accept_row_def scan_shallow_def combine_depth agreeing)

lemma lookup_key_agrees [agreeing]: "agree d ev ev' \<Longrightarrow> scan_shallow d p \<Longrightarrow> lookup_key ev snap p = lookup_key ev' snap p"
  by (rule ext) (simp add: lookup_key_def agreeing cong: option.case_cong)

lemma run_scan_agrees [agreeing]: "agree d ev ev' \<Longrightarrow> scan_shallow d p \<Longrightarrow> run_scan ev snap p = run_scan ev' snap p"
  by (simp add: run_scan_def agreeing cong: option.case_cong)

lemma join_row_agrees [agreeing]:
  "agree d ev ev' \<Longrightarrow> join_shallow d jp \<Longrightarrow> join_row ev sources jp right lrow = join_row ev' sources jp right lrow"
  by (simp add: join_row_def join_shallow_def agreeing)

lemma join_all_agrees [agreeing]:
  "agree d ev ev' \<Longrightarrow> \<forall>j\<in>set js. join_shallow d j \<Longrightarrow> join_all ev snap sources js left = join_all ev' snap sources js left"
proof (induction js arbitrary: left)
  case (Cons j js)
  have "run_scan ev snap (jp_scan j) = run_scan ev' snap (jp_scan j)"
    using Cons.prems by (intro run_scan_agrees) (auto simp: join_shallow_def)
  moreover have "map_eff (join_row ev sources j right) left = map_eff (join_row ev' sources j right) left" for right
    using Cons.prems by (intro map_eff_eq join_row_agrees) auto
  ultimately show ?case using Cons by simp
qed simp

lemma nested_loop_agrees [agreeing]:
  assumes "agree d ev ev'" "plan_shallow d plan"
  shows "nested_loop_join ev snap sources plan = nested_loop_join ev' snap sources plan"
proof -
  have "\<forall>p\<in>set (plan_scans plan). scan_shallow d p" "\<forall>j\<in>set (qp_joins plan). join_shallow d j"
    using assms(2) by (cases "qp_base plan"; auto simp: plan_shallow_def layout_shallow_def plan_scans_def join_shallow_def)+
  then show ?thesis using assms(1)
    by (auto simp: nested_loop_join_def agreeing split: list.splits)
qed

lemma agg_value_agrees [agreeing]:
  "agree d ev ev' \<Longrightarrow> \<forall>e\<in>set args. shallow d e \<Longrightarrow>
     agg_value ev sources name args dct star rows = agg_value ev' sources name args dct star rows"
  by (cases args) (auto simp: agg_value_def agreeD cong: map_eff_cong)

lemma eval_having_agrees [agreeing]:
  "agree d ev ev' \<Longrightarrow> shallow d e \<Longrightarrow> eval_having ev sources ctx rows e = eval_having ev' sources ctx rows e"
  by (induction ev sources ctx rows e rule: eval_having.induct) (auto simp: foldr_max_le agreeing agreeD)

lemma make_groups_agrees [agreeing]:
  assumes "agree d ev ev'" "\<forall>e\<in>set ks. shallow d e"
  shows "make_groups ev sources ks rows = make_groups ev' sources ks rows"
proof -
  have "map_eff (ev ctx) ks = map_eff (ev' ctx) ks" for ctx
    using assms by (intro map_eff_eq agreeD) auto
  then show ?thesis by (simp add: make_groups_def)
qed

lemma project_one_agg_agrees [agreeing]:
  assumes "agree d ev ev'" "shallow d e"
  shows "project_one_agg ev sources ks g e = project_one_agg ev' sources ks g e"
  using assms by (cases g; cases e) (auto simp: project_one_agg_def Let_def foldr_max_le agreeD agg_value_agrees
      split: option.splits)

lemma group_output_agrees [agreeing]:
  assumes "agree d ev ev'" "shallow_select d node"
  shows "group_output ev sources node g = group_output ev' sources node g"
proof -
  have "map_eff (project_one_agg ev sources (sel_group_by node) g) (sel_projections node) =
      map_eff (project_one_agg ev' sources (sel_group_by node) g) (sel_projections node)"
    using assms by (intro map_eff_eq project_one_agg_agrees) (auto simp: shallow_select_def)
  then show ?thesis using assms by (simp add: group_output_def shallow_select_def agreeing cong: if_cong)
qed

lemma special_value_agrees [agreeing]:
  assumes "agree d ev ev'" "shallow d e"
  shows "special_value ev sources ks e g = special_value ev' sources ks e g"
  using assms by (cases g; cases e) (auto simp: special_value_def Let_def foldr_max_le agreeD agg_value_agrees
      split: option.splits)

lemma group_keys_agrees [agreeing]:
  assumes "agree d ev ev'" "shallow_select d node"
  shows "group_keys ev sources node cols outs = group_keys ev' sources node cols outs"
proof -
  have "special_value ev sources ks e g = special_value ev' sources ks e g" if "(e, desc) \<in> set (sel_order_by node)" for ks e desc g
    using that assms by (intro special_value_agrees) (auto simp: shallow_select_def)
  then show ?thesis unfolding group_keys_def
    by (auto intro!: map_eff_eq split: option.splits)
qed

lemma group_result_agrees [agreeing]:
  assumes "agree d ev ev'" "shallow_select d node"
  shows "group_result ev sources node rows = group_result ev' sources node rows"
proof -
  have "make_groups ev sources (sel_group_by node) rows = make_groups ev' sources (sel_group_by node) rows"
    using assms by (intro make_groups_agrees) (auto simp: shallow_select_def)
  moreover have "order_groups ev sources node cols outs = order_groups ev' sources node cols outs" for cols outs
    by (simp add: order_groups_def group_keys_agrees [OF assms])
  moreover have "group_output ev sources node = group_output ev' sources node"
    by (rule ext) (rule group_output_agrees [OF assms])
  ultimately show ?thesis by (simp add: group_result_def group_and_aggregate_def Let_def cong: if_cong)
qed

lemma project_agrees [agreeing]:
  assumes "agree d ev ev'" "\<forall>e\<in>set ps. shallow d e"
  shows "project ev ctx ps = project ev' ctx ps"
proof -
  have "map_eff (project_item ev ctx) ps = map_eff (project_item ev' ctx) ps"
    using assms by (intro map_eff_eq) (auto simp: project_item_def agreeD split: expr.splits)
  then show ?thesis by (simp add: project_def)
qed

lemma flat_row_agrees [agreeing]:
  assumes "agree d ev ev'" "shallow_select d node"
  shows "flat_row ev sources node row = flat_row ev' sources node row"
proof -
  have "map_eff (\<lambda>(e, _). source_key ev ctx e) (sel_order_by node) = map_eff (\<lambda>(e, _). source_key ev' ctx e) (sel_order_by node)" for ctx
  proof (rule map_eff_eq, clarify)
    fix e desc
    assume "(e, desc) \<in> set (sel_order_by node)"
    then have "ev ctx e = ev' ctx e" using assms by (intro agreeD) (auto simp: shallow_select_def)
    then show "source_key ev ctx e = source_key ev' ctx e" by (simp add: source_key_def)
  qed
  then show ?thesis using assms by (simp add: flat_row_def Let_def shallow_select_def agreeing)
qed

lemma flat_output_agrees [agreeing]:
  assumes "agree d ev ev'" "shallow_select d node"
  shows "flat_output ev sources node rows = flat_output ev' sources node rows"
  using assms by (simp add: flat_output_def agreeing cong: map_eff_cong)

lemma select_from_agrees:
  assumes "agree d ev ev'" "shallow_select d node"
  shows "select_from w tx ev snap node = select_from w tx ev' snap node"
proof (rule ext)
  fix db
  have planned: "nested_loop_join ev snap sources plan = nested_loop_join ev' snap sources plan \<and>
      test ev ctx (combine_conjuncts (qp_remainder plan)) = test ev' ctx (combine_conjuncts (qp_remainder plan))"
    if "plan_select node schemas = Inr plan" for sources schemas plan ctx
    using plan_select_shallow [OF that assms(2)] assms(1)
    by (auto simp: nested_loop_agrees plan_shallow_def intro!: test_agrees combine_depth)
  show "select_from w tx ev snap node db = select_from w tx ev' snap node db"
    unfolding select_from_def
  proof (rule arg_cong [where f = "\<lambda>f. bind_eff (query_schemas node) f db"], rule ext)
    fix schemas
    show "bind_eff (lift (plan_select node schemas))
       (\<lambda>plan. bind_eff (when_serializable tx (lock_tables w tx (query_tables node))) (\<lambda>_.
         bind_eff (lift (build_sources node schemas)) (\<lambda>sources.
         bind_eff (nested_loop_join ev snap sources plan) (\<lambda>joined.
         bind_eff (filter_eff (\<lambda>row. test ev (row_context sources row) (combine_conjuncts (qp_remainder plan))) joined)
           (\<lambda>kept. if qp_aggregates plan then group_result ev sources node kept else flat_output ev sources node kept))))) =
      bind_eff (lift (plan_select node schemas))
       (\<lambda>plan. bind_eff (when_serializable tx (lock_tables w tx (query_tables node))) (\<lambda>_.
         bind_eff (lift (build_sources node schemas)) (\<lambda>sources.
         bind_eff (nested_loop_join ev' snap sources plan) (\<lambda>joined.
         bind_eff (filter_eff (\<lambda>row. test ev' (row_context sources row) (combine_conjuncts (qp_remainder plan))) joined)
           (\<lambda>kept. if qp_aggregates plan then group_result ev' sources node kept else flat_output ev' sources node kept)))))"
      using planned group_result_agrees [OF assms] flat_output_agrees [OF assms]
      by (cases "plan_select node schemas") (simp_all cong: if_cong)
  qed
qed

lemma evaluators_agree: "runners_agree d f g \<Longrightarrow> agree d (evaluate (Some f) outer) (evaluate (Some g) outer)"
  by (simp add: agree_def evaluate_agrees)

lemma select_step_agrees:
  assumes "\<And>snap. runners_agree d (f snap) (g snap)" "shallow_select d q"
  shows "select_step w tx f override outer q = select_step w tx g override outer q"
proof -
  have "(if sel_from q = None then project_no_from (evaluate (Some (f snap)) outer) q
       else select_from w tx (evaluate (Some (f snap)) outer) snap q) =
     (if sel_from q = None then project_no_from (evaluate (Some (g snap)) outer) q
       else select_from w tx (evaluate (Some (g snap)) outer) snap q)" for snap
    using select_from_agrees [OF evaluators_agree [OF assms(1)] assms(2)]
      project_agrees [OF evaluators_agree [OF assms(1)], of "sel_projections q"] assms(2)
    by (simp add: project_no_from_def shallow_select_def)
  then show ?thesis unfolding select_step_def by simp
qed

text \<open>
  Enough levels: any recursion with the same step, whatever it does at level zero, gives the same result once
  the levels reach the depth of the query.
\<close>

lemma exec_select_levels:
  assumes "\<And>n override outer q. X (Suc n) override outer q =
      select_step w tx (\<lambda>snap stack q. bind_eff (X n (Some snap) stack q) (\<lambda>rs. ret (rs_rows rs))) override outer q"
  shows "select_depth q \<le> n \<Longrightarrow> select_depth q \<le> m \<Longrightarrow>
     X n override outer q = exec_select w tx m override outer q"
proof (induction n arbitrary: m q override outer)
  case 0
  then show ?case using select_depth_pos [of q] by simp
next
  case (Suc n)
  then obtain m' where m: "m = Suc m'" using select_depth_pos [of q] by (cases m) auto
  define d where "d = select_depth q - 1"
  have q: "shallow_select d q" and dn: "d \<le> n" "d \<le> m'"
    using Suc.prems select_depth_pos [of q] by (auto simp: d_def m simp flip: select_depth_Suc)
  show ?case unfolding m exec_select.simps assms
    by (rule select_step_agrees [OF _ q]) (use Suc.IH [of _ m'] dn in \<open>simp add: runners_agree_def\<close>)
qed

end
