(* ===== verification/IndexLookup.thy ===== *)
theory IndexLookup
  imports QueryDepth ExprLemmas TableViews
begin

text \<open>
  The index lookup of a scan against the full scan: when the pushed predicates say \<open>pk = literal\<close>, every row
  they accept has the converted literal as its key, so reading that one key finds all of them.
\<close>

section \<open>Conversion and equality\<close>

lemma py_lower_idem [simp]: "py_lower (py_lower s) = py_lower s"
proof -
  have "lower_char (lower_char c) = lower_char c" for c
  proof (cases "is_upper c")
    case True
    then have "\<not> is_upper (char_of (char_code c + 32) :: char)"
      by (auto simp: is_upper_def char_code_def)
    then show ?thesis using True by (simp add: lower_char_def)
  qed (simp add: lower_char_def)
  then show ?thesis by (simp add: py_lower_def)
qed

lemma feq_sym: "feq x y = feq y x"
  by (auto simp: feq_def)

lemma py_eq_sym: "py_eq a b = py_eq b a"
  by (auto simp: py_eq_def feq_sym split: option.splits)

text \<open>A float cell that is a double.\<close>

definition exact_float :: "pyval \<Rightarrow> bool" where
  "exact_float v \<longleftrightarrow> (\<forall>q. v = VFloat (FFin q) \<longrightarrow> fround q = FFin q)"

lemma converted_literal:
  assumes "fits col u" "exact_float u" "py_eq u raw" "u \<noteq> VNone" "convert_value col raw = Inr k"
  shows "u = k"
proof (cases "col_type col")
  case TInt
  then obtain i where "u = VInt i" using assms(1,4) by (cases u) (auto simp: fits_def)
  then show ?thesis using assms TInt
    by (cases raw) (auto simp: convert_value_def py_eq_def to_int_def num_float_def feq_def float_is_integer_def
        bind_result_eq_Inr split: if_splits option.splits)
next
  case TFloat
  then obtain x where "u = VFloat x" using assms(1,4) by (cases u) (auto simp: fits_def)
  then show ?thesis using assms TFloat
    by (cases raw) (auto simp: convert_value_def py_eq_def to_double_def num_float_def feq_def float_checked_def
        exact_float_def bind_result_eq_Inr split: if_splits option.splits pyfloat.splits)
next
  case TBoolean
  then obtain b where "u = VBool b" using assms(1,4) by (cases u) (auto simp: fits_def)
  then show ?thesis using assms TBoolean
    by (cases raw) (auto simp: convert_value_def py_eq_def to_bool_def num_float_def feq_def Let_def
        bind_result_eq_Inr split: if_splits option.splits)
next
  case TVarchar
  then obtain s where "u = VStr s" using assms(1,4) by (cases u) (auto simp: fits_def)
  then show ?thesis using assms TVarchar
    by (cases raw) (auto simp: convert_value_def py_eq_def to_text_def Let_def split: if_splits option.splits)
next
  case TText
  then obtain s where "u = VStr s" using assms(1,4) by (cases u) (auto simp: fits_def)
  then show ?thesis using assms TText
    by (cases raw) (auto simp: convert_value_def py_eq_def to_text_def Let_def split: if_splits option.splits)
qed

section \<open>Tables with a user key\<close>

definition keyed_table :: "table \<Rightarrow> column \<Rightarrow> nat \<Rightarrow> bool" where
  "keyed_table t c i \<longleftrightarrow>
     table_ok t \<and> pk_column (tb_schema t) = Inr c \<and> i < length (sch_columns (tb_schema t)) \<and>
     sch_columns (tb_schema t) ! i = c \<and> distinct (column_names_lower (tb_schema t)) \<and>
     (\<forall>k ch v. table_chain t k = Some ch \<longrightarrow> v \<in> set ch \<longrightarrow>
        row_fits (tb_schema t) (v_row v) \<and> k = KVal (v_row v ! i) \<and> v_row v ! i \<noteq> VNone \<and> exact_float (v_row v ! i))"

lemma position_nth: "distinct xs \<Longrightarrow> i < length xs \<Longrightarrow> position (\<lambda>x. x = xs ! i) xs = Some i"
proof (induction xs arbitrary: i)
  case (Cons x xs)
  then show ?case by (cases i) auto
qed simp

lemma lower_names_nth:
  "i < length (sch_columns s) \<Longrightarrow> column_names_lower s ! i = py_lower (col_name (sch_columns s ! i))"
  by (simp add: column_names_lower_def)

lemma key_ref_value:
  assumes "is_key_ref (py_lower (col_name (sch_columns s ! i))) al ref" "distinct (column_names_lower s)"
    and "i < length (sch_columns s)" "length row = length (sch_columns s)"
  shows "evaluate run outer (row_scope al (column_names_lower s) row) ref = ret (row ! i)"
proof -
  obtain name tab where ref: "ref = ColumnRef name tab" "py_lower name = column_names_lower s ! i"
    "case tab of None \<Rightarrow> True | Some t \<Rightarrow> py_lower t = al"
    using assms(1,3) by (auto simp: is_key_ref_def lower_names_nth split: expr.splits)
  have low: "map py_lower (column_names_lower s) = column_names_lower s"
    by (simp add: column_names_lower_def)
  have pos: "position (\<lambda>x. x = py_lower name) (column_names_lower s) = Some i"
    using position_nth [OF assms(2)] assms(3) ref(2) by (simp add: column_names_lower_def)
  moreover have "position (\<lambda>x. py_lower x = py_lower name) xs = position (\<lambda>x. x = py_lower name) xs"
    if "map py_lower xs = xs" for xs
    using that by (induction xs) auto
  ultimately have "position (\<lambda>x. py_lower x = py_lower name) (column_names_lower s) = Some i"
    using low by simp
  with pos have "resolve_here (row_scope al (column_names_lower s) row) name tab = Some (Inr (row ! i))"
    using ref(3) assms(3,4)
    by (cases tab) (auto simp: resolve_here_def row_scope_def alias_binding_def cell_def split: list.splits option.splits)
  then show ?thesis by (simp add: ref(1))
qed

lemma column_of_key:
  assumes "column_of s (py_lower (col_name (sch_columns s ! i))) = Inr c" "distinct (column_names_lower s)"
    and "i < length (sch_columns s)"
  shows "c = sch_columns s ! i"
proof -
  obtain j where j: "index_of s (py_lower (col_name (sch_columns s ! i))) = Inr j" "c = sch_columns s ! j"
    using assms(1) by (auto simp: column_of_def bind_result_eq_Inr)
  then have "j < length (sch_columns s)" "column_names_lower s ! j = column_names_lower s ! i"
    using index_of_column [OF j(1)] assms(3) by (simp_all add: lower_names_nth)
  then have "j = i"
    using nth_eq_iff_index_eq [OF assms(2), of j i] assms(3) by (simp add: column_names_lower_def)
  then show ?thesis using j by simp
qed

lemma key_literal_cases:
  assumes "key_literal pk al pred = Some raw"
  obtains e where "is_key_ref pk al e" "pred = BinaryOp BEq e (Literal raw) \<or> pred = BinaryOp BEq (Literal raw) e"
  using assms by (auto simp: key_literal_def split: expr.splits binop.splits bool.splits)

text \<open>A true key equality on a row of the table determines the row's key.\<close>

lemma key_equality:
  assumes "pk_eq_key pred (py_lower (col_name c)) al s = Inr (Some k)"
    and "i < length (sch_columns s)" "sch_columns s ! i = c" "distinct (column_names_lower s)"
    and "row_fits s row" "row ! i \<noteq> VNone" "exact_float (row ! i)"
    and "evaluate run outer (row_scope al (column_names_lower s) row) pred db = (db', Inr v)" "py_truth v"
  shows "row ! i = k \<and> py_eq k k"
proof -
  obtain raw where raw: "key_literal (py_lower (col_name c)) al pred = Some raw"
    "column_of s (py_lower (col_name c)) = Inr c" "convert_value c raw = Inr k"
  proof -
    obtain raw col where r: "key_literal (py_lower (col_name c)) al pred = Some raw"
      "column_of s (py_lower (col_name c)) = Inr col"
      "(case convert_value col raw of Inl _ \<Rightarrow> None | Inr v \<Rightarrow> if v = VNone then None else Some v) = Some k"
      using assms(1) by (auto simp: pk_eq_key_def bind_result_eq_Inr split: option.splits)
    have "col = c" using column_of_key [of s i col] r(2) assms(2-4) by simp
    then show ?thesis using r that by (cases "convert_value col raw") (auto split: if_splits)
  qed
  have len: "length row = length (sch_columns s)" and fit: "fits c (row ! i)"
    using assms(2,3,5) by (auto simp: row_fits_def list_all2_conv_all_nth)
  have ref: "evaluate run outer (row_scope al (column_names_lower s) row) e = ret (row ! i)"
    if "is_key_ref (py_lower (col_name c)) al e" for e
    using key_ref_value [of s i al e row] that assms(2-4) len by simp
  obtain e where "is_key_ref (py_lower (col_name c)) al e"
    "pred = BinaryOp BEq e (Literal raw) \<or> pred = BinaryOp BEq (Literal raw) e"
    using key_literal_cases [OF raw(1)] by blast
  then have "v = (if raw = VNone then VNone else VBool (py_eq (row ! i) raw))"
    using assms(6,8) ref [of e]
    by (auto simp: binary_value_def plain_binary_def type_guard_def ret_def py_eq_sym split: if_splits)
  then have eq: "py_eq (row ! i) raw" using assms(9) by (auto split: if_splits)
  then have "row ! i = k" using converted_literal [OF fit assms(7) _ assms(6) raw(3)] by simp
  moreover have "py_eq (row ! i) (row ! i)" using eq by (auto simp: py_eq_def feq_def split: option.splits)
  ultimately show ?thesis by simp
qed

lemma and_chain_conjuncts:
  "evaluate run outer ctx (foldl (BinaryOp BAnd) p ps) s = (s', Inr v) \<Longrightarrow> py_truth v \<Longrightarrow> q \<in> set (p # ps) \<Longrightarrow>
     \<exists>s1 s2 u. evaluate run outer ctx q s1 = (s2, Inr u) \<and> py_truth u"
proof (induction ps arbitrary: p q)
  case Nil
  then show ?case by auto
next
  case (Cons r ps)
  show ?case
  proof (cases "q = p \<or> q = r")
    case True
    obtain s1 s2 u where "evaluate run outer ctx (BinaryOp BAnd p r) s1 = (s2, Inr u)" "py_truth u"
      using Cons.IH [OF _ Cons.prems(2), of "BinaryOp BAnd p r" "BinaryOp BAnd p r"] Cons.prems(1)
      by (simp del: evaluate.simps) blast
    then show ?thesis using True
      by (auto simp: bind_eff_def lift_def ret_def binary_value_def split: prod.splits sum.splits) blast+
  next
    case False
    then show ?thesis using Cons.IH [of "BinaryOp BAnd p r"] Cons.prems by auto
  qed
qed

lemma accepted_conjuncts:
  assumes "accept_row (evaluate run outer) p row s = (s', Inr True)" "q \<in> set (sp_pushed p)" "q \<noteq> Missing"
  shows "\<exists>s1 s2 u. evaluate run outer (row_scope (sp_alias p) (sp_columns p) row) q s1 = (s2, Inr u) \<and> py_truth u"
proof -
  obtain e es where ps: "sp_pushed p = e # es" using assms(2) by (cases "sp_pushed p") auto
  have "combine_conjuncts (sp_pushed p) \<noteq> Missing"
  proof (cases es rule: rev_cases)
    case Nil
    then show ?thesis using assms(2,3) ps by (auto simp: combine_conjuncts_def)
  qed (simp add: ps combine_conjuncts_def)
  then have "\<exists>v. evaluate run outer (row_scope (sp_alias p) (sp_columns p) row) (foldl (BinaryOp BAnd) e es) s = (s', Inr v) \<and> truthy v"
    using assms(1) by (auto simp: accept_row_def test_def ps combine_conjuncts_def bind_eff_def ret_def
        split: prod.splits sum.splits)
  then show ?thesis using and_chain_conjuncts assms(2) unfolding ps truthy_def by fastforce
qed

section \<open>The two scans\<close>

text \<open>On every visible row the pushed predicates give an answer and change nothing.\<close>

definition decides :: "database evaluator \<Rightarrow> scan_plan \<Rightarrow> pyval list \<Rightarrow> database \<Rightarrow> bool" where
  "decides ev p row db \<longleftrightarrow> (\<exists>b. accept_row ev p row db = (db, Inr b))"

definition accepts :: "database evaluator \<Rightarrow> scan_plan \<Rightarrow> database \<Rightarrow> pyval list \<Rightarrow> bool" where
  "accepts ev p db row \<longleftrightarrow> accept_row ev p row db = (db, Inr True)"

lemma decided: "decides ev p row db \<Longrightarrow> accept_row ev p row db = (db, Inr (accepts ev p db row))"
  by (auto simp: decides_def accepts_def)

lemma bind_decided:
  "decides ev p row db \<Longrightarrow> bind_eff (accept_row ev p row) f db = f (accepts ev p db row) db"
  by (simp add: bind_eff_def decided)

lemma filter_decided:
  "\<forall>row\<in>set rows. decides ev p row db \<Longrightarrow>
     filter_eff (accept_row ev p) rows db = (db, Inr (filter (accepts ev p db) rows))"
  by (induction rows) (auto simp: bind_eff_def decided ret_def)

text \<open>The scan without the index.\<close>

definition full_scan :: "database evaluator \<Rightarrow> snapshot \<Rightarrow> scan_plan \<Rightarrow> (database, pyval list list) eff" where
  "full_scan ev snap p =
     bind_eff (read_scan (sp_table p) snap) (\<lambda>rows. filter_eff (accept_row ev p) (map snd rows))"

lemma filter_alist_key:
  assumes "distinct (map fst rows)" "\<forall>(k', row)\<in>set rows. P row \<longrightarrow> k' = k"
  shows "filter P (map snd rows) = (case map_of rows k of None \<Rightarrow> [] | Some row \<Rightarrow> if P row then [row] else [])"
  using assms
proof (induction rows)
  case (Cons e rows)
  obtain k' row where e: "e = (k', row)" by (cases e)
  show ?case
  proof (cases "k' = k")
    case True
    have "\<not> P r" if "(k'', r) \<in> set rows" for k'' r
      using that Cons.prems True by (fastforce simp: e rev_image_eqI)
    then have "filter P (map snd rows) = []" by (auto simp: filter_empty_conv)
    then show ?thesis using True by (simp add: e)
  next
    case False
    then have "\<not> P row" using Cons.prems by (auto simp: e)
    then show ?thesis using Cons False by (simp add: e)
  qed
qed simp

lemma combined_keys:
  assumes "combine_keys ks = Some keys" "\<forall>k\<in>set ks. u = k \<and> py_eq k k"
  shows "keys = [u]"
proof -
  obtain k rest where ks: "ks = k # rest" using assms(1) by (cases ks) (auto simp: combine_keys_def)
  then have "list_all (\<lambda>k'. py_eq k' k) rest" using assms(2) by (auto simp: list_all_iff)
  then show ?thesis using assms ks by (auto simp: combine_keys_def)
qed

lemma map_result_members:
  "map_result f xs = Inr ys \<Longrightarrow> y \<in> set ys \<Longrightarrow> \<exists>x\<in>set xs. f x = Inr y"
  by (induction xs arbitrary: ys) (auto simp: bind_result_eq_Inr)

lemma index_key_conjunct:
  assumes "index_keys t p = Inr (Some keys)" "keyed_table t c i"
  obtains ks where "combine_keys ks = Some keys"
    "\<forall>k\<in>set ks. \<exists>pred\<in>set (sp_pushed p). pred \<noteq> Missing \<and>
       pk_eq_key pred (py_lower (col_name c)) (sp_alias p) (tb_schema t) = Inr (Some k)"
proof -
  obtain ks where ks: "map_result (\<lambda>q. pk_eq_key q (py_lower (col_name c)) (sp_alias p) (tb_schema t)) (sp_pushed p) = Inr ks"
    "combine_keys (List.map_filter id ks) = Some keys"
    using assms by (auto simp: index_keys_def equality_keys_def keyed_table_def bind_result_eq_Inr split: if_splits)
  show ?thesis
  proof (rule that [OF ks(2)], intro ballI)
    fix k assume "k \<in> set (List.map_filter id ks)"
    then have "Some k \<in> set ks" by (auto simp: List.map_filter_def)
    then obtain pred where "pred \<in> set (sp_pushed p)"
      "pk_eq_key pred (py_lower (col_name c)) (sp_alias p) (tb_schema t) = Inr (Some k)"
      using map_result_members [OF ks(1)] by blast
    moreover from this have "pred \<noteq> Missing" by (auto simp: pk_eq_key_def key_literal_def)
    ultimately show "\<exists>pred\<in>set (sp_pushed p). pred \<noteq> Missing \<and>
       pk_eq_key pred (py_lower (col_name c)) (sp_alias p) (tb_schema t) = Inr (Some k)" by blast
  qed
qed

lemma pick_visible_member: "pick_visible st s ch = Some v \<Longrightarrow> v \<in> set ch"
  unfolding pick_visible_def find_Some_iff by (metis nth_mem set_rev)

lemma bind_the_table: "get_table name db = Inr t \<Longrightarrow> bind_eff (the_table name) f db = f t db"
  by (simp add: the_table_def bind_eff_def ret_def)

lemma bind_read_scan:
  "get_table name db = Inr t \<Longrightarrow> table_scan (status (db_mgr db)) snap t = Inr rows \<Longrightarrow>
     bind_eff (read_scan name snap) f db = f rows db"
  by (simp add: read_scan_def bind_eff_assoc bind_the_table) (simp add: bind_eff_def lift_def)

lemma bind_read_version:
  "get_table name db = Inr t \<Longrightarrow> table_ok t \<Longrightarrow>
     bind_eff (read_version name snap k) f db =
       f (case table_chain t k of None \<Rightarrow> None | Some c \<Rightarrow> pick_visible (status (db_mgr db)) snap c) db"
  by (simp add: read_version_def bind_eff_assoc bind_the_table visible_version_ok) (simp add: bind_eff_def lift_def ret_def)

lemma run_scan_full:
  assumes "get_table (sp_table p) db = Inr t" "keyed_table t c i" "sp_columns p = column_names_lower (tb_schema t)"
    and "index_keys t p = Inr idx"
    and "\<forall>k row. table_view (status (db_mgr db)) snap t k = Some row \<longrightarrow> decides (evaluate run outer) p row db"
  shows "run_scan (evaluate run outer) snap p db = full_scan (evaluate run outer) snap p db"
proof (cases idx)
  case None
  then show ?thesis using assms(1,4)
    by (simp add: run_scan_def full_scan_def bind_the_table)
next
  case (Some keys)
  let ?ev = "evaluate run outer" and ?st = "status (db_mgr db)"
  let ?P = "accepts ?ev p db"
  note t = assms(2) [unfolded keyed_table_def]
  obtain ks where ks: "combine_keys ks = Some keys"
    "\<forall>k\<in>set ks. \<exists>pred\<in>set (sp_pushed p). pred \<noteq> Missing \<and>
       pk_eq_key pred (py_lower (col_name c)) (sp_alias p) (tb_schema t) = Inr (Some k)"
    using index_key_conjunct [OF assms(4) [unfolded Some] assms(2)] by blast
  have accepted: "keys = [row ! i] \<and> k = KVal (row ! i)"
    if row: "table_view ?st snap t k = Some row" and ok: "?P row" for k row
  proof -
    obtain ch v where v: "table_chain t k = Some ch" "v \<in> set ch" "v_row v = row"
      using row by (fastforce simp: table_view_def dest: pick_visible_member split: option.splits)
    then have facts: "row_fits (tb_schema t) row" "k = KVal (row ! i)" "row ! i \<noteq> VNone" "exact_float (row ! i)"
      using t by blast+
    have "\<forall>k\<in>set ks. row ! i = k \<and> py_eq k k"
    proof
      fix k assume "k \<in> set ks"
      then obtain pred where pred: "pred \<in> set (sp_pushed p)" "pred \<noteq> Missing"
        "pk_eq_key pred (py_lower (col_name c)) (sp_alias p) (tb_schema t) = Inr (Some k)" using ks(2) by blast
      obtain s1 s2 u where "?ev (row_scope (sp_alias p) (sp_columns p) row) pred s1 = (s2, Inr u)" "py_truth u"
        using accepted_conjuncts [OF ok [unfolded accepts_def] pred(1,2)] by blast
      then show "row ! i = k \<and> py_eq k k"
        using key_equality [OF pred(3), of i row run outer s1 s2 u] t facts assms(3) by simp
    qed
    then show ?thesis using combined_keys [OF ks(1)] facts(2) by blast
  qed
  obtain rows where rows: "table_scan ?st snap t = Inr rows" "sorted_alist rows" "map_of rows = table_view ?st snap t"
    using table_scan_ok t by blast
  have dist_rows: "distinct (map fst rows)" using rows(2) by (simp add: strict_sorted_iff)
  have member: "table_view ?st snap t k = Some row" if "(k, row) \<in> set rows" for k row
    using that dist_rows rows(3) by (metis map_of_eq_Some_iff)
  have full: "full_scan ?ev snap p db = (db, Inr (filter ?P (map snd rows)))"
  proof -
    have "\<forall>row\<in>set (map snd rows). decides ?ev p row db" using assms(5) member by force
    from filter_decided [OF this] show ?thesis using assms(1) rows(1) by (simp add: full_scan_def bind_read_scan)
  qed
  have lookup: "lookup_key ?ev snap p k db =
      (db, Inr (case table_view ?st snap t (KVal k) of None \<Rightarrow> [] | Some row \<Rightarrow> if ?P row then [row] else []))" for k
  proof -
    have ok: "table_ok t" using t by blast
    show ?thesis
    proof (cases "table_chain t (KVal k)")
      case None
      then show ?thesis using assms(1) ok
        by (simp add: lookup_key_def bind_read_version table_view_def ret_def)
    next
      case (Some ch)
      show ?thesis
      proof (cases "pick_visible ?st snap ch")
        case None
        then show ?thesis using assms(1) ok Some
          by (simp add: lookup_key_def bind_read_version table_view_def ret_def)
      next
        case (Some v)
        then have view: "table_view ?st snap t (KVal k) = Some (v_row v)"
          using \<open>table_chain t (KVal k) = Some ch\<close> by (simp add: table_view_def)
        then have "decides ?ev p (v_row v) db" using assms(5) by blast
        then show ?thesis using assms(1) ok Some \<open>table_chain t (KVal k) = Some ch\<close>
          by (simp add: lookup_key_def bind_read_version view bind_decided ret_def)
      qed
    qed
  qed
  have "keys = [] \<or> (\<exists>k. keys = [k])" using ks(1) by (auto simp: combine_keys_def split: list.splits if_splits)
  then have "run_scan ?ev snap p db = (db, Inr (filter ?P (map snd rows)))"
  proof
    assume none: "keys = []"
    then have "filter ?P (map snd rows) = []" using accepted member by (fastforce simp: filter_empty_conv)
    then show ?thesis using none assms(1,4) Some
      by (simp add: run_scan_def bind_the_table) (simp add: ret_def)
  next
    assume "\<exists>k. keys = [k]"
    then obtain k where k: "keys = [k]" by blast
    have "filter ?P (map snd rows) = (case map_of rows (KVal k) of None \<Rightarrow> [] | Some row \<Rightarrow> if ?P row then [row] else [])"
      using accepted member k by (intro filter_alist_key [OF dist_rows]) fastforce
    then show ?thesis using k assms(1,4) Some lookup [of k]
      by (simp add: run_scan_def bind_the_table) (simp add: bind_eff_def ret_def rows(3))
  qed
  then show ?thesis using full by simp
qed

end
