(* ===== verification/Pushdown.thy ===== *)
theory Pushdown
  imports IndexLookup
begin

text \<open>
  Predicate pushdown against the meaning of a query: for inner joins, the rows that come out of the nested
  loops and the residual filter are the rows of the product of the tables that satisfy every conjunct of
  WHERE and of the ON conditions.
\<close>

section \<open>What the planner does with the conjuncts\<close>

definition layout_scans :: "layout \<Rightarrow> scan_plan list" where
  "layout_scans lay = (case fst lay of None \<Rightarrow> [] | Some b \<Rightarrow> [b]) @ map jp_scan (snd lay)"

text \<open>A scan that has gained local conjuncts from a set, and nothing else.\<close>

definition scan_grows :: "expr set \<Rightarrow> scan_plan \<Rightarrow> scan_plan \<Rightarrow> bool" where
  "scan_grows C p p' \<longleftrightarrow> sp_table p' = sp_table p \<and> sp_alias p' = sp_alias p \<and> sp_columns p' = sp_columns p \<and>
     set (sp_pushed p) \<subseteq> set (sp_pushed p') \<and>
     (\<forall>c\<in>set (sp_pushed p'). c \<in> set (sp_pushed p) \<or> c \<in> C \<and> conjunct_is_local c p)"

definition same_joins :: "join_plan list \<Rightarrow> join_plan list \<Rightarrow> bool" where
  "same_joins js js' \<longleftrightarrow> list_all2 (\<lambda>j j'. jp_kind j' = jp_kind j \<and> jp_pushed j' = jp_pushed j \<and> jp_pred j' = jp_pred j) js js'"

definition grows :: "expr set \<Rightarrow> layout \<Rightarrow> layout \<Rightarrow> bool" where
  "grows C lay lay' \<longleftrightarrow> list_all2 (scan_grows C) (layout_scans lay) (layout_scans lay') \<and>
     (fst lay' = None) = (fst lay = None) \<and> same_joins (snd lay) (snd lay')"

definition pushed_set :: "layout \<Rightarrow> expr set" where
  "pushed_set lay = \<Union> (set ` sp_pushed ` set (layout_scans lay))"

lemma local_columns:
  "sp_alias p' = sp_alias p \<Longrightarrow> sp_columns p' = sp_columns p \<Longrightarrow> conjunct_is_local c p' = conjunct_is_local c p"
  by (simp add: conjunct_is_local_def)

lemma scan_grows_refl [simp]: "scan_grows C p p"
  by (simp add: scan_grows_def)

lemma scan_grows_trans: "scan_grows C p q \<Longrightarrow> scan_grows C q r \<Longrightarrow> scan_grows C p r"
  unfolding scan_grows_def using local_columns [of q p] by fastforce

lemma scan_grows_mono: "scan_grows C p q \<Longrightarrow> C \<subseteq> D \<Longrightarrow> scan_grows D p q"
  by (auto simp: scan_grows_def)

lemma scan_grows_push: "c \<in> C \<Longrightarrow> conjunct_is_local c p \<Longrightarrow> scan_grows C p (push_to_scan c p)"
  by (auto simp: scan_grows_def push_to_scan_def)

lemma same_joins_refl [simp]: "same_joins js js"
  by (simp add: same_joins_def list_all2_refl)

lemma same_joins_trans: "same_joins a b \<Longrightarrow> same_joins b c \<Longrightarrow> same_joins a c"
  by (auto simp: same_joins_def list_all2_conv_all_nth)

lemma grows_refl [simp]: "grows C lay lay"
  by (simp add: grows_def list_all2_refl)

lemma grows_trans: "grows C a b \<Longrightarrow> grows C b c \<Longrightarrow> grows C a c"
  unfolding grows_def
  by (auto intro: same_joins_trans list_all2_trans [of "scan_grows C" "scan_grows C" "scan_grows C", OF scan_grows_trans])

lemma grows_mono: "grows C a b \<Longrightarrow> C \<subseteq> D \<Longrightarrow> grows D a b"
  unfolding grows_def using list_all2_mono scan_grows_mono by blast

lemma place_in_joins_grows:
  "place_in_joins c js = Some js' \<Longrightarrow>
     list_all2 (scan_grows {c}) (map jp_scan js) (map jp_scan js') \<and> same_joins js js' \<and>
     \<Union> (set ` sp_pushed ` jp_scan ` set js') = insert c (\<Union> (set ` sp_pushed ` jp_scan ` set js))"
proof (induction js arbitrary: js')
  case (Cons j js)
  show ?case
  proof (cases "jp_kind j \<noteq> JLeft \<and> conjunct_is_local c (jp_scan j)")
    case True
    then have "js' = j\<lparr>jp_scan := push_to_scan c (jp_scan j)\<rparr> # js" using Cons.prems by simp
    then show ?thesis using True
      by (auto simp: scan_grows_push list_all2_refl same_joins_def) (auto simp: push_to_scan_def)
  next
    case False
    then obtain js1 where js1: "place_in_joins c js = Some js1" "js' = j # js1" using Cons.prems by auto
    show ?thesis using Cons.IH [OF js1(1)] by (auto simp: js1(2) same_joins_def)
  qed
qed simp

lemma place_where_grows:
  assumes "place_where c lay = Some lay'"
  shows "grows {c} lay lay' \<and> pushed_set lay' = insert c (pushed_set lay)"
proof -
  obtain base js where lay: "lay = (base, js)" by (cases lay)
  show ?thesis
  proof (cases "\<exists>b. base = Some b \<and> conjunct_is_local c b")
    case True
    then obtain b where b: "base = Some b" "conjunct_is_local c b" by blast
    then have "lay' = (Some (push_to_scan c b), js)" using assms by (simp add: lay place_where_def split: if_splits)
    then show ?thesis using b
      by (auto simp: lay grows_def layout_scans_def pushed_set_def scan_grows_push list_all2_refl)
        (auto simp: push_to_scan_def)
  next
    case False
    then obtain js' where js': "place_in_joins c js = Some js'" "lay' = (base, js')"
      using assms by (auto simp: lay place_where_def split: if_splits option.splits)
    show ?thesis using place_in_joins_grows [OF js'(1)]
      by (auto simp: lay js'(2) grows_def layout_scans_def pushed_set_def split: option.splits)
  qed
qed

lemma distribute_where_grows:
  "distribute_where cs lay = (lay', rest) \<Longrightarrow>
     grows (set cs) lay lay' \<and> pushed_set lay' \<union> set rest = pushed_set lay \<union> set cs \<and> set rest \<subseteq> set cs"
proof (induction cs lay arbitrary: lay' rest rule: distribute_where.induct)
  case (2 c cs lay)
  show ?case
  proof (cases "place_where c lay")
    case None
    then obtain rest' where r: "distribute_where cs lay = (lay', rest')" "rest = c # rest'"
      using 2(3) by (auto split: prod.splits)
    show ?thesis using 2(1) [OF None r(1)] by (auto simp: r(2) intro: grows_mono)
  next
    case (Some lay1)
    then have r: "distribute_where cs lay1 = (lay', rest)" using 2(3) by simp
    have one: "grows {c} lay lay1" "pushed_set lay1 = insert c (pushed_set lay)"
      using place_where_grows [OF Some] by auto
    note rest = 2(2) [OF Some r]
    then have "grows (set (c # cs)) lay1 lay'" by (auto intro: grows_mono)
    moreover have "grows (set (c # cs)) lay lay1" using one(1) by (rule grows_mono) auto
    ultimately show ?thesis using rest one(2) grows_trans by auto
  qed
qed auto

lemma distribute_on_pushed:
  "distribute_on cs base j = (base', j', rest) \<Longrightarrow> \<exists>ys. jp_pushed j' = jp_pushed j @ ys"
  by (induction cs base j arbitrary: base' j' rest rule: distribute_on.induct)
    (fastforce split: if_splits prod.splits)+

lemma push_base_grows:
  assumes "local_to_base c base j"
  shows "grows {c} (base, []) (map_option (push_to_scan c) base, []) \<and>
    pushed_set (map_option (push_to_scan c) base, []) = insert c (pushed_set (base, []))"
proof -
  obtain b where b: "base = Some b" "conjunct_is_local c b"
    using assms by (auto simp: local_to_base_def split: option.splits)
  then show ?thesis
    by (auto simp: grows_def layout_scans_def pushed_set_def scan_grows_push) (auto simp: push_to_scan_def)
qed

lemma distribute_on_grows:
  "distribute_on cs base j = (base', j', rest) \<Longrightarrow> jp_pushed j' = jp_pushed j \<Longrightarrow>
     j' = j \<and> grows (set cs) (base, []) (base', []) \<and>
     pushed_set (base', []) \<union> set rest = pushed_set (base, []) \<union> set cs \<and> set rest \<subseteq> set cs"
proof (induction cs base j arbitrary: base' j' rest rule: distribute_on.induct)
  case (2 c cs base j)
  have not_local: "\<not> conjunct_is_local c (jp_scan j)"
  proof
    assume "conjunct_is_local c (jp_scan j)"
    then have "distribute_on cs base (j\<lparr>jp_pushed := jp_pushed j @ [c]\<rparr>) = (base', j', rest)" using 2(4) by simp
    from distribute_on_pushed [OF this] show False using 2(5) by auto
  qed
  show ?case
  proof (cases "local_to_base c base j")
    case True
    then have r: "distribute_on cs (map_option (push_to_scan c) base) j = (base', j', rest)"
      using 2(4) not_local by simp
    note one = push_base_grows [OF True] and rest = 2(2) [OF not_local True r 2(5)]
    have "grows (set (c # cs)) (base, []) (map_option (push_to_scan c) base, [])"
      "grows (set (c # cs)) (map_option (push_to_scan c) base, []) (base', [])"
      using one rest by (auto intro: grows_mono)
    then show ?thesis using one rest grows_trans by auto
  next
    case False
    then obtain rest' where r: "distribute_on cs base j = (base', j', rest')" "rest = c # rest'"
      using 2(4) not_local by (auto split: prod.splits)
    show ?thesis using 2(3) [OF not_local False r(1) 2(5)] by (auto simp: r(2) intro: grows_mono)
  qed
qed auto

definition on_conjuncts :: "join_spec list \<Rightarrow> expr set" where
  "on_conjuncts ss = (\<Union>s\<in>set ss. set (split_conjuncts (js_on s)))"

lemma distribute_ons_grows:
  "distribute_ons ss base js = (base', js') \<Longrightarrow> length ss = length js \<Longrightarrow>
     \<forall>j\<in>set js'. jp_pushed j = [] \<Longrightarrow> \<forall>j\<in>set js. jp_pushed j = [] \<Longrightarrow>
     \<exists>rests. length rests = length js \<and> js' = map2 (\<lambda>j r. j\<lparr>jp_pred := and_chain r\<rparr>) js rests \<and>
       grows (on_conjuncts ss) (base, []) (base', []) \<and>
       pushed_set (base', []) \<union> \<Union> (set ` set rests) = pushed_set (base, []) \<union> on_conjuncts ss \<and>
       (\<forall>i<length js. set (rests ! i) \<subseteq> set (split_conjuncts (js_on (ss ! i))))"
proof (induction ss base js arbitrary: base' js' rule: distribute_ons.induct)
  case (1 s ss base j js)
  obtain b1 j1 rest where one: "distribute_on (split_conjuncts (js_on s)) base j = (b1, j1, rest)"
    by (metis prod_cases3)
  obtain b2 js2 where two: "distribute_ons ss b1 js = (b2, js2)" by fastforce
  have res: "base' = b2" "js' = j1\<lparr>jp_pred := and_chain rest\<rparr> # js2" using 1(2) one two by auto
  have "jp_pushed j1 = jp_pushed j" using 1(4,5) by (auto simp: res(2))
  from distribute_on_grows [OF one this] have j1: "j1 = j"
    and g1: "grows (set (split_conjuncts (js_on s))) (base, []) (b1, [])"
      "pushed_set (b1, []) \<union> set rest = pushed_set (base, []) \<union> set (split_conjuncts (js_on s))"
      "set rest \<subseteq> set (split_conjuncts (js_on s))" by auto
  obtain rests where rests: "length rests = length js" "js2 = map2 (\<lambda>j r. j\<lparr>jp_pred := and_chain r\<rparr>) js rests"
    "grows (on_conjuncts ss) (b1, []) (b2, [])"
    "pushed_set (b2, []) \<union> \<Union> (set ` set rests) = pushed_set (b1, []) \<union> on_conjuncts ss"
    "\<forall>i<length js. set (rests ! i) \<subseteq> set (split_conjuncts (js_on (ss ! i)))"
    using 1(1) [OF one [symmetric] refl two] 1(3-5) by (auto simp: res(2))
  have all: "on_conjuncts (s # ss) = set (split_conjuncts (js_on s)) \<union> on_conjuncts ss"
    by (simp add: on_conjuncts_def)
  have "grows (on_conjuncts (s # ss)) (base, []) (b2, [])"
    using grows_mono [OF g1(1)] grows_mono [OF rests(3)] grows_trans unfolding all by blast
  moreover have "pushed_set (b2, []) \<union> \<Union> (set ` set (rest # rests)) = pushed_set (base, []) \<union> on_conjuncts (s # ss)"
    using rests(4) g1(2) unfolding all by auto
  moreover have "set ((rest # rests) ! i) \<subseteq> set (split_conjuncts (js_on ((s # ss) ! i)))" if "i < length (j # js)" for i
    using that rests(5) g1(3) by (cases i) auto
  ultimately show ?case using rests(1,2) by (intro exI [of _ "rest # rests"]) (auto simp: res j1)
qed (auto simp: on_conjuncts_def)

section \<open>Nested loops and products\<close>

text \<open>
  The rows of the product in the order of the loops: the last table varies fastest. One step of the loops:
  the table's rows, the test of its scan, the test of the join.
\<close>

type_synonym join_spec_step = "pyval list list \<times> (pyval list \<Rightarrow> bool) \<times> (joined_row \<Rightarrow> bool)"

fun loop_rows :: "join_spec_step list \<Rightarrow> joined_row list \<Rightarrow> joined_row list" where
  "loop_rows [] left = left"
| "loop_rows ((t, S, J) # steps) left =
     loop_rows steps (concat (map (\<lambda>l. map (\<lambda>r. l @ [r]) (filter (\<lambda>r. J (l @ [r])) (filter S t))) left))"

lemma product_snoc:
  "product_lists (xss @ [ys]) = concat (map (\<lambda>l. map (\<lambda>r. l @ [r]) ys) (product_lists xss))"
proof (induction xss)
  case (Cons xs xss)
  have "concat (map (\<lambda>x. concat (map (\<lambda>l. map (\<lambda>r. x # l @ [r]) ys) ls)) xs) =
      concat (concat (map (\<lambda>x. map (\<lambda>l. map (\<lambda>r. x # l @ [r]) ys) ls) xs))" for ls
    by (induction xs) auto
  with Cons show ?case by (simp add: map_concat o_def)
qed (auto simp: concat_map_singleton)

lemma filter_concat_map:
  "filter P (concat (map (\<lambda>l. map (f l) ys) ls)) = concat (map (\<lambda>l. map (f l) (filter (\<lambda>y. P (f l y)) ys)) ls)"
  by (induction ls) (auto simp: filter_map o_def)

lemma concat_filter_map: "concat (map (\<lambda>l. if A l then f l else []) ls) = concat (map f (filter A ls))"
  by (induction ls) auto

definition steps_hold :: "nat \<Rightarrow> join_spec_step list \<Rightarrow> joined_row \<Rightarrow> bool" where
  "steps_hold m steps row \<longleftrightarrow>
     (\<forall>k<length steps. fst (snd (steps ! k)) (row ! (m + k)) \<and> snd (snd (steps ! k)) (take (Suc (m + k)) row))"

lemma steps_hold_Cons:
  "steps_hold m ((t, S, J) # steps) row \<longleftrightarrow> S (row ! m) \<and> J (take (Suc m) row) \<and> steps_hold (Suc m) steps row"
  by (auto simp: steps_hold_def less_Suc_eq_0_disj)

lemma product_length: "row \<in> set (product_lists xss) \<Longrightarrow> length row = length xss"
  by (auto simp: in_set_product_lists_length)

lemma loop_rows_product:
  "loop_rows steps (filter A (product_lists pre)) =
     filter (\<lambda>row. A (take (length pre) row) \<and> steps_hold (length pre) steps row) (product_lists (pre @ map fst steps))"
proof (induction steps arbitrary: A pre)
  case Nil
  show ?case by (auto simp: steps_hold_def product_length intro!: filter_cong)
next
  case (Cons step steps)
  obtain t S J where step: "step = (t, S, J)" by (cases step)
  let ?B = "\<lambda>row. A (take (length pre) row) \<and> S (row ! length pre) \<and> J row"
  have "concat (map (\<lambda>l. map (\<lambda>r. l @ [r]) (filter (\<lambda>r. J (l @ [r])) (filter S t))) (filter A (product_lists pre))) =
      concat (map (\<lambda>l. map (\<lambda>r. l @ [r]) (filter (\<lambda>r. ?B (l @ [r])) t)) (product_lists pre))"
  proof -
    have "(if A l then map (\<lambda>r. l @ [r]) (filter (\<lambda>r. J (l @ [r])) (filter S t)) else []) =
        map (\<lambda>r. l @ [r]) (filter (\<lambda>r. ?B (l @ [r])) t)" if "l \<in> set (product_lists pre)" for l
      using product_length [OF that] by (auto simp: nth_append conj_commute)
    then have "map (\<lambda>l. if A l then map (\<lambda>r. l @ [r]) (filter (\<lambda>r. J (l @ [r])) (filter S t)) else []) (product_lists pre) =
        map (\<lambda>l. map (\<lambda>r. l @ [r]) (filter (\<lambda>r. ?B (l @ [r])) t)) (product_lists pre)"
      by (rule map_cong [OF refl])
    then show ?thesis unfolding concat_filter_map [symmetric] by (rule arg_cong)
  qed
  also have "\<dots> = filter ?B (product_lists (pre @ [t]))"
    unfolding product_snoc filter_concat_map ..
  finally have "loop_rows (step # steps) (filter A (product_lists pre)) = loop_rows steps (filter ?B (product_lists (pre @ [t])))"
    by (simp add: step)
  also have "\<dots> = filter (\<lambda>row. ?B (take (length (pre @ [t])) row) \<and> steps_hold (length (pre @ [t])) steps row)
      (product_lists ((pre @ [t]) @ map fst steps))" by (rule Cons.IH)
  also have "\<dots> = filter (\<lambda>row. A (take (length pre) row) \<and> steps_hold (length pre) (step # steps) row)
      (product_lists (pre @ map fst (step # steps)))"
  proof -
    have "(\<lambda>row. ?B (take (length (pre @ [t])) row) \<and> steps_hold (length (pre @ [t])) steps row) row =
        (\<lambda>row. A (take (length pre) row) \<and> steps_hold (length pre) (step # steps) row) row" for row
      by (auto simp: step steps_hold_Cons min_def)
    then show ?thesis by (simp add: step)
  qed
  finally show ?case .
qed

section \<open>The joins of the executor are these loops\<close>

definition row_from :: "pyval list list list \<Rightarrow> joined_row \<Rightarrow> bool" where
  "row_from tabs row \<longleftrightarrow> list_all2 (\<lambda>r t. r \<in> set t) row tabs"

text \<open>A join step whose scan and whose test are the given ones on rows of the tables.\<close>

definition step_of ::
  "database evaluator \<Rightarrow> snapshot \<Rightarrow> scope \<Rightarrow> database \<Rightarrow> pyval list list list \<Rightarrow> join_plan \<Rightarrow> join_spec_step \<Rightarrow> bool" where
  "step_of ev snap sources db pre j step \<longleftrightarrow>
     (case step of (t, S, J) \<Rightarrow>
        jp_kind j = JInner \<and> run_scan ev snap (jp_scan j) db = (db, Inr (filter S t)) \<and>
        (\<forall>row. row_from (pre @ [t]) row \<longrightarrow> test ev (row_context sources row) (jp_pred j) db = (db, Inr (J row))))"

fun steps_of ::
  "database evaluator \<Rightarrow> snapshot \<Rightarrow> scope \<Rightarrow> database \<Rightarrow> pyval list list list \<Rightarrow> join_plan list \<Rightarrow> join_spec_step list \<Rightarrow> bool" where
  "steps_of ev snap sources db pre [] [] = True"
| "steps_of ev snap sources db pre (j # js) (step # steps) =
     (step_of ev snap sources db pre j step \<and> steps_of ev snap sources db (pre @ [fst step]) js steps)"
| "steps_of ev snap sources db pre _ _ = False"

lemma filter_eff_known:
  "\<forall>x\<in>set xs. p x s = (s, Inr (q x)) \<Longrightarrow> filter_eff p xs s = (s, Inr (filter q xs))"
  by (induction xs) (auto simp: bind_eff_def ret_def)

lemma map_eff_known:
  "\<forall>x\<in>set xs. f x s = (s, Inr (g x)) \<Longrightarrow> map_eff f xs s = (s, Inr (map g xs))"
  by (induction xs) (auto simp: bind_eff_def ret_def)

lemma join_row_known:
  assumes "step_of ev snap sources db pre j (t, S, J)" "row_from pre l"
  shows "join_row ev sources j (filter S t) l db =
    (db, Inr (map (\<lambda>r. l @ [r]) (filter (\<lambda>r. J (l @ [r])) (filter S t))))"
proof -
  have "\<forall>r\<in>set (filter S t). test ev (row_context sources (l @ [r])) (jp_pred j) db = (db, Inr (J (l @ [r])))"
    using assms by (auto simp: step_of_def row_from_def list_all2_appendI)
  then have "filter_eff (\<lambda>r. test ev (row_context sources (l @ [r])) (jp_pred j)) (filter S t) db =
      (db, Inr (filter (\<lambda>r. J (l @ [r])) (filter S t)))" by (rule filter_eff_known)
  then show ?thesis
    using assms(1) by (simp add: join_row_def bind_eff_def ret_def step_of_def)
qed

lemma join_all_loops:
  "steps_of ev snap sources db pre js steps \<Longrightarrow> \<forall>l\<in>set left. row_from pre l \<Longrightarrow>
     join_all ev snap sources js left db = (db, Inr (loop_rows steps left))"
proof (induction ev snap sources db pre js steps arbitrary: left rule: steps_of.induct)
  case (2 ev snap sources db pre j js step steps)
  obtain t S J where step: "step = (t, S, J)" by (cases step)
  let ?f = "\<lambda>l. map (\<lambda>r. l @ [r]) (filter (\<lambda>r. J (l @ [r])) (filter S t))"
  have st: "step_of ev snap sources db pre j (t, S, J)" using 2(2) by (simp add: step)
  then have "map_eff (join_row ev sources j (filter S t)) left db = (db, Inr (map ?f left))"
    using 2(3) join_row_known by (intro map_eff_known) blast
  moreover have "\<forall>l\<in>set (concat (map ?f left)). row_from (pre @ [t]) l"
    using 2(3) by (auto simp: row_from_def list_all2_appendI)
  then have "join_all ev snap sources js (concat (map ?f left)) db = (db, Inr (loop_rows steps (concat (map ?f left))))"
    using 2(1) 2(2) by (simp add: step)
  ultimately show ?case using st by (simp add: step bind_eff_def step_of_def)
qed (auto simp: ret_def)

section \<open>Which columns an expression means\<close>

fun column_refs :: "expr \<Rightarrow> (string \<times> string option) set" where
  "column_refs (ColumnRef name tab) = {(name, tab)}"
| "column_refs (UnaryOp op e) = column_refs e"
| "column_refs (BinaryOp op a b) = column_refs a \<union> column_refs b"
| "column_refs (FuncCall name args dct star) = \<Union> (set (map column_refs args))"
| "column_refs _ = {}"

lemma eval_plain_refs:
  "\<forall>(name, tab)\<in>column_refs e. resolve scs name tab = resolve scs' name tab \<Longrightarrow> eval_plain scs e = eval_plain scs' e"
proof (induction scs e rule: eval_plain.induct)
  case (4 scs op a b)
  then show ?case by (cases b; cases "op = BBetween") (simp_all cong: expr.case_cong)
next
  case (5 scs name args dct star)
  then show ?case by (cases args) auto
qed auto

definition has_name :: "string \<Rightarrow> source_binding \<Rightarrow> bool" where
  "has_name name b \<longleftrightarrow> (\<exists>c\<in>set (sb_columns b). py_lower c = py_lower name)"

definition has_qualifier :: "string option \<Rightarrow> bool" where
  "has_qualifier tab \<longleftrightarrow> (case tab of Some (c # cs) \<Rightarrow> True | _ \<Rightarrow> False)"

definition distinct_aliases :: "scope \<Rightarrow> bool" where
  "distinct_aliases sc \<longleftrightarrow> distinct (map (\<lambda>b. py_lower (sb_alias b)) sc)"

text \<open>An unqualified name of the expression belongs to one source at most.\<close>

definition clear :: "scope \<Rightarrow> expr \<Rightarrow> bool" where
  "clear sc e \<longleftrightarrow> (\<forall>(name, tab)\<in>column_refs e. \<not> has_qualifier tab \<longrightarrow>
     (\<forall>i<length sc. \<forall>j<length sc. has_name name (sc ! i) \<longrightarrow> has_name name (sc ! j) \<longrightarrow> i = j))"

text \<open>Every reference of the expression is known to the sources.\<close>

definition known :: "scope \<Rightarrow> expr \<Rightarrow> bool" where
  "known sc e \<longleftrightarrow> (\<forall>(name, tab)\<in>column_refs e.
     if has_qualifier tab then \<exists>b\<in>set sc. py_lower (sb_alias b) = py_lower (the tab) else \<exists>b\<in>set sc. has_name name b)"

lemma position_None: "position p xs = None \<longleftrightarrow> (\<forall>x\<in>set xs. \<not> p x)"
  by (induction xs) auto

lemma named_column_append:
  "named_column (as @ bs) name = (case named_column as name of None \<Rightarrow> named_column bs name | Some x \<Rightarrow> Some x)"
  by (induction as) (auto split: option.splits)

lemma has_name_position: "position (\<lambda>c. py_lower c = py_lower name) (sb_columns b) = None \<longleftrightarrow> \<not> has_name name b"
  by (auto simp: position_None has_name_def)

lemma named_column_None: "named_column sc name = None \<longleftrightarrow> (\<forall>b\<in>set sc. \<not> has_name name b)"
  by (induction sc) (auto simp flip: has_name_position split: option.splits)

lemma alias_binding_unique:
  assumes "distinct_aliases sc" "b \<in> set sc" "py_lower (sb_alias b) = py_lower t"
  shows "alias_binding sc t = Some b"
proof -
  have "distinct (map (\<lambda>b. py_lower (sb_alias b)) (rev sc))" using assms(1) by (simp add: distinct_aliases_def rev_map [symmetric])
  then have "find (\<lambda>b. py_lower (sb_alias b) = py_lower t) xs = Some b"
    if "b \<in> set xs" "distinct (map (\<lambda>b. py_lower (sb_alias b)) xs)" for xs
    using that assms(3) by (induction xs) (auto simp: rev_image_eqI)
  then show ?thesis using \<open>distinct (map _ (rev sc))\<close> assms(2) by (simp add: alias_binding_def)
qed

lemma resolve_qualified:
  assumes "has_qualifier tab" "distinct_aliases sc" "b \<in> set sc" "py_lower (sb_alias b) = py_lower (the tab)"
  shows "resolve (sc # outer) name tab =
    (case position (\<lambda>x. x = py_lower name) (sb_columns b) of None \<Rightarrow> Inl EvalError | Some i \<Rightarrow> cell b i)"
  using assms alias_binding_unique [OF assms(2-4)]
  by (auto simp: has_qualifier_def resolve_here_def split: option.splits list.splits)

lemma resolve_unqualified:
  "\<not> has_qualifier tab \<Longrightarrow> named_column sc name = Some (b, i) \<Longrightarrow> resolve (sc # outer) name tab = cell b i"
  by (auto simp: has_qualifier_def resolve_here_def split: option.splits list.splits)

text \<open>What is known to the first sources means the same among all of them.\<close>

lemma resolve_prefix:
  assumes "distinct_aliases (as @ bs)" "known as e" "(name, tab) \<in> column_refs e"
  shows "resolve (as # outer) name tab = resolve ((as @ bs) # outer) name tab"
proof (cases "has_qualifier tab")
  case True
  then obtain b where b: "b \<in> set as" "py_lower (sb_alias b) = py_lower (the tab)"
    using bspec [OF assms(2) [unfolded known_def] assms(3)] by auto
  have "distinct_aliases as" using assms(1) by (simp add: distinct_aliases_def)
  then show ?thesis using resolve_qualified [OF True _ b(1,2)] resolve_qualified [OF True assms(1) _ b(2)] b(1) by simp
next
  case False
  then have "named_column as name \<noteq> None" using bspec [OF assms(2) [unfolded known_def] assms(3)] by (auto simp: named_column_None)
  then obtain b i where "named_column as name = Some (b, i)" by auto
  moreover from this have "named_column (as @ bs) name = Some (b, i)" by (simp add: named_column_append)
  ultimately show ?thesis using False resolve_unqualified by metis
qed

text \<open>What is local to one source means the same among all of them, when its names are clear.\<close>

lemma local_refs:
  "refers_locally cols al e \<Longrightarrow> (name, tab) \<in> column_refs e \<Longrightarrow>
     (case tab of None \<Rightarrow> True | Some t \<Rightarrow> py_lower t = al) \<and> py_lower name \<in> set cols"
  by (induction e rule: column_refs.induct) (auto simp: list_all_iff)

lemma resolve_local:
  assumes "distinct_aliases sc" "clear sc e" "k < length sc"
    and "refers_locally (sb_columns (sc ! k)) (py_lower (sb_alias (sc ! k))) e" "(name, tab) \<in> column_refs e"
  shows "resolve ([sc ! k] # outer) name tab = resolve (sc # outer) name tab"
proof (cases "has_qualifier tab")
  case True
  then have "py_lower (sb_alias (sc ! k)) = py_lower (the tab)"
    using local_refs [OF assms(4,5)] by (auto simp: has_qualifier_def split: option.splits)
  moreover have "distinct_aliases [sc ! k]" by (simp add: distinct_aliases_def)
  ultimately show ?thesis
    using resolve_qualified [OF True assms(1) nth_mem [OF assms(3)]] resolve_qualified [OF True, of "[sc ! k]" "sc ! k"]
    by (simp del: resolve.simps)
next
  case False
  have here: "has_name name (sc ! k)"
    using local_refs [OF assms(4,5)] py_lower_idem [of name] unfolding has_name_def by blast
  then have "\<not> has_name name b" if member: "b \<in> set (take k sc)" for b
  proof -
    obtain j where "j < length (take k sc)" "take k sc ! j = b" using member by (metis in_set_conv_nth)
    then have j: "j < k" "b = sc ! j" by auto
    have "\<forall>i<length sc. \<forall>j<length sc. has_name name (sc ! i) \<longrightarrow> has_name name (sc ! j) \<longrightarrow> i = j"
      using bspec [OF assms(2) [unfolded clear_def] assms(5)] False by simp
    moreover have "j < length sc" using j(1) assms(3) by simp
    ultimately have uniq: "has_name name (sc ! j) \<longrightarrow> has_name name (sc ! k) \<longrightarrow> j = k"
      using assms(3) by blast
    then show ?thesis using here j by auto
  qed
  then have "named_column (take k sc) name = None" by (simp add: named_column_None)
  moreover have "named_column [sc ! k] name \<noteq> None"
    using here unfolding named_column_None by simp
  then obtain b i where one: "named_column [sc ! k] name = Some (b, i)" by (metis option.exhaust surj_pair)
  moreover have "sc = take k sc @ [sc ! k] @ drop (Suc k) sc" using assms(3) by (simp add: id_take_nth_drop)
  ultimately have "named_column sc name = Some (b, i)"
    using named_column_append [of "take k sc" "[sc ! k] @ drop (Suc k) sc" name]
      named_column_append [of "[sc ! k]" "drop (Suc k) sc" name] by simp
  then show ?thesis using resolve_unqualified [OF False] one by metis
qed

section \<open>The plan of a query\<close>

definition query_conjuncts :: "select \<Rightarrow> expr set" where
  "query_conjuncts q = set (split_conjuncts (sel_where q)) \<union> on_conjuncts (sel_joins q)"

definition scan_of_source :: "source_binding \<Rightarrow> scan_plan \<Rightarrow> bool" where
  "scan_of_source b p \<longleftrightarrow> sp_alias p = sb_alias b \<and> sp_columns p = sb_columns b"

lemma or_name_nonempty: "t \<noteq> [] \<Longrightarrow> or_name (Some t) d = t"
  by (cases t) (auto simp: or_name_def)

lemma map_result_cong: "(\<And>x. x \<in> set xs \<Longrightarrow> f x = g x) \<Longrightarrow> map_result f xs = map_result g xs"
  by (induction xs) auto

lemma map_result_map: "map_result f (map g xs) = map_result (\<lambda>x. f (g x)) xs"
  by (induction xs) auto

lemma new_joins_sources:
  "map_result (new_join schemas) ss = Inr js \<Longrightarrow>
   map_result (\<lambda>(t, al). bind_result (columns_in schemas t) (\<lambda>cs.
       Inr \<lparr>sb_alias = py_lower (or_name al t), sb_columns = cs, sb_row = None\<rparr>)) (map (\<lambda>j. (js_table j, js_alias j)) ss) = Inr bs \<Longrightarrow>
   list_all2 scan_of_source bs (map jp_scan js) \<and> list_all2 (\<lambda>s j. jp_kind j = js_kind s \<and> jp_pushed j = [] \<and> sp_pushed (jp_scan j) = []) ss js"
proof (induction ss arbitrary: js bs)
  case (Cons s ss)
  then show ?case
    by (auto simp: bind_result_eq_Inr new_join_def new_scan_def scan_of_source_def)
qed auto

lemma layout_scans_grows: "grows C lay lay' \<Longrightarrow> list_all2 (scan_grows C) (layout_scans lay) (layout_scans lay')"
  by (simp add: grows_def)

text \<open>What the plan has made of the conjuncts; \<open>rests\<close> are the ON conjuncts that stay in the joins.\<close>

definition plan_places :: "select \<Rightarrow> scope \<Rightarrow> query_plan \<Rightarrow> expr list list \<Rightarrow> bool" where
  "plan_places q sources plan rests \<longleftrightarrow>
     list_all2 scan_of_source sources (plan_scans plan) \<and> length sources = Suc (length (qp_joins plan)) \<and>
     (\<forall>p\<in>set (plan_scans plan). \<forall>c\<in>set (sp_pushed p). c \<in> query_conjuncts q \<and> conjunct_is_local c p) \<and>
     list_all2 (\<lambda>j r. jp_pred j = and_chain r) (qp_joins plan) rests \<and>
     list_all2 (\<lambda>s r. set r \<subseteq> set (split_conjuncts (js_on s))) (sel_joins q) rests \<and>
     \<Union> (set ` sp_pushed ` set (plan_scans plan)) \<union> \<Union> (set ` set rests) \<union> set (qp_remainder plan) = query_conjuncts q \<and>
     list_all2 (\<lambda>s j. jp_kind j = js_kind s) (sel_joins q) (qp_joins plan)"

lemma plan_facts:
  assumes plan: "plan_select q schemas = Inr plan" "build_sources q schemas = Inr sources"
    and "sel_from q = Some t0" "t0 \<noteq> []" "\<forall>j\<in>set (qp_joins plan). jp_pushed j = []"
  shows "\<exists>rests. plan_places q sources plan rests"
proof -
  have from_q: "from_name q = t0" using assms(3,4) by (simp add: from_name_def or_name_nonempty)
  obtain b js where b: "base_plan schemas q = Inr (Some b)" "map_result (new_join schemas) (sel_joins q) = Inr js"
    and pl: "plan = finish_plan q (Some b) js"
    using plan(1) assms(4) from_q by (auto simp: plan_select_def base_plan_def bind_result_eq_Inr)
  obtain b0 bs where src: "sources = b0 # bs" "scan_of_source b0 b" "sp_pushed b = []"
    "list_all2 scan_of_source bs (map jp_scan js)"
    "list_all2 (\<lambda>s j. jp_kind j = js_kind s \<and> jp_pushed j = [] \<and> sp_pushed (jp_scan j) = []) (sel_joins q) js"
    using plan(2) b assms(3,4) from_q new_joins_sources [OF b(2)]
    by (fastforce simp: build_sources_def base_plan_def new_scan_def bind_result_eq_Inr scan_of_source_def)
  have len: "length (sel_joins q) = length js" using src(5) by (rule list_all2_lengthD)
  obtain b1 js1 rest where one: "distribute_where (split_conjuncts (sel_where q)) (Some b, js) = ((b1, js1), rest)"
    by (metis surj_pair)
  obtain b2 js2 where two: "distribute_ons (sel_joins q) b1 js1 = (b2, js2)" by fastforce
  have fields: "qp_base plan = b2" "qp_joins plan = js2" "qp_remainder plan = rest"
    by (simp_all add: pl finish_plan_def one two)
  note w = distribute_where_grows [OF one]
  have js1: "same_joins js js1" "length js1 = length js" using w by (auto simp: grows_def same_joins_def dest: list_all2_lengthD)
  have pushed1: "\<forall>j\<in>set js1. jp_pushed j = []"
    using js1(1) src(5) by (fastforce simp: same_joins_def list_all2_conv_all_nth in_set_conv_nth)
  obtain rests where r: "length rests = length js1" "js2 = map2 (\<lambda>j r. j\<lparr>jp_pred := and_chain r\<rparr>) js1 rests"
    "grows (on_conjuncts (sel_joins q)) (b1, []) (b2, [])"
    "pushed_set (b2, []) \<union> \<Union> (set ` set rests) = pushed_set (b1, []) \<union> on_conjuncts (sel_joins q)"
    "\<forall>i<length js1. set (rests ! i) \<subseteq> set (split_conjuncts (js_on (sel_joins q ! i)))"
    using distribute_ons_grows [OF two _ _ pushed1] assms(5) len js1(2) by (auto simp: fields)
  have scans2: "map jp_scan js2 = map jp_scan js1" using r(1) by (auto simp: r(2) intro: nth_equalityI)
  have ps: "plan_scans plan = layout_scans (b2, js1)"
    by (simp add: plan_scans_def layout_scans_def fields scans2)
  have g2: "grows (query_conjuncts q) (b1, js1) (b2, js1)"
  proof -
    have "grows (on_conjuncts (sel_joins q)) (b1, js1) (b2, js1)"
      using r(3) by (auto simp: grows_def layout_scans_def list_all2_append list_all2_refl split: option.splits)
    then show ?thesis by (rule grows_mono) (auto simp: query_conjuncts_def)
  qed
  have g1: "grows (query_conjuncts q) (Some b, js) (b1, js1)"
    using w by (auto intro: grows_mono simp: query_conjuncts_def)
  have g: "list_all2 (scan_grows (query_conjuncts q)) (b # map jp_scan js) (plan_scans plan)"
    using layout_scans_grows [OF grows_trans [OF g1 g2]] by (simp add: ps) (simp add: layout_scans_def)
  have "list_all2 scan_of_source sources (b # map jp_scan js)" using src by simp
  then have "list_all2 scan_of_source sources (plan_scans plan)"
    using g by (rule list_all2_trans [rotated]) (auto simp: scan_of_source_def scan_grows_def)
  moreover have "length sources = Suc (length (qp_joins plan))"
    using src(4) r(1) js1(2) by (auto simp: src(1) fields r(2) dest: list_all2_lengthD)
  moreover have "\<forall>p\<in>set (plan_scans plan). \<forall>c\<in>set (sp_pushed p). c \<in> query_conjuncts q \<and> conjunct_is_local c p"
  proof (intro ballI)
    fix p c assume p: "p \<in> set (plan_scans plan)" "c \<in> set (sp_pushed p)"
    obtain p0 where p0: "p0 \<in> set (b # map jp_scan js)" "scan_grows (query_conjuncts q) p0 p"
      using g p(1) by (metis list_all2_conv_all_nth in_set_conv_nth)
    have "sp_pushed p0 = []" using p0(1) src(3,5) by (auto simp: list_all2_conv_all_nth in_set_conv_nth)
    then show "c \<in> query_conjuncts q \<and> conjunct_is_local c p"
      using p0(2) p(2) local_columns [of p p0 c] by (auto simp: scan_grows_def)
  qed
  moreover have "list_all2 (\<lambda>j r. jp_pred j = and_chain r) (qp_joins plan) rests"
    using r(1) by (simp add: fields r(2) list_all2_conv_all_nth)
  moreover have "list_all2 (\<lambda>s r. set r \<subseteq> set (split_conjuncts (js_on s))) (sel_joins q) rests"
    using r(1,5) len js1(2) by (simp add: list_all2_conv_all_nth)
  moreover have "list_all2 (\<lambda>s j. jp_kind j = js_kind s) (sel_joins q) (qp_joins plan)"
    using src(5) js1 r(1) by (simp add: fields r(2) list_all2_conv_all_nth same_joins_def)
  moreover have "\<Union> (set ` sp_pushed ` set (plan_scans plan)) \<union> \<Union> (set ` set rests) \<union> set (qp_remainder plan) = query_conjuncts q"
  proof -
    have split: "pushed_set (x, js) = pushed_set (x, []) \<union> pushed_set (None, js)" for x js
      by (auto simp: pushed_set_def layout_scans_def split: option.splits)
    have none: "pushed_set (Some b, js) = {}"
      using src(3,5) by (fastforce simp: pushed_set_def layout_scans_def list_all2_conv_all_nth in_set_conv_nth)
    have "\<Union> (set ` sp_pushed ` set (plan_scans plan)) = pushed_set (b2, []) \<union> pushed_set (None, js1)"
      using split [of b2 js1] by (simp add: ps pushed_set_def)
    then show ?thesis using r(4) w split [of b1 js1] none by (auto simp: fields query_conjuncts_def)
  qed
  ultimately show ?thesis unfolding plan_places_def by (intro exI [of _ rests] conjI)
qed

section \<open>Conjuncts with truth values\<close>

definition holds_in :: "scope list \<Rightarrow> scope \<Rightarrow> expr \<Rightarrow> bool" where
  "holds_in outer ctx c \<longleftrightarrow> eval_plain (ctx # outer) c = Inr (VBool True)"

definition settled_in :: "scope list \<Rightarrow> scope \<Rightarrow> expr \<Rightarrow> bool" where
  "settled_in outer ctx c \<longleftrightarrow> (\<exists>v. eval_plain (ctx # outer) c = Inr v \<and> logical v)"

lemma and_chain_combine: "and_chain = combine_conjuncts"
  by (simp add: fun_eq_iff and_chain_def combine_conjuncts_def)

lemma no_subquery_contains: "\<not> contains_subquery e \<Longrightarrow> no_subquery e"
  by (induction e rule: contains_subquery.induct) (auto simp: list_ex_iff)

lemma foldl_and_settled:
  "settled_in outer ctx e \<Longrightarrow> \<forall>c\<in>set cs. settled_in outer ctx c \<Longrightarrow>
     settled_in outer ctx (foldl (BinaryOp BAnd) e cs) \<and>
     (holds_in outer ctx (foldl (BinaryOp BAnd) e cs) \<longleftrightarrow> holds_in outer ctx e \<and> (\<forall>c\<in>set cs. holds_in outer ctx c))"
proof (induction cs arbitrary: e)
  case (Cons c cs)
  obtain l r where v: "eval_plain (ctx # outer) e = Inr l" "logical l" "eval_plain (ctx # outer) c = Inr r" "logical r"
    using Cons.prems by (auto simp: settled_in_def)
  then have "eval_plain (ctx # outer) (BinaryOp BAnd e c) = Inr (and_value l r)" by (simp add: binary_value_def)
  moreover have "logical (and_value l r)" "and_value l r = VBool True \<longleftrightarrow> l = VBool True \<and> r = VBool True"
    using v(2,4) by (auto simp: logical_def and_value_def)
  ultimately have "settled_in outer ctx (BinaryOp BAnd e c)"
    "holds_in outer ctx (BinaryOp BAnd e c) \<longleftrightarrow> holds_in outer ctx e \<and> holds_in outer ctx c"
    using v by (auto simp: settled_in_def holds_in_def)
  then show ?case using Cons.IH [of "BinaryOp BAnd e c"] Cons.prems(2) by auto
qed simp

lemma foldl_and_no_subquery: "no_subquery e \<Longrightarrow> \<forall>c\<in>set cs. no_subquery c \<Longrightarrow> no_subquery (foldl (BinaryOp BAnd) e cs)"
  by (induction cs arbitrary: e) auto

lemma test_conjuncts:
  assumes "\<forall>c\<in>set cs. no_subquery c \<and> settled_in outer ctx c"
  shows "test (evaluate run outer) ctx (combine_conjuncts cs) db = (db, Inr (\<forall>c\<in>set cs. holds_in outer ctx c))"
proof (cases cs)
  case Nil
  then show ?thesis by (simp add: combine_conjuncts_def test_def ret_def)
next
  case (Cons c rest)
  let ?e = "foldl (BinaryOp BAnd) c rest"
  have ns: "no_subquery ?e" using assms Cons by (intro foldl_and_no_subquery) auto
  have st: "settled_in outer ctx ?e" "holds_in outer ctx ?e \<longleftrightarrow> (\<forall>c\<in>set cs. holds_in outer ctx c)"
    using foldl_and_settled [of outer ctx c rest] assms Cons by auto
  then obtain v where v: "eval_plain (ctx # outer) ?e = Inr v" by (auto simp: settled_in_def)
  then have "?e \<noteq> Missing" by auto
  then show ?thesis using v st(2)
    by (simp add: Cons combine_conjuncts_def test_def evaluate_plain [OF ns] holds_in_def truthy_def) (simp add: ret_def)
qed

lemma same_resolution:
  assumes "\<forall>(name, tab)\<in>column_refs c. resolve (ctx # outer) name tab = resolve (ctx' # outer) name tab"
  shows "holds_in outer ctx c = holds_in outer ctx' c" "settled_in outer ctx c = settled_in outer ctx' c"
  using eval_plain_refs [OF assms] by (simp_all add: holds_in_def settled_in_def)

section \<open>Rows of the sources\<close>

lemma row_context_nth:
  "k < length sources \<Longrightarrow> k < length row \<Longrightarrow> row_context sources row ! k = (sources ! k)\<lparr>sb_row := Some (row ! k)\<rparr>"
  by (simp add: row_context_def with_rows_def)

lemma length_row_context [simp]: "length (row_context sources row) = min (length sources) (length row)"
  by (simp add: row_context_def with_rows_def)

lemma row_context_take: "row_context sources (take m row) = take m (row_context sources row)"
  by (rule nth_equalityI) (auto simp: row_context_def with_rows_def)

lemma context_aliases:
  "length row = length sources \<Longrightarrow> distinct_aliases (row_context sources row) = distinct_aliases sources"
proof -
  assume l: "length row = length sources"
  have "map (\<lambda>b. py_lower (sb_alias b)) (row_context sources row) = map (\<lambda>b. py_lower (sb_alias b)) sources"
    using l by (intro nth_equalityI) (auto simp: row_context_nth)
  then show ?thesis by (simp add: distinct_aliases_def)
qed

lemma context_clear: "length row = length sources \<Longrightarrow> clear sources e \<Longrightarrow> clear (row_context sources row) e"
  by (auto simp: clear_def row_context_nth has_name_def)

lemma context_known:
  assumes "length row = length sources" "known (take m sources) e"
  shows "known (take m (row_context sources row)) e"
proof -
  have find: "\<exists>b'\<in>set (take m (row_context sources row)). sb_alias b' = sb_alias b \<and> sb_columns b' = sb_columns b"
    if member: "b \<in> set (take m sources)" for b
  proof -
    obtain k where "k < length (take m sources)" "take m sources ! k = b"
      using member by (metis in_set_conv_nth)
    then have k: "k < m" "k < length sources" "b = sources ! k" by auto
    then have "take m (row_context sources row) ! k \<in> set (take m (row_context sources row))"
      using assms(1) by (intro nth_mem) simp
    then show ?thesis using k assms(1) by (intro bexI) (auto simp: row_context_nth)
  qed
  show ?thesis unfolding known_def
  proof clarify
    fix name tab assume ref: "(name, tab) \<in> column_refs e"
    note src = bspec [OF assms(2) [unfolded known_def] ref, simplified]
    show "if has_qualifier tab then \<exists>b\<in>set (take m (row_context sources row)). py_lower (sb_alias b) = py_lower (the tab)
      else \<exists>b\<in>set (take m (row_context sources row)). has_name name b"
    proof (cases "has_qualifier tab")
      case True
      then obtain b where "b \<in> set (take m sources)" "py_lower (sb_alias b) = py_lower (the tab)" using src by auto
      then show ?thesis using find [of b] True by (metis (no_types, lifting))
    next
      case False
      then obtain b where "b \<in> set (take m sources)" "has_name name b" using src by auto
      then show ?thesis using find [of b] False by (simp add: has_name_def) metis
    qed
  qed
qed

text \<open>A row that completes a part of a product: each component is from its table or all NULL.\<close>

definition null_row :: "source_binding \<Rightarrow> pyval list" where
  "null_row b = replicate (length (sb_columns b)) VNone"

definition completes :: "scope \<Rightarrow> pyval list list list \<Rightarrow> joined_row \<Rightarrow> bool" where
  "completes sources tabs row \<longleftrightarrow> length row = length sources \<and>
     (\<forall>k<length sources. row ! k \<in> set (tabs ! k) \<or> row ! k = null_row (sources ! k))"

lemma complete_one:
  "k < length sources \<Longrightarrow> r \<in> set (tabs ! k) \<Longrightarrow>
     completes sources tabs ((map null_row sources)[k := r])"
  by (auto simp: completes_def nth_list_update)

lemma complete_prefix:
  assumes "row_from (take m tabs) row" "m \<le> length sources" "length tabs = length sources"
  shows "completes sources tabs (row @ drop m (map null_row sources)) \<and> take m (row @ drop m (map null_row sources)) = row"
proof -
  have "length row = m" using assms by (auto simp: row_from_def dest: list_all2_lengthD)
  moreover have "row ! k \<in> set (tabs ! k)" if "k < m" for k
    using assms that \<open>length row = m\<close> by (auto simp: row_from_def list_all2_conv_all_nth)
  ultimately show ?thesis using assms(2) by (auto simp: completes_def nth_append)
qed

lemma complete_product: "row \<in> set (product_lists tabs) \<Longrightarrow> length tabs = length sources \<Longrightarrow> completes sources tabs row"
  by (auto simp: completes_def product_lists_set list_all2_conv_all_nth)

section \<open>The rows of the query\<close>

text \<open>Everything a query needs for its pushed plan to mean what it says.\<close>

definition joinable :: "select \<Rightarrow> scope \<Rightarrow> scope list \<Rightarrow> pyval list list list \<Rightarrow> bool" where
  "joinable q sources outer tabs \<longleftrightarrow>
     (\<forall>s\<in>set (sel_joins q). js_kind s = JInner) \<and> distinct_aliases sources \<and>
     (\<forall>c\<in>query_conjuncts q. no_subquery c \<and> clear sources c) \<and>
     (\<forall>i<length (sel_joins q). \<forall>c\<in>set (split_conjuncts (js_on (sel_joins q ! i))). known (take (i + 2) sources) c) \<and>
     (\<forall>row. completes sources tabs row \<longrightarrow> (\<forall>c\<in>query_conjuncts q. settled_in outer (row_context sources row) c))"

text \<open>The table of a scan: what the scan reads, and that it reads the table as a full scan does.\<close>

definition scans_table :: "database evaluator \<Rightarrow> snapshot \<Rightarrow> database \<Rightarrow> scan_plan \<Rightarrow> pyval list list \<Rightarrow> bool" where
  "scans_table ev snap db p t \<longleftrightarrow> run_scan ev snap p db = full_scan ev snap p db \<and>
     (\<exists>rows. read_scan (sp_table p) snap db = (db, Inr rows) \<and> map snd rows = t)"

lemma local_condition:
  assumes "joinable q sources outer tabs" "c \<in> query_conjuncts q" "length row = length sources" "k < length sources"
    and "scan_of_source (sources ! k) p" "conjunct_is_local c p"
  shows "holds_in outer (row_scope (sp_alias p) (sp_columns p) (row ! k)) c = holds_in outer (row_context sources row) c"
    "settled_in outer (row_scope (sp_alias p) (sp_columns p) (row ! k)) c = settled_in outer (row_context sources row) c"
proof -
  let ?ctx = "row_context sources row"
  have nth: "?ctx ! k = (sources ! k)\<lparr>sb_row := Some (row ! k)\<rparr>" using assms(3,4) by (simp add: row_context_nth)
  then have one: "[?ctx ! k] = row_scope (sp_alias p) (sp_columns p) (row ! k)"
    using assms(5) by (simp add: row_scope_def scan_of_source_def)
  have "distinct_aliases ?ctx" "clear ?ctx c"
    using assms(1-3) by (auto simp: joinable_def context_aliases context_clear)
  moreover have "refers_locally (sb_columns (?ctx ! k)) (py_lower (sb_alias (?ctx ! k))) c"
    using assms(5,6) by (simp add: nth conjunct_is_local_def scan_of_source_def)
  ultimately have "\<forall>(name, tab)\<in>column_refs c. resolve ([?ctx ! k] # outer) name tab = resolve (?ctx # outer) name tab"
    using resolve_local [of ?ctx c k] assms(3,4) by (auto simp del: resolve.simps)
  from same_resolution [OF this] show "holds_in outer (row_scope (sp_alias p) (sp_columns p) (row ! k)) c = holds_in outer ?ctx c"
    "settled_in outer (row_scope (sp_alias p) (sp_columns p) (row ! k)) c = settled_in outer ?ctx c"
    by (simp_all add: one)
qed

lemma prefix_condition:
  assumes "joinable q sources outer tabs" "i < length (sel_joins q)" "c \<in> set (split_conjuncts (js_on (sel_joins q ! i)))"
    and "length row = length sources"
  shows "holds_in outer (row_context sources (take (i + 2) row)) c = holds_in outer (row_context sources row) c"
    "settled_in outer (row_context sources (take (i + 2) row)) c = settled_in outer (row_context sources row) c"
proof -
  let ?ctx = "row_context sources row"
  have "distinct_aliases ?ctx" using assms(1,4) by (simp add: joinable_def context_aliases)
  moreover have "known (take (i + 2) ?ctx) c" using assms by (intro context_known) (auto simp: joinable_def)
  ultimately have "resolve (take (i + 2) ?ctx # outer) name tab = resolve (?ctx # outer) name tab"
    if "(name, tab) \<in> column_refs c" for name tab
    using resolve_prefix [of "take (i + 2) ?ctx" "drop (i + 2) ?ctx" c name tab outer] that
    by (simp del: resolve.simps)
  then have "\<forall>(name, tab)\<in>column_refs c. resolve (take (i + 2) ?ctx # outer) name tab = resolve (?ctx # outer) name tab"
    by (auto simp del: resolve.simps)
  from same_resolution [OF this] show "holds_in outer (row_context sources (take (i + 2) row)) c = holds_in outer ?ctx c"
    "settled_in outer (row_context sources (take (i + 2) row)) c = settled_in outer ?ctx c"
    by (simp_all only: row_context_take)
qed

lemma steps_ofI:
  "length js = length steps \<Longrightarrow>
   \<forall>k<length js. step_of ev snap sources db (pre @ map fst (take k steps)) (js ! k) (steps ! k) \<Longrightarrow>
   steps_of ev snap sources db pre js steps"
proof (induction ev snap sources db pre js steps rule: steps_of.induct)
  case (2 ev snap sources db pre j js step steps)
  have "step_of ev snap sources db (pre @ map fst (take (Suc k) (step # steps))) (js ! k) (steps ! k)" if "k < length js" for k
    using 2(3) that by (metis Suc_less_eq length_Cons nth_Cons_Suc)
  then have "steps_of ev snap sources db (pre @ [fst step]) js steps" using 2(1,2) by simp
  moreover have "step_of ev snap sources db pre j step" using 2(3) by force
  ultimately show ?case by simp
qed auto

text \<open>The scan of one source keeps the rows on which its pushed conjuncts hold.\<close>

lemma scan_filters:
  assumes "joinable q sources outer tabs" "k < length sources" "length tabs = length sources"
    and "scan_of_source (sources ! k) p" "\<forall>c\<in>set (sp_pushed p). c \<in> query_conjuncts q \<and> conjunct_is_local c p"
    and "scans_table (evaluate run outer) snap db p (tabs ! k)"
  shows "run_scan (evaluate run outer) snap p db =
    (db, Inr (filter (\<lambda>r. \<forall>c\<in>set (sp_pushed p). holds_in outer (row_scope (sp_alias p) (sp_columns p) r) c) (tabs ! k)))"
proof -
  let ?ev = "evaluate run outer"
  have "accept_row ?ev p r db = (db, Inr (\<forall>c\<in>set (sp_pushed p). holds_in outer (row_scope (sp_alias p) (sp_columns p) r) c))"
    if r: "r \<in> set (tabs ! k)" for r
  proof -
    let ?row = "(map null_row sources)[k := r]"
    have c: "completes sources tabs ?row" by (rule complete_one [OF assms(2) r])
    have "\<forall>c\<in>set (sp_pushed p). no_subquery c \<and> settled_in outer (row_scope (sp_alias p) (sp_columns p) (?row ! k)) c"
    proof
      fix c assume "c \<in> set (sp_pushed p)"
      then have pushed: "c \<in> query_conjuncts q" "conjunct_is_local c p" using assms(5) by auto
      have "settled_in outer (row_context sources ?row) c" using assms(1) c pushed(1) by (auto simp: joinable_def)
      then show "no_subquery c \<and> settled_in outer (row_scope (sp_alias p) (sp_columns p) (?row ! k)) c"
        using local_condition(2) [OF assms(1) pushed(1) _ assms(2,4) pushed(2), of ?row] assms(1) pushed(1)
        by (simp add: joinable_def)
    qed
    from test_conjuncts [OF this] show ?thesis using assms(2) by (simp add: accept_row_def)
  qed
  then have "filter_eff (accept_row ?ev p) (tabs ! k) db =
      (db, Inr (filter (\<lambda>r. \<forall>c\<in>set (sp_pushed p). holds_in outer (row_scope (sp_alias p) (sp_columns p) r) c) (tabs ! k)))"
    by (intro filter_eff_known) simp
  then show ?thesis using assms(6) by (auto simp: scans_table_def full_scan_def bind_eff_def)
qed

text \<open>The test of one join keeps the rows on which its remaining conjuncts hold.\<close>

lemma join_tests:
  assumes "joinable q sources outer tabs" "i < length (sel_joins q)" "length sources = Suc (length (sel_joins q))"
    and "length tabs = length sources" "set cs \<subseteq> set (split_conjuncts (js_on (sel_joins q ! i)))"
    and "row_from (take (i + 2) tabs) row"
  shows "test (evaluate run outer) (row_context sources row) (and_chain cs) db =
    (db, Inr (\<forall>c\<in>set cs. holds_in outer (row_context sources row) c))"
proof -
  let ?full = "row @ drop (i + 2) (map null_row sources)"
  have full: "completes sources tabs ?full" "take (i + 2) ?full = row"
    using complete_prefix [OF assms(6) _ assms(4)] assms(2,3) by auto
  have "\<forall>c\<in>set cs. no_subquery c \<and> settled_in outer (row_context sources row) c"
  proof
    fix c assume "c \<in> set cs"
    then have c: "c \<in> set (split_conjuncts (js_on (sel_joins q ! i)))" using assms(5) by auto
    then have q: "c \<in> query_conjuncts q" using assms(2) by (auto simp: query_conjuncts_def on_conjuncts_def)
    have "settled_in outer (row_context sources ?full) c" using assms(1) full(1) q by (auto simp: joinable_def)
    moreover have "length ?full = length sources" using full(1) unfolding completes_def by blast
    from prefix_condition(2) [OF assms(1,2) c this]
    have "settled_in outer (row_context sources row) c = settled_in outer (row_context sources ?full) c"
      unfolding full(2) .
    moreover have "no_subquery c" using assms(1) q by (simp add: joinable_def)
    ultimately show "no_subquery c \<and> settled_in outer (row_context sources row) c" by blast
  qed
  then show ?thesis unfolding and_chain_combine by (rule test_conjuncts)
qed

section \<open>The loops of a plan\<close>

definition scan_keeps :: "scope list \<Rightarrow> scan_plan \<Rightarrow> pyval list \<Rightarrow> bool" where
  "scan_keeps outer p r \<longleftrightarrow> (\<forall>c\<in>set (sp_pushed p). holds_in outer (row_scope (sp_alias p) (sp_columns p) r) c)"

definition all_hold :: "scope list \<Rightarrow> scope \<Rightarrow> expr list \<Rightarrow> joined_row \<Rightarrow> bool" where
  "all_hold outer sources cs row \<longleftrightarrow> (\<forall>c\<in>set cs. holds_in outer (row_context sources row) c)"

definition plan_steps ::
  "scope list \<Rightarrow> scope \<Rightarrow> query_plan \<Rightarrow> pyval list list list \<Rightarrow> expr list list \<Rightarrow> join_spec_step list" where
  "plan_steps outer sources plan tabs rests =
     map (\<lambda>k. (tabs ! Suc k, scan_keeps outer (plan_scans plan ! Suc k), all_hold outer sources (rests ! k)))
       [0..<length (qp_joins plan)]"

lemma plan_placesD:
  assumes "plan_places q sources plan rests"
  shows "length sources = Suc (length (qp_joins plan))" "length (plan_scans plan) = length sources"
    "length rests = length (qp_joins plan)" "length (sel_joins q) = length (qp_joins plan)"
    "k < length sources \<Longrightarrow> scan_of_source (sources ! k) (plan_scans plan ! k)"
    "k < length sources \<Longrightarrow> c \<in> set (sp_pushed (plan_scans plan ! k)) \<Longrightarrow> c \<in> query_conjuncts q \<and> conjunct_is_local c (plan_scans plan ! k)"
    "j < length (qp_joins plan) \<Longrightarrow> jp_pred (qp_joins plan ! j) = and_chain (rests ! j)"
    "j < length (qp_joins plan) \<Longrightarrow> set (rests ! j) \<subseteq> set (split_conjuncts (js_on (sel_joins q ! j)))"
    "j < length (qp_joins plan) \<Longrightarrow> jp_kind (qp_joins plan ! j) = js_kind (sel_joins q ! j)"
    "plan_scans plan = (plan_scans plan ! 0) # map jp_scan (qp_joins plan)"
proof -
  note pf = assms [unfolded plan_places_def]
  have len: "length sources = Suc (length (qp_joins plan)) \<and> length (plan_scans plan) = length sources \<and>
      length rests = length (qp_joins plan) \<and> length (sel_joins q) = length (qp_joins plan)"
    using pf list_all2_lengthD by metis
  then show "length sources = Suc (length (qp_joins plan))" "length (plan_scans plan) = length sources"
    "length rests = length (qp_joins plan)" "length (sel_joins q) = length (qp_joins plan)" by blast+
  show "k < length sources \<Longrightarrow> scan_of_source (sources ! k) (plan_scans plan ! k)"
    using pf by (simp add: list_all2_nthD)
  show "k < length sources \<Longrightarrow> c \<in> set (sp_pushed (plan_scans plan ! k)) \<Longrightarrow> c \<in> query_conjuncts q \<and> conjunct_is_local c (plan_scans plan ! k)"
    using pf len nth_mem [of k "plan_scans plan"] by metis
  show "j < length (qp_joins plan) \<Longrightarrow> jp_pred (qp_joins plan ! j) = and_chain (rests ! j)"
    using list_all2_nthD [of "\<lambda>j r. jp_pred j = and_chain r" "qp_joins plan" rests j] pf by blast
  show "j < length (qp_joins plan) \<Longrightarrow> set (rests ! j) \<subseteq> set (split_conjuncts (js_on (sel_joins q ! j)))"
    using list_all2_nthD [of "\<lambda>s r. set r \<subseteq> set (split_conjuncts (js_on s))" "sel_joins q" rests j] pf len by simp
  show "j < length (qp_joins plan) \<Longrightarrow> jp_kind (qp_joins plan ! j) = js_kind (sel_joins q ! j)"
    using list_all2_nthD [of "\<lambda>s j. jp_kind j = js_kind s" "sel_joins q" "qp_joins plan" j] pf len by simp
  show "plan_scans plan = (plan_scans plan ! 0) # map jp_scan (qp_joins plan)"
  proof (cases "qp_base plan")
    case None
    then have "length (plan_scans plan) = length (qp_joins plan)" by (simp add: plan_scans_def)
    with len show ?thesis by linarith
  next
    case (Some b)
    then have "plan_scans plan = b # map jp_scan (qp_joins plan)" by (simp add: plan_scans_def)
    then show ?thesis by (metis nth_Cons_0)
  qed
qed

lemma plan_scan_runs:
  assumes "plan_places q sources plan rests" "joinable q sources outer tabs"
    and "list_all2 (scans_table (evaluate run outer) snap db) (plan_scans plan) tabs" "k < length sources"
  shows "run_scan (evaluate run outer) snap (plan_scans plan ! k) db =
    (db, Inr (filter (scan_keeps outer (plan_scans plan ! k)) (tabs ! k)))"
proof -
  note pf = plan_placesD [OF assms(1)]
  have "length tabs = length sources" "scans_table (evaluate run outer) snap db (plan_scans plan ! k) (tabs ! k)"
    using assms(3,4) pf(2) list_all2_lengthD [OF assms(3)] by (simp_all add: list_all2_nthD)
  from scan_filters [OF assms(2,4) this(1) pf(5) [OF assms(4)] _ this(2)] pf(6) [OF assms(4)]
  show ?thesis by (simp add: scan_keeps_def [abs_def])
qed

lemma plan_steps_of:
  assumes "plan_places q sources plan rests" "joinable q sources outer tabs"
    and "list_all2 (scans_table (evaluate run outer) snap db) (plan_scans plan) tabs"
  shows "steps_of (evaluate run outer) snap sources db [tabs ! 0] (qp_joins plan) (plan_steps outer sources plan tabs rests)"
proof (rule steps_ofI)
  note pf = plan_placesD [OF assms(1)]
  let ?steps = "plan_steps outer sources plan tabs rests"
  have tabs: "length tabs = length sources" using list_all2_lengthD [OF assms(3)] pf(2) by simp
  show "\<forall>k<length (qp_joins plan).
      step_of (evaluate run outer) snap sources db ([tabs ! 0] @ map fst (take k ?steps)) (qp_joins plan ! k) (?steps ! k)"
  proof (intro allI impI)
    fix k assume k: "k < length (qp_joins plan)"
    have "([tabs ! 0] @ map fst (take k ?steps) @ [tabs ! Suc k]) ! i = tabs ! i" if "i < k + 2" for i
      using that k by (cases i) (auto simp: plan_steps_def nth_append less_Suc_eq)
    then have pre: "[tabs ! 0] @ map fst (take k ?steps) @ [tabs ! Suc k] = take (k + 2) tabs"
      using k tabs pf(1) by (intro nth_equalityI) (auto simp: plan_steps_def min_def)
    have "jp_kind (qp_joins plan ! k) = JInner"
      using k pf(4) pf(9) [OF k] assms(2) by (simp add: joinable_def)
    moreover have "run_scan (evaluate run outer) snap (jp_scan (qp_joins plan ! k)) db =
        (db, Inr (filter (scan_keeps outer (plan_scans plan ! Suc k)) (tabs ! Suc k)))"
      using plan_scan_runs [OF assms, of "Suc k"] k pf(1,10) by (metis Suc_less_eq nth_Cons_Suc nth_map)
    moreover have "test (evaluate run outer) (row_context sources row) (jp_pred (qp_joins plan ! k)) db =
        (db, Inr (all_hold outer sources (rests ! k) row))" if "row_from (take (k + 2) tabs) row" for row
      using join_tests [OF assms(2) _ _ tabs pf(8) [OF k] that] k pf(1,4) pf(7) [OF k] by (simp add: all_hold_def)
    ultimately show "step_of (evaluate run outer) snap sources db ([tabs ! 0] @ map fst (take k ?steps)) (qp_joins plan ! k) (?steps ! k)"
      using k pre by (simp add: step_of_def plan_steps_def)
  qed
qed (simp add: plan_steps_def)

lemma nested_loop_rows:
  assumes "plan_places q sources plan rests" "joinable q sources outer tabs"
    and "list_all2 (scans_table (evaluate run outer) snap db) (plan_scans plan) tabs"
  shows "nested_loop_join (evaluate run outer) snap sources plan db =
    (db, Inr (filter (\<lambda>row. scan_keeps outer (plan_scans plan ! 0) (take 1 row ! 0) \<and>
       steps_hold 1 (plan_steps outer sources plan tabs rests) row) (product_lists tabs)))"
proof -
  note pf = plan_placesD [OF assms(1)]
  let ?steps = "plan_steps outer sources plan tabs rests" and ?S = "scan_keeps outer (plan_scans plan ! 0)"
  have "length tabs = length sources" using list_all2_lengthD [OF assms(3)] pf(2) by simp
  then have tabs: "tabs = [tabs ! 0] @ map fst ?steps"
    using pf(1) by (intro nth_equalityI) (auto simp: plan_steps_def nth_Cons split: nat.splits)
  from join_all_loops [OF plan_steps_of [OF assms], of "map (\<lambda>r. [r]) (filter ?S (tabs ! 0))"]
  have "join_all (evaluate run outer) snap sources (qp_joins plan) (map (\<lambda>r. [r]) (filter ?S (tabs ! 0))) db =
      (db, Inr (loop_rows ?steps (filter (\<lambda>row. ?S (row ! 0)) (product_lists [tabs ! 0]))))"
    by (auto simp: row_from_def filter_map o_def concat_map_singleton)
  then have run: "nested_loop_join (evaluate run outer) snap sources plan db =
      (db, Inr (loop_rows ?steps (filter (\<lambda>row. ?S (row ! 0)) (product_lists [tabs ! 0]))))"
    using plan_scan_runs [OF assms, of 0] pf(1) by (subst nested_loop_join_def, subst pf(10)) (simp add: bind_eff_def)
  have heads: "filter (\<lambda>row. ?S (row ! 0)) (product_lists [tabs ! 0]) =
      filter (\<lambda>row. ?S (take 1 row ! 0)) (product_lists [tabs ! 0])"
    by (simp add: filter_map o_def)
  show ?thesis
    unfolding run heads using loop_rows_product [of ?steps "\<lambda>row. ?S (row ! 0)" "[tabs ! 0]", folded tabs] heads by simp
qed

lemma loops_meaning:
  assumes "plan_places q sources plan rests" "joinable q sources outer tabs" "length row = length sources"
  shows "scan_keeps outer (plan_scans plan ! 0) (take 1 row ! 0) \<and> steps_hold 1 (plan_steps outer sources plan tabs rests) row \<longleftrightarrow>
    (\<forall>c\<in>\<Union> (set ` sp_pushed ` set (plan_scans plan)) \<union> \<Union> (set ` set rests). holds_in outer (row_context sources row) c)"
proof -
  note pf = plan_placesD [OF assms(1)]
  let ?H = "\<lambda>c. holds_in outer (row_context sources row) c"
  have S: "scan_keeps outer (plan_scans plan ! k) (row ! k) \<longleftrightarrow> (\<forall>c\<in>set (sp_pushed (plan_scans plan ! k)). ?H c)"
    if k: "k < length sources" for k
  proof -
    have "holds_in outer (row_scope (sp_alias (plan_scans plan ! k)) (sp_columns (plan_scans plan ! k)) (row ! k)) c = ?H c"
      if "c \<in> set (sp_pushed (plan_scans plan ! k))" for c
      using local_condition(1) [OF assms(2) _ assms(3) k pf(5) [OF k]] pf(6) [OF k that] by blast
    then show ?thesis by (simp add: scan_keeps_def)
  qed
  have J: "all_hold outer sources (rests ! k) (take (k + 2) row) \<longleftrightarrow> (\<forall>c\<in>set (rests ! k). ?H c)"
    if k: "k < length (qp_joins plan)" for k
  proof -
    have "holds_in outer (row_context sources (take (k + 2) row)) c = ?H c" if "c \<in> set (rests ! k)" for c
      using prefix_condition(1) [OF assms(2) _ _ assms(3), of k c] k pf(4) pf(8) [OF k] that by auto
    then show ?thesis by (simp add: all_hold_def)
  qed
  have "scan_keeps outer (plan_scans plan ! 0) (take 1 row ! 0) \<and> steps_hold 1 (plan_steps outer sources plan tabs rests) row \<longleftrightarrow>
      (\<forall>k<length sources. scan_keeps outer (plan_scans plan ! k) (row ! k)) \<and>
      (\<forall>k<length (qp_joins plan). all_hold outer sources (rests ! k) (take (k + 2) row))"
    using assms(3) pf(1) by (auto simp: steps_hold_def plan_steps_def All_less_Suc2)
  also have "\<dots> \<longleftrightarrow> (\<forall>p\<in>set (plan_scans plan). \<forall>c\<in>set (sp_pushed p). ?H c) \<and> (\<forall>r\<in>set rests. \<forall>c\<in>set r. ?H c)"
    using S J pf(2,3) by (simp add: all_set_conv_all_nth)
  finally show ?thesis by auto
qed

theorem pushed_plan_rows:
  assumes plan: "plan_select q schemas = Inr plan" "build_sources q schemas = Inr sources"
    and "sel_from q = Some t0" "t0 \<noteq> []" "\<forall>j\<in>set (qp_joins plan). jp_pushed j = []"
    and ok: "joinable q sources outer tabs"
    and scans: "list_all2 (scans_table (evaluate run outer) snap db) (plan_scans plan) tabs"
  shows "bind_eff (nested_loop_join (evaluate run outer) snap sources plan)
      (filter_eff (\<lambda>row. test (evaluate run outer) (row_context sources row) (combine_conjuncts (qp_remainder plan)))) db =
    (db, Inr (filter (\<lambda>row. \<forall>c\<in>query_conjuncts q. holds_in outer (row_context sources row) c) (product_lists tabs)))"
proof -
  let ?test = "\<lambda>row. test (evaluate run outer) (row_context sources row) (combine_conjuncts (qp_remainder plan))"
  obtain rests where pl: "plan_places q sources plan rests"
    using plan_facts [OF plan assms(3-5)] by blast
  note pf = plan_placesD [OF pl]
  have all: "\<Union> (set ` sp_pushed ` set (plan_scans plan)) \<union> \<Union> (set ` set rests) \<union> set (qp_remainder plan) = query_conjuncts q"
    using pl unfolding plan_places_def by blast
  have tabs: "length tabs = length sources" using list_all2_lengthD [OF scans] pf(2) by simp
  have rest: "?test row db = (db, Inr (all_hold outer sources (qp_remainder plan) row))" if "row \<in> set (product_lists tabs)" for row
    unfolding all_hold_def
  proof (rule test_conjuncts)
    have "set (qp_remainder plan) \<subseteq> query_conjuncts q" using all by blast
    then show "\<forall>c\<in>set (qp_remainder plan). no_subquery c \<and> settled_in outer (row_context sources row) c"
      using ok complete_product [OF that tabs] unfolding joinable_def by blast
  qed
  let ?A = "\<lambda>row. scan_keeps outer (plan_scans plan ! 0) (take 1 row ! 0) \<and> steps_hold 1 (plan_steps outer sources plan tabs rests) row"
  have "filter_eff ?test (filter ?A (product_lists tabs)) db =
      (db, Inr (filter (all_hold outer sources (qp_remainder plan)) (filter ?A (product_lists tabs))))"
    using rest by (intro filter_eff_known) simp
  moreover have "filter (all_hold outer sources (qp_remainder plan)) (filter ?A (product_lists tabs)) =
      filter (\<lambda>row. \<forall>c\<in>query_conjuncts q. holds_in outer (row_context sources row) c) (product_lists tabs)"
  proof -
    have "(?A row \<and> all_hold outer sources (qp_remainder plan) row) \<longleftrightarrow> (\<forall>c\<in>query_conjuncts q. holds_in outer (row_context sources row) c)"
      if "row \<in> set (product_lists tabs)" for row
      using loops_meaning [OF pl ok, of row] product_length [OF that] tabs unfolding all_hold_def all [symmetric] by auto
    then show ?thesis unfolding filter_filter by (intro filter_cong) auto
  qed
  ultimately show ?thesis using nested_loop_rows [OF pl ok scans] by (simp add: bind_eff_def)
qed

end
