(* ===== verification/QueryProperties.thy ===== *)
theory QueryProperties
  imports Pushdown SortLemmas MvccProperties
begin

text \<open>
  The properties of query execution: predicate pushdown, index lookup, the levels of nested queries, and
  the order of the rows. The witnesses run on \<open>two_tables_db\<close>, a database of two tables.
\<close>

section \<open>A database with two tables\<close>

definition plain_column :: "string \<Rightarrow> column" where
  "plain_column n = \<lparr>col_name = n, col_type = TInt, col_length = None, col_nullable = True, col_primary_key = False\<rparr>"

definition side_table :: table where
  "side_table =
     \<lparr>tb_schema = \<lparr>sch_name = ''s'', sch_columns = [plain_column ''t_id'', plain_column ''x'']\<rparr>,
      tb_tree = \<lparr>bp_order = 32,
                bp_root = Leaf [KVal (VInt 1), KVal (VInt 2)]
                  [[\<lparr>v_row = demo_row 1 5, v_xmin = 1, v_xmax = 0\<rparr>], [\<lparr>v_row = demo_row 2 6, v_xmin = 1, v_xmax = 0\<rparr>]],
                bp_size = 2\<rparr>,
      tb_next_rowid = 3\<rparr>"

definition wide_table :: table where
  "wide_table =
     \<lparr>tb_schema = \<lparr>sch_name = ''w'', sch_columns = [plain_column ''id'', plain_column ''v'']\<rparr>,
      tb_tree = \<lparr>bp_order = 32, bp_root = Leaf [KVal (VInt 1)] [[\<lparr>v_row = demo_row 1 10, v_xmin = 1, v_xmax = 0\<rparr>]],
                bp_size = 1\<rparr>,
      tb_next_rowid = 2\<rparr>"

definition two_tables_db :: database where
  "two_tables_db =
     \<lparr>db_tables = [(''t'', one_row_table), (''s'', side_table), (''w'', wide_table)],
      db_mgr = (new_manager (new_wal []) (new_locks 100))\<lparr>tm_state := [1 \<mapsto> TxCommitted]\<rparr>,
      db_checkpoint = None\<rparr>"

abbreviation demo_snap :: snapshot where
  "demo_snap \<equiv> late_reader 5"

section \<open>Predicate pushdown\<close>


definition demo_join :: select where
  "demo_join =
     SelectStmt [Star None] (Some ''w'') None
       [JoinSpec ''s'' None JInner (BinaryOp BEq (ColumnRef ''id'' None) (ColumnRef ''t_id'' None))]
       (BinaryOp BGt (ColumnRef ''x'' None) (Literal (VInt 4))) [] Missing [] None None False"

definition join_schemas :: schemas where
  "join_schemas = [(''w'', [''id'', ''v'']), (''s'', [''t_id'', ''x''])]"

definition join_sources :: scope where
  "join_sources =
     [\<lparr>sb_alias = ''w'', sb_columns = [''id'', ''v''], sb_row = None\<rparr>,
      \<lparr>sb_alias = ''s'', sb_columns = [''t_id'', ''x''], sb_row = None\<rparr>]"

definition join_rows :: "pyval list list list" where
  "join_rows = [[demo_row 1 10], [demo_row 1 5, demo_row 2 6]]"

definition demo_plan :: query_plan where
  "demo_plan = projr (plan_select demo_join join_schemas)"

definition join_conjuncts :: "expr list" where
  "join_conjuncts = [BinaryOp BGt (ColumnRef ''x'' None) (Literal (VInt 4)),
     BinaryOp BEq (ColumnRef ''id'' None) (ColumnRef ''t_id'' None)]"

lemma completes_product:
  assumes "completes sources tabs row" "length tabs = length sources"
  shows "row \<in> set (product_lists (map2 (\<lambda>b t. null_row b # t) sources tabs))"
  using assms unfolding completes_def product_lists_set by (auto simp: list_all2_conv_all_nth)

lemma settled_in_value:
  "settled_in outer ctx c \<longleftrightarrow> (case eval_plain (ctx # outer) c of Inr v \<Rightarrow> logical v | Inl _ \<Rightarrow> False)"
  by (auto simp: settled_in_def split: sum.splits)

lemma scan_without_index:
  assumes "get_table (sp_table p) db = Inr t" "\<not> has_user_pk t" "read_scan (sp_table p) snap db = (db, Inr rows)"
  shows "scans_table ev snap db p (map snd rows)"
  using assms by (simp add: scans_table_def run_scan_def full_scan_def bind_the_table index_keys_def)

lemma join_conjuncts: "query_conjuncts demo_join = set join_conjuncts"
  by (simp add: query_conjuncts_def on_conjuncts_def demo_join_def join_conjuncts_def insert_commute)

lemma demo_joinable: "joinable demo_join join_sources [] join_rows"
proof -
  have one: "\<forall>s\<in>set (sel_joins demo_join). js_kind s = JInner" "distinct_aliases join_sources"
    by code_simp+
  have two: "\<forall>c\<in>set join_conjuncts. no_subquery c \<and> clear join_sources c"
    "\<forall>i<length (sel_joins demo_join).
       \<forall>c\<in>set (split_conjuncts (js_on (sel_joins demo_join ! i))). known (take (i + 2) join_sources) c"
    by (auto simp: join_conjuncts_def clear_def known_def join_sources_def has_name_def has_qualifier_def
        demo_join_def less_Suc_eq py_lower_def lower_char_def is_upper_def char_code_def)
  have "\<forall>row\<in>set (product_lists (map2 (\<lambda>b t. null_row b # t) join_sources join_rows)). \<forall>c\<in>set join_conjuncts.
      settled_in [] (row_context join_sources row) c"
    unfolding settled_in_value by code_simp
  moreover have "length join_rows = length join_sources" by (simp add: join_rows_def join_sources_def)
  ultimately show ?thesis
    using one two completes_product unfolding joinable_def join_conjuncts by blast
qed


section \<open>Index lookup\<close>


definition key_scan :: scan_plan where
  "key_scan =
     \<lparr>sp_table = ''t'', sp_alias = ''t'', sp_columns = [''id'', ''v''],
      sp_pushed = [BinaryOp BEq (ColumnRef ''id'' None) (Literal (VInt 1))]\<rparr>"

lemma one_row_keyed:
  "keyed_table one_row_table
     \<lparr>col_name = ''id'', col_type = TInt, col_length = None, col_nullable = False, col_primary_key = True\<rparr> 0"
proof -
  have "table_chain one_row_table k = Some ch \<Longrightarrow> k = demo_key 1 \<and> ch = [\<lparr>v_row = demo_row 1 10, v_xmin = 1, v_xmax = 0\<rparr>]"
    for k ch by (simp add: table_chain_def one_row_table_def tree_entries_def split: if_splits)
  moreover have "row_fits demo_schema (demo_row 1 10)"
    by (simp add: row_fits_def demo_schema_def demo_row_def fits_def)
  moreover have "pk_column demo_schema = Inr
      \<lparr>col_name = ''id'', col_type = TInt, col_length = None, col_nullable = False, col_primary_key = True\<rparr>"
    "distinct (column_names_lower demo_schema)" by code_simp+
  ultimately show ?thesis using one_row_table_ok
    by (fastforce simp: keyed_table_def one_row_table_def demo_schema_def demo_key_def demo_row_def exact_float_def)
qed


section \<open>Nested queries\<close>

text \<open>
  C36. The levels of nesting are enough. A function that runs one level of a query and hands every subquery
  to itself one level down, as \<open>_exec_select\<close> does through its runner, is determined on a query by its
  depth of nesting: with at least that many levels it computes what \<open>exec_select\<close> computes with any other
  sufficient number, for every database, snapshot and stack of outer rows. So the bound never shows.
\<close>

theorem nesting_levels_suffice:
  assumes "\<And>n override outer q. X (Suc n) override outer q =
      select_step w tx (\<lambda>snap stack q. bind_eff (X n (Some snap) stack q) (\<lambda>rs. ret (rs_rows rs))) override outer q"
    and "select_depth q \<le> n" "select_depth q \<le> m"
  shows "X n override outer q = exec_select w tx m override outer q"
  using exec_select_levels [of X w tx q n m] assms by blast

definition nested_query :: select where
  "nested_query =
     SelectStmt [Literal (VInt 7)] None None [] Missing [] Missing [] None None False"

definition outer_query :: select where
  "outer_query =
     SelectStmt [Subquery nested_query] None None [] Missing [] Missing [] None None False"

theorem nesting_levels_suffice_witness:
  "exec_select id 1 2 (Some demo_snap) [] outer_query = exec_select id 1 9 (Some demo_snap) [] outer_query \<and>
   snd (exec_select id 1 2 (Some demo_snap) [] outer_query two_tables_db) =
     Inr \<lparr>rs_columns = [''expr''], rs_rows = [[VInt 7]]\<rparr>"
proof -
  have "select_depth outer_query \<le> 2" "select_depth outer_query \<le> 9" by code_simp+
  with nesting_levels_suffice [of "exec_select id 1" id 1 outer_query 2 9 "Some demo_snap" "[]"]
  have "exec_select id 1 2 (Some demo_snap) [] outer_query = exec_select id 1 9 (Some demo_snap) [] outer_query"
    by simp
  moreover have "snd (exec_select id 1 2 (Some demo_snap) [] outer_query two_tables_db) =
      Inr \<lparr>rs_columns = [''expr''], rs_rows = [[VInt 7]]\<rparr>" by code_simp
  ultimately show ?thesis by blast
qed

section \<open>The order of the rows\<close>

lemma flat_keys_tuples:
  assumes "flat_keys node cols fr = Inr ks" "length (snd (snd fr)) = length (sel_order_by node)"
    and "\<forall>k\<in>set ks. \<not> is_nan (ok_value k)"
  shows "ks \<in> key_tuples (map snd (sel_order_by node))"
proof -
  obtain vals cs src where fr: "fr = (vals, cs, src)" by (cases fr)
  have key: "\<exists>v. k = new_order_key v d" if
    "bind_result r (\<lambda>v. Inr (new_order_key v d)) = Inr k" for r d k
    using that by (auto simp: bind_result_eq_Inr)
  have len: "length ks = length (sel_order_by node)"
    using assms(1,2) by (auto simp: flat_keys_def fr dest: map_result_length)
  have "sort_key_of (snd (sel_order_by node ! i)) (ks ! i)" if i: "i < length (sel_order_by node)" for i
  proof -
    obtain e d where item: "sel_order_by node ! i = (e, d)" by (cases "sel_order_by node ! i")
    have "\<exists>v. ks ! i = new_order_key v d"
      using map_result_nth [OF assms(1) [unfolded flat_keys_def fr prod.case], of i] assms(2) i item
      by (auto simp: fr bind_result_eq_Inr intro: sym)
    moreover have "ks ! i \<in> set ks" using i len by simp
    ultimately show ?thesis using assms(3) item by (fastforce simp: sort_key_of_def new_order_key_def)
  qed
  then show ?thesis by (simp add: key_tuples_def list_all2_conv_all_nth len)
qed


definition ordered_query :: select where
  "ordered_query =
     SelectStmt [ColumnRef ''x'' None] (Some ''s'') None [] Missing [] Missing
       [(ColumnRef ''x'' None, True)] None None False"

definition three_rows :: "flat_row list" where
  "three_rows = [([VInt 2], [''x''], [VInt 2]), ([VNone], [''x''], [VNone]), ([VStr ''a''], [''x''], [VStr ''a''])]"


text \<open>
  The order of two values. For values that are no NaN, ascending order is by rank and descending order
  its reverse: NULL after every other value (so last in ascending order and first in descending order),
  numbers by value before all strings, strings by code points; keys are equal exactly for equal ranks.
\<close>

lemma value_order:
  assumes "\<not> is_nan v" "\<not> is_nan u"
  shows "(key_less (new_order_key v d) (new_order_key u d) \<longleftrightarrow>
      (if d then null_rank u < null_rank v else null_rank v < null_rank u)) \<and>
    (key_equal (new_order_key v d) (new_order_key u d) \<longleftrightarrow> null_rank v = null_rank u)"
  using order_key_rank [OF assms] by blast

lemma value_order_witness:
  "key_less (new_order_key (VInt 3) False) (new_order_key VNone False) \<and>
   key_less (new_order_key VNone True) (new_order_key (VInt 3) True)"
  using value_order [of "VInt 3" VNone False] value_order [of VNone "VInt 3" True]
  by (simp add: is_nan_def null_rank_def less_prod_def)

end
