(* ===== verification/StatementSteps.thy ===== *)
theory StatementSteps
  imports Session LogProperties
begin

text \<open>
  What every statement keeps. A property of the database that survives the elementary steps of the executor
  (the lock tables change, a record is queued for the log, the transaction's own entry or a table is replaced)
  survives every statement, whether it returns or raises. The locale \<open>statement_steps\<close> is that interface;
  it is interpreted on \<open>running\<close>, the invariant of a database with an active transaction.
\<close>

section \<open>Steps that keep a property\<close>

definition keeps :: "('s \<Rightarrow> bool) \<Rightarrow> ('s, 'a) eff \<Rightarrow> bool" where
  "keeps P m \<longleftrightarrow> (\<forall>s. P s \<longrightarrow> P (fst (m s)))"

named_theorems keeps_intros

lemma keepsI: "(\<And>s. P s \<Longrightarrow> P (fst (m s))) \<Longrightarrow> keeps P m"
  by (simp add: keeps_def)

lemma keepsD: "keeps P m \<Longrightarrow> P s \<Longrightarrow> P (fst (m s))"
  by (simp add: keeps_def)

lemma keeps_pure [keeps_intros]:
  "keeps P (ret x)" "keeps P (raise e)" "keeps P (lift r)" "keeps P get_state"
  by (simp_all add: keeps_def ret_def raise_def lift_def get_state_def)

lemma keeps_bind [keeps_intros]: "keeps P m \<Longrightarrow> (\<And>x. keeps P (f x)) \<Longrightarrow> keeps P (bind_eff m f)"
  by (auto simp: keeps_def bind_eff_def split: prod.splits sum.splits)

lemma keeps_recover [keeps_intros]: "keeps P m \<Longrightarrow> keeps P (recover_with d m)"
  by (auto simp: keeps_def recover_with_def split: prod.splits sum.splits)

lemma keeps_modify: "(\<And>s. P s \<Longrightarrow> P (f s)) \<Longrightarrow> keeps P (modify f)"
  by (simp add: keeps_def modify_def)

lemma keeps_map [keeps_intros]: "(\<And>x. keeps P (f x)) \<Longrightarrow> keeps P (map_eff f xs)"
  by (induction xs) (auto intro!: keeps_intros)

lemma keeps_filter [keeps_intros]: "(\<And>x. keeps P (f x)) \<Longrightarrow> keeps P (filter_eff f xs)"
  by (induction xs) (auto intro!: keeps_intros)

lemma keeps_fold [keeps_intros]: "(\<And>x y. keeps P (f x y)) \<Longrightarrow> keeps P (fold_eff f xs acc)"
  by (induction xs arbitrary: acc) (auto intro!: keeps_intros)

lemma keeps_if [keeps_intros]: "keeps P m \<Longrightarrow> keeps P m' \<Longrightarrow> keeps P (if b then m else m')"
  by simp

lemma keeps_option [keeps_intros]:
  "keeps P m \<Longrightarrow> (\<And>x. keeps P (f x)) \<Longrightarrow> keeps P (case opt of None \<Rightarrow> m | Some x \<Rightarrow> f x)"
  by (simp split: option.split)

lemma keeps_list [keeps_intros]:
  "keeps P m \<Longrightarrow> (\<And>x y. keeps P (f x y)) \<Longrightarrow> keeps P (case xs of [] \<Rightarrow> m | x # y \<Rightarrow> f x y)"
  by (simp split: list.split)

lemma keeps_pair [keeps_intros]: "(\<And>x y. keeps P (f x y)) \<Longrightarrow> keeps P (case p of (x, y) \<Rightarrow> f x y)"
  by (simp split: prod.split)

lemma keeps_pair_applied [keeps_intros]:
  "(\<And>x y. keeps P (f x y z)) \<Longrightarrow> keeps P ((case p of (x, y) \<Rightarrow> f x y) z)"
  by (simp split: prod.split)

lemma keeps_Let [keeps_intros]: "(\<And>x. keeps P (f x)) \<Longrightarrow> keeps P (Let v f)"
  by (simp add: Let_def)

definition keeps_runner :: "('s \<Rightarrow> bool) \<Rightarrow> 's runner option \<Rightarrow> bool" where
  "keeps_runner P run \<longleftrightarrow> (\<forall>r stack q. run = Some r \<longrightarrow> keeps P (r stack q))"

lemma keeps_evaluate: "keeps_runner P run \<Longrightarrow> keeps P (evaluate run outer ctx e)"
proof (induction run outer ctx e rule: evaluate.induct)
  case (6 run outer ctx op a b)
  then show ?case
    by (cases "op = BBetween"; cases b) (auto intro!: keeps_intros simp del: evaluate.simps(1-5,7-) cong: if_cong)
qed (auto intro!: keeps_intros simp: keeps_runner_def split: option.split list.split)

section \<open>Queries\<close>

lemma keeps_reads [keeps_intros]:
  "keeps P (the_txn tx)" "keeps P (the_table name)" "keeps P (read_version name snap k)" "keeps P (read_scan name snap)"
  by (auto simp: keeps_def the_txn_def the_table_def read_version_def read_scan_def bind_eff_def lift_def
      split: sum.splits)

lemma keeps_star: "keeps P m \<Longrightarrow> (\<And>t. keeps P (g t)) \<Longrightarrow> keeps P (case e of Star t \<Rightarrow> g t | _ \<Rightarrow> m)"
  by (simp split: expr.split)

lemma keeps_call:
  "keeps P m \<Longrightarrow> (\<And>name args dct star. keeps P (f name args dct star)) \<Longrightarrow>
     keeps P (case e of FuncCall name args dct star \<Rightarrow> f name args dct star | _ \<Rightarrow> m)"
  by (simp split: expr.split)

lemma keeps_star_or_call:
  "keeps P m \<Longrightarrow> (\<And>t. keeps P (g t)) \<Longrightarrow> (\<And>name args dct star. keeps P (f name args dct star)) \<Longrightarrow>
     keeps P (case e of Star t \<Rightarrow> g t | FuncCall name args dct star \<Rightarrow> f name args dct star | _ \<Rightarrow> m)"
  by (simp split: expr.split)

lemma keeps_test [keeps_intros]: "(\<And>ctx e. keeps P (ev ctx e)) \<Longrightarrow> keeps P (test ev ctx e)"
  by (auto simp: test_def intro!: keeps_intros)

lemma keeps_run_scan [keeps_intros]: "(\<And>ctx e. keeps P (ev ctx e)) \<Longrightarrow> keeps P (run_scan ev snap p)"
  by (auto simp: run_scan_def lookup_key_def accept_row_def intro!: keeps_intros)

lemma keeps_join_all: "(\<And>ctx e. keeps P (ev ctx e)) \<Longrightarrow> keeps P (join_all ev snap sources jps left)"
  by (induction jps arbitrary: left) (auto simp: join_row_def intro!: keeps_intros)

lemma keeps_nested_loop [keeps_intros]: "(\<And>ctx e. keeps P (ev ctx e)) \<Longrightarrow> keeps P (nested_loop_join ev snap sources plan)"
  by (auto simp: nested_loop_join_def intro!: keeps_intros keeps_join_all)

lemma keeps_agg_value [keeps_intros]: "(\<And>ctx e. keeps P (ev ctx e)) \<Longrightarrow> keeps P (agg_value ev sources name args dct star rows)"
  by (auto simp: agg_value_def Let_def intro!: keeps_intros)

lemma keeps_eval_having [keeps_intros]: "(\<And>ctx e. keeps P (ev ctx e)) \<Longrightarrow> keeps P (eval_having ev sources ctx rows e)"
proof (induction e)
  case (FuncCall name args dct star)
  then show ?case by (simp add: keeps_agg_value)
qed (auto intro!: keeps_intros)

lemma keeps_make_groups [keeps_intros]: "(\<And>ctx e. keeps P (ev ctx e)) \<Longrightarrow> keeps P (make_groups ev sources es rows)"
  by (auto simp: make_groups_def intro!: keeps_intros)

lemma keeps_project_one [keeps_intros]: "(\<And>ctx e. keeps P (ev ctx e)) \<Longrightarrow> keeps P (project_one_agg ev sources es g e)"
  unfolding project_one_agg_def Let_def by (auto intro!: keeps_intros keeps_star_or_call)

lemma keeps_group_output [keeps_intros]: "(\<And>ctx e. keeps P (ev ctx e)) \<Longrightarrow> keeps P (group_output ev sources node g)"
  by (auto simp: group_output_def intro!: keeps_intros)

lemma keeps_special [keeps_intros]: "(\<And>ctx e. keeps P (ev ctx e)) \<Longrightarrow> keeps P (special_value ev sources es e g)"
  unfolding special_value_def Let_def by (auto intro!: keeps_intros keeps_call)

lemma keeps_order_groups [keeps_intros]: "(\<And>ctx e. keeps P (ev ctx e)) \<Longrightarrow> keeps P (order_groups ev sources node cols outs)"
  unfolding order_groups_def group_keys_def by (intro keeps_intros)

lemma keeps_group_result [keeps_intros]: "(\<And>ctx e. keeps P (ev ctx e)) \<Longrightarrow> keeps P (group_result ev sources node rows)"
  unfolding group_result_def group_and_aggregate_def by (intro keeps_intros)

lemma keeps_project [keeps_intros]: "(\<And>ctx e. keeps P (ev ctx e)) \<Longrightarrow> keeps P (project ev ctx es)"
  unfolding project_def project_item_def by (intro keeps_intros keeps_star)

lemma keeps_flat_output [keeps_intros]: "(\<And>ctx e. keeps P (ev ctx e)) \<Longrightarrow> keeps P (flat_output ev sources node rows)"
  unfolding flat_output_def flat_row_def source_key_def Let_def by (intro keeps_intros)

lemma keeps_no_from [keeps_intros]: "(\<And>ctx e. keeps P (ev ctx e)) \<Longrightarrow> keeps P (project_no_from ev node)"
  unfolding project_no_from_def by (intro keeps_intros)

lemma keeps_schemas [keeps_intros]: "keeps P (query_schemas node)"
  unfolding query_schemas_def by (intro keeps_intros)

section \<open>Statements\<close>

text \<open>What the executor may do to a lock table, a table, and the entry of its own transaction.\<close>

definition locks_step :: "locks \<Rightarrow> locks \<Rightarrow> bool" where
  "locks_step lk lk' \<longleftrightarrow> (locks_ok lk \<longrightarrow> locks_ok lk')"

definition table_step :: "table \<Rightarrow> table \<Rightarrow> bool" where
  "table_step t t' \<longleftrightarrow> (table_ok t \<longrightarrow> table_ok t')"

definition entry_step :: "txn_manager \<Rightarrow> transaction \<Rightarrow> transaction \<Rightarrow> bool" where
  "entry_step m t t' \<longleftrightarrow> tr_txid t' = tr_txid t \<and> tr_isolation t' = tr_isolation t \<and> tr_state t' = tr_state t \<and>
     (tr_snapshot t' = tr_snapshot t \<or> tr_snapshot t' = Some (take_snapshot (tr_txid t) m))"

lemma wal_update_fold: "m\<lparr>tm_wal := f (tm_wal m)\<rparr> = tm_wal_update f (m :: txn_manager)"
  by (cases m) simp

locale statement_steps =
  fixes P :: "database \<Rightarrow> bool" and tx :: txid
  assumes lock: "P db \<Longrightarrow> locks_step (tm_locks (db_mgr db)) lk \<Longrightarrow> P (on_manager (tm_locks_update (\<lambda>_. lk)) db)"
    and log: "P db \<Longrightarrow> P (on_manager (tm_wal_update (wal_put r)) db)"
    and entry: "P db \<Longrightarrow> tm_txns (db_mgr db) tx = Some t \<Longrightarrow> entry_step (db_mgr db) t t' \<Longrightarrow>
      P (on_manager (set_txn t') db)"
    and replace: "P db \<Longrightarrow> get_table name db = Inr tab \<Longrightarrow> table_step tab tab' \<Longrightarrow>
      P (db\<lparr>db_tables := AList.update (py_lower name) tab' (db_tables db)\<rparr>)"
    and create: "P db \<Longrightarrow> make_table schema = Inr tab \<Longrightarrow>
      P (db\<lparr>db_tables := AList.update (py_lower (sch_name schema)) tab (db_tables db)\<rparr>)"
begin

lemma keeps_locks:
  assumes "\<And>db. P db \<Longrightarrow> P (w db)" "\<And>ev lk. locks_step lk (fst (f ev lk))"
  shows "keeps P (with_locks w f)"
proof (rule keepsI)
  fix db assume "P db"
  then have "P (w db)" by (rule assms(1))
  then show "P (fst (with_locks w f db))"
    using lock [OF _ assms(2)] by (simp add: with_locks_def Let_def split: prod.split) (metis fst_conv)
qed

lemma tame_nothing: "tame_turns [(id, id)]"
  by (simp add: tame_turns_def tame_def)

lemma keeps_lock_table: "(\<And>db. P db \<Longrightarrow> P (w db)) \<Longrightarrow> keeps P (lock_table w tx tab mode)"
  unfolding lock_table_def
  by (rule keeps_locks) (auto simp: locks_step_def intro: acquire_table_ok [OF prod.collapse [symmetric] tame_nothing])

lemma keeps_lock_row: "(\<And>db. P db \<Longrightarrow> P (w db)) \<Longrightarrow> keeps P (lock_row w tx tab k mode)"
  unfolding lock_row_def
  by (rule keeps_locks)
    (auto simp: locks_step_def intro: acquire_row_ok [OF prod.collapse [symmetric] tame_nothing tame_nothing])

lemma keeps_snapshot: "keeps P (statement_snapshot tx)"
proof (rule keepsI)
  fix db assume P: "P db"
  show "P (fst (statement_snapshot tx db))"
  proof (cases "tm_txns (db_mgr db) tx")
    case None
    then show ?thesis using P by (simp add: statement_snapshot_def the_txn_def get_txn_def bind_eff_def raise_def)
  next
    case (Some t)
    have "P (db\<lparr>db_mgr := fst (snapshot_for t (db_mgr db))\<rparr>)"
      using P entry [OF P Some, of "t\<lparr>tr_snapshot := Some (take_snapshot (tr_txid t) (db_mgr db))\<rparr>"]
      by (auto simp: snapshot_for_def Let_def entry_step_def on_manager_def split: isolation.splits option.splits)
    then show ?thesis using Some
      by (simp add: statement_snapshot_def the_txn_def get_txn_def bind_eff_def ret_def split: prod.split) (auto elim: fst_conv [THEN subst])
  qed
qed

lemma keeps_log_step:
  "keeps P (log_step (log_insert tx' name k row))" "keeps P (log_step (log_update tx' name k row))"
  "keeps P (log_step (log_delete tx' name k))"
  unfolding log_step_def log_insert_def log_update_def log_delete_def by (rule keeps_modify, erule log)+

lemma keeps_entry:
  assumes "\<And>db t. P db \<Longrightarrow> tm_txns (db_mgr db) tx = Some t \<Longrightarrow> P (g t db)"
  shows "keeps P (bind_eff (the_txn tx) (\<lambda>t. modify (g t)))"
  using assms
  by (auto simp: keeps_def the_txn_def get_txn_def bind_eff_def lift_def modify_def split: option.split)

lemma ensure_wal_begin_keeps:
  assumes "P db" "tm_txns (db_mgr db) tx = Some t"
  shows "P (on_manager (ensure_wal_begin t) db)"
proof (cases "tr_wal_started t")
  case True
  then show ?thesis using assms(1) by (simp add: ensure_wal_begin_def on_manager_def)
next
  case False
  let ?db = "on_manager (tm_wal_update (log_begin (tr_txid t))) db"
  have "P ?db" unfolding log_begin_def by (rule log [OF assms(1)])
  moreover have "tm_txns (db_mgr ?db) tx = Some t" using assms(2) by (simp add: on_manager_def)
  ultimately have "P (on_manager (set_txn (t\<lparr>tr_wal_started := True\<rparr>)) ?db)"
    by (rule entry) (simp add: entry_step_def)
  then show ?thesis using False by (simp add: ensure_wal_begin_def on_manager_def wal_update_fold)
qed

lemma keeps_begin_in_wal: "keeps P (begin_in_wal tx)"
  unfolding begin_in_wal_def by (rule keeps_entry) (rule ensure_wal_begin_keeps)

lemma keeps_mark_written: "keeps P (mark_written tx tname)"
  unfolding mark_written_def by (rule keeps_entry) (rule entry, auto simp: entry_step_def)

lemma keeps_on_table:
  assumes "\<And>t t' x. f t = Inr (t', x) \<Longrightarrow> table_step t t'"
  shows "keeps P (on_table name f)"
  using assms replace
  by (auto simp: keeps_def on_table_def the_table_def bind_eff_def lift_def split: sum.split)

end

section \<open>Table operations\<close>

lemma allocate_rowid_step: "allocate_rowid t = (t', k) \<Longrightarrow> table_step t t'"
  by (auto simp: allocate_rowid_def table_step_def table_ok_def)

lemma table_insert_step:
  assumes "table_insert tx row key t = Inr (t', k)"
  shows "table_step t t'"
proof (unfold table_step_def, intro impI)
  assume t: "table_ok t"
  obtain t1 k' where "insert_key t row key = Inr (t1, k')"
    using assms by (cases "insert_key t row key") (auto simp: table_insert_def)
  from table_insert_ok [OF t this, of tx] assms show "table_ok t'" by auto
qed

lemma table_update_step:
  assumes "table_update tx k row t = Inr t'"
  shows "table_step t t'"
proof (unfold table_step_def, intro impI)
  assume t: "table_ok t"
  obtain c where c: "table_chain t k = Some c"
    using assms table_update_missing [OF t] by (cases "table_chain t k") auto
  obtain c' where "chain_update tx row c = Inr c'"
    using assms c t by (cases "chain_update tx row c") (auto simp: table_update_def getitem_chain)
  from table_update_ok [OF t c this] assms show "table_ok t'" by auto
qed

lemma table_delete_step:
  assumes "table_delete tx k t = Inr (t', gone)"
  shows "table_step t t'"
proof (unfold table_step_def, intro impI)
  assume t: "table_ok t"
  obtain c where c: "table_chain t k = Some c"
    using assms table_delete_missing [OF t] by (cases "table_chain t k") auto
  obtain c' g where "chain_delete tx c = Inr (c', g)"
    using assms c t by (cases "chain_delete tx c") (auto simp: table_delete_def getitem_chain)
  from table_delete_ok [OF t c this] assms show "table_ok t'" by auto
qed

context statement_steps begin

lemma keeps_exec_select:
  assumes w: "\<And>db. P db \<Longrightarrow> P (w db)"
  shows "keeps P (exec_select w tx n override outer q)"
proof (induction n arbitrary: override outer q)
  case (Suc n)
  have ev: "keeps P (evaluate (Some (\<lambda>stack q. bind_eff (exec_select w tx n (Some snap) stack q)
      (\<lambda>rs. ret (rs_rows rs)))) outer ctx e)" for snap outer ctx e
    by (rule keeps_evaluate) (auto simp: keeps_runner_def intro!: keeps_intros Suc)
  show ?case
    unfolding exec_select.simps select_step_def choose_snapshot_def select_from_def when_serializable_def lock_tables_def
    by (intro keeps_intros keeps_lock_table keeps_snapshot w ev)
qed (simp add: keeps_intros)

lemma keeps_statement_evaluator:
  assumes w: "\<And>db. P db \<Longrightarrow> P (w db)"
  shows "keeps P (statement_evaluator w tx n snap ctx e)"
  unfolding statement_evaluator_def
  by (rule keeps_evaluate)
    (auto simp: keeps_runner_def subquery_runner_def intro!: keeps_intros keeps_exec_select w)

lemma keeps_exec_insert:
  assumes w: "\<And>db. P db \<Longrightarrow> P (w db)"
  shows "keeps P (exec_insert w tx name cols rows)"
proof -
  have eval: "keeps P (evaluate None outer ctx e)" for outer ctx e
    by (rule keeps_evaluate) (simp add: keeps_runner_def)
  have vals: "keeps P (insert_values schema wanted raw)" for schema wanted raw
    unfolding insert_values_def by (intro keeps_intros eval)
  have claim: "keeps P (claim_key w tx name schema row)" for schema row
    unfolding claim_key_def
    by (intro keeps_intros keeps_lock_row keeps_snapshot keeps_on_table w) (auto dest: allocate_rowid_step)
  show ?thesis
    unfolding exec_insert_def insert_row_def
    by (intro keeps_intros vals claim keeps_lock_table keeps_begin_in_wal keeps_mark_written keeps_log_step
        keeps_on_table w) (assumption | erule table_insert_step)+
qed

lemma keeps_lock_candidates:
  assumes w: "\<And>db. P db \<Longrightarrow> P (w db)"
  shows "keeps P (lock_candidates w tx n name wh)"
proof -
  have post: "keeps P (post_lock_snapshot tx snap)" for snap
    unfolding post_lock_snapshot_def by (intro keeps_bind keeps_reads) (simp add: keeps_def)
  show ?thesis
    unfolding lock_candidates_def candidate_keys_def candidate_at_def
    by (intro keeps_intros keeps_snapshot keeps_statement_evaluator keeps_lock_row post w)
qed

lemma keeps_current_row: "(\<And>db. P db \<Longrightarrow> P (w db)) \<Longrightarrow> keeps P (current_row (statement_evaluator w tx n snap) snap' name schema wh k)"
  unfolding current_row_def by (intro keeps_intros keeps_statement_evaluator)

lemma keeps_exec_update:
  assumes w: "\<And>db. P db \<Longrightarrow> P (w db)"
  shows "keeps P (exec_update w tx n name assigns wh)"
proof -
  have assign: "keeps P (assigned_row (statement_evaluator w tx n snap) ctx idxs assigns row)" for snap ctx idxs row
    unfolding assigned_row_def by (intro keeps_intros keeps_statement_evaluator w)
  have move: "keeps P (move_primary_key w tx name schema k row snap)" for schema k row snap
    unfolding move_primary_key_def
    by (intro keeps_intros keeps_lock_row keeps_log_step keeps_on_table w)
      (assumption | erule table_delete_step table_insert_step)+
  have put: "keeps P (on_table name (\<lambda>t. bind_result (table_update tx k row t) (\<lambda>t'. Inr (t', ()))))" for k row
    by (rule keeps_on_table) (auto simp: bind_result_eq_Inr dest: table_update_step)
  show ?thesis
    unfolding exec_update_def update_row_def Let_def
    by (intro keeps_intros keeps_lock_table keeps_begin_in_wal keeps_mark_written keeps_lock_candidates
        keeps_current_row keeps_log_step assign move put w)
qed

lemma keeps_exec_delete:
  assumes w: "\<And>db. P db \<Longrightarrow> P (w db)"
  shows "keeps P (exec_delete w tx n name wh)"
  unfolding exec_delete_def delete_row_def
  by (intro keeps_intros keeps_lock_table keeps_begin_in_wal keeps_mark_written keeps_lock_candidates
      keeps_current_row keeps_log_step keeps_on_table w) (assumption | erule table_delete_step)+

lemma create_table_keeps:
  assumes "P db" "tm_txns (db_mgr db) tx = Some t" "create_table t schema db = Inr db'"
  shows "P db'"
proof -
  let ?name = "py_lower (sch_name schema)" and ?t = "t\<lparr>tr_wal_started := True\<rparr>"
  obtain tab where tab: "make_table schema = Inr tab"
    and db': "db' = db\<lparr>db_tables := AList.update ?name tab (db_tables db),
      db_mgr := set_txn (?t\<lparr>tr_did_ddl := True, tr_written := List.insert ?name (tr_written t)\<rparr>)
        (tm_wal_update (log_create_table (tr_txid t) (schema_to_dict schema)) (ensure_wal_begin t (db_mgr db)))\<rparr>"
    using assms(3)
    by (auto simp: create_table_def bind_result_eq_Inr Let_def wal_update_fold split: if_splits)
  let ?db1 = "on_manager (tm_wal_update (log_create_table (tr_txid t) (schema_to_dict schema)))
      (on_manager (ensure_wal_begin t) db)"
  have "P ?db1" unfolding log_create_table_def by (intro log ensure_wal_begin_keeps assms)
  moreover obtain t1 where t1: "tm_txns (db_mgr ?db1) tx = Some t1" "tr_txid t1 = tr_txid t"
    "tr_isolation t1 = tr_isolation t" "tr_state t1 = tr_state t" "tr_snapshot t1 = tr_snapshot t"
    using assms(2)
    by (cases "tr_wal_started t"; cases "tr_txid t = tx") (auto simp: on_manager_def ensure_wal_begin_def set_txn_def)
  ultimately have "P (on_manager (set_txn (?t\<lparr>tr_did_ddl := True, tr_written := List.insert ?name (tr_written t)\<rparr>)) ?db1)"
    by (auto intro!: entry simp: entry_step_def)
  from create [OF this tab] show ?thesis by (cases db) (simp add: db' on_manager_def)
qed

lemma keeps_exec_create: "keeps P (exec_create tx name cols)"
proof (rule keepsI)
  fix db assume P: "P db"
  show "P (fst (exec_create tx name cols db))"
  proof (cases "tm_txns (db_mgr db) tx")
    case None
    then show ?thesis using P by (simp add: exec_create_def the_txn_def get_txn_def bind_eff_def raise_def)
  next
    case (Some t)
    let ?schema = "\<lparr>sch_name = name, sch_columns = map column_of_def cols\<rparr>"
    show ?thesis
      using P Some create_table_keeps [OF P Some, of ?schema]
      by (cases "create_table t ?schema db")
        (simp_all add: exec_create_def the_txn_def get_txn_def bind_eff_def ret_def)
  qed
qed

theorem keeps_execute:
  assumes w: "\<And>db. P db \<Longrightarrow> P (w db)"
  shows "keeps P (execute w tx n node)"
  by (cases node)
    (simp_all add: execute_def exec_describe_def exec_show_tables_def keeps_intros w
      keeps_exec_create keeps_exec_insert keeps_exec_update keeps_exec_delete keeps_exec_select)

end

section \<open>A database with a running transaction\<close>

definition tables_ok :: "database \<Rightarrow> bool" where
  "tables_ok db \<longleftrightarrow> (\<forall>(name, t)\<in>set (db_tables db). table_ok t)"

definition running :: "txid \<Rightarrow> database \<Rightarrow> bool" where
  "running tx db \<longleftrightarrow> manager_ok (db_mgr db) \<and> tx \<in> tm_active (db_mgr db) \<and>
     tx \<notin> set (wal_failed (tm_wal (db_mgr db))) \<and> locks_ok (tm_locks (db_mgr db)) \<and> tables_ok db"

lemma update_entries: "e \<in> set (AList.update k v xs) \<Longrightarrow> e = (k, v) \<or> e \<in> set xs"
  by (induction xs) (auto split: if_splits)

lemma tables_ok_update: "tables_ok db \<Longrightarrow> table_ok t \<Longrightarrow> tables_ok (db\<lparr>db_tables := AList.update k t (db_tables db)\<rparr>)"
  by (auto simp: tables_ok_def dest: update_entries)

lemma manager_ok_locks: "manager_ok (tm_locks_update f m) = manager_ok m"
  by (simp add: manager_ok_def ids_ok_def active_ok_def txn_ok_def)

lemma manager_ok_log: "manager_ok (tm_wal_update f m) = manager_ok m"
  by (simp add: manager_ok_def ids_ok_def active_ok_def txn_ok_def)

lemma running_entry:
  assumes "running tx db" "tm_txns (db_mgr db) tx = Some t" "entry_step (db_mgr db) t t'"
  shows "running tx (on_manager (set_txn t') db)"
proof -
  have m: "manager_ok (db_mgr db)" using assms(1) by (simp add: running_def)
  have t: "txn_ok (db_mgr db) tx t" by (rule manager_okD(3) [OF m assms(2)])
  then have "tx < tm_next_id (db_mgr db)" using manager_okD(1) [OF m] by (auto simp: txn_ok_def ids_ok_def)
  then have "txn_ok (db_mgr db) (tr_txid t') t'"
    using t assms(3) by (auto simp: txn_ok_def entry_step_def take_snapshot_def)
  from set_txn_ok [OF m this] show ?thesis
    using assms(1) by (simp add: running_def on_manager_def set_txn_def tables_ok_def)
qed

interpretation running_txn: statement_steps "running tx" tx for tx
proof
  fix db
  assume P: "running tx db"
  show "running tx (on_manager (tm_locks_update (\<lambda>_. lk)) db)" if "locks_step (tm_locks (db_mgr db)) lk" for lk
    using P that by (simp add: running_def on_manager_def manager_ok_locks locks_step_def tables_ok_def)
  show "running tx (on_manager (tm_wal_update (wal_put r)) db)" for r
    using P by (simp add: running_def on_manager_def manager_ok_log tables_ok_def wal_put_def)
  show "running tx (on_manager (set_txn t') db)"
    if "tm_txns (db_mgr db) tx = Some t" "entry_step (db_mgr db) t t'" for t t'
    using running_entry [OF P that] .
  show "running tx (db\<lparr>db_tables := AList.update (py_lower name) t' (db_tables db)\<rparr>)"
    if "get_table name db = Inr t" "table_step t t'" for name t t'
    using P that tables_ok_update [of db t']
    by (auto simp: running_def table_step_def get_table_def tables_ok_def dest: map_of_SomeD split: option.splits)
  show "running tx (db\<lparr>db_tables := AList.update (py_lower (sch_name schema)) t (db_tables db)\<rparr>)"
    if "make_table schema = Inr t" for schema t
    using P that tables_ok_update [of db t] new_table_ok [of 32 schema]
    by (auto simp: running_def make_table_def tables_ok_def)
qed

end
