(* ===== verification/SessionProperties.thy ===== *)
theory SessionProperties
  imports StatementSteps
begin

text \<open>
  The properties of a session: what a statement keeps, and that a statement outside an explicit transaction
  is all or nothing.
\<close>

section \<open>Open and ended transactions\<close>

definition open_txn :: "txid \<Rightarrow> database \<Rightarrow> bool" where
  "open_txn tx db \<longleftrightarrow> manager_ok (db_mgr db) \<and> tx \<in> tm_active (db_mgr db) \<and>
     locks_ok (tm_locks (db_mgr db)) \<and> tables_ok db"

definition ended_txn :: "txid \<Rightarrow> bool \<Rightarrow> database \<Rightarrow> bool" where
  "ended_txn tx done_ok db \<longleftrightarrow> manager_ok (db_mgr db) \<and> tx \<notin> tm_active (db_mgr db) \<and>
     status (db_mgr db) tx = Some done_ok \<and> locks_ok (tm_locks (db_mgr db)) \<and>
     (\<forall>key. holds (tm_locks (db_mgr db)) key tx = None) \<and> tables_ok db"

text \<open>The commit record of a transaction that wrote is the last line of the log, synced.\<close>

definition commit_synced :: "txid \<Rightarrow> database \<Rightarrow> bool" where
  "commit_synced tx db \<longleftrightarrow> (\<forall>t. tm_txns (db_mgr db) tx = Some t \<longrightarrow> tr_wal_started t \<longrightarrow>
     (let w = tm_wal (db_mgr db) in last (wal_lines w) = rec_commit tx \<and> wal_synced w = length (wal_lines w)))"

lemma wal_update_id [simp]: "tm_wal_update id m = (m :: txn_manager)"
  by (cases m) simp

lemma running_open: "running tx db \<Longrightarrow> open_txn tx db"
  by (simp add: running_def open_txn_def)

lemma open_entry:
  assumes "open_txn tx db"
  obtains t where "tm_txns (db_mgr db) tx = Some t" "tr_txid t = tx" "tr_state t = TxActive"
proof -
  have m: "manager_ok (db_mgr db)" and a: "tx \<in> tm_active (db_mgr db)" using assms by (simp_all add: open_txn_def)
  then obtain t where t: "tm_txns (db_mgr db) tx = Some t"
    using manager_okD(2) [OF m] by (auto simp: active_ok_def)
  moreover have "tr_txid t = tx" "tr_state t = TxActive"
    using manager_okD(3) [OF m t] manager_okD(2) [OF m] a by (auto simp: txn_ok_def active_ok_def)
  ultimately show thesis by (rule that)
qed

lemma finish_ended:
  assumes "open_txn tx db" "tm_txns (db_mgr db) tx = Some t" "final \<noteq> TxActive"
  shows "ended_txn tx (final = TxCommitted) (db\<lparr>db_mgr := finish_txn final t (tm_wal_update f (db_mgr db))\<rparr>)"
proof -
  have m: "manager_ok (tm_wal_update f (db_mgr db))" using assms(1) by (simp add: open_txn_def manager_ok_log)
  obtain t' where "tm_txns (db_mgr db) tx = Some t'" "tr_txid t' = tx" "tr_state t' = TxActive"
    using open_entry [OF assms(1)] .
  then have t: "tr_txid t = tx" "tr_state t = TxActive" using assms(2) by auto
  have "manager_ok (finish_txn final t (tm_wal_update f (db_mgr db)))"
    using finish_txn_ok [OF m _ t(2) assms(3)] assms(2) t(1) by simp
  then show ?thesis
    using assms(1,3) t
    by (cases final)
      (auto simp: ended_txn_def open_txn_def finish_txn_def set_txn_def Let_def status_def locks_ok_def
        holds_release_all indexed_release_all compatible_release_all tables_ok_def)
qed

lemma abort_step_ends:
  assumes "open_txn tx db"
  shows "\<exists>db'. abort_step tx db = (db', Inr ()) \<and> ended_txn tx False db'"
proof -
  obtain t where t: "tm_txns (db_mgr db) tx = Some t" "tr_txid t = tx" "tr_state t = TxActive"
    using open_entry [OF assms] .
  have "abort_step tx db = (db\<lparr>db_mgr := finish_txn TxAborted t (tm_wal_update
      (if tr_wal_started t then log_abort tx else id) (db_mgr db))\<rparr>, Inr ())"
    using t by (simp add: abort_step_def the_txn_def get_txn_def bind_eff_def ret_def modify_def on_manager_def
        abort_txn_def wal_update_fold)
  with finish_ended [OF assms t(1), of TxAborted] show ?thesis by auto
qed

lemma commit_step_ends:
  assumes "running tx db"
  shows "\<exists>db' r. commit_step disk_ok tx db = (db', r) \<and>
    (if r = Inr () then ended_txn tx True db' \<and> commit_synced tx db' else open_txn tx db')"
proof -
  note o = running_open [OF assms]
  obtain t where t: "tm_txns (db_mgr db) tx = Some t" "tr_txid t = tx" "tr_state t = TxActive"
    using open_entry [OF o] .
  obtain w r where w: "wal_commit disk_ok tx (tm_wal (db_mgr db)) = (w, r)" by fastforce
  have step: "commit_step disk_ok tx db =
      (if tr_wal_started t then
         (case r of Inl e \<Rightarrow> (db\<lparr>db_mgr := (db_mgr db)\<lparr>tm_wal := w\<rparr>\<rparr>, Inl e)
          | Inr _ \<Rightarrow> (db\<lparr>db_mgr := finish_txn TxCommitted t ((db_mgr db)\<lparr>tm_wal := w\<rparr>)\<rparr>, Inr ()))
       else (db\<lparr>db_mgr := finish_txn TxCommitted t (db_mgr db)\<rparr>, Inr ()))"
    using t w by (simp add: commit_step_def the_txn_def get_txn_def bind_eff_def ret_def commit_txn_def split: sum.split)
  have ends: "ended_txn tx True (db\<lparr>db_mgr := finish_txn TxCommitted t ((db_mgr db)\<lparr>tm_wal := w\<rparr>)\<rparr>)"
    "ended_txn tx True (db\<lparr>db_mgr := finish_txn TxCommitted t (db_mgr db)\<rparr>)"
    using finish_ended [OF o t(1), of TxCommitted "\<lambda>_. w"] finish_ended [OF o t(1), of TxCommitted id] by simp_all
  have fails: "open_txn tx (db\<lparr>db_mgr := (db_mgr db)\<lparr>tm_wal := w\<rparr>\<rparr>)"
    using o by (simp add: open_txn_def tables_ok_def)
  have synced: "last (wal_lines w) = rec_commit tx \<and> wal_synced w = length (wal_lines w)" if "r = Inr ()"
    using that w assms wal_commit_ok [of tx "tm_wal (db_mgr db)"] wal_commit_fail [of tx "tm_wal (db_mgr db)"]
    by (cases disk_ok) (auto simp: running_def)
  have "commit_synced tx (db\<lparr>db_mgr := finish_txn TxCommitted t (m\<lparr>tm_wal := w\<rparr>)\<rparr>)" if "r = Inr ()" for m
    using synced [OF that] by (simp add: commit_synced_def finish_txn_def set_txn_def Let_def)
  moreover have "commit_synced tx (db\<lparr>db_mgr := finish_txn TxCommitted t (db_mgr db)\<rparr>)" if "\<not> tr_wal_started t"
    using that t by (auto simp: commit_synced_def finish_txn_def set_txn_def Let_def)
  ultimately show ?thesis using step ends fails by (cases r) auto
qed

section \<open>Autocommit\<close>

text \<open>
  C4. Autocommit is all or nothing. A statement outside an explicit transaction runs in a transaction of its
  own, which has ended when the call returns: committed, with its commit record synced if it wrote anything,
  exactly when the call returns a result; aborted when the call raises, whatever the statement and the failure
  (an error of the statement, a deadlock, a lock timeout, a failed commit). Either way the session has no
  transaction, no lock of it is left, and the manager, the lock tables and the tables keep their
  invariants. The other sessions may do anything at a lock request that keeps these and leaves the
  transaction running.
\<close>

theorem autocommit_all_or_nothing:
  assumes "manager_ok (db_mgr (ss_db s))" "locks_ok (tm_locks (db_mgr (ss_db s)))" "tables_ok (ss_db s)"
    and "tx = tm_counter (db_mgr (ss_db s))" "tx \<notin> set (wal_failed (tm_wal (db_mgr (ss_db s))))"
    and "ss_txn s = None" "\<And>db. running tx db \<Longrightarrow> running tx (w db)"
  shows "\<exists>s' r. run_plain w disk_ok n node s = (s', r) \<and> ss_txn s' = None \<and>
    (case r of
       Inr res \<Rightarrow> ended_txn tx True (ss_db s') \<and> commit_synced tx (ss_db s')
     | Inl e \<Rightarrow> ended_txn tx False (ss_db s'))"
proof -
  obtain db0 where s: "s = \<lparr>ss_db = db0, ss_txn = None\<rparr>" using assms(6) by (cases s) simp
  obtain m where b: "begin_txn ReadCommitted (db_mgr (ss_db s)) = (m, tx)"
    using assms(4) by (simp add: begin_txn_def Let_def)
  let ?db = "(ss_db s)\<lparr>db_mgr := m\<rparr>" and ?s = "\<lambda>db. \<lparr>ss_db = db, ss_txn = Some tx\<rparr>"
    and ?abort = "abort_and_raise tx :: py_error \<Rightarrow> (session, sql_result) eff"
  have "running tx ?db"
    using b assms begin_txn_ok [OF assms(1), of ReadCommitted]
    by (auto simp: running_def begin_txn_def Let_def tables_ok_def)
  then have "running tx (fst (execute w tx n node ?db))"
    by (rule keepsD [OF running_txn.keeps_execute, rotated]) (rule assms(7))
  then obtain db1 r1 where ex: "execute w tx n node ?db = (db1, r1)" "running tx db1"
    by (cases "execute w tx n node ?db") auto
  have start: "run_plain w disk_ok n node s =
      (case autocommit_body w disk_ok n tx node (?s ?db) of
         (s', Inl e) \<Rightarrow> abort_and_raise tx e s' | (s', Inr r) \<Rightarrow> (s', Inr r))"
    using b by (simp add: s run_plain_def autocommit_def bind_eff_def session_begin_def in_transaction_def)
  have abort: "\<exists>db'. ?abort e (?s db) = (\<lparr>ss_db = db', ss_txn = None\<rparr>, Inl e) \<and> ended_txn tx False db'"
    if "open_txn tx db" for e db
    using abort_step_ends [OF that]
    by (auto simp: abort_and_raise_def on_db_def bind_eff_def set_session_txn_def modify_def raise_def)
  show ?thesis
  proof (cases r1)
    case (Inl e)
    obtain db' where "?abort e (?s db1) = (\<lparr>ss_db = db', ss_txn = None\<rparr>, Inl e)" "ended_txn tx False db'"
      using abort [OF running_open [OF ex(2)]] by blast
    then show ?thesis using start ex Inl by (simp add: autocommit_body_def on_db_def bind_eff_def)
  next
    case (Inr rs)
    obtain db2 r2 where c: "commit_step disk_ok tx db1 = (db2, r2)"
      "if r2 = Inr () then ended_txn tx True db2 \<and> commit_synced tx db2 else open_txn tx db2"
      using commit_step_ends [OF ex(2)] by blast
    have body: "autocommit_body w disk_ok n tx node (?s ?db) =
        (case r2 of Inl e \<Rightarrow> (?s db2, Inl e) | Inr _ \<Rightarrow> (\<lparr>ss_db = db2, ss_txn = None\<rparr>, Inr (Rows rs)))"
      using ex Inr c(1)
      by (simp add: autocommit_body_def on_db_def bind_eff_def session_commit_def require_txn_def ret_def
          set_session_txn_def modify_def split: sum.split)
    show ?thesis
    proof (cases r2)
      case (Inl e)
      then obtain db' where "?abort e (?s db2) = (\<lparr>ss_db = db', ss_txn = None\<rparr>, Inl e)" "ended_txn tx False db'"
        using abort [of db2] c(2) by auto
      then show ?thesis using start body Inl by simp
    qed (use start body c(2) in simp)
  qed
qed

definition new_session :: session where
  "new_session =
     \<lparr>ss_db = \<lparr>db_tables = [], db_mgr = new_manager (new_wal []) (new_locks 100), db_checkpoint = None\<rparr>,
      ss_txn = None\<rparr>"

theorem autocommit_all_or_nothing_witness:
  "\<exists>s1 s2. run_plain id True 1 (CreateTable ''T'' [\<lparr>cd_name = ''a'', cd_type = TInt, cd_length = None,
       cd_nullable = True, cd_primary_key = False\<rparr>]) new_session = (s1, Inr (Rows \<lparr>rs_columns = [''status''], rs_rows = [[VStr ''CREATED'']]\<rparr>)) \<and>
     ended_txn 1 True (ss_db s1) \<and>
     run_plain id True 1 (Delete ''T'' Missing) new_session = (s2, Inl CatalogError) \<and> ended_txn 1 False (ss_db s2)"
proof -
  have start: "manager_ok (db_mgr (ss_db new_session))" "locks_ok (tm_locks (db_mgr (ss_db new_session)))"
    "tables_ok (ss_db new_session)" "1 = tm_counter (db_mgr (ss_db new_session))"
    "1 \<notin> set (wal_failed (tm_wal (db_mgr (ss_db new_session))))" "ss_txn new_session = None"
    by (simp_all add: new_session_def new_manager_ok locks_ok_def tables_ok_def)
      (simp_all add: new_manager_def new_wal_def locks_ok_def)
  have results: "snd (run_plain id True 1 (CreateTable ''T'' [\<lparr>cd_name = ''a'', cd_type = TInt, cd_length = None,
       cd_nullable = True, cd_primary_key = False\<rparr>]) new_session) =
      Inr (Rows \<lparr>rs_columns = [''status''], rs_rows = [[VStr ''CREATED'']]\<rparr>)"
    "snd (run_plain id True 1 (Delete ''T'' Missing) new_session) = Inl CatalogError"
    by code_simp+
  have ends: "if isl (snd (run_plain id True 1 node new_session)) then ended_txn 1 False (ss_db (fst (run_plain id True 1 node new_session)))
      else ended_txn 1 True (ss_db (fst (run_plain id True 1 node new_session)))" for node
  proof -
    obtain s' r where "run_plain id True 1 node new_session = (s', r)"
      "case r of Inr res \<Rightarrow> ended_txn 1 True (ss_db s') \<and> commit_synced 1 (ss_db s') | Inl e \<Rightarrow> ended_txn 1 False (ss_db s')"
      using autocommit_all_or_nothing [OF start, of id True 1 node] by (simp only: id_apply) blast
    then show ?thesis by (cases r) simp_all
  qed
  from ends [of "Delete ''T'' Missing"] ends [of "CreateTable ''T'' [\<lparr>cd_name = ''a'', cd_type = TInt, cd_length = None,
       cd_nullable = True, cd_primary_key = False\<rparr>]"] results
  show ?thesis by (metis isl_def prod.collapse sum.disc(2))
qed

end
