(* ===== verification/StatementFrame.thy ===== *)
theory StatementFrame
  imports StatementSteps
begin

text \<open>
  The frame of a statement: the steps of a statement that do not write rows leave the catalog alone, the status of
  every transaction and what a fresh snapshot would be. The other sessions may do what they like to the
  lock tables while the statement waits, but do not commit or write (\<open>quiet\<close>).
\<close>

section \<open>The frame\<close>

definition same_txn :: "transaction option \<Rightarrow> transaction option \<Rightarrow> bool" where
  "same_txn t t' \<longleftrightarrow> map_option (\<lambda>t. (tr_txid t, tr_isolation t)) t' = map_option (\<lambda>t. (tr_txid t, tr_isolation t)) t"

text \<open>The snapshot a statement of the transaction would read under.\<close>

definition snapshot_of :: "txid \<Rightarrow> database \<Rightarrow> snapshot option" where
  "snapshot_of tx db = map_option (\<lambda>t. snd (snapshot_for t (db_mgr db))) (tm_txns (db_mgr db) tx)"

definition frame :: "txid \<Rightarrow> database \<Rightarrow> database \<Rightarrow> bool" where
  "frame tx db db' \<longleftrightarrow> db_tables db' = db_tables db \<and> tm_state (db_mgr db') = tm_state (db_mgr db) \<and>
     tm_active (db_mgr db') = tm_active (db_mgr db) \<and> tm_next_id (db_mgr db') = tm_next_id (db_mgr db) \<and>
     same_txn (tm_txns (db_mgr db) tx) (tm_txns (db_mgr db') tx) \<and> snapshot_of tx db' = snapshot_of tx db"

definition quiet :: "txid \<Rightarrow> world \<Rightarrow> bool" where
  "quiet tx w \<longleftrightarrow> (\<forall>db. frame tx db (w db))"

lemma frame_refl [simp]: "frame tx db db"
  by (simp add: frame_def same_txn_def)

lemma frame_trans: "frame tx db db1 \<Longrightarrow> frame tx db1 db2 \<Longrightarrow> frame tx db db2"
  by (simp add: frame_def same_txn_def)

lemma frame_status: "frame tx db db' \<Longrightarrow> status (db_mgr db') = status (db_mgr db)"
  by (simp add: frame_def status_def fun_eq_iff)

lemma frame_snapshot: "frame tx db db' \<Longrightarrow> take_snapshot i (db_mgr db') = take_snapshot i (db_mgr db)"
  by (simp add: frame_def take_snapshot_def)

lemma frame_table: "frame tx db db' \<Longrightarrow> get_table name db' = get_table name db"
  by (simp add: frame_def get_table_def)

text \<open>A step that stays in the frame of the state it starts from.\<close>

definition framed :: "txid \<Rightarrow> (database, 'a) eff \<Rightarrow> bool" where
  "framed tx m \<longleftrightarrow> (\<forall>db. frame tx db (fst (m db)))"

lemma framed_step: "framed tx m \<Longrightarrow> m db = (db', r) \<Longrightarrow> frame tx db db'"
  unfolding framed_def by (metis fst_conv)

lemma framed_keeps: "(\<And>db0. keeps (frame tx db0) m) \<Longrightarrow> framed tx m"
  by (simp add: framed_def keeps_def)

lemma framed_bind:
  assumes "framed tx m" "\<And>x. framed tx (f x)"
  shows "framed tx (bind_eff m f)"
  unfolding framed_def
proof
  fix db
  obtain db1 r where 1: "m db = (db1, r)" by (cases "m db")
  have "frame tx db db1" using framed_step [OF assms(1) 1] .
  moreover have "frame tx db1 (fst (f x db1))" for x using assms(2) by (simp add: framed_def)
  ultimately show "frame tx db (fst (bind_eff m f db))"
    using 1 by (cases r) (auto simp: bind_eff_def intro: frame_trans)
qed

lemma framed_ret: "framed tx (ret x)"
  by (simp add: framed_def ret_def)

lemma framed_map: "(\<And>x. framed tx (f x)) \<Longrightarrow> framed tx (map_eff f xs)"
  by (induction xs) (auto intro!: framed_bind framed_ret)

lemma snapshot_for_snd:
  "snd (snapshot_for t m) =
     (case (tr_isolation t, tr_snapshot t) of (Serializable, Some s) \<Rightarrow> s | _ \<Rightarrow> take_snapshot (tr_txid t) m)"
  by (auto simp: snapshot_for_def Let_def split: isolation.split option.split)

lemma frame_locks: "frame tx db (on_manager (tm_locks_update f) db)" "frame tx db (on_manager (tm_wal_update g) db)"
  by (cases "tm_txns (db_mgr db) tx";
    simp add: frame_def same_txn_def on_manager_def snapshot_of_def snapshot_for_snd take_snapshot_def
      split: option.split isolation.split)+

lemma framed_locks:
  assumes "quiet tx w"
  shows "framed tx (with_locks w f)"
  using assms frame_trans [OF _ frame_locks(1)]
  by (auto simp: framed_def with_locks_def quiet_def Let_def split: prod.split)

lemma framed_lock: "quiet tx w \<Longrightarrow> framed tx (lock_table w tx tab mode)" "quiet tx w \<Longrightarrow> framed tx (lock_row w tx tab k mode)"
  by (simp_all add: lock_table_def lock_row_def framed_locks)

lemma framed_log: "framed tx (log_step f)"
  by (simp add: framed_def log_step_def modify_def frame_locks)

lemma frame_set_txn:
  "tm_txns (db_mgr db) tx = Some t \<Longrightarrow> tr_txid t' = tr_txid t \<Longrightarrow> tr_isolation t' = tr_isolation t \<Longrightarrow>
     tr_snapshot t' = tr_snapshot t \<Longrightarrow> frame tx db (on_manager (set_txn t') db)"
  by (auto simp: frame_def on_manager_def set_txn_def same_txn_def snapshot_of_def snapshot_for_snd take_snapshot_def
      split: option.split isolation.split)

lemma framed_entry:
  assumes "\<And>t db. tm_txns (db_mgr db) tx = Some t \<Longrightarrow> frame tx db (f t db)"
  shows "framed tx (bind_eff (the_txn tx) (\<lambda>t. modify (f t)))"
  unfolding framed_def
proof
  fix db
  show "frame tx db (fst (bind_eff (the_txn tx) (\<lambda>t. modify (f t)) db))"
    using assms [of db]
    by (cases "tm_txns (db_mgr db) tx") (simp_all add: the_txn_def get_txn_def bind_eff_def modify_def raise_def ret_def)
qed

lemma framed_begin_in_wal: "framed tx (begin_in_wal tx)"
  unfolding begin_in_wal_def
proof (rule framed_entry)
  fix t and db :: database assume t: "tm_txns (db_mgr db) tx = Some t"
  show "frame tx db (on_manager (ensure_wal_begin t) db)"
    using t frame_set_txn [of "on_manager (tm_wal_update (log_begin (tr_txid t))) db" tx t "t\<lparr>tr_wal_started := True\<rparr>"]
      frame_trans [OF frame_locks(2)]
    by (simp add: ensure_wal_begin_def on_manager_def wal_update_fold)
qed

lemma framed_mark_written: "framed tx (mark_written tx name)"
  unfolding mark_written_def by (rule framed_entry) (rule frame_set_txn, simp_all)

text \<open>The snapshot of a statement, and the one UPDATE and DELETE take after their locks: the same.\<close>

lemma statement_snapshot_result:
  assumes "statement_snapshot tx db = (db', Inr snap)"
  shows "frame tx db db'" "\<exists>t. tm_txns (db_mgr db) tx = Some t \<and> snap = snd (snapshot_for t (db_mgr db))"
proof -
  obtain t where t: "tm_txns (db_mgr db) tx = Some t"
    using assms by (cases "tm_txns (db_mgr db) tx") (simp_all add: statement_snapshot_def the_txn_def get_txn_def bind_eff_def raise_def)
  then have eq: "db' = db\<lparr>db_mgr := fst (snapshot_for t (db_mgr db))\<rparr>" "snap = snd (snapshot_for t (db_mgr db))"
    using assms by (simp_all add: statement_snapshot_def the_txn_def get_txn_def bind_eff_def ret_def split: prod.splits)
  show "\<exists>t. tm_txns (db_mgr db) tx = Some t \<and> snap = snd (snapshot_for t (db_mgr db))" using t eq by blast
  show "frame tx db db'"
    using t unfolding eq
    by (auto simp: snapshot_for_def Let_def frame_def set_txn_def same_txn_def snapshot_of_def take_snapshot_def
        split: isolation.splits option.splits)
qed

lemma post_lock_result:
  assumes "statement_snapshot tx db = (db1, Inr snap)" "frame tx db1 db2" "post_lock_snapshot tx snap db2 = (db3, Inr snap')"
  shows "db3 = db2 \<and> snap' = snap"
proof -
  obtain t where t: "tm_txns (db_mgr db) tx = Some t" "snap = snd (snapshot_for t (db_mgr db))"
    using statement_snapshot_result(2) [OF assms(1)] by blast
  have f: "frame tx db db2" using statement_snapshot_result(1) [OF assms(1)] assms(2) by (rule frame_trans)
  then obtain t2 where t2: "tm_txns (db_mgr db2) tx = Some t2" "tr_txid t2 = tr_txid t" "tr_isolation t2 = tr_isolation t"
    using t(1) by (auto simp: frame_def same_txn_def)
  then have "db3 = db2" "snap' = (if tr_isolation t = ReadCommitted then take_snapshot (tr_txid t) (db_mgr db) else snap)"
    using assms(3) frame_snapshot [OF f]
    by (auto simp: post_lock_snapshot_def the_txn_def get_txn_def bind_eff_def ret_def)
  then show ?thesis using t(2) by (auto simp: snapshot_for_def Let_def split: isolation.splits)
qed

end
