(* ===== verification/Candidates.thy ===== *)
theory Candidates
  imports StatementFrame IndexLookup SortLemmas
begin

text \<open>
  The candidates of UPDATE and DELETE: a condition without subqueries is a function of the row; the keys the
  statement locks, found by a scan or by the primary key, include every row that satisfies it.
\<close>

section \<open>Conditions\<close>

text \<open>A row satisfies a condition without subqueries when its value is TRUE.\<close>

definition satisfies :: "string \<Rightarrow> table_schema \<Rightarrow> expr \<Rightarrow> pyval list \<Rightarrow> bool" where
  "satisfies name schema wh row \<longleftrightarrow>
     wh = Missing \<or> (case eval_plain [target_scope name schema row] wh of Inl e \<Rightarrow> False | Inr v \<Rightarrow> truthy v)"

lemma test_plain:
  assumes "no_subquery wh" "test (evaluate run []) (target_scope name schema row) wh db = (db', Inr b)"
  shows "db' = db \<and> b = satisfies name schema wh row"
  using assms evaluate_plain [OF assms(1), of run "[]" "target_scope name schema row"]
  by (cases "wh = Missing"; cases "eval_plain [target_scope name schema row] wh")
    (auto simp: test_def satisfies_def ret_def raise_def bind_eff_def)

lemma filter_plain:
  assumes "no_subquery wh"
    "filter_eff (\<lambda>(k, row). test (evaluate run []) (target_scope name schema row) wh) rows db = (db', Inr kept)"
  shows "db' = db \<and> kept = filter (\<lambda>(k, row). satisfies name schema wh row) rows"
  using assms(2)
proof (induction rows arbitrary: kept)
  case (Cons e rows)
  obtain k row where e: "e = (k, row)" by (cases e)
  from Cons.prems obtain db1 b ys where
    1: "test (evaluate run []) (target_scope name schema row) wh db = (db1, Inr b)" and
    2: "filter_eff (\<lambda>(k, row). test (evaluate run []) (target_scope name schema row) wh) rows db1 = (db', Inr ys)" and
    3: "kept = (if b then e # ys else ys)"
    by (auto simp: e bind_eff_Inr ret_def)
  have "db1 = db" "b = satisfies name schema wh row" using test_plain [OF assms(1) 1] by simp_all
  then show ?case using Cons.IH 2 3 by (simp add: e)
qed (simp add: ret_def)

text \<open>Every conjunct of a true condition is true.\<close>

lemma conjunct_true:
  "eval_plain scs wh = Inr v \<Longrightarrow> py_truth v \<Longrightarrow> q \<in> set (split_conjuncts wh) \<Longrightarrow>
     \<exists>u. eval_plain scs q = Inr u \<and> py_truth u"
proof (induction wh arbitrary: v rule: split_conjuncts.induct)
  case (1 a b)
  then obtain l r where "eval_plain scs a = Inr l" "eval_plain scs b = Inr r" "v = and_value l r"
    by (auto simp: bind_result_eq_Inr binary_value_def)
  then show ?case using 1 by auto
qed auto

lemma truthy_py_truth: "truthy v \<Longrightarrow> py_truth v"
  by (simp add: truthy_def)

section \<open>Candidates\<close>

abbreviation view_in :: "database \<Rightarrow> snapshot \<Rightarrow> table \<Rightarrow> rowkey \<Rightarrow> pyval list option" where
  "view_in db snap t \<equiv> table_view (status (db_mgr db)) snap t"

definition index_ready :: "string \<Rightarrow> table \<Rightarrow> bool" where
  "index_ready name t \<longleftrightarrow> has_user_pk t \<longrightarrow>
     (\<exists>c i. keyed_table t c i) \<and> py_lower (sch_name (tb_schema t)) = py_lower name"

lemma candidate_at_result:
  assumes "no_subquery wh" "get_table name db = Inr t" "table_ok t"
    "candidate_at (evaluate run []) snap name schema wh k db = (db', Inr ks)"
  shows "db' = db \<and> (\<forall>row. view_in db snap t (KVal k) = Some row \<longrightarrow> satisfies name schema wh row \<longrightarrow> KVal k \<in> set ks) \<and>
    length ks \<le> 1"
proof -
  let ?v = "case table_chain t (KVal k) of None \<Rightarrow> None | Some c \<Rightarrow> pick_visible (status (db_mgr db)) snap c"
  have view: "view_in db snap t (KVal k) = map_option v_row ?v" by (auto simp: table_view_def split: option.splits)
  show ?thesis
  proof (cases ?v)
    case None
    then show ?thesis using assms(4) view
      by (simp add: candidate_at_def bind_read_version [OF assms(2,3)] ret_def)
  next
    case (Some ver)
    have "bind_eff (test (evaluate run []) (target_scope name schema (v_row ver)) wh) (\<lambda>ok. ret (if ok then [KVal k] else [])) db = (db', Inr ks)"
      using assms(4) Some by (simp add: candidate_at_def bind_read_version [OF assms(2,3)])
    then obtain db1 b where b: "test (evaluate run []) (target_scope name schema (v_row ver)) wh db = (db1, Inr b)"
      "db' = db1" "ks = (if b then [KVal k] else [])" by (auto simp: bind_eff_Inr ret_def)
    from test_plain [OF assms(1) b(1)] show ?thesis using b view Some by auto
  qed
qed

lemma candidates_at_result:
  assumes "no_subquery wh" "get_table name db = Inr t" "table_ok t"
    "map_eff (candidate_at (evaluate run []) snap name schema wh) ks db = (db', Inr kss)"
  shows "db' = db \<and> (\<forall>k\<in>set ks. \<forall>row. view_in db snap t (KVal k) = Some row \<longrightarrow>
     satisfies name schema wh row \<longrightarrow> KVal k \<in> set (concat kss)) \<and> length (concat kss) \<le> length ks"
  using assms(4)
proof (induction ks arbitrary: kss)
  case (Cons k ks)
  from Cons.prems obtain db1 xs yss where
    1: "candidate_at (evaluate run []) snap name schema wh k db = (db1, Inr xs)" and
    2: "map_eff (candidate_at (evaluate run []) snap name schema wh) ks db1 = (db', Inr yss)" and
    3: "kss = xs # yss"
    by (auto simp: bind_eff_Inr ret_def)
  from candidate_at_result [OF assms(1-3) 1] Cons.IH [of yss] 2 3 show ?case by auto
qed (simp add: ret_def)

text \<open>The primary-key lookup misses no row that satisfies the condition.\<close>

lemma where_keys_complete:
  assumes "keyed_table t c i" "py_lower (sch_name (tb_schema t)) = py_lower name"
    and "where_pk_keys t wh = Inr (Some ks)" "no_subquery wh"
    and "table_view st snap t k = Some row" "satisfies name (tb_schema t) wh row"
  shows "ks = [row ! i] \<and> k = KVal (row ! i)"
proof -
  let ?s = "tb_schema t"
  note t = assms(1) [unfolded keyed_table_def]
  obtain ch v where "table_chain t k = Some ch" "v \<in> set ch" "v_row v = row"
    using assms(5) by (fastforce simp: table_view_def dest: pick_visible_member split: option.splits)
  then have row: "row_fits ?s row" "k = KVal (row ! i)" "row ! i \<noteq> VNone" "exact_float (row ! i)" using t by blast+
  have "wh \<noteq> Missing" using assms(3) by (auto simp: where_pk_keys_def)
  then obtain u where u: "eval_plain [target_scope name ?s row] wh = Inr u" "py_truth u"
    using assms(6) truthy_py_truth by (auto simp: satisfies_def split: sum.splits)
  obtain os where os: "map_result (\<lambda>p. pk_eq_key p (py_lower (col_name c)) (py_lower name) ?s) (split_conjuncts wh) = Inr os"
    "combine_keys (List.map_filter id os) = Some ks"
    using assms(2,3) t by (auto simp: where_pk_keys_def equality_keys_def bind_result_eq_Inr split: if_splits)
  have "\<forall>k\<in>set (List.map_filter id os). row ! i = k \<and> py_eq k k"
  proof
    fix k assume "k \<in> set (List.map_filter id os)"
    then have "Some k \<in> set os" by (auto simp: List.map_filter_def)
    then obtain q where q: "q \<in> set (split_conjuncts wh)" "pk_eq_key q (py_lower (col_name c)) (py_lower name) ?s = Inr (Some k)"
      using map_result_members [OF os(1)] by blast
    obtain u' where u': "eval_plain [target_scope name ?s row] q = Inr u'" "py_truth u'"
      using conjunct_true [OF u q(1)] by blast
    have "no_subquery q"
    proof -
      obtain raw where "key_literal (py_lower (col_name c)) (py_lower name) q = Some raw"
        using q(2) by (auto simp: pk_eq_key_def split: option.splits)
      then obtain e where "is_key_ref (py_lower (col_name c)) (py_lower name) e"
        "q = BinaryOp BEq e (Literal raw) \<or> q = BinaryOp BEq (Literal raw) e" by (rule key_literal_cases)
      then show ?thesis by (cases e) (auto simp: is_key_ref_def)
    qed
    then have "evaluate (None :: unit runner option) [] (row_scope (py_lower name) (column_names_lower ?s) row) q () = ((), Inr u')"
      using evaluate_plain [of q "None :: unit runner option" "[]"] u'(1) by (simp add: target_scope_def ret_def)
    from key_equality [OF q(2) _ _ _ row(1,3,4) this u'(2)] t show "row ! i = k \<and> py_eq k k" by blast
  qed
  then show ?thesis using combined_keys [OF os(2)] row(2) by blast
qed

lemma combine_keys_short: "combine_keys ks = Some vs \<Longrightarrow> length vs \<le> 1"
  by (auto simp: combine_keys_def split: list.splits)

lemma candidate_keys_result:
  assumes "no_subquery wh" "get_table name db = Inr t" "table_ok t" "index_ready name t"
    "candidate_keys (evaluate run []) snap name wh db = (db', Inr ks)"
  shows "db' = db \<and> distinct ks \<and>
    (\<forall>k row. view_in db snap t k = Some row \<longrightarrow> satisfies name (tb_schema t) wh row \<longrightarrow> k \<in> set ks)"
proof -
  let ?ev = "evaluate run []"
  obtain idx where idx: "where_pk_keys t wh = Inr idx"
    using assms(5) by (cases "where_pk_keys t wh") (auto simp: candidate_keys_def bind_the_table [OF assms(2)] raise_def)
  show ?thesis
  proof (cases idx)
    case None
    obtain rows where rows: "table_scan (status (db_mgr db)) snap t = Inr rows" "map_of rows = view_in db snap t"
      "sorted_alist rows"
      using table_scan_ok [OF assms(3)] by blast
    have "distinct (map fst rows)" using rows(3) by (simp add: strict_sorted_iff)
    then have dist_kept: "distinct (map fst (filter Q rows))" for Q by (rule distinct_map_filter)
    have "bind_eff (filter_eff (\<lambda>(k, row). test ?ev (target_scope name (tb_schema t) row) wh) rows)
        (\<lambda>kept. ret (map fst kept)) db = (db', Inr ks)"
      using assms(5) idx None by (simp add: candidate_keys_def bind_the_table [OF assms(2)] bind_read_scan [OF assms(2) rows(1)])
    then obtain db1 kept where kept: "filter_eff (\<lambda>(k, row). test ?ev (target_scope name (tb_schema t) row) wh) rows db = (db1, Inr kept)"
      "db' = db1" "ks = map fst kept" by (auto simp: bind_eff_Inr ret_def)
    from filter_plain [OF assms(1) kept(1)] have "db' = db" "kept = filter (\<lambda>(k, row). satisfies name (tb_schema t) wh row) rows"
      using kept(2) by simp_all
    moreover have "(k, row) \<in> set rows" if "view_in db snap t k = Some row" for k row
      using that unfolding rows(2) [symmetric] by (rule map_of_SomeD)
    ultimately show ?thesis using kept(3) dist_kept by force
  next
    case (Some vs)
    have "bind_eff (map_eff (candidate_at ?ev snap name (tb_schema t) wh) vs) (\<lambda>kss. ret (concat kss)) db = (db', Inr ks)"
      using assms(5) idx Some by (simp add: candidate_keys_def bind_the_table [OF assms(2)])
    then obtain db1 kss where kss: "map_eff (candidate_at ?ev snap name (tb_schema t) wh) vs db = (db1, Inr kss)"
      "db' = db1" "ks = concat kss" by (auto simp: bind_eff_Inr ret_def)
    note cands = candidates_at_result [OF assms(1-3) kss(1)]
    have "has_user_pk t" using idx Some by (auto simp: where_pk_keys_def split: if_splits)
    then obtain c i where "keyed_table t c i" "py_lower (sch_name (tb_schema t)) = py_lower name"
      using assms(4) by (auto simp: index_ready_def)
    note complete = where_keys_complete [OF this idx [unfolded Some] assms(1)]
    have "length vs \<le> 1"
      using idx Some combine_keys_short by (auto simp: where_pk_keys_def bind_result_eq_Inr split: if_splits)
    then have len: "length ks \<le> 1" using cands kss(3) by simp
    have "distinct ks" using len by (cases ks; cases "tl ks") auto
    then show ?thesis using cands complete kss by fastforce
  qed
qed

section \<open>Locked candidates\<close>

lemma mset_sort_candidates: "mset (sort_candidates ks) = mset ks"
proof -
  have "mset (insert_by lt x xs) = add_mset x (mset xs)" for lt and x :: rowkey and xs
    by (induction xs) auto
  then have "mset (foldr (insert_by lt) xs []) = mset xs" for lt and xs :: "rowkey list"
    by (induction xs) simp_all
  then show ?thesis by (simp add: sort_candidates_def sort_by_def)
qed

lemma sort_candidates_simps [simp]:
  "set (sort_candidates ks) = set ks" "distinct (sort_candidates ks) = distinct ks"
  using mset_sort_candidates [of ks] by (metis set_mset_mset, metis mset_eq_imp_distinct_iff)

lemma lock_candidates_result:
  assumes "quiet tx w" "no_subquery wh" "get_table name db = Inr t" "table_ok t" "index_ready name t"
    and "lock_candidates w tx n name wh db = (db', Inr (ks, snap))"
  shows "frame tx db db' \<and> snapshot_of tx db = Some snap \<and> distinct ks \<and>
    (\<forall>k row. view_in db snap t k = Some row \<longrightarrow> satisfies name (tb_schema t) wh row \<longrightarrow> k \<in> set ks)"
proof -
  obtain db1 s1 cs db2 us db3 db4 where
    1: "statement_snapshot tx db = (db1, Inr s1)" and
    2: "candidate_keys (statement_evaluator w tx n s1) s1 name wh db1 = (db2, Inr cs)" and
    3: "map_eff (\<lambda>k. lock_row w tx (py_lower name) k MX) (sort_candidates cs) db2 = (db3, Inr us)" and
    4: "post_lock_snapshot tx s1 db3 = (db4, Inr snap)" and
    eq: "db' = db4" "ks = sort_candidates cs"
    using assms(6) by (auto simp: lock_candidates_def bind_eff_Inr ret_def)
  have f1: "frame tx db db1" by (rule statement_snapshot_result(1) [OF 1])
  have snap: "snapshot_of tx db = Some s1" using statement_snapshot_result(2) [OF 1] by (auto simp: snapshot_of_def)
  have get: "get_table name db1 = Inr t" using frame_table [OF f1] assms(3) by simp
  note cands = candidate_keys_result [OF assms(2) get assms(4,5) 2 [unfolded statement_evaluator_def]]
  have f3: "frame tx db1 db3"
    using framed_step [OF framed_map [OF framed_lock(2) [OF assms(1)]] 3] cands by simp
  have 5: "db4 = db3" "snap = s1" using post_lock_result [OF 1 f3 4] by simp_all
  show ?thesis
    using cands frame_trans [OF f1 f3] snap frame_status [OF f1] by (simp add: eq 5)
qed

end
