(* ===== verification/DmlCorrect.thy ===== *)
theory DmlCorrect
  imports Candidates
begin

text \<open>
  What INSERT, UPDATE and DELETE do to the rows of their table, as the view of the writer's snapshot, and that no
  reader who does not count the writer sees a change.
\<close>

section \<open>Writes to the table\<close>

text \<open>\<open>db'\<close> differs from \<open>db\<close> in the table, which is now \<open>t'\<close>, and outside the frame.\<close>

definition writes_table :: "txid \<Rightarrow> string \<Rightarrow> database \<Rightarrow> table \<Rightarrow> database \<Rightarrow> bool" where
  "writes_table tx name db t' db' \<longleftrightarrow>
     frame tx (db\<lparr>db_tables := AList.update (py_lower name) t' (db_tables db)\<rparr>) db'"

lemma AList_update_twice: "AList.update k v (AList.update k v' xs) = AList.update k v xs"
  by (induction xs) auto

lemma AList_update_same: "map_of xs k = Some v \<Longrightarrow> AList.update k v xs = xs"
  by (induction xs) (auto split: if_splits)

lemma frame_update:
  "frame tx db db' \<Longrightarrow> frame tx (db\<lparr>db_tables := ts\<rparr>) (db'\<lparr>db_tables := ts\<rparr>)"
  by (simp add: frame_def snapshot_of_def)

lemma writes_none: "get_table name db = Inr t \<Longrightarrow> frame tx db db' \<Longrightarrow> writes_table tx name db t db'"
  by (auto simp: writes_table_def get_table_def AList_update_same split: option.splits)

lemma writes_trans:
  assumes "writes_table tx name db t1 db1" "writes_table tx name db1 t2 db2"
  shows "writes_table tx name db t2 db2"
proof -
  let ?k = "py_lower name"
  have tabs: "db_tables db1 = AList.update ?k t1 (db_tables db)" using assms(1) by (simp add: writes_table_def frame_def)
  have "frame tx (db\<lparr>db_tables := AList.update ?k t2 (db_tables db)\<rparr>) (db1\<lparr>db_tables := AList.update ?k t2 (db_tables db)\<rparr>)"
    using frame_update [OF assms(1) [unfolded writes_table_def], of "AList.update ?k t2 (db_tables db)"] by simp
  then show ?thesis using assms(2) tabs by (auto simp: writes_table_def AList_update_twice intro: frame_trans)
qed

lemma writes_get: "writes_table tx name db t db' \<Longrightarrow> get_table name db' = Inr t"
  by (simp add: writes_table_def frame_def get_table_def update_conv')

lemma writes_status: "writes_table tx name db t db' \<Longrightarrow> status (db_mgr db') = status (db_mgr db)"
  using frame_status unfolding writes_table_def by fastforce

lemma writes_snapshot: "writes_table tx name db t db' \<Longrightarrow> take_snapshot i (db_mgr db') = take_snapshot i (db_mgr db)"
  using frame_snapshot unfolding writes_table_def by fastforce

lemma writes_other: "writes_table tx name db t db' \<Longrightarrow> py_lower other \<noteq> py_lower name \<Longrightarrow> get_table other db' = get_table other db"
  by (simp add: writes_table_def frame_def get_table_def update_conv')

lemma writes_frame: "writes_table tx name db t db1 \<Longrightarrow> frame tx db1 db2 \<Longrightarrow> writes_table tx name db t db2"
  unfolding writes_table_def by (rule frame_trans)

text \<open>No chain ends in an aborted version: a row the writer sees is the last version, which nobody has deleted.\<close>

definition clean_chains :: "status_fn \<Rightarrow> snapshot \<Rightarrow> table \<Rightarrow> bool" where
  "clean_chains st s t \<longleftrightarrow> (\<forall>k. settled st s (chain_or_empty t k) \<or> vacant st s (chain_or_empty t k))"

lemma clean_settled:
  "clean_chains st s t \<Longrightarrow> table_view st s t k = Some row \<Longrightarrow> settled st s (chain_or_empty t k)"
  by (metis clean_chains_def option.distinct(1) row_view_None table_view_chain)

definition unseen_same :: "txid \<Rightarrow> status_fn \<Rightarrow> table \<Rightarrow> table \<Rightarrow> bool" where
  "unseen_same tx st t t' \<longleftrightarrow> (\<forall>s. unseen st s tx \<longrightarrow> table_view st s t' = table_view st s t)"

lemma unseen_same_refl [simp]: "unseen_same tx st t t"
  by (simp add: unseen_same_def)

lemma unseen_same_trans: "unseen_same tx st t t1 \<Longrightarrow> unseen_same tx st t1 t2 \<Longrightarrow> unseen_same tx st t t2"
  by (simp add: unseen_same_def)

lemma clean_fun_upd:
  assumes "clean_chains st s t" "table_chain t' = (table_chain t)(k := c)"
    "settled st s (case c of None \<Rightarrow> [] | Some x \<Rightarrow> x) \<or> vacant st s (case c of None \<Rightarrow> [] | Some x \<Rightarrow> x)"
  shows "clean_chains st s t'"
  using assms by (auto simp: clean_chains_def chain_or_empty_def)

lemma delete_visible:
  assumes "table_ok t" "clean_chains st s t" "table_view st s t k = Some row" "snap_txid s = tx" "tx \<noteq> 0"
  shows "\<exists>t'. table_delete tx k t = Inr (t', True) \<and> table_ok t' \<and> clean_chains st s t' \<and> tb_schema t' = tb_schema t \<and>
    table_view st s t' = (table_view st s t)(k := None) \<and> unseen_same tx st t t'"
proof -
  note set = clean_settled [OF assms(2,3)]
  obtain c where c: "table_chain t k = Some c" "settled st s c" using settled_chain [OF set] by blast
  obtain c' where c': "chain_delete tx c = Inr (c', True)" "vacant st s c'"
    using chain_delete_settled [OF c(2) assms(4) [symmetric] assms(5)] by blast
  obtain t' where t': "table_delete tx k t = Inr (t', True)"
    "table_chain t' = (table_chain t)(k := (if c' = [] then None else Some c'))" "tb_schema t' = tb_schema t"
    using table_delete_ok [OF assms(1) c(1) c'(1)] by blast
  have "clean_chains st s t'" using clean_fun_upd [OF assms(2) t'(2)] c'(2) by simp
  then show ?thesis using table_delete_view [OF assms(1) set assms(4,5)] t' by (auto simp: unseen_same_def)
qed

section \<open>DELETE\<close>

text \<open>What is left of a view when the rows of \<open>K\<close> that satisfy \<open>P\<close> are gone.\<close>

definition without :: "rowkey set \<Rightarrow> (pyval list \<Rightarrow> bool) \<Rightarrow> (rowkey \<Rightarrow> pyval list option) \<Rightarrow> rowkey \<Rightarrow> pyval list option" where
  "without K P view k = (case view k of None \<Rightarrow> None | Some row \<Rightarrow> if k \<in> K \<and> P row then None else Some row)"

lemma on_table_result:
  assumes "on_table name f db = (db', Inr x)" "get_table name db = Inr t"
  obtains t' where "f t = Inr (t', x)" "writes_table tx name db t' db'"
  using assms
  by (auto simp: on_table_def bind_the_table writes_table_def split: sum.splits prod.splits)

text \<open>One key: the row it has under the snapshot, when it satisfies the condition.\<close>

lemma current_row_result:
  assumes "no_subquery wh" "get_table name db = Inr t" "table_ok t"
    "current_row (evaluate run []) snap name schema wh k db = (db', Inr cur)"
  shows "db' = db \<and> cur = (case view_in db snap t k of None \<Rightarrow> None | Some row \<Rightarrow> if satisfies name schema wh row then Some row else None)"
proof -
  let ?v = "case table_chain t k of None \<Rightarrow> None | Some c \<Rightarrow> pick_visible (status (db_mgr db)) snap c"
  have view: "view_in db snap t k = map_option v_row ?v" by (auto simp: table_view_def split: option.splits)
  show ?thesis
  proof (cases ?v)
    case None
    then show ?thesis using assms(4) view
      by (simp add: current_row_def bind_read_version [OF assms(2,3)] ret_def)
  next
    case (Some ver)
    then obtain db1 b where b: "test (evaluate run []) (target_scope name schema (v_row ver)) wh db = (db1, Inr b)"
      "db' = db1" "cur = (if b then Some (v_row ver) else None)"
      using assms(4) by (auto simp: current_row_def bind_read_version [OF assms(2,3)] bind_eff_Inr ret_def)
    from test_plain [OF assms(1) b(1)] show ?thesis using b view Some by simp
  qed
qed

lemma delete_row_result:
  assumes "no_subquery wh" "get_table name db = Inr t" "table_ok t" "clean_chains (status (db_mgr db)) snap t"
    and "snap_txid snap = tx" "tx \<noteq> 0"
    and "delete_row w tx n name (tb_schema t) wh snap k db = (db', Inr flag)"
  shows "\<exists>t'. writes_table tx name db t' db' \<and> table_ok t' \<and> clean_chains (status (db_mgr db)) snap t' \<and>
    tb_schema t' = tb_schema t \<and> view_in db snap t' = without {k} (satisfies name (tb_schema t) wh) (view_in db snap t) \<and>
    unseen_same tx (status (db_mgr db)) t t' \<and>
    flag = (\<exists>row. view_in db snap t k = Some row \<and> satisfies name (tb_schema t) wh row)"
proof -
  let ?P = "satisfies name (tb_schema t) wh" and ?st = "status (db_mgr db)"
  obtain db1 cur where cur: "current_row (statement_evaluator w tx n snap) snap name (tb_schema t) wh k db = (db1, Inr cur)"
    and rest: "(case cur of None \<Rightarrow> ret False
       | Some row \<Rightarrow> bind_eff (log_step (log_delete tx name k)) (\<lambda>_. on_table name (table_delete tx k))) db1 = (db', Inr flag)"
    using assms(7) by (auto simp: delete_row_def bind_eff_Inr)
  from current_row_result [OF assms(1-3) cur [unfolded statement_evaluator_def]]
  have db1: "db1 = db" and c: "cur = (case view_in db snap t k of None \<Rightarrow> None | Some row \<Rightarrow> if ?P row then Some row else None)"
    by simp_all
  show ?thesis
  proof (cases cur)
    case None
    then have "without {k} ?P (view_in db snap t) = view_in db snap t"
      "flag = (\<exists>row. view_in db snap t k = Some row \<and> ?P row)" "db' = db"
      using c rest db1 by (auto simp: without_def fun_eq_iff ret_def split: option.splits if_splits)
    then show ?thesis using assms(2-4) writes_none [OF assms(2) frame_refl] by (intro exI [of _ t]) auto
  next
    case (Some row)
    then have row: "view_in db snap t k = Some row" "?P row" using c by (auto split: option.splits if_splits)
    obtain t' where t': "table_delete tx k t = Inr (t', True)" "table_ok t'" "clean_chains ?st snap t'" "tb_schema t' = tb_schema t"
      "view_in db snap t' = (view_in db snap t)(k := None)" "unseen_same tx ?st t t'"
      using delete_visible [OF assms(3,4) row(1) assms(5,6)] by blast
    obtain db2 where db2: "log_step (log_delete tx name k) db = (db2, Inr ())" "on_table name (table_delete tx k) db2 = (db', Inr flag)"
      using rest Some db1 by (auto simp: bind_eff_Inr)
    have f: "frame tx db db2" by (rule framed_step [OF framed_log db2(1)])
    have get: "get_table name db2 = Inr t" using frame_table [OF f] assms(2) by simp
    obtain t'' where "table_delete tx k t = Inr (t'', flag)" "writes_table tx name db2 t'' db'"
      by (rule on_table_result [OF db2(2) get])
    then have w: "writes_table tx name db2 t' db'" "flag" using t'(1) by auto
    have "writes_table tx name db t' db'" using writes_trans [OF writes_none [OF assms(2) f] w(1)] .
    moreover have "without {k} ?P (view_in db snap t) = (view_in db snap t)(k := None)"
      using row by (auto simp: without_def fun_eq_iff split: option.splits)
    ultimately show ?thesis using t' w(2) row by auto
  qed
qed

lemma delete_rows_result:
  assumes "no_subquery wh" "snap_txid snap = tx" "tx \<noteq> 0"
  shows "get_table name db = Inr t \<Longrightarrow> table_ok t \<Longrightarrow> clean_chains (status (db_mgr db)) snap t \<Longrightarrow>
    map_eff (delete_row w tx n name (tb_schema t) wh snap) ks db = (db', Inr flags) \<Longrightarrow>
    \<exists>t'. writes_table tx name db t' db' \<and> table_ok t' \<and> tb_schema t' = tb_schema t \<and>
      view_in db snap t' = without (set ks) (satisfies name (tb_schema t) wh) (view_in db snap t) \<and>
      unseen_same tx (status (db_mgr db)) t t' \<and>
      count_true flags = card {k \<in> set ks. \<exists>row. view_in db snap t k = Some row \<and> satisfies name (tb_schema t) wh row}"
proof (induction ks arbitrary: db t flags)
  case Nil
  then show ?case using writes_none [OF Nil(1) frame_refl]
    by (intro exI [of _ t]) (auto simp: ret_def without_def fun_eq_iff count_true_def split: option.splits)
next
  case (Cons k ks)
  let ?P = "satisfies name (tb_schema t) wh" and ?st = "status (db_mgr db)"
  let ?hit = "\<lambda>view k. \<exists>row. view k = Some row \<and> ?P row"
  obtain db1 flag fs where 1: "delete_row w tx n name (tb_schema t) wh snap k db = (db1, Inr flag)"
    and 2: "map_eff (delete_row w tx n name (tb_schema t) wh snap) ks db1 = (db', Inr fs)" and fs: "flags = flag # fs"
    using Cons.prems(4) by (auto simp: bind_eff_Inr ret_def)
  from delete_row_result [OF assms(1) Cons.prems(1-3) assms(2,3) 1]
  obtain t1 where t1: "writes_table tx name db t1 db1" "table_ok t1" "clean_chains ?st snap t1" "tb_schema t1 = tb_schema t"
    "view_in db snap t1 = without {k} ?P (view_in db snap t)" "unseen_same tx ?st t t1" "flag = ?hit (view_in db snap t) k"
    by blast
  have st: "status (db_mgr db1) = ?st" by (rule writes_status [OF t1(1)])
  from Cons.IH [OF writes_get [OF t1(1)] t1(2)] t1(3,4) 2 st
  obtain t2 where t2: "writes_table tx name db1 t2 db'" "table_ok t2" "tb_schema t2 = tb_schema t"
    "view_in db snap t2 = without (set ks) ?P (view_in db snap t1)" "unseen_same tx ?st t1 t2"
    "count_true fs = card {k \<in> set ks. ?hit (view_in db snap t1) k}" by auto
  have "view_in db snap t2 = without (set (k # ks)) ?P (view_in db snap t)"
    unfolding t2(4) t1(5) by (auto simp: without_def fun_eq_iff split: option.splits)
  moreover have "{k' \<in> set (k # ks). ?hit (view_in db snap t) k'} =
      (if flag then {k} else {}) \<union> {k' \<in> set ks. ?hit (view_in db snap t1) k'}"
    unfolding t1(5,7) by (auto simp: without_def split: option.splits if_splits)
  moreover have "k \<notin> {k' \<in> set ks. ?hit (view_in db snap t1) k'}"
    unfolding t1(5) by (auto simp: without_def split: option.splits if_splits)
  ultimately show ?case
    using writes_trans [OF t1(1) t2(1)] t2(2,3,6) unseen_same_trans [OF t1(6) t2(5)]
    by (auto simp: fs count_true_def)
qed

lemma exec_delete_result:
  assumes "quiet tx w" "no_subquery wh" "get_table name db = Inr t" "table_ok t" "index_ready name t"
    and "snapshot_of tx db = Some snap" "clean_chains (status (db_mgr db)) snap t" "snap_txid snap = tx" "tx \<noteq> 0"
    and "exec_delete w tx n name wh db = (db', Inr rs)"
  shows "\<exists>t' K. writes_table tx name db t' db' \<and> table_ok t' \<and>
    view_in db' snap t' = (\<lambda>k. if k \<in> K then None else view_in db snap t k) \<and>
    K = {k. \<exists>row. view_in db snap t k = Some row \<and> satisfies name (tb_schema t) wh row} \<and>
    unseen_same tx (status (db_mgr db)) t t' \<and> rs = count_result ''deleted'' (card K)"
proof -
  let ?P = "satisfies name (tb_schema t) wh"
  obtain db1 u1 db2 u2 db3 ks s1 db4 flags u3 where
    1: "lock_table w tx (py_lower name) MIX db = (db1, Inr u1)" and
    2: "begin_in_wal tx db1 = (db2, Inr u2)" and
    3: "lock_candidates w tx n name wh db2 = (db3, Inr (ks, s1))" and
    4: "map_eff (delete_row w tx n name (tb_schema t) wh s1) ks db3 = (db4, Inr flags)" and
    5: "mark_written tx (py_lower name) db4 = (db', Inr u3)" and
    rs: "rs = count_result ''deleted'' (count_true flags)"
    using assms(10) by (auto simp: exec_delete_def bind_the_table [OF assms(3)] bind_eff_Inr ret_def)
  have f2: "frame tx db db2"
    using frame_trans [OF framed_step [OF framed_lock(1) [OF assms(1)] 1] framed_step [OF framed_begin_in_wal 2]] .
  have get2: "get_table name db2 = Inr t" using frame_table [OF f2] assms(3) by simp
  note cands = lock_candidates_result [OF assms(1,2) get2 assms(4,5) 3]
  have f3: "frame tx db db3" using frame_trans [OF f2] cands by blast
  have s1: "s1 = snap" using cands f2 assms(6) by (simp add: frame_def)
  have get3: "get_table name db3 = Inr t" using frame_table [OF f3] assms(3) by simp
  have st: "status (db_mgr db3) = status (db_mgr db)" "status (db_mgr db2) = status (db_mgr db)"
    using frame_status [OF f3] frame_status [OF f2] by simp_all
  from delete_rows_result [OF assms(2,8,9) get3 assms(4) _ 4 [unfolded s1]] obtain t' where
    t': "writes_table tx name db3 t' db4" "table_ok t'"
    "view_in db snap t' = without (set ks) ?P (view_in db snap t)" "unseen_same tx (status (db_mgr db)) t t'"
    "count_true flags = card {k \<in> set ks. \<exists>row. view_in db snap t k = Some row \<and> ?P row}"
    using assms(7) st by auto
  have w: "writes_table tx name db t' db'"
    using writes_frame [OF writes_trans [OF writes_none [OF assms(3) f3] t'(1)] framed_step [OF framed_mark_written 5]] .
  let ?K = "{k. \<exists>row. view_in db snap t k = Some row \<and> ?P row}"
  have K: "{k \<in> set ks. \<exists>row. view_in db snap t k = Some row \<and> ?P row} = ?K"
    using cands st s1 by auto
  have "view_in db' snap t' = (\<lambda>k. if k \<in> ?K then None else view_in db snap t k)"
    unfolding writes_status [OF w] t'(3) using cands st s1
    by (auto simp: without_def fun_eq_iff split: option.splits)
  then show ?thesis using w t'(2,4) rs t'(5) K by auto
qed

section \<open>INSERT\<close>

text \<open>The row that a list of value expressions stands for.\<close>

definition inserted_row :: "table_schema \<Rightarrow> string list option \<Rightarrow> expr list \<Rightarrow> pyval list result" where
  "inserted_row schema wanted raw =
     bind_result (map_result (eval_plain [[]]) raw) (\<lambda>values.
     bind_result (full_row schema wanted values) (\<lambda>row. integrity (validate_and_convert schema row)))"

definition pk_value :: "table_schema \<Rightarrow> pyval list \<Rightarrow> pyval result" where
  "pk_value schema row = bind_result (pk_column schema) (\<lambda>c. bind_result (index_of schema (col_name c)) (row_at row))"

definition key_of_row :: "table_schema \<Rightarrow> pyval list \<Rightarrow> rowkey \<Rightarrow> bool" where
  "key_of_row schema row k \<longleftrightarrow>
     (if primary_key_columns schema = [] then \<exists>i. k = KVal (VInt i)
      else \<exists>v. pk_value schema row = Inr v \<and> v \<noteq> VNone \<and> k = KVal v)"

text \<open>Rowids are handed out in order: every one in use is below the next.\<close>

definition rowids_below :: "table \<Rightarrow> bool" where
  "rowids_below t \<longleftrightarrow> \<not> has_user_pk t \<longrightarrow> (\<forall>i c. table_chain t (KVal (VInt i)) = Some c \<longrightarrow> i < tb_next_rowid t)"

lemma insert_values_result:
  assumes "\<forall>e\<in>set raw. no_subquery e" "insert_values schema wanted raw db = (db', Inr row)"
  shows "db' = db \<and> inserted_row schema wanted raw = Inr row"
proof -
  have "map_eff (evaluate None [] []) raw = (lift (map_result (eval_plain [[]]) raw) :: (database, pyval list) eff)"
    using assms(1) by (intro map_eff_lift evaluate_plain) simp
  then show ?thesis using assms(2)
    by (auto simp: insert_values_def inserted_row_def bind_lift raise_def split: if_splits)
qed

lemma table_insert_rowid:
  assumes "table_ok t" "table_insert tx row (Some k) t = Inr (t', k)"
  shows "tb_next_rowid t' = tb_next_rowid t"
proof -
  have "put_chain k c t = Inr t2 \<Longrightarrow> tb_next_rowid t2 = tb_next_rowid t" for c t2
    by (auto simp: put_chain_def bind_result_eq_Inr)
  then show ?thesis using assms(2)
    by (auto simp: table_insert_def insert_key_def bind_result_eq_Inr split: option.splits)
qed

lemma insert_vacant:
  assumes "table_ok t" "clean_chains st s t" "table_view st s t k = None" "snap_txid s = tx" "tx \<noteq> 0"
    and "has_user_pk t \<or> (\<forall>i. k = KVal (VInt i) \<longrightarrow> i < tb_next_rowid t)" "rowids_below t"
  shows "\<exists>t'. table_insert tx row (Some k) t = Inr (t', k) \<and> table_ok t' \<and> clean_chains st s t' \<and> tb_schema t' = tb_schema t \<and>
    table_view st s t' = (table_view st s t)(k \<mapsto> row) \<and> unseen_same tx st t t' \<and> rowids_below t'"
proof -
  have key: "insert_key t row (Some k) = Inr (t, k)" by (simp add: insert_key_def)
  from table_insert_view [OF assms(1) key assms(4,3)] obtain t' where
    t': "table_insert tx row (Some k) t = Inr (t', k)" "table_ok t'" "table_view st s t' = (table_view st s t)(k \<mapsto> row)"
    "settled st s (chain_or_empty t' k)" "unseen_same tx st t t'" by (auto simp: unseen_same_def)
  have chain: "table_chain t' = (table_chain t)(k \<mapsto> chain_or_empty t k @ [new_version row tx])" "tb_schema t' = tb_schema t"
    using table_insert_ok [OF assms(1) key, of tx] t'(1) by auto
  have "settled st s (chain_or_empty t k @ [new_version row tx])"
    using t'(4) chain(1) by (simp add: chain_or_empty_def)
  then have "clean_chains st s t'" using clean_fun_upd [OF assms(2) chain(1)] by simp
  moreover have "rowids_below t'"
    using assms(6,7) chain table_insert_rowid [OF assms(1) t'(1)] by (auto simp: rowids_below_def has_user_pk_def)
  ultimately show ?thesis using t' chain(2) by blast
qed

text \<open>The key a new row gets is free; a row without a user key takes the next rowid.\<close>

lemma claim_key_result:
  assumes "quiet tx w" "get_table name db = Inr t" "table_ok t" "clean_chains (status (db_mgr db)) snap t"
    and "snapshot_of tx db = Some snap" "rowids_below t" "claim_key w tx name (tb_schema t) row db = (db', Inr k)"
  shows "\<exists>t1. writes_table tx name db t1 db' \<and> table_ok t1 \<and> table_chain t1 = table_chain t \<and> tb_schema t1 = tb_schema t \<and>
    rowids_below t1 \<and> (has_user_pk t1 \<or> (\<forall>i. k = KVal (VInt i) \<longrightarrow> i < tb_next_rowid t1)) \<and>
    view_in db snap t k = None \<and> key_of_row (tb_schema t) row k"
proof (cases "has_user_pk t")
  case True
  let ?pk = "pk_value (tb_schema t) row"
  have eq: "claim_key w tx name (tb_schema t) row db =
      bind_eff (lift ?pk)
           (\<lambda>v. if v = VNone then raise IntegrityError
                else bind_eff (lock_row w tx (py_lower name) (KVal v) MX) (\<lambda>_.
                     bind_eff (statement_snapshot tx) (\<lambda>snap.
                     bind_eff (read_version name snap (KVal v)) (\<lambda>ver.
                       if ver \<noteq> None then raise IntegrityError else ret (KVal v))))) db"
    using True assms(2) by (simp add: claim_key_def bind_the_table pk_value_def)
  obtain v where v: "?pk = Inr v"
    using assms(7) unfolding eq by (cases ?pk) (auto simp: raise_def)
  have ne: "v \<noteq> VNone"
  proof
    assume "v = VNone"
    then show False using assms(7) unfolding eq v by (simp add: raise_def)
  qed
  then have run: "bind_eff (lock_row w tx (py_lower name) (KVal v) MX) (\<lambda>_.
        bind_eff (statement_snapshot tx) (\<lambda>snap.
        bind_eff (read_version name snap (KVal v)) (\<lambda>ver.
          if ver \<noteq> None then raise IntegrityError else ret (KVal v)))) db = (db', Inr k)"
    using assms(7) unfolding eq v by simp
  then obtain db1 u where
    1: "lock_row w tx (py_lower name) (KVal v) MX db = (db1, Inr u)" and
    run1: "bind_eff (statement_snapshot tx) (\<lambda>snap.
        bind_eff (read_version name snap (KVal v)) (\<lambda>ver.
          if ver \<noteq> None then raise IntegrityError else ret (KVal v))) db1 = (db', Inr k)"
    unfolding bind_eff_Inr [of "lock_row w tx (py_lower name) (KVal v) MX"] by blast
  then obtain db2 s1 where
    2: "statement_snapshot tx db1 = (db2, Inr s1)" and
    run2: "bind_eff (read_version name s1 (KVal v)) (\<lambda>ver.
          if ver \<noteq> None then raise IntegrityError else ret (KVal v)) db2 = (db', Inr k)"
    unfolding bind_eff_Inr [of "statement_snapshot tx"] by blast
  then obtain db3 ver where
    3: "read_version name s1 (KVal v) db2 = (db3, Inr ver)" and
    run3: "(if ver \<noteq> None then raise IntegrityError else ret (KVal v)) db3 = (db', Inr k)"
    unfolding bind_eff_Inr by blast
  have 4: "ver = None" "db' = db3" "k = KVal v"
    using run3 by (simp_all add: raise_def ret_def split: if_splits)
  have f1: "frame tx db db1" by (rule framed_step [OF framed_lock(2) [OF assms(1)] 1])
  have f2: "frame tx db db2" by (rule frame_trans [OF f1 statement_snapshot_result(1) [OF 2]])
  have s1: "s1 = snap" using statement_snapshot_result(2) [OF 2] f1 assms(5) by (auto simp: snapshot_of_def frame_def)
  have get: "get_table name db2 = Inr t" using frame_table [OF f2] assms(2) by simp
  have "bind_eff (read_version name s1 (KVal v)) ret db2 = (db3, Inr ver)" using 3 by simp
  then have "db3 = db2" "view_in db snap t k = None"
    using bind_read_version [OF get assms(3), of s1 "KVal v" ret] 4 frame_status [OF f2] s1
    by (auto simp: ret_def table_view_def split: option.splits)
  then show ?thesis
    using writes_none [OF assms(2) f2] assms(3,6) True v ne 4 by (intro exI [of _ t]) (auto simp: key_of_row_def has_user_pk_def)
next
  case False
  let ?t1 = "t\<lparr>tb_next_rowid := tb_next_rowid t + 1\<rparr>"
  obtain db1 k1 db2 u where
    1: "on_table name (\<lambda>t. Inr (allocate_rowid t)) db = (db1, Inr k1)" and
    2: "lock_row w tx (py_lower name) k1 MX db1 = (db2, Inr u)" and 3: "db' = db2" "k = k1"
    using assms(2,7) False by (auto simp: claim_key_def bind_the_table bind_eff_Inr ret_def)
  have k1: "k1 = KVal (VInt (tb_next_rowid t))" and w1: "writes_table tx name db ?t1 db1"
    using on_table_result [OF 1 assms(2)] by (auto simp: allocate_rowid_def)
  have "writes_table tx name db ?t1 db'"
    using writes_frame [OF w1 framed_step [OF framed_lock(2) [OF assms(1)] 2]] 3 by simp
  moreover have "table_chain t k = None" using assms(6) False k1 3 by (auto simp: rowids_below_def)
  moreover have "table_ok ?t1" "table_chain ?t1 = table_chain t"
    using assms(3) by (simp_all add: table_ok_def table_chain_def)
  moreover have "rowids_below ?t1" using assms(6) by (fastforce simp: rowids_below_def has_user_pk_def table_chain_def)
  ultimately show ?thesis using False k1 3
    by (intro exI [of _ ?t1]) (auto simp: table_view_def key_of_row_def has_user_pk_def)
qed

text \<open>What the writer, its snapshot and the table need for an INSERT.\<close>

definition insert_ready :: "txid \<Rightarrow> string \<Rightarrow> database \<Rightarrow> snapshot \<Rightarrow> table \<Rightarrow> bool" where
  "insert_ready tx name db snap t \<longleftrightarrow> get_table name db = Inr t \<and> table_ok t \<and>
     clean_chains (status (db_mgr db)) snap t \<and> rowids_below t \<and>
     snapshot_of tx db = Some snap \<and> snap_txid snap = tx \<and> tx \<noteq> 0"

lemma writes_snapshot_of: "writes_table tx name db t db' \<Longrightarrow> snapshot_of tx db' = snapshot_of tx db"
  unfolding writes_table_def frame_def by (simp add: snapshot_of_def)

lemma insert_row_result:
  assumes "quiet tx w" "\<forall>e\<in>set raw. no_subquery e" "insert_ready tx name db snap t"
    and "insert_row w tx name (tb_schema t) wanted raw db = (db', Inr u)"
  shows "\<exists>t' k row. inserted_row (tb_schema t) wanted raw = Inr row \<and> key_of_row (tb_schema t) row k \<and>
    view_in db snap t k = None \<and> writes_table tx name db t' db' \<and> insert_ready tx name db' snap t' \<and> tb_schema t' = tb_schema t \<and>
    view_in db snap t' = (view_in db snap t)(k \<mapsto> row) \<and> unseen_same tx (status (db_mgr db)) t t'"
proof -
  let ?st = "status (db_mgr db)"
  note rd = assms(3) [unfolded insert_ready_def]
  obtain db1 row where
    1: "insert_values (tb_schema t) wanted raw db = (db1, Inr row)" and
    r1: "bind_eff (claim_key w tx name (tb_schema t) row) (\<lambda>key.
         bind_eff (log_step (log_insert tx name key row)) (\<lambda>_.
         bind_eff (on_table name (table_insert tx row (Some key))) (\<lambda>_. ret ()))) db1 = (db', Inr u)"
    using assms(4) unfolding insert_row_def bind_eff_Inr [of "insert_values (tb_schema t) wanted raw"] by blast
  have row: "db1 = db" "inserted_row (tb_schema t) wanted raw = Inr row"
    using insert_values_result [OF assms(2) 1] by simp_all
  obtain db2 k where
    2: "claim_key w tx name (tb_schema t) row db = (db2, Inr k)" and
    r2: "bind_eff (log_step (log_insert tx name k row)) (\<lambda>_.
         bind_eff (on_table name (table_insert tx row (Some k))) (\<lambda>_. ret ())) db2 = (db', Inr u)"
    using r1 row(1) unfolding bind_eff_Inr [of "claim_key w tx name (tb_schema t) row"] by blast
  from claim_key_result [OF assms(1) _ _ _ _ _ 2] rd obtain t1 where
    t1: "writes_table tx name db t1 db2" "table_ok t1" "table_chain t1 = table_chain t" "tb_schema t1 = tb_schema t"
    "rowids_below t1" "has_user_pk t1 \<or> (\<forall>i. k = KVal (VInt i) \<longrightarrow> i < tb_next_rowid t1)"
    "view_in db snap t k = None" "key_of_row (tb_schema t) row k" by blast
  have view1: "table_view st s t1 = table_view st s t" for st s by (simp add: fun_eq_iff table_view_def t1(3))
  have clean1: "clean_chains ?st snap t1" using rd by (simp add: clean_chains_def chain_or_empty_def t1(3))
  obtain db3 where 3: "log_step (log_insert tx name k row) db2 = (db3, Inr ())"
    and r3: "bind_eff (on_table name (table_insert tx row (Some k))) (\<lambda>_. ret ()) db3 = (db', Inr u)"
    using r2 by (auto simp: log_step_def modify_def bind_eff_def)
  have w3: "writes_table tx name db t1 db3" by (rule writes_frame [OF t1(1) framed_step [OF framed_log 3]])
  obtain k' where 4: "on_table name (table_insert tx row (Some k)) db3 = (db', Inr k')"
    using r3 by (auto simp: bind_eff_Inr ret_def)
  obtain t' where t': "table_insert tx row (Some k) t1 = Inr (t', k')" "writes_table tx name db3 t' db'"
    by (rule on_table_result [OF 4 writes_get [OF w3]])
  have none: "table_view ?st snap t1 k = None" using t1(7) by (simp add: view1)
  from insert_vacant [OF t1(2) clean1 none _ _ t1(6,5), of tx row] rd t'(1)
  have ins: "table_ok t'" "clean_chains ?st snap t'" "tb_schema t' = tb_schema t1"
    "table_view ?st snap t' = (table_view ?st snap t1)(k \<mapsto> row)" "unseen_same tx ?st t1 t'" "rowids_below t'"
    by auto
  have w: "writes_table tx name db t' db'" by (rule writes_trans [OF w3 t'(2)])
  have "insert_ready tx name db' snap t'"
    using rd ins writes_get [OF w] writes_status [OF w] writes_snapshot_of [OF w] by (simp add: insert_ready_def)
  moreover have "unseen_same tx ?st t t'" using ins(5) by (simp add: unseen_same_def view1)
  ultimately show ?thesis using row(2) t1(4,7,8) w ins(3,4) by (auto simp: view1)
qed

text \<open>The rows, with their keys, in the order of the statement.\<close>

lemma insert_rows_result:
  assumes "quiet tx w"
  shows "\<forall>raw\<in>set rows. \<forall>e\<in>set raw. no_subquery e \<Longrightarrow> insert_ready tx name db snap t \<Longrightarrow>
    map_eff (insert_row w tx name (tb_schema t) wanted) rows db = (db', Inr us) \<Longrightarrow>
    \<exists>t' krs. list_all2 (\<lambda>raw (k, row). inserted_row (tb_schema t) wanted raw = Inr row \<and> key_of_row (tb_schema t) row k) rows krs \<and>
      distinct (map fst krs) \<and> (\<forall>k\<in>set (map fst krs). view_in db snap t k = None) \<and>
      writes_table tx name db t' db' \<and> table_ok t' \<and>
      view_in db snap t' = view_in db snap t ++ map_of krs \<and> unseen_same tx (status (db_mgr db)) t t'"
proof (induction rows arbitrary: db t us)
  case Nil
  then show ?case using writes_none [OF _ frame_refl]
    by (intro exI [of _ t] exI [of _ "[]"]) (auto simp: ret_def insert_ready_def)
next
  case (Cons raw rows)
  let ?st = "status (db_mgr db)" and ?ok = "\<lambda>raw (k, row). inserted_row (tb_schema t) wanted raw = Inr row \<and> key_of_row (tb_schema t) row k"
  obtain db1 u vs where 1: "insert_row w tx name (tb_schema t) wanted raw db = (db1, Inr u)"
    and 2: "map_eff (insert_row w tx name (tb_schema t) wanted) rows db1 = (db', Inr vs)"
    using Cons.prems(3) by (auto simp: bind_eff_Inr ret_def)
  have raw: "\<forall>e\<in>set raw. no_subquery e" and rest: "\<forall>raw\<in>set rows. \<forall>e\<in>set raw. no_subquery e"
    using Cons.prems(1) by simp_all
  from insert_row_result [OF assms raw Cons.prems(2) 1] obtain t1 k row where
    t1: "?ok raw (k, row)" "view_in db snap t k = None" "writes_table tx name db t1 db1" "insert_ready tx name db1 snap t1"
    "tb_schema t1 = tb_schema t" "view_in db snap t1 = (view_in db snap t)(k \<mapsto> row)" "unseen_same tx ?st t t1" by auto
  have st: "status (db_mgr db1) = ?st" by (rule writes_status [OF t1(3)])
  from Cons.IH [OF rest t1(4)] 2 t1(5) st obtain t2 krs where
    t2: "list_all2 ?ok rows krs" "distinct (map fst krs)" "\<forall>k\<in>set (map fst krs). view_in db snap t1 k = None"
    "writes_table tx name db1 t2 db'" "table_ok t2" "view_in db snap t2 = view_in db snap t1 ++ map_of krs"
    "unseen_same tx ?st t1 t2" by auto
  have fresh: "k \<notin> set (map fst krs)" using t2(3) unfolding t1(6) by auto
  then have none: "map_of krs k = None" by (simp add: map_of_eq_None_iff)
  have "view_in db snap t2 = view_in db snap t ++ map_of ((k, row) # krs)"
    unfolding t2(6) t1(6) using none by (auto simp: fun_eq_iff map_add_def split: option.splits)
  moreover have "\<forall>k'\<in>set (map fst ((k, row) # krs)). view_in db snap t k' = None"
    using t2(3) t1(2) fresh unfolding t1(6) by (auto split: if_splits)
  ultimately show ?case
    using t1(1) t2(1,2,5) fresh writes_trans [OF t1(3) t2(4)] unseen_same_trans [OF t1(7) t2(7)]
    by (intro exI [of _ t2] exI [of _ "(k, row) # krs"]) (auto simp: fun_eq_iff map_add_def)
qed

lemma exec_insert_result:
  assumes "quiet tx w" "\<forall>raw\<in>set rows. \<forall>e\<in>set raw. no_subquery e" "insert_ready tx name db snap t"
    and "exec_insert w tx name cols rows db = (db', Inr rs)"
  shows "\<exists>wanted t' krs. wanted_columns (tb_schema t) cols = Inr wanted \<and>
    list_all2 (\<lambda>raw (k, row). inserted_row (tb_schema t) wanted raw = Inr row \<and> key_of_row (tb_schema t) row k) rows krs \<and>
    distinct (map fst krs) \<and> (\<forall>k\<in>set (map fst krs). view_in db snap t k = None) \<and>
    writes_table tx name db t' db' \<and> table_ok t' \<and>
    view_in db' snap t' = view_in db snap t ++ map_of krs \<and> unseen_same tx (status (db_mgr db)) t t' \<and>
    rs = count_result ''inserted'' (length rows)"
proof -
  note rd = assms(3) [unfolded insert_ready_def]
  have get: "get_table name db = Inr t" using rd by blast
  obtain db1 u1 db2 u2 db3 wanted db4 us u3 where
    1: "lock_table w tx (py_lower name) MIX db = (db1, Inr u1)" and
    2: "begin_in_wal tx db1 = (db2, Inr u2)" and
    3: "lift (wanted_columns (tb_schema t) cols) db2 = (db3, Inr wanted)" and
    4: "map_eff (insert_row w tx name (tb_schema t) wanted) rows db3 = (db4, Inr us)" and
    5: "mark_written tx (py_lower name) db4 = (db', Inr u3)" and
    rs: "rs = count_result ''inserted'' (length rows)"
    using assms(4) by (auto simp: exec_insert_def bind_the_table [OF get] bind_eff_Inr ret_def)
  have wanted: "wanted_columns (tb_schema t) cols = Inr wanted" "db3 = db2" using 3 by simp_all
  have f: "frame tx db db2"
    using frame_trans [OF framed_step [OF framed_lock(1) [OF assms(1)] 1] framed_step [OF framed_begin_in_wal 2]] .
  have ready: "insert_ready tx name db2 snap t"
    using rd frame_table [OF f] frame_status [OF f] f by (simp add: insert_ready_def frame_def)
  from insert_rows_result [OF assms(1,2) ready 4 [unfolded wanted(2)]] frame_status [OF f] obtain t' krs where
    t': "list_all2 (\<lambda>raw (k, row). inserted_row (tb_schema t) wanted raw = Inr row \<and> key_of_row (tb_schema t) row k) rows krs"
    "distinct (map fst krs)" "\<forall>k\<in>set (map fst krs). view_in db snap t k = None"
    "writes_table tx name db2 t' db4" "table_ok t'" "view_in db snap t' = view_in db snap t ++ map_of krs"
    "unseen_same tx (status (db_mgr db)) t t'" by auto
  have w: "writes_table tx name db t' db'"
    using writes_frame [OF writes_trans [OF writes_none [OF get f] t'(4)] framed_step [OF framed_mark_written 5]] .
  then show ?thesis using wanted(1) t' rs writes_status [OF w] by auto
qed

section \<open>UPDATE\<close>

text \<open>The row a SET list makes of a row; the value expressions see the old row.\<close>

fun assign_cells :: "scope \<Rightarrow> (nat \<times> string \<times> expr) list \<Rightarrow> pyval list \<Rightarrow> pyval list result" where
  "assign_cells ctx [] row = Inr row"
| "assign_cells ctx ((i, c, e) # as) row =
     bind_result (eval_plain [ctx] e) (\<lambda>v. bind_result (set_cell row i v) (assign_cells ctx as))"

definition updated_row :: "string \<Rightarrow> table_schema \<Rightarrow> (string \<times> expr) list \<Rightarrow> pyval list \<Rightarrow> pyval list result" where
  "updated_row name schema assigns row =
     bind_result (assign_indexes schema assigns) (\<lambda>idxs.
     bind_result (assign_cells (target_scope name schema row) (zip idxs assigns) row) (\<lambda>new.
       integrity (validate_and_convert schema new)))"

text \<open>The rows the condition selects keep their primary key.\<close>

definition key_kept :: "string \<Rightarrow> table \<Rightarrow> (string \<times> expr) list \<Rightarrow> expr \<Rightarrow> bool" where
  "key_kept name t assigns wh \<longleftrightarrow> (\<forall>row new pk. satisfies name (tb_schema t) wh row \<longrightarrow>
     updated_row name (tb_schema t) assigns row = Inr new \<longrightarrow> pk_index t = Inr pk \<longrightarrow> same_key pk new row \<noteq> Inr False)"

lemma assigned_row_plain:
  "\<forall>a\<in>set as. no_subquery (snd (snd a)) \<Longrightarrow>
     fold_eff (\<lambda>(i, _, e) row. bind_eff (evaluate run [] ctx e) (\<lambda>v. lift (set_cell row i v))) as row =
     lift (assign_cells ctx as row)"
proof (induction as arbitrary: row)
  case (Cons a as)
  obtain i c e where a: "a = (i, c, e)" by (cases a)
  have e: "evaluate run [] ctx e = lift (eval_plain [ctx] e)" using evaluate_plain [of e run "[]" ctx] Cons.prems a by simp
  have "fold_eff (\<lambda>(i, _, e) row. bind_eff (evaluate run [] ctx e) (\<lambda>v. lift (set_cell row i v))) as =
      (\<lambda>row. lift (assign_cells ctx as row))"
    by (rule ext, rule Cons.IH) (use Cons.prems in simp)
  then show ?case by (simp add: a e bind_eff_assoc lift_bind)
qed simp

lemma update_visible:
  assumes "table_ok t" "clean_chains st s t" "table_view st s t k = Some row" "snap_txid s = tx" "tx \<noteq> 0"
  shows "\<exists>t'. table_update tx k new t = Inr t' \<and> table_ok t' \<and> clean_chains st s t' \<and> tb_schema t' = tb_schema t \<and>
    table_view st s t' = (table_view st s t)(k \<mapsto> new) \<and> unseen_same tx st t t'"
proof -
  note set = clean_settled [OF assms(2,3)]
  obtain c where c: "table_chain t k = Some c" "settled st s c" using settled_chain [OF set] by blast
  obtain c' where c': "chain_update tx new c = Inr c'" "settled st s c'"
    using chain_update_settled [OF c(2) assms(4) [symmetric] assms(5)] by blast
  obtain t' where t': "table_update tx k new t = Inr t'" "table_chain t' = (table_chain t)(k \<mapsto> c')" "tb_schema t' = tb_schema t"
    using table_update_ok [OF assms(1) c(1) c'(1)] by blast
  have "clean_chains st s t'" using clean_fun_upd [OF assms(2) t'(2)] c'(2) by simp
  then show ?thesis using table_update_view [OF assms(1) set assms(4,5), of new] t' by (auto simp: unseen_same_def)
qed

text \<open>The view with the rows of \<open>K\<close> that satisfy \<open>P\<close> replaced.\<close>

definition replaced ::
  "rowkey set \<Rightarrow> (pyval list \<Rightarrow> bool) \<Rightarrow> (pyval list \<Rightarrow> pyval list result) \<Rightarrow> (rowkey \<Rightarrow> pyval list option) \<Rightarrow> rowkey \<Rightarrow> pyval list option"
where
  "replaced K P f view k =
     (case view k of
        None \<Rightarrow> None
      | Some row \<Rightarrow> if k \<in> K \<and> P row then (case f row of Inr new \<Rightarrow> Some new | Inl e \<Rightarrow> Some row) else Some row)"

lemma update_row_result:
  assumes "no_subquery wh" "\<forall>a\<in>set assigns. no_subquery (snd a)" "get_table name db = Inr t" "table_ok t"
    and "clean_chains (status (db_mgr db)) snap t" "snap_txid snap = tx" "tx \<noteq> 0"
    and "assign_indexes (tb_schema t) assigns = Inr idxs" "pk_index t = Inr pk" "key_kept name t assigns wh"
    and "update_row w tx n name (tb_schema t) pk idxs assigns wh snap k db = (db', Inr flag)"
  shows "\<exists>t'. writes_table tx name db t' db' \<and> table_ok t' \<and> clean_chains (status (db_mgr db)) snap t' \<and>
    tb_schema t' = tb_schema t \<and> unseen_same tx (status (db_mgr db)) t t' \<and>
    view_in db snap t' = replaced {k} (satisfies name (tb_schema t) wh) (updated_row name (tb_schema t) assigns) (view_in db snap t) \<and>
    flag = (\<exists>row. view_in db snap t k = Some row \<and> satisfies name (tb_schema t) wh row) \<and>
    (\<forall>row. view_in db snap t k = Some row \<longrightarrow> satisfies name (tb_schema t) wh row \<longrightarrow>
       (\<exists>new. updated_row name (tb_schema t) assigns row = Inr new))"
proof -
  let ?s = "tb_schema t" and ?st = "status (db_mgr db)" and ?ev = "statement_evaluator w tx n snap"
  let ?P = "satisfies name ?s wh" and ?f = "updated_row name ?s assigns"
  obtain db1 cur where cur: "current_row ?ev snap name ?s wh k db = (db1, Inr cur)"
    and rest: "(case cur of None \<Rightarrow> ret False
      | Some current \<Rightarrow>
          bind_eff (assigned_row ?ev (target_scope name ?s current) idxs assigns current) (\<lambda>new_row.
          bind_eff (lift (integrity (validate_and_convert ?s new_row))) (\<lambda>converted.
          bind_eff (lift (same_key pk converted current)) (\<lambda>same.
          bind_eff
            (if same then
               bind_eff (log_step (log_update tx name k converted)) (\<lambda>_.
                 on_table name (\<lambda>t. bind_result (table_update tx k converted t) (\<lambda>t'. Inr (t', ()))))
             else move_primary_key w tx name ?s k converted snap)
            (\<lambda>_. ret True))))) db1 = (db', Inr flag)"
    using assms(11) unfolding update_row_def Let_def bind_eff_Inr [of "current_row ?ev snap name ?s wh k"] by blast
  from current_row_result [OF assms(1,3,4) cur [unfolded statement_evaluator_def]]
  have db1: "db1 = db" and c: "cur = (case view_in db snap t k of None \<Rightarrow> None | Some row \<Rightarrow> if ?P row then Some row else None)"
    by simp_all
  show ?thesis
  proof (cases cur)
    case None
    then have "replaced {k} ?P ?f (view_in db snap t) = view_in db snap t"
      "flag = (\<exists>row. view_in db snap t k = Some row \<and> ?P row)" "db' = db" "\<not> flag"
      using c rest db1 by (auto simp: replaced_def fun_eq_iff ret_def split: option.splits if_splits)
    then show ?thesis using assms(3-5) writes_none [OF assms(3) frame_refl] by (intro exI [of _ t]) auto
  next
    case (Some row)
    then have row: "view_in db snap t k = Some row" "?P row" using c by (auto split: option.splits if_splits)
    have plain: "assigned_row ?ev (target_scope name ?s row) idxs assigns row =
        lift (assign_cells (target_scope name ?s row) (zip idxs assigns) row)"
      unfolding assigned_row_def statement_evaluator_def
      by (rule assigned_row_plain) (use assms(2) in \<open>auto dest!: set_zip_rightD\<close>)
    obtain cells where cells: "assign_cells (target_scope name ?s row) (zip idxs assigns) row = Inr cells"
      using rest Some by (cases "assign_cells (target_scope name ?s row) (zip idxs assigns) row") (auto simp: plain raise_def)
    obtain new where new: "integrity (validate_and_convert ?s cells) = Inr new"
      using rest Some cells by (cases "integrity (validate_and_convert ?s cells)") (auto simp: plain raise_def)
    have f: "?f row = Inr new" using cells new assms(8) by (simp add: updated_row_def)
    obtain same where same: "same_key pk new row = Inr same"
      using rest Some cells new by (cases "same_key pk new row") (auto simp: plain raise_def)
    have "same_key pk new row \<noteq> Inr False" using assms(10) row(2) f assms(9) unfolding key_kept_def by blast
    then have "same" using same by simp
    then have run: "bind_eff (bind_eff (log_step (log_update tx name k new)) (\<lambda>_.
          on_table name (\<lambda>t. bind_result (table_update tx k new t) (\<lambda>t'. Inr (t', ()))))) (\<lambda>_. ret True) db = (db', Inr flag)"
      using rest Some cells new same db1 by (simp add: plain)
    obtain db2 where db2: "log_step (log_update tx name k new) db = (db2, Inr ())"
      "on_table name (\<lambda>t. bind_result (table_update tx k new t) (\<lambda>t'. Inr (t', ()))) db2 = (db', Inr ())" "flag"
      using run by (auto simp: bind_eff_Inr ret_def)
    obtain t' where t': "table_update tx k new t = Inr t'" "table_ok t'" "clean_chains ?st snap t'" "tb_schema t' = ?s"
      "view_in db snap t' = (view_in db snap t)(k \<mapsto> new)" "unseen_same tx ?st t t'"
      using update_visible [OF assms(4,5) row(1) assms(6,7)] by blast
    have fr: "frame tx db db2" by (rule framed_step [OF framed_log db2(1)])
    have get: "get_table name db2 = Inr t" using frame_table [OF fr] assms(3) by simp
    have w: "writes_table tx name db2 t' db'" using on_table_result [OF db2(2) get] t'(1) by auto
    have "writes_table tx name db t' db'" using writes_trans [OF writes_none [OF assms(3) fr] w] .
    moreover have "replaced {k} ?P ?f (view_in db snap t) = (view_in db snap t)(k \<mapsto> new)"
      using row f by (auto simp: replaced_def fun_eq_iff split: option.splits)
    ultimately show ?thesis using t' db2(3) row f by auto
  qed
qed

lemma update_rows_result:
  assumes "no_subquery wh" "\<forall>a\<in>set assigns. no_subquery (snd a)" "snap_txid snap = tx" "tx \<noteq> 0"
  shows "get_table name db = Inr t \<Longrightarrow> table_ok t \<Longrightarrow> clean_chains (status (db_mgr db)) snap t \<Longrightarrow>
    assign_indexes (tb_schema t) assigns = Inr idxs \<Longrightarrow> pk_index t = Inr pk \<Longrightarrow> key_kept name t assigns wh \<Longrightarrow> distinct ks \<Longrightarrow>
    map_eff (update_row w tx n name (tb_schema t) pk idxs assigns wh snap) ks db = (db', Inr flags) \<Longrightarrow>
    \<exists>t'. writes_table tx name db t' db' \<and> table_ok t' \<and> unseen_same tx (status (db_mgr db)) t t' \<and>
      view_in db snap t' =
        replaced (set ks) (satisfies name (tb_schema t) wh) (updated_row name (tb_schema t) assigns) (view_in db snap t) \<and>
      count_true flags = card {k \<in> set ks. \<exists>row. view_in db snap t k = Some row \<and> satisfies name (tb_schema t) wh row} \<and>
      (\<forall>k\<in>set ks. \<forall>row. view_in db snap t k = Some row \<longrightarrow> satisfies name (tb_schema t) wh row \<longrightarrow>
         (\<exists>new. updated_row name (tb_schema t) assigns row = Inr new))"
proof (induction ks arbitrary: db t flags)
  case Nil
  then show ?case using writes_none [OF Nil(1) frame_refl]
    by (intro exI [of _ t]) (auto simp: ret_def replaced_def fun_eq_iff count_true_def split: option.splits)
next
  case (Cons k ks)
  let ?P = "satisfies name (tb_schema t) wh" and ?f = "updated_row name (tb_schema t) assigns" and ?st = "status (db_mgr db)"
  let ?hit = "\<lambda>view k. \<exists>row. view k = Some row \<and> ?P row"
  obtain db1 flag fs where 1: "update_row w tx n name (tb_schema t) pk idxs assigns wh snap k db = (db1, Inr flag)"
    and 2: "map_eff (update_row w tx n name (tb_schema t) pk idxs assigns wh snap) ks db1 = (db', Inr fs)" and fs: "flags = flag # fs"
    using Cons.prems(8) by (auto simp: bind_eff_Inr ret_def)
  have k: "k \<notin> set ks" "distinct ks" using Cons.prems(7) by auto
  from update_row_result [OF assms(1,2) Cons.prems(1-3) assms(3,4) Cons.prems(4-6) 1]
  obtain t1 where t1: "writes_table tx name db t1 db1" "table_ok t1" "clean_chains ?st snap t1" "tb_schema t1 = tb_schema t"
    "unseen_same tx ?st t t1" "view_in db snap t1 = replaced {k} ?P ?f (view_in db snap t)" "flag = ?hit (view_in db snap t) k"
    "\<forall>row. view_in db snap t k = Some row \<longrightarrow> ?P row \<longrightarrow> (\<exists>new. ?f row = Inr new)" by blast
  have st: "status (db_mgr db1) = ?st" by (rule writes_status [OF t1(1)])
  have same_index: "pk_index t1 = pk_index t" by (simp add: pk_index_def has_user_pk_def t1(4))
  have pk: "pk_index t1 = Inr pk" "key_kept name t1 assigns wh"
    using Cons.prems(5,6) same_index by (simp_all add: key_kept_def t1(4))
  have view1: "view_in db snap t1 k' = view_in db snap t k'" if "k' \<in> set ks" for k'
    using that k(1) unfolding t1(6) by (auto simp: replaced_def split: option.splits)
  from Cons.IH [OF writes_get [OF t1(1)] t1(2) _ _ pk k(2)] t1(3,4) 2 st Cons.prems(4)
  obtain t2 where t2: "writes_table tx name db1 t2 db'" "table_ok t2" "unseen_same tx ?st t1 t2"
    "view_in db snap t2 = replaced (set ks) ?P ?f (view_in db snap t1)"
    "count_true fs = card {k \<in> set ks. ?hit (view_in db snap t1) k}"
    "\<forall>k\<in>set ks. \<forall>row. view_in db snap t1 k = Some row \<longrightarrow> ?P row \<longrightarrow> (\<exists>new. ?f row = Inr new)" by auto
  have "view_in db snap t2 = replaced (set (k # ks)) ?P ?f (view_in db snap t)"
  proof
    fix k'
    show "view_in db snap t2 k' = replaced (set (k # ks)) ?P ?f (view_in db snap t) k'"
      using k(1) view1 [of k'] unfolding t2(4)
      by (cases "k' = k"; cases "k' \<in> set ks") (auto simp: replaced_def t1(6) split: option.splits sum.splits)
  qed
  moreover have "{k' \<in> set (k # ks). ?hit (view_in db snap t) k'} =
      (if flag then {k} else {}) \<union> {k' \<in> set ks. ?hit (view_in db snap t1) k'}"
    using view1 by (auto simp: t1(7))
  ultimately show ?case
    using writes_trans [OF t1(1) t2(1)] t2(2,5,6) t1(8) k(1) view1 unseen_same_trans [OF t1(5) t2(3)]
    by (intro exI [of _ t2]) (auto simp: fs count_true_def)
qed

lemma exec_update_result:
  assumes "quiet tx w" "no_subquery wh" "\<forall>a\<in>set assigns. no_subquery (snd a)" "get_table name db = Inr t" "table_ok t"
    and "index_ready name t" "key_kept name t assigns wh"
    and "snapshot_of tx db = Some snap" "clean_chains (status (db_mgr db)) snap t" "snap_txid snap = tx" "tx \<noteq> 0"
    and "exec_update w tx n name assigns wh db = (db', Inr rs)"
  shows "\<exists>t' K. writes_table tx name db t' db' \<and> table_ok t' \<and>
    K = {k. \<exists>row. view_in db snap t k = Some row \<and> satisfies name (tb_schema t) wh row} \<and>
    (\<forall>k\<in>K. \<exists>row new. view_in db snap t k = Some row \<and> updated_row name (tb_schema t) assigns row = Inr new \<and>
       view_in db' snap t' k = Some new) \<and>
    (\<forall>k. k \<notin> K \<longrightarrow> view_in db' snap t' k = view_in db snap t k) \<and>
    unseen_same tx (status (db_mgr db)) t t' \<and> rs = count_result ''updated'' (card K)"
proof -
  let ?P = "satisfies name (tb_schema t) wh" and ?f = "updated_row name (tb_schema t) assigns"
  obtain db1 u1 db2 u2 idxs pk db3 ks s1 db4 flags u3 where
    1: "lock_table w tx (py_lower name) MIX db = (db1, Inr u1)" and
    2: "begin_in_wal tx db1 = (db2, Inr u2)" and
    idxs': "Inr idxs = assign_indexes (tb_schema t) assigns" "Inr pk = pk_index t" and
    3: "lock_candidates w tx n name wh db2 = (db3, Inr (ks, s1))" and
    4: "map_eff (update_row w tx n name (tb_schema t) pk idxs assigns wh s1) ks db3 = (db4, Inr flags)" and
    5: "mark_written tx (py_lower name) db4 = (db', Inr u3)" and
    rs: "rs = count_result ''updated'' (count_true flags)"
    using assms(12) by (auto simp: exec_update_def bind_the_table [OF assms(4)] bind_eff_Inr ret_def)
  have f2: "frame tx db db2"
    using frame_trans [OF framed_step [OF framed_lock(1) [OF assms(1)] 1] framed_step [OF framed_begin_in_wal 2]] .
  have get2: "get_table name db2 = Inr t" using frame_table [OF f2] assms(4) by simp
  note idxs = idxs' [symmetric]
  note cands = lock_candidates_result [OF assms(1,2) get2 assms(5,6) 3]
  have f3: "frame tx db db3" using frame_trans [OF f2] cands by blast
  have s1: "s1 = snap" using cands f2 assms(8) by (simp add: frame_def)
  have get3: "get_table name db3 = Inr t" using frame_table [OF f3] assms(4) by simp
  have st: "status (db_mgr db3) = status (db_mgr db)" "status (db_mgr db2) = status (db_mgr db)"
    using frame_status [OF f3] frame_status [OF f2] by simp_all
  from update_rows_result [OF assms(2,3,10,11) get3 assms(5) _ idxs assms(7) _ 4 [unfolded s1]] obtain t' where
    t': "writes_table tx name db3 t' db4" "table_ok t'" "unseen_same tx (status (db_mgr db)) t t'"
    "view_in db snap t' = replaced (set ks) ?P ?f (view_in db snap t)"
    "count_true flags = card {k \<in> set ks. \<exists>row. view_in db snap t k = Some row \<and> ?P row}"
    "\<forall>k\<in>set ks. \<forall>row. view_in db snap t k = Some row \<longrightarrow> ?P row \<longrightarrow> (\<exists>new. ?f row = Inr new)"
    using assms(9) st cands by auto
  have w: "writes_table tx name db t' db'"
    using writes_frame [OF writes_trans [OF writes_none [OF assms(4) f3] t'(1)] framed_step [OF framed_mark_written 5]] .
  let ?K = "{k. \<exists>row. view_in db snap t k = Some row \<and> ?P row}"
  have K: "{k \<in> set ks. \<exists>row. view_in db snap t k = Some row \<and> ?P row} = ?K" "?K \<subseteq> set ks"
    using cands st s1 by auto
  have view': "view_in db' snap t' = replaced (set ks) ?P ?f (view_in db snap t)"
    using t'(4) writes_status [OF w] by simp
  have "\<forall>k\<in>?K. \<exists>row new. view_in db snap t k = Some row \<and> ?f row = Inr new \<and> view_in db' snap t' k = Some new"
    using K(2) t'(6) unfolding view' by (fastforce simp: replaced_def)
  moreover have "\<forall>k. k \<notin> ?K \<longrightarrow> view_in db' snap t' k = view_in db snap t k"
    unfolding view' by (auto simp: replaced_def split: option.splits)
  ultimately show ?thesis using w t'(2,3) rs t'(5) K(1) by (intro exI [of _ t'] exI [of _ ?K]) auto
qed

end
