(* ===== verification/DmlProperties.thy ===== *)
theory DmlProperties
  imports DmlCorrect QueryProperties
begin

text \<open>
  The properties of INSERT, UPDATE and DELETE as whole statements: what the writer's own snapshot shows of the
  table afterwards, the count they report, and that every other table and every reader that does not count the
  writer is left alone.
\<close>

section \<open>A statement that may write\<close>

text \<open>
  The transaction is known to the manager and reads under \<open>snap\<close>; the table is well formed and no row's chain
  ends in an aborted version (\<open>TableAnomalies\<close> shows what happens to one that does).
\<close>

definition writer_ready :: "txid \<Rightarrow> string \<Rightarrow> database \<Rightarrow> snapshot \<Rightarrow> table \<Rightarrow> bool" where
  "writer_ready tx name db snap t \<longleftrightarrow> get_table name db = Inr t \<and> table_ok t \<and>
     clean_chains (status (db_mgr db)) snap t \<and> snapshot_of tx db = Some snap \<and> snap_txid snap = tx \<and> tx \<noteq> 0"

abbreviation shown :: "database \<Rightarrow> snapshot \<Rightarrow> table \<Rightarrow> (rowkey \<times> pyval list) list result" where
  "shown db s t \<equiv> table_scan (status (db_mgr db)) s t"

definition rest_untouched :: "txid \<Rightarrow> string \<Rightarrow> database \<Rightarrow> table \<Rightarrow> database \<Rightarrow> table \<Rightarrow> bool" where
  "rest_untouched tx name db t db' t' \<longleftrightarrow>
     (\<forall>other. py_lower other \<noteq> py_lower name \<longrightarrow> get_table other db' = get_table other db) \<and>
     (\<forall>s. unseen (status (db_mgr db)) s tx \<longrightarrow> shown db' s t' = shown db s t) \<and>
     snapshot_of tx db' = snapshot_of tx db"

lemma untouched:
  assumes "writes_table tx name db t' db'" "table_ok t" "table_ok t'" "unseen_same tx (status (db_mgr db)) t t'"
  shows "rest_untouched tx name db t db' t'"
proof -
  have st: "status (db_mgr db') = status (db_mgr db)" by (rule writes_status [OF assms(1)])
  have "shown db' s t' = shown db s t" if "unseen (status (db_mgr db)) s tx" for s
    using table_scan_view [OF assms(3,2), of "status (db_mgr db)" s "status (db_mgr db)" s] assms(4) that st
    by (simp add: unseen_same_def)
  then show ?thesis
    using writes_other [OF assms(1)] writes_snapshot_of [OF assms(1)] by (simp add: rest_untouched_def)
qed

lemma scan_is:
  assumes "table_ok t'" "sorted_alist rows'" "map_of rows' = table_view st s t'"
  shows "table_scan st s t' = Inr rows'"
proof -
  obtain rows where "table_scan st s t' = Inr rows" "sorted_alist rows" "map_of rows = table_view st s t'"
    using table_scan_ok [OF assms(1)] by blast
  then show ?thesis using sorted_alist_eqI [of rows rows'] assms(2,3) by simp
qed

lemma scan_rows:
  assumes "table_ok t" "table_scan st s t = Inr rows"
  shows "sorted_alist rows" "map_of rows = table_view st s t" "distinct (map fst rows)"
    "(k, row) \<in> set rows \<longleftrightarrow> table_view st s t k = Some row"
proof -
  show *: "sorted_alist rows" "map_of rows = table_view st s t" using table_scan_ok [OF assms(1), of st s] assms(2) by auto
  then show "distinct (map fst rows)" by (simp add: strict_sorted_iff)
  then show "(k, row) \<in> set rows \<longleftrightarrow> table_view st s t k = Some row" using *(2) by (metis map_of_eq_Some_iff)
qed

lemma sorted_alist_filter: "sorted_alist rows \<Longrightarrow> sorted_alist (filter P rows)"
  by (induction rows) auto

lemma map_of_filter_rows:
  "distinct (map fst rows) \<Longrightarrow>
     map_of (filter (\<lambda>(k, row). P row) rows) k = (case map_of rows k of None \<Rightarrow> None | Some row \<Rightarrow> if P row then Some row else None)"
proof (induction rows)
  case (Cons e rows)
  then show ?case by (cases e) (auto simp: map_of_eq_None_iff rev_image_eqI split: option.splits)
qed simp

lemma card_keys:
  assumes "distinct (map fst rows)" "\<And>k row. (k, row) \<in> set rows \<longleftrightarrow> view k = Some row"
  shows "card {k. \<exists>row. view k = Some row \<and> P row} = length (filter (\<lambda>(k, row). P row) rows)"
proof -
  let ?hits = "filter (\<lambda>(k, row). P row) rows"
  have "{k. \<exists>row. view k = Some row \<and> P row} = fst ` set ?hits" using assms(2) by force
  moreover have "distinct (map fst ?hits)" using assms(1) by (rule distinct_map_filter)
  ultimately show ?thesis by (metis distinct_card length_map list.set_map)
qed

section \<open>DELETE\<close>


section \<open>INSERT\<close>


section \<open>UPDATE\<close>


section \<open>The three statements on a small table\<close>

definition dml_db :: database where
  "dml_db =
     \<lparr>db_tables = [(''s'', side_table)],
      db_mgr = (new_manager (new_wal []) (new_locks 100))
        \<lparr>tm_counter := 6, tm_next_id := 6, tm_active := {5}, tm_state := [1 \<mapsto> TxCommitted, 5 \<mapsto> TxActive],
         tm_txns := [5 \<mapsto> new_transaction 5 ReadCommitted]\<rparr>,
      db_checkpoint = None\<rparr>"

definition dml_snap :: snapshot where
  "dml_snap = \<lparr>snap_txid = 5, snap_taken_at = 6, snap_active = {5}\<rparr>"

definition x_is_six :: expr where
  "x_is_six = BinaryOp BEq (ColumnRef ''x'' None) (Literal (VInt 6))"

lemma clean_entries:
  assumes "\<forall>(k, c)\<in>set (tree_entries (tb_tree t)). settled st s c \<or> vacant st s c"
  shows "clean_chains st s t"
  unfolding clean_chains_def
proof
  fix k
  show "settled st s (chain_or_empty t k) \<or> vacant st s (chain_or_empty t k)"
    using assms by (cases "table_chain t k") (auto simp: chain_or_empty_def table_chain_def dest: map_of_SomeD)
qed

lemma side_table_ok: "table_ok side_table"
proof -
  have "shape True False 32 1 (bp_root (tb_tree side_table))" by (simp add: side_table_def)
  then show ?thesis by (auto simp: table_ok_def tree_ok_def tree_entries_def side_table_def)
qed

lemma dml_ready:
  "writer_ready 5 ''s'' dml_db dml_snap side_table" "quiet 5 id" "index_ready ''s'' side_table" "rowids_below side_table"
  "shown dml_db dml_snap side_table = Inr [(demo_key 1, demo_row 1 5), (demo_key 2, demo_row 2 6)]"
proof -
  have "clean_chains (status (db_mgr dml_db)) dml_snap side_table"
    by (rule clean_entries) code_simp
  moreover have "get_table ''s'' dml_db = Inr side_table" "snapshot_of 5 dml_db = Some dml_snap" by code_simp+
  ultimately show "writer_ready 5 ''s'' dml_db dml_snap side_table"
    by (simp add: writer_ready_def side_table_ok dml_snap_def)
  show "quiet 5 id" by (simp add: quiet_def)
  show "index_ready ''s'' side_table" by (simp add: index_ready_def has_user_pk_def side_table_def primary_key_columns_def plain_column_def)
  show "rowids_below side_table"
    by (auto simp: rowids_below_def table_chain_def side_table_def tree_entries_def split: if_splits)
  show "shown dml_db dml_snap side_table = Inr [(demo_key 1, demo_row 1 5), (demo_key 2, demo_row 2 6)]" by code_simp
qed

lemma returned:
  assumes "\<not> isl (snd (m s))"
  obtains s' x where "m s = (s', Inr x)"
  using assms by (cases "m s"; cases "snd (m s)") auto




end
