(* ===== verification/Lexer.thy ===== *)
theory Lexer
  imports PyValue
begin

text \<open>
  The lexer, \<^verbatim>\<open>minidb/sql/lexer.py\<close>. The scanner's state is its position \<open>i\<close> and the text from there
  on; a reader gets the text from the start of its token and returns the token and the text after it. The
  position can pass the end of the text after an unterminated block comment, so it is kept separately.
  Characters are those of \<open>PyValue\<close>; \<open>int()\<close> has no limit on the number of digits.
\<close>

section \<open>Tokens\<close>

definition KEYWORDS :: "string list" where
  "KEYWORDS =
     [''SELECT'', ''FROM'', ''WHERE'', ''INSERT'', ''INTO'', ''VALUES'', ''UPDATE'', ''SET'',
      ''DELETE'', ''CREATE'', ''TABLE'', ''INT'', ''INTEGER'', ''BIGINT'', ''SMALLINT'',
      ''TINYINT'', ''FLOAT'', ''DOUBLE'', ''REAL'', ''VARCHAR'', ''CHAR'', ''TEXT'',
      ''STRING'', ''BOOLEAN'', ''BOOL'', ''PRIMARY'', ''KEY'', ''NOT'', ''NULL'', ''TRUE'',
      ''FALSE'', ''AND'', ''OR'', ''IN'', ''IS'', ''LIKE'', ''BETWEEN'', ''ORDER'', ''BY'',
      ''ASC'', ''DESC'', ''LIMIT'', ''OFFSET'', ''GROUP'', ''HAVING'', ''JOIN'', ''INNER'',
      ''LEFT'', ''RIGHT'', ''OUTER'', ''ON'', ''AS'', ''COUNT'', ''SUM'', ''AVG'', ''MIN'',
      ''MAX'', ''DISTINCT'', ''UPPER'', ''LOWER'', ''BEGIN'', ''START'', ''TRANSACTION'', ''COMMIT'', ''ROLLBACK'',
      ''SERIALIZABLE'', ''COMMITTED'', ''UNCOMMITTED'', ''REPEATABLE'', ''ISOLATION'',
      ''LEVEL'', ''READ'', ''WORK'', ''SHOW'', ''TABLES'', ''DESCRIBE'', ''EXPLAIN'']"

datatype token_kind = KWord | KIdent | KNumber | KString | KPunct | KEof

text \<open>The value of the EOF token and the literal of most tokens are \<open>None\<close>.\<close>

record token =
  tk_kind :: token_kind
  tk_value :: "string option"
  tk_pos :: nat
  tk_literal :: "pyval option"

definition plain_token :: "token_kind \<Rightarrow> string \<Rightarrow> nat \<Rightarrow> token" where
  "plain_token k v i = \<lparr>tk_kind = k, tk_value = Some v, tk_pos = i, tk_literal = None\<rparr>"

definition eof_token :: "nat \<Rightarrow> token" where
  "eof_token i = \<lparr>tk_kind = KEof, tk_value = None, tk_pos = i, tk_literal = None\<rparr>"

section \<open>Readers\<close>

definition quote_char :: char where
  "quote_char = CHR 39"

definition dquote_char :: char where
  "dquote_char = CHR 34"

definition is_alnum :: "char \<Rightarrow> bool" where
  "is_alnum c \<longleftrightarrow> is_alpha c \<or> is_digit c"

definition word_char :: "char \<Rightarrow> bool" where
  "word_char c \<longleftrightarrow> is_alnum c \<or> c = CHR ''_''"

text \<open>\<open>_peek\<close> compared with one character, and its \<open>isdigit\<close>.\<close>

definition starts :: "char \<Rightarrow> string \<Rightarrow> bool" where
  "starts c s \<longleftrightarrow> (case s of d # _ \<Rightarrow> d = c | [] \<Rightarrow> False)"

definition starts_digit :: "string \<Rightarrow> bool" where
  "starts_digit s \<longleftrightarrow> (case s of d # _ \<Rightarrow> is_digit d | [] \<Rightarrow> False)"

definition read_word :: "nat \<Rightarrow> string \<Rightarrow> token \<times> string" where
  "read_word start s =
     (let word = takeWhile word_char s; upper = py_upper word
      in (if upper \<in> set KEYWORDS then plain_token KWord upper start else plain_token KIdent word start,
          dropWhile word_char s))"

text \<open>The end of a number: the text after its digits, its fraction and its exponent.\<close>

definition after_fraction :: "string \<Rightarrow> string \<times> bool" where
  "after_fraction s =
     (if starts (CHR ''.'') s \<and> starts_digit (tl s) then (dropWhile is_digit (tl s), True) else (s, False))"

definition after_exponent :: "string \<Rightarrow> string \<times> bool" where
  "after_exponent s =
     (if starts (CHR ''e'') s \<or> starts (CHR ''E'') s then
        (let t = (if starts (CHR ''+'') (tl s) \<or> starts (CHR ''-'') (tl s) then tl (tl s) else tl s)
         in (dropWhile is_digit t, True))
      else (s, False))"

definition read_number :: "nat \<Rightarrow> string \<Rightarrow> (token \<times> string) result" where
  "read_number start s =
     (case after_fraction (dropWhile is_digit s) of
        (s1, dotted) \<Rightarrow>
          (case after_exponent s1 of
             (rest, expo) \<Rightarrow>
               let raw = take (length s - length rest) s
               in bind_result
                    (if dotted \<or> expo then bind_result (float_of_str raw) (\<lambda>x. Inr (VFloat x))
                     else bind_result (int_of_str raw) (\<lambda>i. Inr (VInt i)))
                    (\<lambda>v. Inr (\<lparr>tk_kind = KNumber, tk_value = Some raw, tk_pos = start, tk_literal = Some v\<rparr>, rest))))"

text \<open>The characters of a string literal after its opening quote, and the text after its closing quote.\<close>

fun string_body :: "string \<Rightarrow> (string \<times> string) option" where
  "string_body [] = None"
| "string_body [c] = (if c = quote_char then Some ([], []) else None)"
| "string_body (c # d # ds) =
     (if c = quote_char then
        (if d = quote_char then map_option (\<lambda>(chars, rest). (quote_char # chars, rest)) (string_body ds)
         else Some ([], d # ds))
      else map_option (\<lambda>(chars, rest). (c # chars, rest)) (string_body (d # ds)))"

definition read_string :: "nat \<Rightarrow> string \<Rightarrow> (token \<times> string) result" where
  "read_string start s =
     (case string_body (tl s) of
        None \<Rightarrow> Inl (LexerError start)
      | Some (chars, rest) \<Rightarrow>
          Inr (\<lparr>tk_kind = KString, tk_value = Some (take (length s - length rest) s), tk_pos = start,
                tk_literal = Some (VStr chars)\<rparr>, rest))"

definition read_quoted_ident :: "nat \<Rightarrow> string \<Rightarrow> (token \<times> string) result" where
  "read_quoted_ident start s =
     (let chars = takeWhile (\<lambda>c. c \<noteq> dquote_char) (tl s); rest = dropWhile (\<lambda>c. c \<noteq> dquote_char) (tl s)
      in case rest of
           [] \<Rightarrow> Inl (LexerError start)
         | _ # after \<Rightarrow> Inr (plain_token KIdent chars start, after))"

definition TWO_CHAR :: "string list" where
  "TWO_CHAR = [''<='', ''>='', ''!='', ''<>'']"

definition read_punct :: "nat \<Rightarrow> string \<Rightarrow> (token \<times> string) result" where
  "read_punct start s =
     (let two = take 2 s
      in if two \<in> set TWO_CHAR then
           Inr (plain_token KPunct (if two = ''<>'' then ''!='' else two) start, drop 2 s)
         else case s of
                [] \<Rightarrow> Inl IndexError
              | c # cs \<Rightarrow>
                  if c \<in> set ''(),;.*+-/='' \<or> c \<in> set ''<>'' then Inr (plain_token KPunct [c] start, cs)
                  else Inl (LexerError start))"

definition read_token :: "nat \<Rightarrow> string \<Rightarrow> (token \<times> string) result" where
  "read_token start s =
     (case s of
        [] \<Rightarrow> Inl IndexError
      | c # cs \<Rightarrow>
          if is_alpha c \<or> c = CHR ''_'' then Inr (read_word start s)
          else if is_digit c \<or> (c = CHR ''.'' \<and> starts_digit cs) then read_number start s
          else if c = quote_char then read_string start s
          else if c = dquote_char then read_quoted_ident start s
          else read_punct start s)"

section \<open>The scanner\<close>

definition blank :: "char \<Rightarrow> bool" where
  "blank c \<longleftrightarrow> c = CHR '' '' \<or> c = CHR 9 \<or> c = CHR 13 \<or> c = CHR 10"

text \<open>The position and the text after a block comment whose opening is already skipped.\<close>

fun block_end :: "nat \<Rightarrow> string \<Rightarrow> nat \<times> string" where
  "block_end i [] = (i + 2, [])"
| "block_end i (c # cs) =
     (if c = CHR ''*'' \<and> starts (CHR ''/'') cs then (i + 2, tl cs) else block_end (i + 1) cs)"

lemma block_end_length: "length (snd (block_end i s)) \<le> length s"
  by (induction i s rule: block_end.induct) (auto simp: le_SucI)

lemma string_body_length: "string_body s = Some (chars, rest) \<Longrightarrow> length rest < length s"
  by (induction s arbitrary: chars rest rule: string_body.induct) (fastforce split: if_splits)+

lemma after_fraction_length: "length (fst (after_fraction s)) \<le> length s"
  using length_dropWhile_le [of is_digit "tl s"] by (auto simp: after_fraction_def)

lemma after_exponent_length: "length (fst (after_exponent s)) \<le> length s"
  using length_dropWhile_le [of is_digit "tl s"] length_dropWhile_le [of is_digit "tl (tl s)"]
  by (auto simp: after_exponent_def Let_def)

lemma read_number_length:
  assumes "read_number i (c # cs) = Inr (tok, rest)" "is_digit c \<or> (c = CHR ''.'' \<and> starts_digit cs)"
  shows "length rest < length (c # cs)"
proof -
  have "rest = fst (after_exponent (fst (after_fraction (dropWhile is_digit (c # cs)))))"
    using assms(1) by (auto simp: read_number_def Let_def bind_result_eq_Inr split: prod.splits if_splits)
  moreover have "length (fst (after_fraction (dropWhile is_digit (c # cs)))) < length (c # cs)"
  proof (cases "is_digit c")
    case True
    then show ?thesis
      using length_dropWhile_le [of is_digit cs] after_fraction_length [of "dropWhile is_digit cs"] by simp
  next
    case False
    then show ?thesis using assms(2) length_dropWhile_le [of is_digit cs]
      by (auto simp: after_fraction_def starts_def)
  qed
  ultimately show ?thesis using after_exponent_length le_less_trans by blast
qed

lemma read_token_length:
  assumes "read_token i s = Inr (tok, rest)"
  shows "length rest < length s"
proof -
  obtain c cs where s: "s = c # cs" using assms by (cases s) (auto simp: read_token_def)
  consider "is_alpha c \<or> c = CHR ''_''"
    | "\<not> (is_alpha c \<or> c = CHR ''_'')" "is_digit c \<or> (c = CHR ''.'' \<and> starts_digit cs)"
    | "\<not> (is_alpha c \<or> c = CHR ''_'')" "\<not> (is_digit c \<or> (c = CHR ''.'' \<and> starts_digit cs))" by blast
  then show ?thesis
  proof cases
    case 1
    then have "rest = dropWhile word_char cs"
      using assms s by (auto simp: read_token_def read_word_def Let_def word_char_def is_alnum_def)
    then show ?thesis using s length_dropWhile_le [of word_char cs] by simp
  next
    case 2
    then have "read_number i s = Inr (tok, rest)" using assms by (simp add: read_token_def s)
    then show ?thesis using read_number_length 2 s by blast
  next
    case 3
    show ?thesis
      using assms 3 s string_body_length [of cs _ rest] length_dropWhile_le [of "\<lambda>c. c \<noteq> dquote_char" cs]
      by (auto simp: read_token_def read_string_def read_quoted_ident_def read_punct_def Let_def
          split: option.splits list.splits if_splits)
  qed
qed

function tokenize_from :: "nat \<Rightarrow> string \<Rightarrow> token list result" where
  "tokenize_from i [] = Inr [eof_token i]"
| "tokenize_from i (c # cs) =
     (if blank c then tokenize_from (i + 1) cs
      else if c = CHR ''-'' \<and> starts (CHR ''-'') cs then
        (let line = takeWhile (\<lambda>d. d \<noteq> CHR 10) (c # cs)
         in tokenize_from (i + length line) (drop (length line) (c # cs)))
      else if c = CHR ''/'' \<and> starts (CHR ''*'') cs then
        (case block_end (i + 2) (tl cs) of (j, rest) \<Rightarrow> tokenize_from j rest)
      else case read_token i (c # cs) of
             Inl e \<Rightarrow> Inl e
           | Inr (tok, rest) \<Rightarrow>
               bind_result (tokenize_from (i + (length (c # cs) - length rest)) rest) (\<lambda>toks. Inr (tok # toks)))"
  by pat_completeness auto
termination
proof (relation "measure (\<lambda>(i, s). length s)", goal_cases)
  case (4 i c cs)
  have "length (snd (block_end (i + 2) (tl cs))) < Suc (length cs)"
    using block_end_length [of "i + 2" "tl cs"] by simp
  with 4 show ?case by (auto simp: split_beta)
next
  case (5 i c cs)
  then show ?case by (auto dest: read_token_length)
qed auto

definition tokenize :: "string \<Rightarrow> token list result" where
  "tokenize text = tokenize_from 0 text"

end
