(* ===== verification/Parser.thy ===== *)
theory Parser
  imports Lexer Ast Effects
begin

text \<open>
  The recursive-descent parser, \<^verbatim>\<open>minidb/sql/parser.py\<close>. A method is a step on the tokens that are left;
  the EOF token ends them and is never passed. A method that can recurse into a nested expression or query
  takes their parsers \<open>pe\<close> and \<open>ps\<close> as arguments, and \<open>parse_expr\<close> and \<open>parse_select\<close> close the
  recursion over the number of nested levels, of which the number of tokens is more than enough (ParserFuel).
  A \<open>while\<close> of the code is \<open>repeat_while\<close>, whose bound, the number of tokens left, is enough because every
  round takes a token.
\<close>

type_synonym 'a parser = "(token list, 'a) eff"

section \<open>Token helpers\<close>

definition cur :: "token parser" where
  "cur ts = (ts, case ts of [] \<Rightarrow> Inl IndexError | t # _ \<Rightarrow> Inr t)"

definition advance :: "token parser" where
  "advance ts =
     (case ts of
        [] \<Rightarrow> (ts, Inl IndexError)
      | t # rest \<Rightarrow> (if tk_kind t \<noteq> KEof then rest else ts, Inr t))"

text \<open>The text of a token with a value.\<close>

definition tok_text :: "token \<Rightarrow> string" where
  "tok_text t = (case tk_value t of Some s \<Rightarrow> s | None \<Rightarrow> [])"

definition has_value :: "string list \<Rightarrow> token \<Rightarrow> bool" where
  "has_value vs t \<longleftrightarrow> (case tk_value t of Some v \<Rightarrow> v \<in> set vs | None \<Rightarrow> False)"

definition is_tok :: "token_kind \<Rightarrow> string list \<Rightarrow> token \<Rightarrow> bool" where
  "is_tok k vs t \<longleftrightarrow> tk_kind t = k \<and> has_value vs t"

definition check :: "token_kind \<Rightarrow> string list \<Rightarrow> bool parser" where
  "check k vs = bind_eff cur (\<lambda>t. ret (is_tok k vs t))"

definition match_tok :: "token_kind \<Rightarrow> string list \<Rightarrow> bool parser" where
  "match_tok k vs = bind_eff (check k vs) (\<lambda>ok. if ok then bind_eff advance (\<lambda>_. ret True) else ret False)"

abbreviation match_word :: "string list \<Rightarrow> bool parser" where
  "match_word \<equiv> match_tok KWord"

abbreviation match_punct :: "string \<Rightarrow> bool parser" where
  "match_punct p \<equiv> match_tok KPunct [p]"

definition expect_kind :: "token_kind \<Rightarrow> token parser" where
  "expect_kind k = bind_eff cur (\<lambda>t. if tk_kind t = k then advance else raise ParseError)"

definition expect :: "token_kind \<Rightarrow> string \<Rightarrow> token parser" where
  "expect k v = bind_eff (check k [v]) (\<lambda>ok. if ok then advance else raise ParseError)"

definition when_matched :: "bool parser \<Rightarrow> 'a parser \<Rightarrow> 'a parser \<Rightarrow> 'a parser" where
  "when_matched m p q = bind_eff m (\<lambda>ok. if ok then p else q)"

section \<open>Loops\<close>

fun repeat_n :: "nat \<Rightarrow> ('a \<Rightarrow> 'a option parser) \<Rightarrow> 'a \<Rightarrow> 'a parser" where
  "repeat_n 0 f x = raise RuntimeError"
| "repeat_n (Suc n) f x =
     bind_eff (f x) (\<lambda>y. case y of None \<Rightarrow> ret x | Some x' \<Rightarrow> repeat_n n f x')"

definition repeat_while :: "('a \<Rightarrow> 'a option parser) \<Rightarrow> 'a \<Rightarrow> 'a parser" where
  "repeat_while f x ts = repeat_n (Suc (length ts)) f x ts"

text \<open>\<open>items = [p()]; while self.match("PUNCT", ","): items.append(p())\<close>.\<close>

definition comma_list :: "'a parser \<Rightarrow> 'a list parser" where
  "comma_list p =
     bind_eff p (\<lambda>x.
       repeat_while (\<lambda>acc. when_matched (match_punct '','') (bind_eff p (\<lambda>y. ret (Some (acc @ [y])))) (ret None)) [x])"

section \<open>Names and numbers\<close>

definition parse_ident :: "string parser" where
  "parse_ident =
     bind_eff advance (\<lambda>t. if tk_kind t = KIdent \<or> tk_kind t = KWord then ret (tok_text t) else raise ParseError)"

definition parse_ident_raw :: "string parser" where
  "parse_ident_raw = bind_eff advance (\<lambda>t. if tk_kind t = KIdent then ret (tok_text t) else raise ParseError)"

definition parse_nonneg_int :: "int parser" where
  "parse_nonneg_int =
     bind_eff (expect_kind KNumber) (\<lambda>t.
       case tk_literal t of
         Some (VInt n) \<Rightarrow> if n < 0 then raise ParseError else ret n
       | _ \<Rightarrow> raise ParseError)"

section \<open>Expressions\<close>

definition RESERVED_AS_NAME :: "string list" where
  "RESERVED_AS_NAME =
     [''FROM'', ''WHERE'', ''GROUP'', ''HAVING'', ''ORDER'', ''LIMIT'', ''OFFSET'',
      ''JOIN'', ''INNER'', ''LEFT'', ''RIGHT'', ''OUTER'', ''ON'', ''AS'', ''AND'', ''OR'',
      ''IS'', ''IN'', ''LIKE'', ''BETWEEN'', ''BY'', ''ASC'', ''DESC'', ''SELECT'',
      ''VALUES'', ''SET'', ''INTO'', ''TABLE'']"

definition FUNC_WORDS :: "string list" where
  "FUNC_WORDS = [''COUNT'', ''SUM'', ''AVG'', ''MIN'', ''MAX'', ''UPPER'', ''LOWER'']"

definition comparison_op :: "string \<Rightarrow> binop option" where
  "comparison_op v =
     map_of [(''='', BEq), (''!='', BNe), (''<'', BLt), (''<='', BLe), (''>'', BGt), (''>='', BGe)] v"

definition additive_op :: "string \<Rightarrow> binop option" where
  "additive_op v = map_of [(''+'', BAdd), (''-'', BSub)] v"

definition multiplicative_op :: "string \<Rightarrow> binop option" where
  "multiplicative_op v = map_of [(''*'', BMul), (''/'', BDiv)] v"

text \<open>The operator the current token is, if it is punctuation and one of the given.\<close>

definition punct_op :: "(string \<Rightarrow> binop option) \<Rightarrow> token \<Rightarrow> binop option" where
  "punct_op ops t = (if tk_kind t = KPunct then ops (tok_text t) else None)"

definition parse_column_ref :: "expr parser" where
  "parse_column_ref =
     bind_eff advance (\<lambda>first.
       if is_tok KWord RESERVED_AS_NAME first then raise ParseError
       else when_matched (match_punct ''.'')
         (bind_eff advance (\<lambda>second.
            if tk_kind second = KIdent \<or> tk_kind second = KWord
            then ret (ColumnRef (tok_text second) (Some (tok_text first)))
            else raise ParseError))
         (ret (ColumnRef (tok_text first) None)))"

definition parse_func :: "expr parser \<Rightarrow> expr parser" where
  "parse_func pe =
     bind_eff advance (\<lambda>name.
     bind_eff (expect KPunct ''('') (\<lambda>_.
     bind_eff (match_word [''DISTINCT'']) (\<lambda>dct.
     bind_eff
       (when_matched (match_punct ''*'') (ret ([], True))
          (bind_eff (check KPunct ['')'']) (\<lambda>close.
             if close then ret ([], False) else bind_eff (comma_list pe) (\<lambda>args. ret (args, False)))))
       (\<lambda>(args, star).
          bind_eff (expect KPunct '')'') (\<lambda>_. ret (FuncCall (tok_text name) args dct star))))))"

definition parse_primary :: "expr parser \<Rightarrow> select parser \<Rightarrow> expr parser" where
  "parse_primary pe ps =
     bind_eff cur (\<lambda>tok.
       if tk_kind tok = KNumber \<or> tk_kind tok = KString then
         bind_eff advance (\<lambda>_. ret (Literal (case tk_literal tok of Some v \<Rightarrow> v | None \<Rightarrow> VNone)))
       else
         when_matched (match_word [''NULL'']) (ret (Literal VNone))
        (when_matched (match_word [''TRUE'']) (ret (Literal (VBool True)))
        (when_matched (match_word [''FALSE'']) (ret (Literal (VBool False)))
        (when_matched (match_punct ''('')
           (bind_eff (check KWord [''SELECT'']) (\<lambda>sel.
              if sel then bind_eff ps (\<lambda>q. bind_eff (expect KPunct '')'') (\<lambda>_. ret (Subquery q)))
              else bind_eff pe (\<lambda>e. bind_eff (expect KPunct '')'') (\<lambda>_. ret e))))
           (if is_tok KWord FUNC_WORDS tok then parse_func pe
            else if tk_kind tok = KIdent \<or> tk_kind tok = KWord then parse_column_ref
            else raise ParseError)))))"

text \<open>\<open>_parse_unary\<close> calls itself after a sign, one token further.\<close>

definition wrapped :: "('a \<Rightarrow> 'b) \<Rightarrow> token list \<times> 'a result \<Rightarrow> token list \<times> 'b result" where
  "wrapped f p = (case p of (ts, r) \<Rightarrow> (ts, bind_result r (\<lambda>x. Inr (f x))))"

fun parse_unary :: "expr parser \<Rightarrow> expr parser" where
  "parse_unary primary [] = primary []"
| "parse_unary primary (t # ts) =
     (if is_tok KPunct [''-''] t then wrapped (UnaryOp UMinus) (parse_unary primary ts)
      else if is_tok KPunct [''+''] t then parse_unary primary ts
      else primary (t # ts))"

text \<open>A loop of left-associative operators.\<close>

definition parse_left :: "(string \<Rightarrow> binop option) \<Rightarrow> expr parser \<Rightarrow> expr parser" where
  "parse_left ops operand =
     bind_eff operand (\<lambda>left.
       repeat_while (\<lambda>acc. bind_eff cur (\<lambda>t.
         case punct_op ops t of
           None \<Rightarrow> ret None
         | Some op \<Rightarrow> bind_eff advance (\<lambda>_. bind_eff operand (\<lambda>r. ret (Some (BinaryOp op acc r)))))) left)"

definition parse_multiplicative :: "expr parser \<Rightarrow> select parser \<Rightarrow> expr parser" where
  "parse_multiplicative pe ps = parse_left multiplicative_op (parse_unary (parse_primary pe ps))"

definition parse_additive :: "expr parser \<Rightarrow> select parser \<Rightarrow> expr parser" where
  "parse_additive pe ps = parse_left additive_op (parse_multiplicative pe ps)"

text \<open>An IN list as a chain of OR = comparisons.\<close>

definition in_chain :: "expr \<Rightarrow> expr list \<Rightarrow> expr" where
  "in_chain left items =
     (case items of
        [] \<Rightarrow> Missing
      | i # is \<Rightarrow> foldl (\<lambda>c x. BinaryOp BOr c (BinaryOp BEq left x)) (BinaryOp BEq left i) is)"

definition parse_in_tail :: "expr parser \<Rightarrow> select parser \<Rightarrow> expr \<Rightarrow> bool \<Rightarrow> expr parser" where
  "parse_in_tail operand ps left negated =
     when_matched (match_punct ''('')
       (bind_eff (check KWord [''SELECT'']) (\<lambda>sel.
          if sel then bind_eff ps (\<lambda>q. bind_eff (expect KPunct '')'') (\<lambda>_. ret (InSubquery left q negated)))
          else bind_eff (comma_list operand) (\<lambda>items.
               bind_eff (expect KPunct '')'') (\<lambda>_.
                 ret (if negated then UnaryOp UNot (in_chain left items) else in_chain left items)))))
       (raise ParseError)"

definition between_expr :: "bool \<Rightarrow> expr \<Rightarrow> expr \<Rightarrow> expr \<Rightarrow> expr" where
  "between_expr negated left low high =
     (let e = BinaryOp BBetween left (BinaryOp BAnd low high) in if negated then UnaryOp UNot e else e)"

definition parse_is :: "expr \<Rightarrow> expr parser" where
  "parse_is left =
     when_matched (match_word [''NOT''])
       (bind_eff (expect KWord ''NULL'') (\<lambda>_. ret (UnaryOp UIsNotNull left)))
       (bind_eff (expect KWord ''NULL'') (\<lambda>_. ret (UnaryOp UIsNull left)))"

text \<open>One round of the loop of \<open>_parse_comparison\<close>; \<open>None\<close> is its \<open>break\<close>.\<close>

definition comparison_step :: "expr parser \<Rightarrow> select parser \<Rightarrow> expr \<Rightarrow> expr option parser" where
  "comparison_step operand ps left =
     bind_eff (match_word [''NOT'']) (\<lambda>negated.
     bind_eff cur (\<lambda>t.
       case punct_op comparison_op t of
         Some op \<Rightarrow> bind_eff advance (\<lambda>_. bind_eff operand (\<lambda>r. ret (Some (BinaryOp op left r))))
       | None \<Rightarrow>
           when_matched (match_word [''LIKE''])
             (bind_eff operand (\<lambda>r. ret (Some (BinaryOp (if negated then BNotLike else BLike) left r))))
          (when_matched (match_word [''IN''])
             (bind_eff (parse_in_tail operand ps left negated) (\<lambda>e. ret (Some e)))
          (when_matched (match_word [''BETWEEN''])
             (bind_eff operand (\<lambda>low.
              bind_eff (expect KWord ''AND'') (\<lambda>_.
              bind_eff operand (\<lambda>high. ret (Some (between_expr negated left low high))))))
          (if negated then raise ParseError
           else when_matched (match_word [''IS'']) (bind_eff (parse_is left) (\<lambda>e. ret (Some e))) (ret None))))))"

definition parse_comparison :: "expr parser \<Rightarrow> select parser \<Rightarrow> expr parser" where
  "parse_comparison pe ps =
     (let operand = parse_additive pe ps
      in bind_eff operand (repeat_while (comparison_step operand ps)))"

fun parse_not :: "expr parser \<Rightarrow> expr parser" where
  "parse_not comparison [] = comparison []"
| "parse_not comparison (t # ts) =
     (if is_tok KWord [''NOT''] t then wrapped (UnaryOp UNot) (parse_not comparison ts)
      else comparison (t # ts))"

definition parse_chain :: "string \<Rightarrow> binop \<Rightarrow> expr parser \<Rightarrow> expr parser" where
  "parse_chain word op operand =
     bind_eff operand (\<lambda>left.
       repeat_while (\<lambda>acc.
         when_matched (match_word [word]) (bind_eff operand (\<lambda>r. ret (Some (BinaryOp op acc r)))) (ret None)) left)"

definition parse_and :: "expr parser \<Rightarrow> select parser \<Rightarrow> expr parser" where
  "parse_and pe ps = parse_chain ''AND'' BAnd (parse_not (parse_comparison pe ps))"

definition parse_or :: "expr parser \<Rightarrow> select parser \<Rightarrow> expr parser" where
  "parse_or pe ps = parse_chain ''OR'' BOr (parse_and pe ps)"

section \<open>Queries\<close>

definition parse_optional_alias :: "string option parser" where
  "parse_optional_alias =
     when_matched (match_word [''AS'']) (bind_eff parse_ident (\<lambda>a. ret (Some a)))
       (bind_eff cur (\<lambda>t. if tk_kind t = KIdent then bind_eff parse_ident (\<lambda>a. ret (Some a)) else ret None))"

text \<open>The keywords that open a join; \<open>None\<close> when there is no further join.\<close>

definition parse_join_kind :: "join_kind option parser" where
  "parse_join_kind =
     when_matched (match_word [''INNER'']) (bind_eff (expect KWord ''JOIN'') (\<lambda>_. ret (Some JInner)))
    (when_matched (match_word [''LEFT''])
       (bind_eff (match_word [''OUTER'']) (\<lambda>_. bind_eff (expect KWord ''JOIN'') (\<lambda>_. ret (Some JLeft))))
    (when_matched (match_word [''JOIN'']) (ret (Some JInner)) (ret None)))"

definition parse_joins :: "expr parser \<Rightarrow> join_spec list parser" where
  "parse_joins pe =
     repeat_while (\<lambda>joins.
       bind_eff parse_join_kind (\<lambda>kind.
         case kind of
           None \<Rightarrow> ret None
         | Some k \<Rightarrow>
             bind_eff parse_ident (\<lambda>tab.
             bind_eff parse_optional_alias (\<lambda>al.
             bind_eff (expect KWord ''ON'') (\<lambda>_.
             bind_eff pe (\<lambda>cond. ret (Some (joins @ [JoinSpec tab al k cond]))))))))
       []"

definition is_qualified_star :: "token list \<Rightarrow> bool" where
  "is_qualified_star ts =
     (case ts of
        t0 # t1 # t2 # _ \<Rightarrow> tk_kind t0 = KIdent \<and> is_tok KPunct [''.''] t1 \<and> is_tok KPunct [''*''] t2
      | _ \<Rightarrow> False)"

definition parse_projection :: "expr parser \<Rightarrow> expr parser" where
  "parse_projection pe =
     when_matched (match_punct ''*'') (ret (Star None))
       (bind_eff get_state (\<lambda>ts.
          if is_qualified_star ts then
            bind_eff parse_ident (\<lambda>tab.
            bind_eff (expect KPunct ''.'') (\<lambda>_.
            bind_eff (expect KPunct ''*'') (\<lambda>_. ret (Star (Some tab)))))
          else pe))"

definition parse_order_item :: "expr parser \<Rightarrow> (expr \<times> bool) parser" where
  "parse_order_item pe =
     bind_eff pe (\<lambda>e.
       when_matched (match_word [''ASC'']) (ret (e, False))
         (when_matched (match_word [''DESC'']) (ret (e, True)) (ret (e, False))))"

definition parse_from :: "expr parser \<Rightarrow> (string option \<times> string option \<times> join_spec list) parser" where
  "parse_from pe =
     when_matched (match_word [''FROM''])
       (bind_eff parse_ident (\<lambda>tab.
        bind_eff parse_optional_alias (\<lambda>al.
        bind_eff (parse_joins pe) (\<lambda>joins. ret (Some tab, al, joins)))))
       (ret (None, None, []))"

definition parse_where :: "expr parser \<Rightarrow> expr parser" where
  "parse_where pe = when_matched (match_word [''WHERE'']) pe (ret Missing)"

definition parse_group :: "expr parser \<Rightarrow> (expr list \<times> expr) parser" where
  "parse_group pe =
     when_matched (match_word [''GROUP''])
       (bind_eff (expect KWord ''BY'') (\<lambda>_.
        bind_eff (comma_list pe) (\<lambda>es.
        bind_eff (when_matched (match_word [''HAVING'']) pe (ret Missing)) (\<lambda>h. ret (es, h)))))
       (ret ([], Missing))"

definition parse_order :: "expr parser \<Rightarrow> (expr \<times> bool) list parser" where
  "parse_order pe =
     when_matched (match_word [''ORDER''])
       (bind_eff (expect KWord ''BY'') (\<lambda>_. comma_list (parse_order_item pe)))
       (ret [])"

definition parse_optional_int :: "string \<Rightarrow> int option parser" where
  "parse_optional_int word =
     when_matched (match_word [word]) (bind_eff parse_nonneg_int (\<lambda>n. ret (Some n))) (ret None)"

definition parse_limits :: "(int option \<times> int option) parser" where
  "parse_limits =
     bind_eff (parse_optional_int ''LIMIT'') (\<lambda>lim.
       case lim of
         Some n \<Rightarrow> bind_eff (parse_optional_int ''OFFSET'') (\<lambda>off. ret (Some n, off))
       | None \<Rightarrow>
           bind_eff (parse_optional_int ''OFFSET'') (\<lambda>off.
             case off of
               Some k \<Rightarrow> bind_eff (parse_optional_int ''LIMIT'') (\<lambda>lim'. ret (lim', Some k))
             | None \<Rightarrow> ret (None, None)))"

definition select_body :: "expr parser \<Rightarrow> select parser" where
  "select_body pe =
     bind_eff (expect KWord ''SELECT'') (\<lambda>_.
     bind_eff (match_word [''DISTINCT'']) (\<lambda>dct.
     bind_eff (comma_list (parse_projection pe)) (\<lambda>projs.
     bind_eff (parse_from pe) (\<lambda>(tab, al, joins).
     bind_eff (parse_where pe) (\<lambda>wh.
     bind_eff (parse_group pe) (\<lambda>(gs, hv).
     bind_eff (parse_order pe) (\<lambda>ord.
     bind_eff parse_limits (\<lambda>(lim, off).
       ret (SelectStmt projs tab al joins wh gs hv ord lim off dct)))))))))"

section \<open>The nested levels\<close>

fun parse_expr :: "nat \<Rightarrow> expr parser" and parse_select :: "nat \<Rightarrow> select parser" where
  "parse_expr 0 ts = raise RuntimeError ts"
| "parse_select 0 ts = raise RuntimeError ts"
| "parse_expr (Suc n) ts = parse_or (parse_expr n) (parse_select n) ts"
| "parse_select (Suc n) ts = select_body (parse_expr n) ts"

section \<open>INSERT, UPDATE, DELETE\<close>

definition parse_value_row :: "nat \<Rightarrow> expr list parser" where
  "parse_value_row n =
     bind_eff (expect KPunct ''('') (\<lambda>_.
     bind_eff (comma_list (parse_expr n)) (\<lambda>vs.
     bind_eff (expect KPunct '')'') (\<lambda>_. ret vs)))"

definition parse_insert :: "nat \<Rightarrow> statement parser" where
  "parse_insert n =
     bind_eff (expect KWord ''INSERT'') (\<lambda>_.
     bind_eff (expect KWord ''INTO'') (\<lambda>_.
     bind_eff parse_ident (\<lambda>tab.
     bind_eff
       (when_matched (match_punct ''('')
          (bind_eff (comma_list parse_ident) (\<lambda>cs. bind_eff (expect KPunct '')'') (\<lambda>_. ret (Some cs))))
          (ret None))
       (\<lambda>cols.
     bind_eff (expect KWord ''VALUES'') (\<lambda>_.
     bind_eff (comma_list (parse_value_row n)) (\<lambda>rows. ret (Insert tab cols rows)))))))"

definition parse_assignment :: "nat \<Rightarrow> (string \<times> expr) parser" where
  "parse_assignment n =
     bind_eff parse_ident (\<lambda>c.
     bind_eff (expect KPunct ''='') (\<lambda>_.
     bind_eff (parse_expr n) (\<lambda>e. ret (c, e))))"

definition parse_update :: "nat \<Rightarrow> statement parser" where
  "parse_update n =
     bind_eff (expect KWord ''UPDATE'') (\<lambda>_.
     bind_eff parse_ident (\<lambda>tab.
     bind_eff parse_optional_alias (\<lambda>al.
       if al \<noteq> None then raise ParseError
       else bind_eff (expect KWord ''SET'') (\<lambda>_.
            bind_eff (comma_list (parse_assignment n)) (\<lambda>assigns.
            bind_eff (parse_where (parse_expr n)) (\<lambda>wh. ret (Update tab assigns wh)))))))"

definition parse_delete :: "nat \<Rightarrow> statement parser" where
  "parse_delete n =
     bind_eff (expect KWord ''DELETE'') (\<lambda>_.
     bind_eff (expect KWord ''FROM'') (\<lambda>_.
     bind_eff parse_ident (\<lambda>tab.
     bind_eff (parse_where (parse_expr n)) (\<lambda>wh. ret (Delete tab wh)))))"

section \<open>CREATE TABLE\<close>

definition TYPE_NAMES :: "(string \<times> coltype) list" where
  "TYPE_NAMES =
     [(''INT'', TInt), (''INTEGER'', TInt), (''BIGINT'', TInt), (''SMALLINT'', TInt), (''TINYINT'', TInt),
      (''FLOAT'', TFloat), (''DOUBLE'', TFloat), (''REAL'', TFloat),
      (''VARCHAR'', TVarchar), (''CHAR'', TVarchar), (''TEXT'', TText), (''STRING'', TText),
      (''BOOLEAN'', TBoolean), (''BOOL'', TBoolean)]"

definition parse_type :: "(coltype \<times> int option) parser" where
  "parse_type =
     bind_eff (expect_kind KWord) (\<lambda>t.
       case map_of TYPE_NAMES (tok_text t) of
         None \<Rightarrow> raise ParseError
       | Some ty \<Rightarrow>
           bind_eff
             (when_matched (match_punct ''('')
                (bind_eff parse_nonneg_int (\<lambda>n. bind_eff (expect KPunct '')'') (\<lambda>_. ret (Some n)))) (ret None))
             (\<lambda>len. ret (ty, len)))"

text \<open>The constraints after a type: whether the column is nullable and whether it is the key.\<close>

definition constraint_step :: "bool \<times> bool \<Rightarrow> (bool \<times> bool) option parser" where
  "constraint_step acc =
     when_matched (match_word [''NOT'']) (bind_eff (expect KWord ''NULL'') (\<lambda>_. ret (Some (False, snd acc))))
    (when_matched (match_word [''NULL'']) (ret (Some (True, snd acc)))
    (when_matched (match_word [''PRIMARY'']) (bind_eff (expect KWord ''KEY'') (\<lambda>_. ret (Some (False, True))))
      (ret None)))"

definition parse_column_def :: "column_def parser" where
  "parse_column_def =
     bind_eff parse_ident_raw (\<lambda>name.
     bind_eff parse_type (\<lambda>(ty, len).
     bind_eff (repeat_while constraint_step (True, False)) (\<lambda>(nullable, key).
       ret \<lparr>cd_name = name, cd_type = ty, cd_length = len, cd_nullable = nullable, cd_primary_key = key\<rparr>)))"

text \<open>
  \<open>by_name.get(name.lower())\<close>: the last column of that name, marked as the key.
\<close>

fun mark_last :: "string \<Rightarrow> column_def list \<Rightarrow> column_def list option" where
  "mark_last name [] = None"
| "mark_last name (c # cs) =
     (case mark_last name cs of
        Some cs' \<Rightarrow> Some (c # cs')
      | None \<Rightarrow>
          if py_lower (cd_name c) = py_lower name then Some (c\<lparr>cd_primary_key := True, cd_nullable := False\<rparr> # cs)
          else None)"

definition mark_key :: "string \<Rightarrow> column_def list \<Rightarrow> column_def list parser" where
  "mark_key name cols = (case mark_last name cols of None \<Rightarrow> raise ParseError | Some cs \<Rightarrow> ret cs)"

definition consume_table_pk :: "column_def list \<Rightarrow> column_def list parser" where
  "consume_table_pk cols =
     bind_eff (expect KWord ''PRIMARY'') (\<lambda>_.
     bind_eff (expect KWord ''KEY'') (\<lambda>_.
     bind_eff (expect KPunct ''('') (\<lambda>_.
     bind_eff (comma_list parse_ident) (\<lambda>names.
     bind_eff (expect KPunct '')'') (\<lambda>_. fold_eff mark_key names cols)))))"

definition parse_create :: "statement parser" where
  "parse_create =
     bind_eff (expect KWord ''CREATE'') (\<lambda>_.
     bind_eff (expect KWord ''TABLE'') (\<lambda>_.
     bind_eff parse_ident (\<lambda>name.
     bind_eff (expect KPunct ''('') (\<lambda>_.
     bind_eff parse_column_def (\<lambda>first.
     bind_eff
       (repeat_while (\<lambda>cols.
          when_matched (match_punct '','')
            (bind_eff (check KWord [''PRIMARY'']) (\<lambda>pk.
               if pk then bind_eff (consume_table_pk cols) (\<lambda>cs. ret (Some cs))
               else bind_eff parse_column_def (\<lambda>c. ret (Some (cols @ [c])))))
            (ret None)) [first])
       (\<lambda>cols. bind_eff (expect KPunct '')'') (\<lambda>_. ret (CreateTable name cols))))))))"

section \<open>Transaction control, SHOW, DESCRIBE\<close>

text \<open>After READ: COMMITTED, or UNCOMMITTED, which is not supported.\<close>

definition parse_read_level :: "string parser" where
  "parse_read_level =
     when_matched (match_word [''COMMITTED'']) (ret ''READ COMMITTED'')
       (bind_eff (expect KWord ''UNCOMMITTED'') (\<lambda>_. raise ParseError))"

definition parse_isolation_level :: "string parser" where
  "parse_isolation_level =
     when_matched (match_word [''READ'']) parse_read_level
    (when_matched (match_word [''REPEATABLE'']) (bind_eff (expect KWord ''READ'') (\<lambda>_. raise ParseError))
       (bind_eff (expect KWord ''SERIALIZABLE'') (\<lambda>_. ret ''SERIALIZABLE'')))"

definition parse_begin :: "statement parser" where
  "parse_begin =
     bind_eff
       (when_matched (match_word [''START'']) (expect KWord ''TRANSACTION'') (expect KWord ''BEGIN''))
       (\<lambda>_. bind_eff
          (when_matched (match_word [''ISOLATION''])
             (bind_eff (expect KWord ''LEVEL'') (\<lambda>_. bind_eff parse_isolation_level (\<lambda>l. ret (Some l))))
          (when_matched (match_word [''READ'']) (bind_eff parse_read_level (\<lambda>l. ret (Some l)))
          (when_matched (match_word [''SERIALIZABLE'']) (ret (Some ''SERIALIZABLE'')) (ret None))))
          (\<lambda>level. ret (BeginStmt level)))"

definition parse_show :: "statement parser" where
  "parse_show =
     bind_eff (expect KWord ''SHOW'') (\<lambda>_.
       when_matched (match_word [''TABLES'']) (ret ShowTables) (raise ParseError))"

definition peek_is_ident :: "token list \<Rightarrow> bool" where
  "peek_is_ident ts = (case ts of _ # t # _ \<Rightarrow> tk_kind t = KIdent | _ \<Rightarrow> False)"

section \<open>Statements\<close>

definition end_of_txn :: "statement \<Rightarrow> statement parser" where
  "end_of_txn s = bind_eff advance (\<lambda>_. bind_eff (match_word [''WORK'']) (\<lambda>_. ret s))"

definition parse_statement :: "nat \<Rightarrow> statement parser" where
  "parse_statement n =
     bind_eff cur (\<lambda>t.
     bind_eff get_state (\<lambda>ts.
       if is_tok KWord [''SELECT''] t then bind_eff (parse_select n) (\<lambda>q. ret (Select q))
       else if is_tok KWord [''INSERT''] t then parse_insert n
       else if is_tok KWord [''UPDATE''] t then parse_update n
       else if is_tok KWord [''DELETE''] t then parse_delete n
       else if is_tok KWord [''CREATE''] t then parse_create
       else if is_tok KWord [''BEGIN'', ''START''] t then parse_begin
       else if is_tok KWord [''COMMIT''] t then end_of_txn CommitStmt
       else if is_tok KWord [''ROLLBACK''] t then end_of_txn RollbackStmt
       else if is_tok KWord [''SHOW''] t then parse_show
       else if is_tok KWord [''DESCRIBE''] t \<or> (is_tok KWord [''DESC''] t \<and> peek_is_ident ts)
       then bind_eff advance (\<lambda>_. bind_eff parse_ident (\<lambda>name. ret (Describe name)))
       else raise ParseError))"

definition parse_all :: "nat \<Rightarrow> statement parser" where
  "parse_all n =
     bind_eff cur (\<lambda>t.
       if tk_kind t = KEof then raise ParseError
       else bind_eff (parse_statement n) (\<lambda>s. bind_eff (expect_kind KEof) (\<lambda>_. ret s)))"

definition parse_sql :: "string \<Rightarrow> statement result" where
  "parse_sql text = bind_result (tokenize text) (\<lambda>toks. snd (parse_all (Suc (length toks)) toks))"

end
