(* ===== verification/ParserFuel.thy ===== *)
theory ParserFuel
  imports Parser
begin

text \<open>
  The bounds of the parser are enough, and what the parser raises. Two parsers are compared on the token lists
  that end with the EOF token and are shorter than a bound: they agree there, raise nothing but ParseError (a
  bound that is too small raises RuntimeError), and leave no more tokens than they got (\<open>same\<close>), fewer
  (\<open>eats\<close>), or fewer when a loop goes on (\<open>rounds\<close>). A production then agrees below \<open>Suc k\<close> when its
  nested parsers agree below \<open>k\<close>, since it takes a token before it calls them.
\<close>

section \<open>Agreement below a bound\<close>

definition ended :: "token list \<Rightarrow> bool" where
  "ended ts \<longleftrightarrow> ts \<noteq> [] \<and> tk_kind (last ts) = KEof"

definition agree_at :: "token list \<Rightarrow> 'a parser \<Rightarrow> 'a parser \<Rightarrow> bool" where
  "agree_at ts p q \<longleftrightarrow> p ts = q ts \<and>
     (\<forall>ts' e. p ts = (ts', Inl e) \<longrightarrow> e = ParseError) \<and>
     (\<forall>ts' x. p ts = (ts', Inr x) \<longrightarrow> ended ts' \<and> length ts' \<le> length ts)"

definition eats_at :: "token list \<Rightarrow> 'a parser \<Rightarrow> 'a parser \<Rightarrow> bool" where
  "eats_at ts p q \<longleftrightarrow> agree_at ts p q \<and> (\<forall>ts' x. p ts = (ts', Inr x) \<longrightarrow> length ts' < length ts)"

definition rounds_at :: "token list \<Rightarrow> 'a option parser \<Rightarrow> 'a option parser \<Rightarrow> bool" where
  "rounds_at ts p q \<longleftrightarrow> agree_at ts p q \<and> (\<forall>ts' x. p ts = (ts', Inr (Some x)) \<longrightarrow> length ts' < length ts)"

definition same :: "nat \<Rightarrow> 'a parser \<Rightarrow> 'a parser \<Rightarrow> bool" where
  "same k p q \<longleftrightarrow> (\<forall>ts. ended ts \<and> length ts < k \<longrightarrow> agree_at ts p q)"

definition eats :: "nat \<Rightarrow> 'a parser \<Rightarrow> 'a parser \<Rightarrow> bool" where
  "eats k p q \<longleftrightarrow> (\<forall>ts. ended ts \<and> length ts < k \<longrightarrow> eats_at ts p q)"

definition rounds :: "nat \<Rightarrow> 'a option parser \<Rightarrow> 'a option parser \<Rightarrow> bool" where
  "rounds k p q \<longleftrightarrow> (\<forall>ts. ended ts \<and> length ts < k \<longrightarrow> rounds_at ts p q)"

named_theorems parser_rules

lemma agree_atI:
  assumes "p ts = q ts" "\<And>ts' e. p ts = (ts', Inl e) \<Longrightarrow> e = ParseError"
    "\<And>ts' x. p ts = (ts', Inr x) \<Longrightarrow> ended ts' \<and> length ts' \<le> length ts"
  shows "agree_at ts p q"
  using assms by (simp add: agree_at_def)

lemma sameI: "(\<And>ts. ended ts \<Longrightarrow> length ts < k \<Longrightarrow> agree_at ts p q) \<Longrightarrow> same k p q"
  by (simp add: same_def)

lemma eatsI: "(\<And>ts. ended ts \<Longrightarrow> length ts < k \<Longrightarrow> eats_at ts p q) \<Longrightarrow> eats k p q"
  by (simp add: eats_def)

lemma eats_same: "eats k p q \<Longrightarrow> same k p q"
  by (simp add: eats_def same_def eats_at_def)

lemma rounds_same: "rounds k p q \<Longrightarrow> same k p q"
  by (simp add: rounds_def same_def rounds_at_def)

lemma eats_rounds: "eats k p q \<Longrightarrow> rounds k p q"
  by (simp add: eats_def rounds_def eats_at_def rounds_at_def)

lemma same_mono: "same k p q \<Longrightarrow> j \<le> k \<Longrightarrow> same j p q"
  by (simp add: same_def)

lemma eats_mono: "eats k p q \<Longrightarrow> j \<le> k \<Longrightarrow> eats j p q"
  by (simp add: eats_def)

lemma same_down: "same (Suc k) p q \<Longrightarrow> same k p q"
  by (simp add: same_def)

lemma same_zero [simp]: "same 0 p q" "eats 0 p q"
  by (simp_all add: same_def eats_def)

lemma ended_Cons: "ended (t # ts) \<longleftrightarrow> (if ts = [] then tk_kind t = KEof else ended ts)"
  by (simp add: ended_def)

lemma ended_tail: "ended (t # ts) \<Longrightarrow> tk_kind t \<noteq> KEof \<Longrightarrow> ended ts"
  by (simp add: ended_Cons split: if_splits)

lemma ended_cases: "ended ts \<Longrightarrow> (\<And>t ts'. ts = t # ts' \<Longrightarrow> ended (t # ts') \<Longrightarrow> P) \<Longrightarrow> P"
  by (cases ts) (auto simp: ended_def)

section \<open>Sequences\<close>

lemma bind_agree:
  assumes "agree_at ts p q" "\<And>ts' x. p ts = (ts', Inr x) \<Longrightarrow> agree_at ts' (f x) (g x)"
  shows "agree_at ts (bind_eff p f) (bind_eff q g)"
proof (cases "p ts")
  case (Pair ts' r)
  then have q: "q ts = (ts', r)" using assms(1) by (simp add: agree_at_def)
  show ?thesis
  proof (cases r)
    case (Inl e)
    then show ?thesis using Pair q assms(1) by (simp add: agree_at_def bind_eff_def)
  next
    case (Inr x)
    have rest: "agree_at ts' (f x) (g x)" by (rule assms(2)) (simp add: Pair Inr)
    have len: "length ts' \<le> length ts" using assms(1) by (simp add: agree_at_def Pair Inr)
    have 1: "bind_eff p f ts = f x ts'" "bind_eff q g ts = g x ts'" using Pair q Inr by (simp_all add: bind_eff_def)
    show ?thesis
    proof (intro agree_atI)
      fix ts1 e assume "bind_eff p f ts = (ts1, Inl e)"
      then show "e = ParseError" using rest by (simp add: 1 agree_at_def)
    next
      fix ts1 y assume "bind_eff p f ts = (ts1, Inr y)"
      then show "ended ts1 \<and> length ts1 \<le> length ts"
        using rest len by (fastforce simp: 1 agree_at_def)
    qed (use rest in \<open>simp add: 1 agree_at_def\<close>)
  qed
qed

lemma agree_at_ended: "agree_at ts p q \<Longrightarrow> p ts = (ts', Inr x) \<Longrightarrow> ended ts' \<and> length ts' \<le> length ts"
  by (simp add: agree_at_def)

lemma eats_at_bind:
  assumes "eats_at ts p q" "\<And>ts' x. p ts = (ts', Inr x) \<Longrightarrow> ended ts' \<Longrightarrow> length ts' < length ts \<Longrightarrow> agree_at ts' (f x) (g x)"
  shows "eats_at ts (bind_eff p f) (bind_eff q g)"
proof -
  have p: "agree_at ts p q" "\<And>ts' x. p ts = (ts', Inr x) \<Longrightarrow> length ts' < length ts"
    using assms(1) by (auto simp: eats_at_def)
  have rest: "agree_at ts' (f x) (g x)" if "p ts = (ts', Inr x)" for ts' x
    using assms(2) that agree_at_ended [OF p(1)] p(2) by blast
  have "length ts' < length ts" if "bind_eff p f ts = (ts', Inr y)" for ts' y
  proof -
    obtain ts1 x where 1: "p ts = (ts1, Inr x)" "f x ts1 = (ts', Inr y)"
      using \<open>bind_eff p f ts = (ts', Inr y)\<close> by (auto simp: bind_eff_Inr)
    then show ?thesis using agree_at_ended [OF rest [OF 1(1)] 1(2)] p(2) [OF 1(1)] by simp
  qed
  then show ?thesis using bind_agree [OF p(1) rest] by (auto simp: eats_at_def)
qed

lemma eats_at_after:
  assumes "agree_at ts p q"
    "\<And>ts' x. p ts = (ts', Inr x) \<Longrightarrow> ended ts' \<Longrightarrow> length ts' \<le> length ts \<Longrightarrow> eats_at ts' (f x) (g x)"
  shows "eats_at ts (bind_eff p f) (bind_eff q g)"
proof -
  have rest: "eats_at ts' (f x) (g x)" "ended ts' \<and> length ts' \<le> length ts" if "p ts = (ts', Inr x)" for ts' x
    using that assms(2) agree_at_ended [OF assms(1)] by blast+
  have "length ts' < length ts" if "bind_eff p f ts = (ts', Inr y)" for ts' y
  proof -
    obtain ts1 x where 1: "p ts = (ts1, Inr x)" "f x ts1 = (ts', Inr y)"
      using \<open>bind_eff p f ts = (ts', Inr y)\<close> by (auto simp: bind_eff_Inr)
    then show ?thesis using rest [OF 1(1)] by (fastforce simp: eats_at_def)
  qed
  moreover have "agree_at ts' (f x) (g x)" if "p ts = (ts', Inr x)" for ts' x
    using rest(1) [OF that] by (simp add: eats_at_def)
  ultimately show ?thesis using bind_agree [OF assms(1), of f g] by (auto simp: eats_at_def)
qed

lemma rounds_at_bind:
  assumes "agree_at ts p q"
    "\<And>ts' x. p ts = (ts', Inr x) \<Longrightarrow> ended ts' \<Longrightarrow> length ts' \<le> length ts \<Longrightarrow> rounds_at ts' (f x) (g x)"
  shows "rounds_at ts (bind_eff p f) (bind_eff q g)"
proof -
  have rest: "rounds_at ts' (f x) (g x)" "ended ts' \<and> length ts' \<le> length ts" if "p ts = (ts', Inr x)" for ts' x
    using that assms(2) agree_at_ended [OF assms(1)] by blast+
  have "length ts' < length ts" if "bind_eff p f ts = (ts', Inr (Some y))" for ts' y
  proof -
    obtain ts1 x where 1: "p ts = (ts1, Inr x)" "f x ts1 = (ts', Inr (Some y))"
      using \<open>bind_eff p f ts = (ts', Inr (Some y))\<close> by (auto simp: bind_eff_Inr)
    then show ?thesis using rest [OF 1(1)] by (fastforce simp: rounds_at_def)
  qed
  moreover have "agree_at ts' (f x) (g x)" if "p ts = (ts', Inr x)" for ts' x
    using rest(1) [OF that] by (simp add: rounds_at_def)
  ultimately show ?thesis using bind_agree [OF assms(1), of f g] by (auto simp: rounds_at_def)
qed

lemma same_bind [parser_rules]:
  assumes "same k p q" "\<And>x. same k (f x) (g x)"
  shows "same k (bind_eff p f) (bind_eff q g)"
proof (rule sameI)
  fix ts :: "token list" assume ts: "ended ts" "length ts < k"
  have p: "agree_at ts p q" using assms(1) ts by (simp add: same_def)
  show "agree_at ts (bind_eff p f) (bind_eff q g)"
  proof (rule bind_agree [OF p])
    fix ts' x assume "p ts = (ts', Inr x)"
    then show "agree_at ts' (f x) (g x)" using agree_at_ended [OF p] assms(2) [of x] ts by (auto simp: same_def)
  qed
qed

lemma eats_bind [parser_rules]:
  assumes "eats (Suc k) p q" "\<And>x. same k (f x) (g x)"
  shows "eats (Suc k) (bind_eff p f) (bind_eff q g)"
proof (rule eatsI)
  fix ts :: "token list" assume ts: "ended ts" "length ts < Suc k"
  then show "eats_at ts (bind_eff p f) (bind_eff q g)"
    using assms by (intro eats_at_bind) (auto simp: eats_def same_def)
qed

lemma eats_first:
  assumes "eats k p q" "\<And>x. same k (f x) (g x)"
  shows "eats k (bind_eff p f) (bind_eff q g)"
  using assms by (cases k) (auto intro!: eats_bind intro: same_down)

lemma eats_after:
  assumes "same k p q" "\<And>x. eats k (f x) (g x)"
  shows "eats k (bind_eff p f) (bind_eff q g)"
proof (rule eatsI)
  fix ts :: "token list" assume ts: "ended ts" "length ts < k"
  then show "eats_at ts (bind_eff p f) (bind_eff q g)"
    using assms by (intro eats_at_after) (auto simp: eats_def same_def)
qed

lemma rounds_bind:
  assumes "same k p q" "\<And>x. rounds k (f x) (g x)"
  shows "rounds k (bind_eff p f) (bind_eff q g)"
  unfolding rounds_def
proof (intro allI impI)
  fix ts :: "token list" assume ts: "ended ts \<and> length ts < k"
  then show "rounds_at ts (bind_eff p f) (bind_eff q g)"
    using assms by (intro rounds_at_bind) (auto simp: rounds_def same_def)
qed

section \<open>Steps on a token\<close>

lemma agree_pure:
  "ended ts \<Longrightarrow> agree_at ts (ret x) (ret x)" "agree_at ts (raise ParseError) (raise ParseError)"
  "ended ts \<Longrightarrow> agree_at ts cur cur" "ended ts \<Longrightarrow> agree_at ts get_state get_state"
  by (auto elim!: ended_cases simp: agree_at_def ret_def raise_def cur_def get_state_def ended_def split: list.splits)

lemma agree_advance: "ended ts \<Longrightarrow> agree_at ts advance advance"
  by (erule ended_cases) (auto simp: agree_at_def advance_def ended_Cons split: if_splits)

lemma eats_advance: "ended (t # ts) \<Longrightarrow> tk_kind t \<noteq> KEof \<Longrightarrow> eats_at (t # ts) advance advance"
  using agree_advance [of "t # ts"] by (simp add: eats_at_def advance_def)

lemma same_pure [parser_rules]:
  "same k (ret x) (ret x)" "same k (raise ParseError) (raise ParseError)" "same k cur cur" "same k get_state get_state"
  "same k advance advance"
  by (auto intro!: sameI agree_pure agree_advance)

lemma eats_raise [parser_rules]: "eats k (raise ParseError) (raise ParseError)"
  by (rule eatsI) (simp add: eats_at_def agree_pure, simp add: raise_def)

lemma rounds_none [parser_rules]: "rounds k (ret None) (ret None)"
  by (simp add: rounds_def rounds_at_def agree_pure, simp add: ret_def)

lemma same_check [parser_rules]: "same k (check kd vs) (check kd vs)"
  unfolding check_def by (intro parser_rules)

lemma same_match [parser_rules]: "same k (match_tok kd vs) (match_tok kd vs)"
  unfolding match_tok_def by (intro same_bind same_check) (simp add: parser_rules)

lemma bind_cur: "bind_eff cur f (t # ts) = f t (t # ts)"
  by (simp add: bind_eff_def cur_def)

lemma match_tok_at:
  "match_tok kd vs (t # ts) =
     (if is_tok kd vs t then (if tk_kind t \<noteq> KEof then ts else t # ts, Inr True) else (t # ts, Inr False))"
  by (simp add: match_tok_def check_def bind_eff_def cur_def ret_def advance_def)

lemma when_matched_at:
  assumes "kd \<noteq> KEof"
  shows "when_matched (match_tok kd vs) p q (t # ts) = (if is_tok kd vs t then p ts else q (t # ts))"
  using assms by (auto simp: when_matched_def bind_eff_def match_tok_at is_tok_def)

lemma agree_when:
  assumes "kd \<noteq> KEof" "ended (t # ts)" "is_tok kd vs t \<Longrightarrow> ended ts \<Longrightarrow> agree_at ts p p'"
    "\<not> is_tok kd vs t \<Longrightarrow> agree_at (t # ts) q q'"
  shows "agree_at (t # ts) (when_matched (match_tok kd vs) p q) (when_matched (match_tok kd vs) p' q')"
proof (cases "is_tok kd vs t")
  case True
  then have "ended ts" using ended_tail [OF assms(2)] assms(1) by (auto simp: is_tok_def)
  then show ?thesis using assms(3) True assms(1) by (fastforce simp: agree_at_def when_matched_at)
next
  case False
  then show ?thesis using assms(1,4) by (simp add: agree_at_def when_matched_at)
qed

lemma eats_at_when:
  assumes "kd \<noteq> KEof" "ended (t # ts)" "is_tok kd vs t \<Longrightarrow> ended ts \<Longrightarrow> agree_at ts p p'"
    "\<not> is_tok kd vs t \<Longrightarrow> eats_at (t # ts) q q'"
  shows "eats_at (t # ts) (when_matched (match_tok kd vs) p q) (when_matched (match_tok kd vs) p' q')"
proof -
  have "length ts' \<le> length ts" if "is_tok kd vs t" "p ts = (ts', Inr x)" for ts' x
    using assms that ended_tail by (fastforce simp: agree_at_def is_tok_def)
  then show ?thesis
    using agree_when [of kd t ts vs p p' q q'] assms by (auto simp: eats_at_def when_matched_at less_Suc_eq_le)
qed

lemma same_when [parser_rules]:
  "kd \<noteq> KEof \<Longrightarrow> same k p p' \<Longrightarrow> same (Suc k) q q' \<Longrightarrow>
     same (Suc k) (when_matched (match_tok kd vs) p q) (when_matched (match_tok kd vs) p' q')"
  by (rule sameI, erule ended_cases) (auto intro!: agree_when simp: same_def)

lemma same_when_any:
  "kd \<noteq> KEof \<Longrightarrow> same k p p' \<Longrightarrow> same k q q' \<Longrightarrow>
     same k (when_matched (match_tok kd vs) p q) (when_matched (match_tok kd vs) p' q')"
  by (cases k) (auto intro!: same_when intro: same_down)

lemma eats_when [parser_rules]:
  "kd \<noteq> KEof \<Longrightarrow> same k p p' \<Longrightarrow> eats (Suc k) q q' \<Longrightarrow>
     eats (Suc k) (when_matched (match_tok kd vs) p q) (when_matched (match_tok kd vs) p' q')"
  by (rule eatsI, erule ended_cases) (auto intro!: eats_at_when simp: same_def eats_def)

lemma eats_when_any:
  "kd \<noteq> KEof \<Longrightarrow> same k p p' \<Longrightarrow> eats k q q' \<Longrightarrow>
     eats k (when_matched (match_tok kd vs) p q) (when_matched (match_tok kd vs) p' q')"
  by (cases k) (auto intro!: eats_when intro: same_down)

lemma rounds_when:
  assumes "kd \<noteq> KEof" "same k p p'" "rounds k q q'"
  shows "rounds k (when_matched (match_tok kd vs) p q) (when_matched (match_tok kd vs) p' q')"
  unfolding rounds_def
proof (intro allI impI)
  fix ts assume ts: "ended ts \<and> length ts < k"
  then obtain t ts' where 1: "ts = t # ts'" by (auto elim: ended_cases)
  show "rounds_at ts (when_matched (match_tok kd vs) p q) (when_matched (match_tok kd vs) p' q')"
  proof (cases "is_tok kd vs t")
    case True
    then have "ended ts'" using ended_tail 1 ts assms(1) by (auto simp: is_tok_def)
    then have "agree_at ts' p p'" using assms(2) ts 1 by (simp add: same_def)
    then show ?thesis using True assms(1) 1 by (fastforce simp: rounds_at_def agree_at_def when_matched_at)
  next
    case False
    have "rounds_at ts q q'" using assms(3) ts by (simp add: rounds_def)
    then show ?thesis using False assms(1) 1 by (simp add: rounds_at_def agree_at_def when_matched_at)
  qed
qed

section \<open>Loops\<close>

lemma repeat_n_agree:
  assumes "\<And>x. rounds k (f x) (g x)"
  shows "ended ts \<Longrightarrow> length ts < k \<Longrightarrow> length ts < n \<Longrightarrow> length ts < m \<Longrightarrow>
    agree_at ts (repeat_n n f x) (repeat_n m g x)"
proof (induction n arbitrary: m x ts)
  case (Suc n)
  obtain m' where m: "m = Suc m'" using Suc.prems by (cases m) auto
  have fg: "rounds_at ts (f x) (g x)" using assms Suc.prems by (simp add: rounds_def)
  then have a: "agree_at ts (f x) (g x)" by (simp add: rounds_at_def)
  show ?case unfolding m repeat_n.simps
  proof (rule bind_agree [OF a])
    fix ts' y assume y: "f x ts = (ts', Inr y)"
    have e: "ended ts'" "length ts' \<le> length ts" using agree_at_ended [OF a y] by auto
    show "agree_at ts' (case y of None \<Rightarrow> ret x | Some x' \<Rightarrow> repeat_n n f x') (case y of None \<Rightarrow> ret x | Some x' \<Rightarrow> repeat_n m' g x')"
    proof (cases y)
      case None
      then show ?thesis using e by (simp add: agree_pure)
    next
      case (Some x')
      then have "length ts' < length ts" using fg y by (simp add: rounds_at_def)
      then show ?thesis using Suc.IH [of ts' m' x'] Suc.prems e Some m by simp
    qed
  qed
qed simp

lemma repeat_while_same [parser_rules]:
  "(\<And>x. rounds k (f x) (g x)) \<Longrightarrow> same k (repeat_while f x) (repeat_while g x)"
  using repeat_n_agree [of k f g]
  by (intro sameI) (fastforce simp: repeat_while_def agree_at_def simp del: repeat_n.simps)

lemma comma_rounds:
  assumes "same k p q"
  shows "rounds k (when_matched (match_punct '','') (bind_eff p (\<lambda>y. ret (Some (acc @ [y])))) (ret None))
    (when_matched (match_punct '','') (bind_eff q (\<lambda>y. ret (Some (acc @ [y])))) (ret None))"
  by (intro rounds_when same_bind rounds_none assms) (simp_all add: parser_rules)

lemma comma_same [parser_rules]: "same k p q \<Longrightarrow> same k (comma_list p) (comma_list q)"
  unfolding comma_list_def by (intro same_bind repeat_while_same comma_rounds)

lemma comma_eats: "eats k p q \<Longrightarrow> eats k (comma_list p) (comma_list q)"
  unfolding comma_list_def by (intro eats_first repeat_while_same comma_rounds eats_same)

section \<open>Token helpers\<close>

lemma eats_cur:
  assumes "\<And>t ts. ended (t # ts) \<Longrightarrow> length ts < k \<Longrightarrow> eats_at (t # ts) (f t) (g t)"
  shows "eats (Suc k) (bind_eff cur f) (bind_eff cur g)"
  using assms by (intro eatsI) (erule ended_cases, auto simp: eats_at_def agree_at_def bind_cur)

lemma expect_at:
  "expect kd v (t # ts) =
     (if is_tok kd [v] t then (if tk_kind t \<noteq> KEof then ts else t # ts, Inr t) else (t # ts, Inl ParseError))"
  by (simp add: expect_def check_def bind_eff_def cur_def ret_def raise_def advance_def)

lemma expect_kind_at:
  "expect_kind kd (t # ts) =
     (if tk_kind t = kd then (if kd \<noteq> KEof then ts else t # ts, Inr t) else (t # ts, Inl ParseError))"
  by (simp add: expect_kind_def bind_eff_def cur_def raise_def advance_def)

lemma eats_expect [parser_rules]: "kd \<noteq> KEof \<Longrightarrow> eats k (expect kd v) (expect kd v)"
  by (rule eatsI, erule ended_cases)
    (auto simp: eats_at_def agree_at_def expect_at is_tok_def dest: ended_tail split: if_splits)

lemma eats_expect_kind [parser_rules]: "kd \<noteq> KEof \<Longrightarrow> eats k (expect_kind kd) (expect_kind kd)"
  by (rule eatsI, erule ended_cases)
    (auto simp: eats_at_def agree_at_def expect_kind_at dest: ended_tail split: if_splits)

lemma same_expect_kind [parser_rules]: "same k (expect_kind kd) (expect_kind kd)"
  by (rule sameI, erule ended_cases) (auto simp: agree_at_def expect_kind_at dest: ended_tail split: if_splits)

lemma same_expect [parser_rules]: "kd \<noteq> KEof \<Longrightarrow> same k (expect kd v) (expect kd v)"
  by (simp add: eats_expect eats_same)

lemma advance_at: "advance (t # ts) = (if tk_kind t \<noteq> KEof then ts else t # ts, Inr t)"
  by (simp add: advance_def)

lemma eats_ident [parser_rules]: "eats k parse_ident parse_ident"
  by (rule eatsI, erule ended_cases)
    (auto simp: eats_at_def agree_at_def parse_ident_def bind_eff_def advance_at ret_def raise_def
      dest: ended_tail split: if_splits)

lemma ident_same [parser_rules]: "same k parse_ident parse_ident"
  by (rule eats_same [OF eats_ident])

lemma eats_ident_raw [parser_rules]: "eats k parse_ident_raw parse_ident_raw"
  by (rule eatsI, erule ended_cases)
    (auto simp: eats_at_def agree_at_def parse_ident_raw_def bind_eff_def advance_at ret_def raise_def
      dest: ended_tail split: if_splits)

lemma same_if [parser_rules]: "(b \<Longrightarrow> same k p p') \<Longrightarrow> (\<not> b \<Longrightarrow> same k q q') \<Longrightarrow> same k (if b then p else q) (if b then p' else q')"
  by simp

lemma same_option [parser_rules]:
  "same k p p' \<Longrightarrow> (\<And>x. same k (q x) (q' x)) \<Longrightarrow>
     same k (case z of None \<Rightarrow> p | Some x \<Rightarrow> q x) (case z of None \<Rightarrow> p' | Some x \<Rightarrow> q' x)"
  by (simp split: option.split)

lemma same_pair [parser_rules]:
  "(\<And>x y. same k (q x y) (q' x y)) \<Longrightarrow> same k (case z of (x, y) \<Rightarrow> q x y) (case z of (x, y) \<Rightarrow> q' x y)"
  by (simp split: prod.split)

lemma same_nonneg_int [parser_rules]: "same k parse_nonneg_int parse_nonneg_int"
  unfolding parse_nonneg_int_def
  by (intro same_bind same_expect_kind) (auto simp: parser_rules split: option.split pyval.split)

section \<open>Expressions\<close>

lemma same_at: "same k p q \<Longrightarrow> ended ts \<Longrightarrow> length ts < k \<Longrightarrow> agree_at ts p q"
  by (simp add: same_def)

lemma eats_at_advance_bind:
  assumes "ended (t # ts)" "length ts < k" "tk_kind t \<noteq> KEof" "\<And>x. same k (f x) (g x)"
  shows "eats_at (t # ts) (bind_eff advance f) (bind_eff advance g)"
proof (rule eats_at_bind)
  show "eats_at (t # ts) advance advance" using assms by (simp add: eats_advance)
  fix ts' x assume "advance (t # ts) = (ts', Inr x)" "ended ts'"
  then show "agree_at ts' (f x) (g x)" using assms by (auto simp: advance_at intro: same_at)
qed

lemma func_at:
  assumes "ended (t # ts)" "length ts < k" "tk_kind t \<noteq> KEof" "same k pe pe'"
  shows "eats_at (t # ts) (parse_func pe) (parse_func pe')"
  unfolding parse_func_def
  by (rule eats_at_advance_bind [OF assms(1-3)])
    (intro same_bind same_when_any same_pair, auto intro!: parser_rules assms(4))

lemma column_ref_at:
  assumes "ended (t # ts)" "length ts < k" "tk_kind t \<noteq> KEof"
  shows "eats_at (t # ts) parse_column_ref parse_column_ref"
  unfolding parse_column_ref_def
  by (rule eats_at_advance_bind [OF assms]) (intro same_if same_when_any same_bind, auto intro!: parser_rules)

lemma eats_at_if: "(b \<Longrightarrow> eats_at ts p p') \<Longrightarrow> (\<not> b \<Longrightarrow> eats_at ts q q') \<Longrightarrow> eats_at ts (if b then p else q) (if b then p' else q')"
  by simp

lemma parens_same:
  assumes "same k pe pe'" "same k ps ps'"
  shows "same k
      (bind_eff (check KWord [''SELECT'']) (\<lambda>sel.
         if sel then bind_eff ps (\<lambda>q. bind_eff (expect KPunct '')'') (\<lambda>_. ret (Subquery q)))
         else bind_eff pe (\<lambda>e. bind_eff (expect KPunct '')'') (\<lambda>_. ret e))))
      (bind_eff (check KWord [''SELECT'']) (\<lambda>sel.
         if sel then bind_eff ps' (\<lambda>q. bind_eff (expect KPunct '')'') (\<lambda>_. ret (Subquery q)))
         else bind_eff pe' (\<lambda>e. bind_eff (expect KPunct '')'') (\<lambda>_. ret e))))"
  by (intro same_bind same_if assms) (auto intro!: parser_rules)

lemma eats_at_raise: "ended ts \<Longrightarrow> eats_at ts (raise ParseError) (raise ParseError)"
  by (simp add: eats_at_def agree_pure, simp add: raise_def)

lemma primary_eats:
  assumes "same k pe pe'" "same k ps ps'"
  shows "eats (Suc k) (parse_primary pe ps) (parse_primary pe' ps')"
  unfolding parse_primary_def
  by (intro eats_cur eats_at_if eats_at_when)
    (auto intro!: agree_pure same_at [OF parens_same [OF assms]] eats_at_advance_bind same_pure eats_at_raise
      func_at [OF _ _ _ assms(1)] column_ref_at simp: is_tok_def)

lemma wrapped_eq:
  "wrapped f p = (ts', Inl e) \<longleftrightarrow> p = (ts', Inl e)" "wrapped f p = (ts', Inr y) \<longleftrightarrow> (\<exists>x. p = (ts', Inr x) \<and> y = f x)"
  by (auto simp: wrapped_def bind_result_def split: prod.splits sum.splits)

text \<open>A prefix operator takes its token and then does what its operand does.\<close>

lemma eats_at_prefix:
  assumes "eats_at ts p q"
  shows "a (t # ts) = wrapped f (p ts) \<Longrightarrow> b (t # ts) = wrapped f (q ts) \<Longrightarrow> eats_at (t # ts) a b"
    "a (t # ts) = p ts \<Longrightarrow> b (t # ts) = q ts \<Longrightarrow> eats_at (t # ts) a b"
  using assms by (fastforce simp: eats_at_def agree_at_def wrapped_eq)+

lemma unary_eats:
  assumes "eats k p q"
  shows "eats k (parse_unary p) (parse_unary q)"
proof -
  have "ended ts \<Longrightarrow> length ts < k \<Longrightarrow> eats_at ts (parse_unary p) (parse_unary q)" for ts
  proof (induction ts)
    case (Cons t ts)
    show ?case
    proof (cases "is_tok KPunct [''-''] t \<or> is_tok KPunct [''+''] t")
      case True
      then have "ended ts" using Cons.prems(1) by (auto simp: is_tok_def dest: ended_tail)
      then have "eats_at ts (parse_unary p) (parse_unary q)" using Cons by simp
      with True show ?thesis
        by (cases "is_tok KPunct [''-''] t") (auto intro: eats_at_prefix)
    next
      case False
      moreover have "eats_at (t # ts) p q" using assms Cons.prems by (simp add: eats_def)
      ultimately show ?thesis by (simp add: eats_at_def agree_at_def)
    qed
  qed (simp add: ended_def)
  then show ?thesis by (simp add: eats_def)
qed

lemma not_eats:
  assumes "eats k p q"
  shows "eats k (parse_not p) (parse_not q)"
proof -
  have "ended ts \<Longrightarrow> length ts < k \<Longrightarrow> eats_at ts (parse_not p) (parse_not q)" for ts
  proof (induction ts)
    case (Cons t ts)
    show ?case
    proof (cases "is_tok KWord [''NOT''] t")
      case True
      then have "ended ts" using Cons.prems(1) by (auto simp: is_tok_def dest: ended_tail)
      then have "eats_at ts (parse_not p) (parse_not q)" using Cons by simp
      with True show ?thesis by (auto intro: eats_at_prefix)
    next
      case False
      moreover have "eats_at (t # ts) p q" using assms Cons.prems by (simp add: eats_def)
      ultimately show ?thesis by (simp add: eats_at_def agree_at_def)
    qed
  qed (simp add: ended_def)
  then show ?thesis by (simp add: eats_def)
qed

lemma rounds_eats_bind: "eats k p q \<Longrightarrow> (\<And>x. same k (f x) (g x)) \<Longrightarrow> rounds k (bind_eff p f) (bind_eff q g)"
  by (simp add: eats_first eats_rounds)

lemma left_eats:
  assumes "eats k p q"
  shows "eats k (parse_left ops p) (parse_left ops q)"
  unfolding parse_left_def
proof (intro eats_first assms repeat_while_same rounds_bind same_pure)
  fix acc t
  show "rounds k
     (case punct_op ops t of None \<Rightarrow> ret None | Some op \<Rightarrow> bind_eff advance (\<lambda>_. bind_eff p (\<lambda>r. ret (Some (BinaryOp op acc r)))))
     (case punct_op ops t of None \<Rightarrow> ret None | Some op \<Rightarrow> bind_eff advance (\<lambda>_. bind_eff q (\<lambda>r. ret (Some (BinaryOp op acc r)))))"
    by (auto intro!: rounds_none rounds_bind [OF same_pure(5)] same_pure rounds_eats_bind [OF assms] split: option.split)
qed

lemma chain_eats:
  assumes "eats k p q"
  shows "eats k (parse_chain w op p) (parse_chain w op q)"
  unfolding parse_chain_def
  by (intro eats_first assms repeat_while_same rounds_when same_bind eats_same [OF assms] rounds_none same_pure) simp

lemma in_tail_same:
  assumes "same (Suc k) operand operand'" "same k ps ps'"
  shows "same (Suc k) (parse_in_tail operand ps left neg) (parse_in_tail operand' ps' left neg)"
  unfolding parse_in_tail_def
  by (intro same_when same_bind same_if comma_same assms(2) same_down [OF assms(1)])
    (auto intro!: parser_rules)

lemma in_tail_eats:
  assumes "same (Suc k) operand operand'" "same k ps ps'"
  shows "eats (Suc k) (parse_in_tail operand ps left neg) (parse_in_tail operand' ps' left neg)"
  unfolding parse_in_tail_def
  by (intro eats_when eats_raise same_bind same_if comma_same assms(2) same_down [OF assms(1)])
    (auto intro!: parser_rules)

lemma is_eats: "eats k (parse_is left) (parse_is left)"
  unfolding parse_is_def
  by (intro eats_when_any eats_first same_bind) (auto intro!: parser_rules)

lemma rounds_option:
  "rounds k p p' \<Longrightarrow> (\<And>x. rounds k (q x) (q' x)) \<Longrightarrow>
     rounds k (case z of None \<Rightarrow> p | Some x \<Rightarrow> q x) (case z of None \<Rightarrow> p' | Some x \<Rightarrow> q' x)"
  by (simp split: option.split)

lemma rounds_if:
  "rounds k p p' \<Longrightarrow> rounds k q q' \<Longrightarrow> rounds k (if b then p else q) (if b then p' else q')"
  by simp

lemma comparison_rounds:
  assumes "eats (Suc k) operand operand'" "same k ps ps'"
  shows "rounds (Suc k) (comparison_step operand ps left) (comparison_step operand' ps' left)"
proof -
  have o: "same (Suc k) operand operand'" using assms(1) by (rule eats_same)
  have between: "same (Suc k)
      (bind_eff operand (\<lambda>low. bind_eff (expect KWord ''AND'') (\<lambda>_. bind_eff operand (\<lambda>high. ret (Some (f low high))))))
      (bind_eff operand' (\<lambda>low. bind_eff (expect KWord ''AND'') (\<lambda>_. bind_eff operand' (\<lambda>high. ret (Some (f low high))))))"
    for f :: "expr \<Rightarrow> expr \<Rightarrow> expr" by (intro same_bind o) (auto intro!: parser_rules)
  have like: "same (Suc k) (bind_eff operand (\<lambda>r. ret (Some (f r)))) (bind_eff operand' (\<lambda>r. ret (Some (f r))))"
    for f :: "expr \<Rightarrow> expr" by (intro same_bind o) (auto intro!: parser_rules)
  have is_in: "same (Suc k) (bind_eff (parse_in_tail operand ps left negated) (\<lambda>e. ret (Some e)))
      (bind_eff (parse_in_tail operand' ps' left negated) (\<lambda>e. ret (Some e)))" for negated
    by (intro same_bind in_tail_same o assms(2)) (auto intro!: parser_rules)
  have is_null: "same (Suc k) (bind_eff (parse_is left) (\<lambda>e. ret (Some e))) (bind_eff (parse_is left) (\<lambda>e. ret (Some e)))"
    by (intro same_bind eats_same [OF is_eats]) (auto intro!: parser_rules)
  show ?thesis
    unfolding comparison_step_def
    by (intro rounds_bind [OF same_match] rounds_bind [OF same_pure(3)] rounds_bind [OF same_pure(5)]
        rounds_eats_bind [OF assms(1)] rounds_option rounds_when rounds_none rounds_if eats_rounds [OF eats_raise]
        between like is_in is_null same_pure) auto
qed

lemma or_eats:
  assumes "same k pe pe'" "same k ps ps'"
  shows "eats (Suc k) (parse_or pe ps) (parse_or pe' ps')"
proof -
  have "eats (Suc k) (parse_additive pe ps) (parse_additive pe' ps')"
    unfolding parse_additive_def parse_multiplicative_def by (intro left_eats unary_eats primary_eats assms)
  then have "eats (Suc k) (parse_comparison pe ps) (parse_comparison pe' ps')"
    unfolding parse_comparison_def Let_def
    by (intro eats_first repeat_while_same comparison_rounds assms(2))
  then show ?thesis unfolding parse_or_def parse_and_def by (intro chain_eats not_eats)
qed

section \<open>Queries\<close>

lemma alias_same [parser_rules]: "same k parse_optional_alias parse_optional_alias"
  unfolding parse_optional_alias_def
  by (intro same_when_any same_bind same_if ident_same) (auto intro!: parser_rules)

lemma join_kind_same [parser_rules]: "same k parse_join_kind parse_join_kind"
  unfolding parse_join_kind_def
  by (intro same_when_any same_bind same_match) (auto intro!: parser_rules)

lemma joins_same [parser_rules]:
  assumes "same k pe pe'"
  shows "same k (parse_joins pe) (parse_joins pe')"
proof -
  have cond: "same k (bind_eff pe (\<lambda>c. ret (Some (f c)))) (bind_eff pe' (\<lambda>c. ret (Some (f c))))"
    for f :: "expr \<Rightarrow> join_spec list"
    by (intro same_bind assms) (auto intro!: parser_rules)
  show ?thesis unfolding parse_joins_def
    by (intro repeat_while_same rounds_bind [OF join_kind_same] rounds_option rounds_none
        rounds_eats_bind [OF eats_ident] same_bind [OF alias_same] same_bind [OF same_expect] cond) simp
qed

lemma projection_same [parser_rules]: "same k pe pe' \<Longrightarrow> same k (parse_projection pe) (parse_projection pe')"
  unfolding parse_projection_def
  by (intro same_when_any same_bind same_if ident_same) (auto intro!: parser_rules)

lemma order_item_same [parser_rules]: "same k pe pe' \<Longrightarrow> same k (parse_order_item pe) (parse_order_item pe')"
  unfolding parse_order_item_def by (intro same_when_any same_bind) (auto intro!: parser_rules)

lemma from_same [parser_rules]: "same k pe pe' \<Longrightarrow> same k (parse_from pe) (parse_from pe')"
  unfolding parse_from_def
  by (intro same_when_any same_bind ident_same) (auto intro!: parser_rules)

lemma where_same [parser_rules]: "same k pe pe' \<Longrightarrow> same k (parse_where pe) (parse_where pe')"
  unfolding parse_where_def by (intro same_when_any) (auto intro!: parser_rules)

lemma group_same [parser_rules]: "same k pe pe' \<Longrightarrow> same k (parse_group pe) (parse_group pe')"
  unfolding parse_group_def by (intro same_when_any same_bind) (auto intro!: parser_rules)

lemma order_same [parser_rules]: "same k pe pe' \<Longrightarrow> same k (parse_order pe) (parse_order pe')"
  unfolding parse_order_def by (intro same_when_any same_bind) (auto intro!: parser_rules)

lemma optional_int_same [parser_rules]: "same k (parse_optional_int w) (parse_optional_int w)"
  unfolding parse_optional_int_def by (intro same_when_any same_bind) (auto intro!: parser_rules)

lemma limits_same [parser_rules]: "same k parse_limits parse_limits"
  unfolding parse_limits_def by (intro same_bind same_option) (auto intro!: parser_rules)

lemma select_body_eats:
  assumes "same k pe pe'"
  shows "eats (Suc k) (select_body pe) (select_body pe')"
  unfolding select_body_def
  by (intro eats_bind eats_expect same_bind same_pair) (auto intro!: parser_rules assms)

section \<open>The nested levels\<close>

lemma levels_same: "k \<le> n \<Longrightarrow> k \<le> m \<Longrightarrow> same k (parse_expr n) (parse_expr m) \<and> same k (parse_select n) (parse_select m)"
proof (induction k arbitrary: n m)
  case (Suc k)
  obtain n' m' where nm: "n = Suc n'" "m = Suc m'" using Suc.prems by (cases n; cases m) auto
  have eq: "parse_expr (Suc n) = parse_or (parse_expr n) (parse_select n)" "parse_select (Suc n) = select_body (parse_expr n)" for n
    by (simp_all add: fun_eq_iff)
  show ?case
    using Suc.IH [of n' m'] Suc.prems unfolding nm eq by (simp add: eats_same or_eats select_body_eats)
qed simp

lemmas expr_same = levels_same [THEN conjunct1]
lemmas select_same = levels_same [THEN conjunct2]

section \<open>Statements\<close>

lemma insert_same: "k \<le> n \<Longrightarrow> k \<le> m \<Longrightarrow> same k (parse_insert n) (parse_insert m)"
  unfolding parse_insert_def parse_value_row_def
  by (intro same_bind same_when_any ident_same) (auto intro!: parser_rules expr_same)

lemma update_same: "k \<le> n \<Longrightarrow> k \<le> m \<Longrightarrow> same k (parse_update n) (parse_update m)"
  unfolding parse_update_def parse_assignment_def
  by (intro same_bind same_if ident_same) (auto intro!: parser_rules expr_same)

lemma delete_same: "k \<le> n \<Longrightarrow> k \<le> m \<Longrightarrow> same k (parse_delete n) (parse_delete m)"
  unfolding parse_delete_def
  by (intro same_bind ident_same) (auto intro!: parser_rules expr_same)

lemma type_same [parser_rules]: "same k parse_type parse_type"
  unfolding parse_type_def
  by (intro same_bind same_option same_when_any) (auto intro!: parser_rules)

lemma constraint_rounds: "rounds k (constraint_step acc) (constraint_step acc)"
  unfolding constraint_step_def
  by (intro rounds_when rounds_none same_bind) (auto intro!: parser_rules)

lemma column_def_same [parser_rules]: "same k parse_column_def parse_column_def"
  unfolding parse_column_def_def
  by (intro same_bind same_pair repeat_while_same constraint_rounds eats_same [OF eats_ident_raw])
    (auto intro!: parser_rules)

lemma mark_key_same: "same k (fold_eff mark_key names cols) (fold_eff mark_key names cols)"
proof (induction names arbitrary: cols)
  case (Cons name names)
  have "same k (mark_key name cols) (mark_key name cols)"
    by (auto simp: mark_key_def intro!: same_pure split: option.split)
  then show ?case by (simp add: same_bind Cons)
qed (simp add: same_pure)

lemma table_pk_same [parser_rules]: "same k (consume_table_pk cols) (consume_table_pk cols)"
  unfolding consume_table_pk_def
  by (intro same_bind mark_key_same) (auto intro!: parser_rules)

lemma create_same [parser_rules]: "same k parse_create parse_create"
  unfolding parse_create_def
  by (intro same_bind repeat_while_same rounds_when rounds_none same_if) (auto intro!: parser_rules)

lemma read_level_same [parser_rules]: "same k parse_read_level parse_read_level"
  unfolding parse_read_level_def by (intro same_when_any same_bind) (auto intro!: parser_rules)

lemma isolation_same [parser_rules]: "same k parse_isolation_level parse_isolation_level"
  unfolding parse_isolation_level_def by (intro same_when_any same_bind) (auto intro!: parser_rules)

lemma begin_same [parser_rules]: "same k parse_begin parse_begin"
  unfolding parse_begin_def by (intro same_bind same_when_any) (auto intro!: parser_rules)

lemma show_same [parser_rules]: "same k parse_show parse_show"
  unfolding parse_show_def by (intro same_bind same_when_any) (auto intro!: parser_rules)

lemma end_of_txn_same [parser_rules]: "same k (end_of_txn s) (end_of_txn s)"
  unfolding end_of_txn_def by (intro same_bind) (auto intro!: parser_rules)

lemma statement_same: "k \<le> n \<Longrightarrow> k \<le> m \<Longrightarrow> same k (parse_statement n) (parse_statement m)"
  unfolding parse_statement_def
  by (intro same_bind same_if) (auto intro!: parser_rules select_same insert_same update_same delete_same)

lemma all_same: "k \<le> n \<Longrightarrow> k \<le> m \<Longrightarrow> same k (parse_all n) (parse_all m)"
  unfolding parse_all_def
  by (intro same_bind same_if statement_same) (auto intro!: parser_rules)

section \<open>The lexer\<close>

lemma read_token_error: "read_token i (c # cs) = Inl e \<Longrightarrow> e = LexerError i \<or> e = ValueError"
  by (auto simp: read_token_def read_number_def read_string_def read_quoted_ident_def read_punct_def Let_def
      int_of_str_def float_of_str_def bind_result_def split: option.splits list.splits if_splits prod.splits sum.splits)

lemma tokenize_from_ended: "tokenize_from i s = Inr toks \<Longrightarrow> ended toks"
proof (induction i s arbitrary: toks rule: tokenize_from.induct)
  case (2 i c cs)
  show ?case
  proof (cases "blank c \<or> (c = CHR ''-'' \<and> starts (CHR ''-'') cs) \<or> (c = CHR ''/'' \<and> starts (CHR ''*'') cs)")
    case True
    then show ?thesis using 2
      by (cases "blank c"; cases "c = CHR ''-'' \<and> starts (CHR ''-'') cs") (auto simp: Let_def split: prod.splits)
  next
    case False
    then obtain tok rest toks' where 1:
      "read_token i (c # cs) = Inr (tok, rest)" "toks = tok # toks'"
      "tokenize_from (i + (length (c # cs) - length rest)) rest = Inr toks'"
      using 2(5) by (auto simp: bind_result_eq_Inr split: sum.splits prod.splits)
    have "ended toks'" by (rule 2(4) [OF _ _ _ 1(1) refl 1(3)]) (use False in auto)
    then show ?thesis using 1(2) by (auto simp: ended_Cons ended_def)
  qed
qed (auto simp: ended_def eof_token_def)

lemma tokenize_from_error: "tokenize_from i s = Inl e \<Longrightarrow> (\<exists>p. e = LexerError p) \<or> e = ValueError"
proof (induction i s rule: tokenize_from.induct)
  case (2 i c cs)
  show ?case
  proof (cases "blank c \<or> (c = CHR ''-'' \<and> starts (CHR ''-'') cs) \<or> (c = CHR ''/'' \<and> starts (CHR ''*'') cs)")
    case True
    then show ?thesis using 2
      by (cases "blank c"; cases "c = CHR ''-'' \<and> starts (CHR ''-'') cs") (auto simp: Let_def split: prod.splits)
  next
    case False
    show ?thesis
    proof (cases "read_token i (c # cs)")
      case (Inl e')
      then show ?thesis using 2(5) False read_token_error [OF Inl] by auto
    next
      case (Inr p)
      then show ?thesis using 2(4,5) False
        by (cases p; cases "tokenize_from (i + (length (c # cs) - length (snd p))) (snd p)") auto
    qed
  qed
qed auto


lemma parse_sql_levels:
  assumes "tokenize src = Inr toks" "length toks < n"
  shows "parse_sql src = snd (parse_all n toks)"
    "parse_sql src = Inl e \<Longrightarrow> e = ParseError"
proof -
  have "ended toks" using assms(1) by (auto simp: tokenize_def intro: tokenize_from_ended)
  then have "agree_at toks (parse_all (Suc (length toks))) (parse_all n)"
    using all_same [of "Suc (length toks)" "Suc (length toks)" n] assms(2) by (simp add: same_def)
  then show "parse_sql src = snd (parse_all n toks)" "parse_sql src = Inl e \<Longrightarrow> e = ParseError"
    using assms(1) by (cases "parse_all n toks"; auto simp: parse_sql_def agree_at_def)+
qed

lemma parse_sql_errors:
  assumes "parse_sql src = Inl e"
  shows "e = ParseError \<or> e = ValueError \<or> (\<exists>p. e = LexerError p)"
proof (cases "tokenize src")
  case (Inl e')
  then have "e' = e" using assms by (simp add: parse_sql_def)
  then show ?thesis using Inl tokenize_from_error by (auto simp: tokenize_def)
next
  case (Inr toks)
  then show ?thesis using assms parse_sql_levels(2) [OF Inr lessI] by auto
qed

end
