(* ===== verification/Printer.thy ===== *)
theory Printer
  imports Parser
begin

text \<open>
  A printer for the statements the parser reads, the reference the round trip of \<^verbatim>\<open>sql/lexer.py\<close> and
  \<^verbatim>\<open>sql/parser.py\<close> is stated with. \<open>body\<close> writes the tokens of an expression with as few parentheses as
  precedence and left associativity allow: an operand is parenthesised when its level is below the one its place
  asks for. Levels follow the productions: OR 1, AND 2, NOT 3, comparisons 4, sums 5, products 6, sign 7, primary 8.
  \<open>statement_text\<close> writes the tokens as text with spaces between them, names in double quotes and strings with doubled quotes.
\<close>

section \<open>Tokens\<close>

definition word_tok :: "string \<Rightarrow> token" where
  "word_tok w = plain_token KWord w 0"

definition punct_tok :: "string \<Rightarrow> token" where
  "punct_tok p = plain_token KPunct p 0"

definition ident_tok :: "string \<Rightarrow> token" where
  "ident_tok x = plain_token KIdent x 0"

definition sql_quote :: "string \<Rightarrow> string" where
  "sql_quote s = quote_char # concat (map (\<lambda>c. if c = quote_char then [c, c] else [c]) s) @ [quote_char]"

definition literal_tok :: "pyval \<Rightarrow> token" where
  "literal_tok v =
     (case v of
        VNone \<Rightarrow> word_tok ''NULL''
      | VBool b \<Rightarrow> word_tok (if b then ''TRUE'' else ''FALSE'')
      | VStr s \<Rightarrow> \<lparr>tk_kind = KString, tk_value = Some (sql_quote s), tk_pos = 0, tk_literal = Some v\<rparr>
      | _ \<Rightarrow> \<lparr>tk_kind = KNumber, tk_value = Some (py_str v), tk_pos = 0, tk_literal = Some v\<rparr>)"

fun binop_level :: "binop \<Rightarrow> nat" where
  "binop_level BOr = 1"
| "binop_level BAnd = 2"
| "binop_level BAdd = 5"
| "binop_level BSub = 5"
| "binop_level BMul = 6"
| "binop_level BDiv = 6"
| "binop_level op = 4"

fun binop_toks :: "binop \<Rightarrow> token list" where
  "binop_toks BOr = [word_tok ''OR'']"
| "binop_toks BAnd = [word_tok ''AND'']"
| "binop_toks BAdd = [punct_tok ''+'']"
| "binop_toks BSub = [punct_tok ''-'']"
| "binop_toks BMul = [punct_tok ''*'']"
| "binop_toks BDiv = [punct_tok ''/'']"
| "binop_toks BEq = [punct_tok ''='']"
| "binop_toks BNe = [punct_tok ''!='']"
| "binop_toks BLt = [punct_tok ''<'']"
| "binop_toks BLe = [punct_tok ''<='']"
| "binop_toks BGt = [punct_tok ''>'']"
| "binop_toks BGe = [punct_tok ''>='']"
| "binop_toks BLike = [word_tok ''LIKE'']"
| "binop_toks BNotLike = [word_tok ''NOT'', word_tok ''LIKE'']"
| "binop_toks BBetween = [word_tok ''BETWEEN'']"

section \<open>Expressions and queries\<close>

fun expr_level :: "expr \<Rightarrow> nat" where
  "expr_level (BinaryOp op a b) = binop_level op"
| "expr_level (UnaryOp UMinus e) = 7"
| "expr_level (UnaryOp UNot e) = 3"
| "expr_level (UnaryOp op e) = 4"
| "expr_level (InSubquery e q negated) = 4"
| "expr_level e = 8"

definition enclose :: "nat \<Rightarrow> expr \<Rightarrow> token list \<Rightarrow> token list" where
  "enclose l e ts = (if expr_level e < l then punct_tok ''('' # ts @ [punct_tok '')''] else ts)"

fun separated :: "token list list \<Rightarrow> token list" where
  "separated [] = []"
| "separated [ts] = ts"
| "separated (ts # tss) = ts @ punct_tok '','' # separated tss"

definition name_toks :: "string option \<Rightarrow> token list" where
  "name_toks tab = (case tab of None \<Rightarrow> [] | Some t \<Rightarrow> [ident_tok t, punct_tok ''.''])"

definition alias_toks :: "string option \<Rightarrow> token list" where
  "alias_toks al = (case al of None \<Rightarrow> [] | Some a \<Rightarrow> [word_tok ''AS'', ident_tok a])"

definition clause_toks :: "string \<Rightarrow> expr \<Rightarrow> token list \<Rightarrow> token list" where
  "clause_toks w e ts = (if e = Missing then [] else word_tok w # ts)"

definition limit_toks :: "string \<Rightarrow> int option \<Rightarrow> token list" where
  "limit_toks w lm = (case lm of None \<Rightarrow> [] | Some n \<Rightarrow> [word_tok w, literal_tok (VInt n)])"

fun kind_toks :: "join_kind \<Rightarrow> token list" where
  "kind_toks JInner = [word_tok ''JOIN'']"
| "kind_toks JLeft = [word_tok ''LEFT'', word_tok ''JOIN'']"

definition from_toks :: "string option \<Rightarrow> string option \<Rightarrow> token list list \<Rightarrow> token list" where
  "from_toks tab al joins =
     (case tab of None \<Rightarrow> [] | Some t \<Rightarrow> word_tok ''FROM'' # ident_tok t # alias_toks al @ concat joins)"

definition group_toks :: "token list list \<Rightarrow> token list \<Rightarrow> token list" where
  "group_toks gs hv = (if gs = [] then [] else word_tok ''GROUP'' # word_tok ''BY'' # separated gs @ hv)"

definition order_toks :: "(token list \<times> bool) list \<Rightarrow> token list" where
  "order_toks items =
     (if items = [] then []
      else word_tok ''ORDER'' # word_tok ''BY'' #
        separated (map (\<lambda>(ts, desc). ts @ (if desc then [word_tok ''DESC''] else [])) items))"

lemma member_size: "x \<in> set xs \<Longrightarrow> size x \<le> size_list size xs"
  by (induction xs) auto

lemma item_size: "(e, d) \<in> set items \<Longrightarrow> size e \<le> size_list (size_prod size (\<lambda>_. 0)) items"
  by (induction items) auto

function (sequential) body :: "expr \<Rightarrow> token list" and select_toks :: "select \<Rightarrow> token list"
  and join_toks :: "join_spec \<Rightarrow> token list" where
  "body Missing = []"
| "body (Literal v) = [literal_tok v]"
| "body (ColumnRef name tab) = name_toks tab @ [ident_tok name]"
| "body (Star tab) = name_toks tab @ [punct_tok ''*'']"
| "body (UnaryOp UMinus e) = punct_tok ''-'' # enclose 7 e (body e)"
| "body (UnaryOp UNot e) = word_tok ''NOT'' # enclose 3 e (body e)"
| "body (UnaryOp UIsNull e) = enclose 4 e (body e) @ [word_tok ''IS'', word_tok ''NULL'']"
| "body (UnaryOp UIsNotNull e) = enclose 4 e (body e) @ [word_tok ''IS'', word_tok ''NOT'', word_tok ''NULL'']"
| "body (BinaryOp BBetween a (BinaryOp op lo hi)) =
     enclose 4 a (body a) @ word_tok ''BETWEEN'' # enclose 5 lo (body lo) @ word_tok ''AND'' # enclose 5 hi (body hi)"
| "body (BinaryOp op a b) = enclose (binop_level op) a (body a) @ binop_toks op @ enclose (Suc (binop_level op)) b (body b)"
| "body (FuncCall name args dct star) =
     word_tok name # punct_tok ''('' # (if dct then [word_tok ''DISTINCT''] else []) @
     (if star then [punct_tok ''*''] else separated (map body args)) @ [punct_tok '')'']"
| "body (Subquery q) = punct_tok ''('' # select_toks q @ [punct_tok '')'']"
| "body (InSubquery e q negated) =
     enclose 4 e (body e) @ (if negated then [word_tok ''NOT''] else []) @
     word_tok ''IN'' # punct_tok ''('' # select_toks q @ [punct_tok '')'']"
| "body (Exists q negated) = []"
| "select_toks (SelectStmt ps tab al joins wh gs hv items lm off dct) =
     word_tok ''SELECT'' # (if dct then [word_tok ''DISTINCT''] else []) @ separated (map body ps) @
     from_toks tab al (map join_toks joins) @ clause_toks ''WHERE'' wh (body wh) @
     group_toks (map body gs) (clause_toks ''HAVING'' hv (body hv)) @
     order_toks (map (\<lambda>p. (body (fst p), snd p)) items) @ limit_toks ''LIMIT'' lm @ limit_toks ''OFFSET'' off"
| "join_toks (JoinSpec tab al kind cond) =
     kind_toks kind @ ident_tok tab # alias_toks al @ word_tok ''ON'' # body cond"
  by pat_completeness auto
termination
  by (relation "measure (\<lambda>x. case x of Inl e \<Rightarrow> size e | Inr (Inl q) \<Rightarrow> size q | Inr (Inr j) \<Rightarrow> size j)")
    (auto simp: less_Suc_eq_le dest!: member_size item_size)

text \<open>
  The expressions and queries the parser can build: a function has a function word, a query without FROM has no
  alias and no joins, one without GROUP BY no HAVING, and the bounds of LIMIT and OFFSET are not negative.
\<close>

definition is_star :: "expr \<Rightarrow> bool" where
  "is_star e \<longleftrightarrow> (case e of Star _ \<Rightarrow> True | _ \<Rightarrow> False)"

definition conjunction :: "expr \<Rightarrow> bool" where
  "conjunction e \<longleftrightarrow> (case e of BinaryOp BAnd _ _ \<Rightarrow> True | _ \<Rightarrow> False)"

definition bound_ok :: "int option \<Rightarrow> bool" where
  "bound_ok b \<longleftrightarrow> (case b of None \<Rightarrow> True | Some n \<Rightarrow> 0 \<le> n)"

primrec printable :: "expr \<Rightarrow> bool" and printable_query :: "select \<Rightarrow> bool" and printable_join :: "join_spec \<Rightarrow> bool" where
  "printable Missing \<longleftrightarrow> False"
| "printable (Literal v) \<longleftrightarrow> True"
| "printable (ColumnRef name tab) \<longleftrightarrow> True"
| "printable (Star tab) \<longleftrightarrow> False"
| "printable (UnaryOp op e) \<longleftrightarrow> printable e"
| "printable (BinaryOp op a b) \<longleftrightarrow> printable a \<and> printable b \<and> (op = BBetween \<longrightarrow> conjunction b)"
| "printable (FuncCall name args dct star) \<longleftrightarrow>
     name \<in> set FUNC_WORDS \<and> list_all id (map printable args) \<and> (star \<longrightarrow> args = [])"
| "printable (Subquery q) \<longleftrightarrow> printable_query q"
| "printable (InSubquery e q negated) \<longleftrightarrow> printable e \<and> printable_query q"
| "printable (Exists q negated) \<longleftrightarrow> False"
| "printable_query (SelectStmt ps tab al joins wh gs hv items lm off dct) \<longleftrightarrow>
     ps \<noteq> [] \<and> list_all id (map (\<lambda>(e, ok). is_star e \<or> ok) (map (\<lambda>e. (e, printable e)) ps)) \<and>
     (tab = None \<longrightarrow> al = None \<and> joins = []) \<and> list_all id (map printable_join joins) \<and>
     (wh = Missing \<or> printable wh) \<and> list_all id (map printable gs) \<and> (hv = Missing \<or> printable hv) \<and>
     (gs = [] \<longrightarrow> hv = Missing) \<and> list_all id (map fst (map (map_prod printable id) items)) \<and> bound_ok lm \<and> bound_ok off"
| "printable_join (JoinSpec tab al kind cond) \<longleftrightarrow> printable cond"

section \<open>Statements\<close>

definition parens :: "token list \<Rightarrow> token list" where
  "parens ts = punct_tok ''('' # ts @ [punct_tok '')'']"

definition length_toks :: "int option \<Rightarrow> token list" where
  "length_toks b = (case b of None \<Rightarrow> [] | Some n \<Rightarrow> parens [literal_tok (VInt n)])"

fun constraint_toks :: "bool \<Rightarrow> bool \<Rightarrow> token list" where
  "constraint_toks True False = []"
| "constraint_toks False False = [word_tok ''NOT'', word_tok ''NULL'']"
| "constraint_toks False True = [word_tok ''PRIMARY'', word_tok ''KEY'']"
| "constraint_toks True True = [word_tok ''PRIMARY'', word_tok ''KEY'', word_tok ''NULL'']"

definition column_toks :: "column_def \<Rightarrow> token list" where
  "column_toks c =
     ident_tok (cd_name c) # word_tok (type_name (cd_type c)) # length_toks (cd_length c) @
     constraint_toks (cd_nullable c) (cd_primary_key c)"

definition columns_toks :: "string list option \<Rightarrow> token list" where
  "columns_toks cols = (case cols of None \<Rightarrow> [] | Some cs \<Rightarrow> parens (separated (map (\<lambda>c. [ident_tok c]) cs)))"

definition row_toks :: "expr list \<Rightarrow> token list" where
  "row_toks es = parens (separated (map body es))"

definition assign_toks :: "string \<times> expr \<Rightarrow> token list" where
  "assign_toks a = ident_tok (fst a) # punct_tok ''='' # body (snd a)"

definition level_toks :: "string option \<Rightarrow> token list" where
  "level_toks level =
     (case level of
        None \<Rightarrow> []
      | Some l \<Rightarrow> if l = ''SERIALIZABLE'' then [word_tok l] else [word_tok ''READ'', word_tok ''COMMITTED''])"

fun stmt_toks :: "statement \<Rightarrow> token list" where
  "stmt_toks (CreateTable tab cols) =
     word_tok ''CREATE'' # word_tok ''TABLE'' # ident_tok tab # parens (separated (map column_toks cols))"
| "stmt_toks (Insert tab cols rs) =
     word_tok ''INSERT'' # word_tok ''INTO'' # ident_tok tab # columns_toks cols @
     word_tok ''VALUES'' # separated (map row_toks rs)"
| "stmt_toks (Update tab assigns wh) =
     word_tok ''UPDATE'' # ident_tok tab # word_tok ''SET'' # separated (map assign_toks assigns) @
     clause_toks ''WHERE'' wh (body wh)"
| "stmt_toks (Delete tab wh) =
     word_tok ''DELETE'' # word_tok ''FROM'' # ident_tok tab # clause_toks ''WHERE'' wh (body wh)"
| "stmt_toks (Select q) = select_toks q"
| "stmt_toks (BeginStmt level) = word_tok ''BEGIN'' # level_toks level"
| "stmt_toks CommitStmt = [word_tok ''COMMIT'']"
| "stmt_toks RollbackStmt = [word_tok ''ROLLBACK'']"
| "stmt_toks ShowTables = [word_tok ''SHOW'', word_tok ''TABLES'']"
| "stmt_toks (Describe tab) = [word_tok ''DESCRIBE'', ident_tok tab]"

text \<open>The statements the parser can build: no empty lists where the grammar asks for an item.\<close>

fun printable_stmt :: "statement \<Rightarrow> bool" where
  "printable_stmt (CreateTable tab cols) \<longleftrightarrow> cols \<noteq> [] \<and> list_all (\<lambda>c. bound_ok (cd_length c)) cols"
| "printable_stmt (Insert tab cols rs) \<longleftrightarrow>
     cols \<noteq> Some [] \<and> rs \<noteq> [] \<and> list_all (\<lambda>es. es \<noteq> [] \<and> list_all printable es) rs"
| "printable_stmt (Update tab assigns wh) \<longleftrightarrow>
     assigns \<noteq> [] \<and> list_all (\<lambda>a. printable (snd a)) assigns \<and> (wh = Missing \<or> printable wh)"
| "printable_stmt (Delete tab wh) \<longleftrightarrow> wh = Missing \<or> printable wh"
| "printable_stmt (Select q) \<longleftrightarrow> printable_query q"
| "printable_stmt (BeginStmt level) \<longleftrightarrow> level \<in> {None, Some ''SERIALIZABLE'', Some ''READ COMMITTED''}"
| "printable_stmt s \<longleftrightarrow> True"

section \<open>Text\<close>

fun write_tok :: "token \<Rightarrow> string" where
  "write_tok t = (if tk_kind t = KIdent then dquote_char # tok_text t @ [dquote_char] else tok_text t)"

fun spaced :: "token list \<Rightarrow> string" where
  "spaced [] = []"
| "spaced [t] = write_tok t"
| "spaced (t # ts) = write_tok t @ '' '' @ spaced ts"

definition statement_text :: "statement \<Rightarrow> string" where
  "statement_text s = spaced (stmt_toks s)"

text \<open>
  What the text of a token can say: a quoted name has no double quote, since the lexer knows no escape in it, and
  a number is an int that is not negative; floats are left out.
\<close>

definition writable :: "token \<Rightarrow> bool" where
  "writable t \<longleftrightarrow>
     (case tk_kind t of
        KIdent \<Rightarrow> dquote_char \<notin> set (tok_text t)
      | KNumber \<Rightarrow> (case tk_literal t of Some (VInt n) \<Rightarrow> 0 \<le> n | _ \<Rightarrow> False)
      | _ \<Rightarrow> True)"

end
