(* ===== verification/ParserRoundtrip.thy ===== *)
theory ParserRoundtrip
  imports ParserFuel Printer
begin

text \<open>
  Parsing inverts the printer on expressions, level by level: the tokens of an expression are read back at the
  level of its operator, where the loop of that level goes on after them (\<open>reads_back\<close>). Operands are read
  back in their places, parenthesised or not; the queries inside an expression are those of QueryRoundtrip.
\<close>

section \<open>Productions by level\<close>

definition lev :: "nat \<Rightarrow> nat \<Rightarrow> expr parser" where
  "lev l n =
     (let pe = parse_expr n; ps = parse_select n
      in if l = 1 then parse_or pe ps else if l = 2 then parse_and pe ps
         else if l = 3 then parse_not (parse_comparison pe ps) else if l = 4 then parse_comparison pe ps
         else if l = 5 then parse_additive pe ps else if l = 6 then parse_multiplicative pe ps
         else if l = 7 then parse_unary (parse_primary pe ps) else parse_primary pe ps)"

text \<open>One round of the loop of a level: an operator and its operand.\<close>

definition chain_round :: "string \<Rightarrow> binop \<Rightarrow> expr parser \<Rightarrow> expr \<Rightarrow> expr option parser" where
  "chain_round word op operand acc =
     when_matched (match_word [word]) (bind_eff operand (\<lambda>r. ret (Some (BinaryOp op acc r)))) (ret None)"

definition left_round :: "(string \<Rightarrow> binop option) \<Rightarrow> expr parser \<Rightarrow> expr \<Rightarrow> expr option parser" where
  "left_round ops operand acc =
     bind_eff cur (\<lambda>t.
       case punct_op ops t of
         None \<Rightarrow> ret None
       | Some op \<Rightarrow> bind_eff advance (\<lambda>_. bind_eff operand (\<lambda>r. ret (Some (BinaryOp op acc r)))))"

definition level_round :: "nat \<Rightarrow> nat \<Rightarrow> expr \<Rightarrow> expr option parser" where
  "level_round l n =
     (if l = 1 then chain_round ''OR'' BOr (lev 2 n) else if l = 2 then chain_round ''AND'' BAnd (lev 3 n)
      else if l = 4 then comparison_step (lev 5 n) (parse_select n)
      else if l = 5 then left_round additive_op (lev 6 n) else if l = 6 then left_round multiplicative_op (lev 7 n)
      else (\<lambda>_. ret None))"

definition loop :: "nat \<Rightarrow> nat \<Rightarrow> expr \<Rightarrow> expr parser" where
  "loop l n = repeat_while (level_round l n)"

lemma repeat_none: "repeat_while (\<lambda>_. ret None) e = ret e"
  by (simp add: fun_eq_iff repeat_while_def)

lemma lev_simps:
  "lev 1 n = parse_or (parse_expr n) (parse_select n)"
  "lev 2 n = parse_and (parse_expr n) (parse_select n)"
  "lev 3 n = parse_not (parse_comparison (parse_expr n) (parse_select n))"
  "lev 4 n = parse_comparison (parse_expr n) (parse_select n)"
  "lev 5 n = parse_additive (parse_expr n) (parse_select n)"
  "lev 6 n = parse_multiplicative (parse_expr n) (parse_select n)"
  "lev 7 n = parse_unary (parse_primary (parse_expr n) (parse_select n))"
  "lev 8 n = parse_primary (parse_expr n) (parse_select n)"
  by (simp_all add: lev_def)

lemma round_simps:
  "level_round 1 n = chain_round ''OR'' BOr (lev 2 n)"
  "level_round 2 n = chain_round ''AND'' BAnd (lev 3 n)"
  "level_round 4 n = comparison_step (lev 5 n) (parse_select n)"
  "level_round 5 n = left_round additive_op (lev 6 n)"
  "level_round 6 n = left_round multiplicative_op (lev 7 n)"
  by (simp_all add: level_round_def)

lemma lev_loop:
  "lev 1 n = bind_eff (lev 2 n) (loop 1 n)" "lev 2 n = bind_eff (lev 3 n) (loop 2 n)"
  "lev 4 n = bind_eff (lev 5 n) (loop 4 n)" "lev 5 n = bind_eff (lev 6 n) (loop 5 n)"
  "lev 6 n = bind_eff (lev 7 n) (loop 6 n)"
  unfolding loop_def round_simps lev_simps chain_round_def left_round_def
  by (simp_all only: parse_or_def parse_and_def [symmetric] parse_chain_def parse_and_def parse_comparison_def
      parse_additive_def parse_multiplicative_def parse_left_def Let_def eta_contract_eq)

section \<open>Loops that are given tokens to go on with\<close>

lemma repeat_n_more: "repeat_n n f x ts = (ts', Inr y) \<Longrightarrow> n \<le> m \<Longrightarrow> repeat_n m f x ts = (ts', Inr y)"
proof (induction n arbitrary: m x ts)
  case (Suc n)
  then obtain m' where m: "m = Suc m'" "n \<le> m'" by (cases m) auto
  show ?case using Suc m
    by (auto simp: bind_eff_def ret_def split: prod.splits sum.splits option.splits)
qed (simp add: raise_def)

lemma repeat_stop: "f x ts = (ts', Inr None) \<Longrightarrow> repeat_while f x ts = (ts', Inr x)"
  by (simp add: repeat_while_def bind_eff_def ret_def)

lemma repeat_round:
  assumes "f x ts = (ts1, Inr (Some y))" "length ts1 < length ts" "repeat_while f y ts1 = (ts', Inr z)"
  shows "repeat_while f x ts = (ts', Inr z)"
proof -
  have "repeat_n (Suc (length ts1)) f y ts1 = (ts', Inr z)" using assms(3) by (simp add: repeat_while_def)
  then have "repeat_n (length ts) f y ts1 = (ts', Inr z)" by (rule repeat_n_more) (use assms(2) in simp)
  then show ?thesis using assms(1) by (simp add: repeat_while_def bind_eff_def)
qed

section \<open>Tokens that end an operand\<close>

definition tok_level :: "token \<Rightarrow> nat" where
  "tok_level t =
     (if is_tok KWord [''OR''] t then 1 else if is_tok KWord [''AND''] t then 2
      else if is_tok KWord [''NOT'', ''LIKE'', ''IN'', ''BETWEEN'', ''IS''] t \<or> punct_op comparison_op t \<noteq> None then 4
      else if punct_op additive_op t \<noteq> None then 5 else if punct_op multiplicative_op t \<noteq> None then 6
      else if is_tok KPunct [''.''] t then 9 else 0)"

definition stops :: "nat \<Rightarrow> token list \<Rightarrow> bool" where
  "stops l ts \<longleftrightarrow> (case ts of [] \<Rightarrow> False | t # _ \<Rightarrow> tok_level t \<le> l)"

lemma stops_Cons: "stops l (t # ts) \<longleftrightarrow> tok_level t \<le> l"
  by (simp add: stops_def)

lemma stops_cases: "stops l ts \<Longrightarrow> (\<And>t ts'. ts = t # ts' \<Longrightarrow> tok_level t \<le> l \<Longrightarrow> P) \<Longrightarrow> P"
  by (cases ts) (auto simp: stops_def)

lemma is_tok_word [simp]: "is_tok k vs (word_tok w) \<longleftrightarrow> k = KWord \<and> w \<in> set vs"
  by (auto simp: is_tok_def word_tok_def plain_token_def has_value_def)

lemma is_tok_punct [simp]: "is_tok k vs (punct_tok w) \<longleftrightarrow> k = KPunct \<and> w \<in> set vs"
  by (auto simp: is_tok_def punct_tok_def plain_token_def has_value_def)

lemma is_tok_ident [simp]: "is_tok k vs (ident_tok w) \<longleftrightarrow> k = KIdent \<and> w \<in> set vs"
  by (auto simp: is_tok_def ident_tok_def plain_token_def has_value_def)

lemma has_value_tok [simp]:
  "has_value vs (word_tok w) \<longleftrightarrow> w \<in> set vs" "has_value vs (punct_tok w) \<longleftrightarrow> w \<in> set vs"
  by (simp_all add: has_value_def word_tok_def punct_tok_def plain_token_def)

lemma tok_kinds [simp]:
  "tk_kind (word_tok w) = KWord" "tk_kind (punct_tok w) = KPunct" "tk_kind (ident_tok w) = KIdent"
  "tok_text (word_tok w) = w" "tok_text (punct_tok w) = w" "tok_text (ident_tok w) = w"
  by (simp_all add: word_tok_def punct_tok_def ident_tok_def plain_token_def tok_text_def)

lemma punct_op_word [simp]: "punct_op ops (word_tok w) = None" "punct_op ops (ident_tok w) = None" "punct_op ops (punct_tok p) = ops p"
  by (simp_all add: punct_op_def)

lemma no_words:
  assumes "\<not> is_tok KWord vs t" "set ws \<subseteq> set vs"
  shows "\<not> is_tok KWord ws t"
  using assms by (auto simp: is_tok_def has_value_def split: option.splits)

lemma ops_disjoint:
  "additive_op v = Some a \<Longrightarrow> comparison_op v = None"
  "multiplicative_op v = Some a \<Longrightarrow> comparison_op v = None \<and> additive_op v = None"
  by (auto simp: comparison_op_def additive_op_def multiplicative_op_def split: if_splits)

lemma punct_no_word: "punct_op ops t = Some op \<Longrightarrow> \<not> is_tok KWord vs t"
  by (auto simp: punct_op_def is_tok_def split: if_splits)

lemma punct_levels:
  "is_tok KWord [''AND''] t \<Longrightarrow> tok_level t = 2"
  "is_tok KWord [''NOT'', ''LIKE'', ''IN'', ''BETWEEN'', ''IS''] t \<Longrightarrow> tok_level t = 4"
  "punct_op comparison_op t = Some op \<Longrightarrow> tok_level t = 4"
  "punct_op additive_op t = Some op \<Longrightarrow> tok_level t = 5" "punct_op multiplicative_op t = Some op \<Longrightarrow> tok_level t = 6"
proof -
  show "tok_level t = 2" if "is_tok KWord [''AND''] t"
    using that by (auto simp: tok_level_def is_tok_def has_value_def split: option.splits)
  show "tok_level t = 4" if "is_tok KWord [''NOT'', ''LIKE'', ''IN'', ''BETWEEN'', ''IS''] t"
    using that by (auto simp: tok_level_def is_tok_def has_value_def split: option.splits)
  show "tok_level t = 4" if t: "punct_op comparison_op t = Some op"
    using t punct_no_word [OF t] by (simp add: tok_level_def)
  show "tok_level t = 5" if t: "punct_op additive_op t = Some op"
  proof -
    have "punct_op comparison_op t = None" using t ops_disjoint(1) by (simp add: punct_op_def split: if_splits)
    then show ?thesis using t punct_no_word [OF t] by (simp add: tok_level_def)
  qed
  show "tok_level t = 6" if t: "punct_op multiplicative_op t = Some op"
  proof -
    have "punct_op comparison_op t = None" "punct_op additive_op t = None"
      using t ops_disjoint(2) by (simp_all add: punct_op_def split: if_splits)
    then show ?thesis using t punct_no_word [OF t] by (simp add: tok_level_def)
  qed
qed

lemma comparison_stop:
  assumes "\<not> is_tok KWord [''NOT'', ''LIKE'', ''IN'', ''BETWEEN'', ''IS''] t" "punct_op comparison_op t = None"
  shows "comparison_step operand ps e (t # ts) = (t # ts, Inr None)"
proof -
  have "\<not> is_tok KWord [w] t" if "w \<in> {''NOT'', ''LIKE'', ''IN'', ''BETWEEN'', ''IS''}" for w
    using no_words [OF assms(1), of "[w]"] that by auto
  then have w: "\<not> is_tok KWord [''NOT''] t" "\<not> is_tok KWord [''LIKE''] t" "\<not> is_tok KWord [''IN''] t"
    "\<not> is_tok KWord [''BETWEEN''] t" "\<not> is_tok KWord [''IS''] t" by simp_all
  then show ?thesis
    by (simp add: comparison_step_def bind_eff_def match_tok_at cur_def assms(2) when_matched_def ret_def)
qed

lemma round_stop:
  assumes "tok_level t < l"
  shows "level_round l n e (t # ts) = (t # ts, Inr None)"
proof -
  have words: "\<not> is_tok KWord [''OR''] t" if "l = 1" using assms that by (auto simp: tok_level_def split: if_splits)
  have words2: "\<not> is_tok KWord [''AND''] t" if "l = 2"
    using assms that punct_levels(1) by fastforce
  consider "l = 1" | "l = 2" | "l = 4" | "l = 5" | "l = 6" | "l \<notin> {1, 2, 4, 5, 6}" by blast
  then show ?thesis
  proof cases
    case 3
    have "\<not> is_tok KWord [''NOT'', ''LIKE'', ''IN'', ''BETWEEN'', ''IS''] t" "punct_op comparison_op t = None"
      using assms 3 punct_levels(2,3) by fastforce+
    then show ?thesis unfolding 3 round_simps by (rule comparison_stop)
  next
    case 4
    have "punct_op additive_op t = None" using assms 4 punct_levels(4) by fastforce
    then show ?thesis unfolding 4 round_simps by (simp add: left_round_def bind_cur ret_def)
  next
    case 5
    have "punct_op multiplicative_op t = None" using assms 5 punct_levels(5) by fastforce
    then show ?thesis unfolding 5 round_simps by (simp add: left_round_def bind_cur ret_def)
  qed (use words words2 in \<open>auto simp: level_round_def chain_round_def when_matched_at ret_def\<close>)
qed

lemma loop_stop: "tok_level t < l \<Longrightarrow> loop l n e (t # ts) = (t # ts, Inr e)"
  unfolding loop_def by (rule repeat_stop) (rule round_stop)

lemma loop_idle: "l \<in> {3, 7, 8} \<Longrightarrow> loop l n e ts = (ts, Inr e)"
  unfolding loop_def by (rule repeat_stop) (auto simp: level_round_def ret_def)

lemma loop_stops: "stops l ts \<Longrightarrow> l < l' \<Longrightarrow> loop l' n e ts = (ts, Inr e)"
  by (erule stops_cases) (simp add: loop_stop)

section \<open>The first token of an expression\<close>

definition starter :: "nat \<Rightarrow> token \<Rightarrow> bool" where
  "starter l t \<longleftrightarrow> \<not> is_tok KWord [''SELECT'', ''DISTINCT''] t \<and> \<not> is_tok KPunct ['')'', ''*''] t \<and>
     (3 < l \<longrightarrow> \<not> is_tok KWord [''NOT''] t) \<and> (7 < l \<longrightarrow> \<not> is_tok KPunct [''-'', ''+''] t)"

lemma starter_mono: "starter l t \<Longrightarrow> k \<le> l \<Longrightarrow> starter k t"
  by (auto simp: starter_def)

lemma enclose_head:
  assumes "\<exists>t ts. body e = t # ts \<and> starter (expr_level e) t"
  shows "\<exists>t ts. enclose l e (body e) = t # ts \<and> starter l t"
proof (cases "expr_level e < l")
  case True
  then show ?thesis by (simp add: enclose_def starter_def)
next
  case False
  then have "l \<le> expr_level e" by simp
  then show ?thesis using assms starter_mono by (auto simp: enclose_def)
qed

lemma level_bounds: "0 < expr_level e" "expr_level e \<le> 8"
proof -
  have "0 < binop_level op \<and> binop_level op \<le> 8" for op by (cases op) auto
  then show "0 < expr_level e" "expr_level e \<le> 8" by (cases e rule: expr_level.cases; simp)+
qed

lemma conjunction_cases: "conjunction b \<Longrightarrow> (\<And>lo hi. b = BinaryOp BAnd lo hi \<Longrightarrow> P) \<Longrightarrow> P"
  by (cases b) (simp_all add: conjunction_def split: binop.splits)

lemma body_binop:
  "op \<noteq> BBetween \<Longrightarrow> body (BinaryOp op a b) =
     enclose (binop_level op) a (body a) @ binop_toks op @ enclose (Suc (binop_level op)) b (body b)"
  by (cases op) simp_all

lemma body_head: "printable e \<Longrightarrow> \<exists>t ts. body e = t # ts \<and> starter (expr_level e) t"
proof (induction "size e" arbitrary: e rule: less_induct)
  case less
  have inner: "\<exists>t ts. enclose l a (body a) = t # ts \<and> starter l t" if "size a < size e" "printable a" for a l
    using less.hyps that by (intro enclose_head)
  show ?case
  proof (cases e)
    case (Literal v)
    then show ?thesis by (cases v) (auto simp: literal_tok_def starter_def is_tok_def)
  next
    case (ColumnRef name tab)
    then show ?thesis by (auto simp: starter_def name_toks_def split: option.splits)
  next
    case (UnaryOp op a)
    then obtain t ts where "enclose 4 a (body a) = t # ts" "starter 4 t" using less.prems inner [of a 4] by auto
    then show ?thesis using UnaryOp by (cases op) (simp_all add: starter_def)
  next
    case (BinaryOp op a b)
    then have head: "\<exists>t ts. enclose l a (body a) = t # ts \<and> starter l t" for l using less.prems inner [of a l] by simp
    show ?thesis
    proof (cases "op = BBetween")
      case True
      then have "conjunction b" using less.prems BinaryOp by simp
      then obtain lo hi where "b = BinaryOp BAnd lo hi" by (rule conjunction_cases)
      moreover obtain t ts where "enclose 4 a (body a) = t # ts" "starter 4 t" using head [of 4] by blast
      ultimately show ?thesis using True BinaryOp by simp
    next
      case False
      moreover obtain t ts where "enclose (binop_level op) a (body a) = t # ts" "starter (binop_level op) t"
        using head [of "binop_level op"] by blast
      ultimately show ?thesis using BinaryOp by (simp add: body_binop)
    qed
  next
    case (InSubquery a q negated)
    then obtain t ts where "enclose 4 a (body a) = t # ts" "starter 4 t" using less.prems inner [of a 4] by auto
    then show ?thesis using InSubquery by simp
  qed (use less.prems in \<open>auto simp: starter_def FUNC_WORDS_def\<close>)
qed

section \<open>From a level down to a looser one\<close>

lemma lev_not: "\<not> is_tok KWord [''NOT''] t \<Longrightarrow> lev 3 n (t # ts) = lev 4 n (t # ts)"
  by (simp add: lev_simps)

lemma lev_sign: "\<not> is_tok KPunct [''-'', ''+''] t \<Longrightarrow> lev 7 n (t # ts) = lev 8 n (t # ts)"
  by (auto simp: lev_simps is_tok_def has_value_def split: option.splits)

lemma descend_one:
  assumes "lev (Suc l) n (t # ts) = (rest, Inr e)" "0 < l" "l < 8" "starter (Suc l) t"
  shows "lev l n (t # ts) = loop l n e rest"
proof -
  consider "l = 3" | "l = 7" | "l \<in> {1, 2, 4, 5, 6}" using assms(2,3) by force
  then show ?thesis
  proof cases
    case 1
    then show ?thesis using assms lev_not [of t n ts] loop_idle [of 3] by (simp add: starter_def)
  next
    case 2
    then show ?thesis using assms lev_sign [of t n ts] loop_idle [of 7] by (simp add: starter_def)
  next
    case 3
    then have "lev l n = bind_eff (lev (Suc l) n) (loop l n)" using lev_loop by (auto simp: eval_nat_numeral)
    then show ?thesis using assms(1) by (simp add: bind_eff_def)
  qed
qed

lemma stops_mono: "stops l ts \<Longrightarrow> l \<le> l' \<Longrightarrow> stops l' ts"
  by (auto simp: stops_def split: list.splits)

lemma descend:
  assumes "lev l0 n (t # ts) = (rest, Inr e)" "0 < l" "l < l0" "l0 \<le> 8" "stops l rest" "starter l0 t"
  shows "lev l n (t # ts) = loop l n e rest"
proof -
  obtain d where "l0 = l + Suc d" using assms(3) less_iff_Suc_add by auto
  then show ?thesis using assms(2,5)
  proof (induction d arbitrary: l)
    case 0
    then show ?case using descend_one [of l n t ts rest e] assms(1,4,6) by simp
  next
    case (Suc d)
    have "lev (Suc l) n (t # ts) = loop (Suc l) n e rest" using Suc.IH [of "Suc l"] Suc.prems stops_mono by simp
    then have "lev (Suc l) n (t # ts) = (rest, Inr e)" using loop_stops [OF Suc.prems(3)] by simp
    then show ?case using descend_one [of l n t ts rest e] Suc.prems assms(4) starter_mono [OF assms(6)] by simp
  qed
qed

section \<open>The round trip, level by level\<close>

text \<open>The expression is read back at its own level, where the loop of that level goes on after it.\<close>

definition reads_back :: "expr \<Rightarrow> bool" where
  "reads_back e \<longleftrightarrow> (\<forall>n rest r x. size e \<le> n \<longrightarrow> stops (expr_level e) rest \<longrightarrow>
     loop (expr_level e) n e rest = (r, Inr x) \<longrightarrow> lev (expr_level e) n (body e @ rest) = (r, Inr x))"

lemma reads_looser:
  assumes "reads_back e" "printable e" "size e \<le> n" "0 < l" "l \<le> expr_level e" "stops l rest" "loop l n e rest = (r, Inr x)"
  shows "lev l n (body e @ rest) = (r, Inr x)"
proof (cases "l = expr_level e")
  case True
  then show ?thesis using assms by (auto simp: reads_back_def)
next
  case False
  then have less: "l < expr_level e" using assms(5) by simp
  obtain t ts where t: "body e = t # ts" "starter (expr_level e) t" using body_head [OF assms(2)] by blast
  have "lev (expr_level e) n (body e @ rest) = (rest, Inr e)"
    using assms(1,3) stops_mono [OF assms(6), of "expr_level e"] loop_stops [OF assms(6) less] less
    by (simp add: reads_back_def)
  then show ?thesis
    using descend [of "expr_level e" n t "ts @ rest" rest e l] assms(4,6,7) less level_bounds t by simp
qed

lemma stops_close [simp]: "stops l (punct_tok '')'' # rest)" "stops l (punct_tok '','' # rest)"
  by (simp_all add: stops_Cons tok_level_def comparison_op_def additive_op_def multiplicative_op_def)

lemma paren_primary:
  assumes "reads_back e" "printable e" "size e < n"
  shows "lev 8 n (punct_tok ''('' # body e @ punct_tok '')'' # rest) = (rest, Inr e)"
proof -
  obtain m where n: "n = Suc m" using assms(3) by (cases n) auto
  obtain t ts where t: "body e = t # ts" "starter (expr_level e) t" using body_head [OF assms(2)] by blast
  have "lev 1 m (body e @ punct_tok '')'' # rest) = (punct_tok '')'' # rest, Inr e)"
    using reads_looser [OF assms(1,2), of m 1] assms(3) n level_bounds(1) [of e]
      loop_stop [of "punct_tok '')''" 1] stops_close(1) [of 0]
    by (simp add: stops_Cons)
  then have pe: "parse_expr n (body e @ punct_tok '')'' # rest) = (punct_tok '')'' # rest, Inr e)"
    by (simp only: n lev_simps parse_expr.simps)
  have "\<not> is_tok KWord [''SELECT''] t" using t(2) no_words [of "[''SELECT'', ''DISTINCT'']" t "[''SELECT'']"] by (simp add: starter_def)
  then have "bind_eff (check KWord [''SELECT'']) f (body e @ punct_tok '')'' # rest) = f False (body e @ punct_tok '')'' # rest)" for f :: "bool \<Rightarrow> expr parser"
    by (simp add: t(1) check_def bind_eff_def cur_def ret_def)
  then show ?thesis
    using pe by (simp add: lev_simps parse_primary_def bind_cur when_matched_at) (simp add: bind_eff_def expect_at ret_def)
qed

lemma reads_enclosed:
  assumes "reads_back e" "printable e" "size e < n" "0 < l" "l \<le> 8" "stops l rest" "loop l n e rest = (r, Inr x)"
  shows "lev l n (enclose l e (body e) @ rest) = (r, Inr x)"
proof (cases "expr_level e < l")
  case False
  then show ?thesis using reads_looser [OF assms(1,2) _ assms(4) _ assms(6,7)] assms(3) by (simp add: enclose_def)
next
  case True
  have p: "lev 8 n (punct_tok ''('' # body e @ punct_tok '')'' # rest) = (rest, Inr e)"
    by (rule paren_primary [OF assms(1-3)])
  have s: "starter 8 (punct_tok ''('')" by (simp add: starter_def)
  show ?thesis
  proof (cases "l = 8")
    case True
    then show ?thesis using p assms(7) loop_idle [of 8] \<open>expr_level e < l\<close> by (simp add: enclose_def)
  next
    case False
    then show ?thesis using descend [OF p assms(4) _ _ assms(6) s] assms(5,7) True by (simp add: enclose_def)
  qed
qed

section \<open>Steps on given tokens\<close>

lemma bind_via: "p ts = (ts', Inr x) \<Longrightarrow> bind_eff p f ts = f x ts'"
  by (simp add: bind_eff_def)

lemma bind_nested: "bind_eff (bind_eff p f) g ts = bind_eff p (\<lambda>x. bind_eff (f x) g) ts"
  by (simp add: bind_eff_def split: prod.splits sum.splits)

lemma bind_when:
  "k \<noteq> KEof \<Longrightarrow> bind_eff (when_matched (match_tok k vs) p q) f (t # ts) =
     (if is_tok k vs t then bind_eff p f ts else bind_eff q f (t # ts))"
  by (simp add: when_matched_at bind_eff_def)

lemma bind_ret_at: "bind_eff (ret x) f ts = f x ts" "ret x ts = (ts, Inr x)"
  by (simp_all add: bind_eff_def ret_def)

lemma bind_advance: "tk_kind t \<noteq> KEof \<Longrightarrow> bind_eff advance f (t # ts) = f t ts"
  by (simp add: bind_eff_def advance_at)

lemma bind_check: "bind_eff (check k vs) f (t # ts) = f (is_tok k vs t) (t # ts)"
  by (simp add: check_def bind_eff_def cur_def ret_def)

lemma bind_match:
  "k \<noteq> KEof \<Longrightarrow> bind_eff (match_tok k vs) f (t # ts) = (if is_tok k vs t then f True ts else f False (t # ts))"
  by (auto simp: match_tok_at bind_eff_def is_tok_def)

lemma bind_expect: "k \<noteq> KEof \<Longrightarrow> is_tok k [v] t \<Longrightarrow> bind_eff (expect k v) f (t # ts) = f t ts"
  by (auto simp: bind_eff_def expect_at is_tok_def)

lemmas at_steps = bind_cur bind_nested bind_when bind_ret_at bind_advance bind_check bind_match bind_expect when_matched_at

section \<open>Primaries\<close>

lemma literal_reads: "reads_back (Literal v)"
proof -
  have "lev 8 n (literal_tok v # rest) = (rest, Inr (Literal v))" for n rest
    by (cases v) (simp_all add: literal_tok_def lev_simps parse_primary_def at_steps)
  then show ?thesis using loop_idle [of 8] by (auto simp: reads_back_def)
qed

lemma column_reads: "reads_back (ColumnRef name tab)"
proof -
  have "lev 8 n (body (ColumnRef name tab) @ t # rest) = (t # rest, Inr (ColumnRef name tab))"
    if "\<not> is_tok KPunct [''.''] t" for n t rest
    using that
    by (cases tab) (simp_all add: lev_simps parse_primary_def parse_column_ref_def at_steps name_toks_def)
  moreover have "\<not> is_tok KPunct [''.''] t" if "tok_level t \<le> 8" for t
    using that unfolding tok_level_def by (auto split: if_splits simp: is_tok_def has_value_def punct_op_def comparison_op_def additive_op_def multiplicative_op_def tok_text_def split: option.splits)
  ultimately show ?thesis using loop_idle [of 8]
    by (auto simp: reads_back_def stops_def simp del: body.simps split: list.splits)
qed

lemma comma_round:
  assumes "\<And>x t more. x \<in> set xs \<Longrightarrow> Q t \<Longrightarrow> p (g x @ t # more) = (t # more, Inr x)"
    and "Q t" "Q (punct_tok '','')" "\<not> is_tok KPunct ['',''] t"
  shows "repeat_while (\<lambda>acc. when_matched (match_punct '','') (bind_eff p (\<lambda>y. ret (Some (acc @ [y])))) (ret None))
      acc (concat (map (\<lambda>x. punct_tok '','' # g x) xs) @ t # rest) = (t # rest, Inr (acc @ xs))"
  using assms(1)
proof (induction xs arbitrary: acc)
  case Nil
  show ?case using assms(4) by (auto intro!: repeat_stop simp: when_matched_at ret_def)
next
  case (Cons x xs)
  obtain u more where u: "concat (map (\<lambda>x. punct_tok '','' # g x) xs) @ t # rest = u # more" "Q u"
    using assms(2,3) by (cases xs) auto
  have px: "p (g x @ u # more) = (u # more, Inr x)" using Cons.prems u(2) by simp
  show ?case
    by (rule repeat_round [of _ _ _ "u # more" "acc @ [x]"])
      (use Cons.IH [of "acc @ [x]"] Cons.prems u(1) in \<open>simp_all add: at_steps bind_via [where p = p, OF px]\<close>)
qed

lemma separated_Cons: "separated (ts # tss) = ts @ concat (map (\<lambda>us. punct_tok '','' # us) tss)"
  by (induction tss arbitrary: ts) auto

lemma comma_reads:
  assumes "\<And>x t more. x \<in> set xs \<Longrightarrow> Q t \<Longrightarrow> p (g x @ t # more) = (t # more, Inr x)"
    and "Q t" "Q (punct_tok '','')" "\<not> is_tok KPunct ['',''] t" "xs \<noteq> []"
  shows "comma_list p (separated (map g xs) @ t # rest) = (t # rest, Inr xs)"
proof -
  obtain y ys where xs: "xs = y # ys" using assms(5) by (cases xs) auto
  obtain u more where u: "concat (map (\<lambda>x. punct_tok '','' # g x) ys) @ t # rest = u # more" "Q u"
    using assms(2,3) by (cases ys) auto
  have "p (g y @ u # more) = (u # more, Inr y)" using assms(1) [of y u more] xs u(2) by simp
  then show ?thesis
    using comma_round [of ys Q p g t "[y]" rest] assms(1-4) xs u(1)
    by (simp add: comma_list_def bind_eff_def separated_Cons o_def)
qed

lemma func_word_facts:
  assumes "name \<in> set FUNC_WORDS"
  shows "name \<notin> {''NULL'', ''TRUE'', ''FALSE''}"
  using assms by (auto simp: FUNC_WORDS_def)

lemma func_primary:
  assumes "name \<in> set FUNC_WORDS"
  shows "parse_primary pe ps (word_tok name # ts) = parse_func pe (word_tok name # ts)"
  using assms func_word_facts [OF assms] by (simp add: parse_primary_def bind_cur when_matched_at)

lemma func_reads:
  assumes "printable (FuncCall name args dct star)" "\<And>a. a \<in> set args \<Longrightarrow> reads_back a"
  shows "reads_back (FuncCall name args dct star)"
proof -
  let ?e = "FuncCall name args dct star"
  have "lev 8 n (body ?e @ rest) = (rest, Inr ?e)" if n: "size ?e \<le> n" for n rest
  proof -
    obtain m where m: "n = Suc m" using n by (cases n) auto
    have arg: "parse_expr n (body a @ t # more) = (t # more, Inr a)" if "a \<in> set args" "stops 0 (t # more)" for a t more
    proof -
      have "printable a" using assms(1) that(1) by (auto simp: list_all_iff)
      moreover have "size a \<le> m" using member_size [OF that(1)] n m by simp
      ultimately have "lev 1 m (body a @ t # more) = (t # more, Inr a)"
        using reads_looser [of a m 1] assms(2) [OF that(1)] level_bounds(1) [of a] stops_mono [OF that(2), of 1]
          loop_stops [OF that(2), of 1] by simp
      then show ?thesis by (simp only: m lev_simps parse_expr.simps)
    qed
    have close: "comma_list (parse_expr n) (separated (map body args) @ punct_tok '')'' # rest) = (punct_tok '')'' # rest, Inr args)"
      if "args \<noteq> []" using comma_reads [of args "\<lambda>t. tok_level t = 0" "parse_expr n" body "punct_tok '')''" rest] arg that stops_close [of 0]
        by (simp add: stops_Cons)
    have not_close: "\<exists>t ts. separated (map body args) = t # ts \<and> \<not> is_tok KPunct ['')'', ''*''] t \<and> \<not> is_tok KWord [''SELECT'', ''DISTINCT''] t"
      if "args \<noteq> []" "\<not> star"
    proof -
      obtain a as where a: "args = a # as" using \<open>args \<noteq> []\<close> by (cases args) auto
      have "printable a" using assms(1) a by simp
      from body_head [OF this] show ?thesis by (auto simp: a separated_Cons starter_def)
    qed
    have arguments: "bind_eff
         (when_matched (match_punct ''*'') (ret ([], True))
            (bind_eff (check KPunct ['')'']) (\<lambda>close.
               if close then ret ([], False) else bind_eff (comma_list (parse_expr n)) (\<lambda>args. ret (args, False))))) f
         ((if star then [punct_tok ''*''] else separated (map body args)) @ punct_tok '')'' # rest) =
       f (args, star) (punct_tok '')'' # rest)" for f :: "expr list \<times> bool \<Rightarrow> expr parser"
    proof (cases "star \<or> args = []")
      case True
      then show ?thesis using assms(1) by (cases star) (auto simp: at_steps)
    next
      case False
      then obtain t ts where t: "separated (map body args) = t # ts" "\<not> is_tok KPunct ['')'', ''*''] t"
        using not_close by blast
      then have "\<not> is_tok KPunct ['')''] t" "\<not> is_tok KPunct [''*''] t" by (auto simp: is_tok_def has_value_def split: option.splits)
      moreover have "args \<noteq> []" "\<not> star" using False by simp_all
      ultimately show ?thesis using t(1) bind_via [where p = "comma_list (parse_expr n)", OF close [OF \<open>args \<noteq> []\<close>]] by (simp add: at_steps)
    qed
    have distinct: "bind_eff (match_word [''DISTINCT'']) f
         ((if dct then [word_tok ''DISTINCT''] else []) @
          (if star then [punct_tok ''*''] else separated (map body args)) @ punct_tok '')'' # rest) =
       f dct ((if star then [punct_tok ''*''] else separated (map body args)) @ punct_tok '')'' # rest)" for f :: "bool \<Rightarrow> expr parser"
    proof (cases "dct \<or> star \<or> args = []")
      case True
      then show ?thesis by (auto simp: at_steps)
    next
      case False
      then obtain t ts where t: "separated (map body args) = t # ts" "\<not> is_tok KWord [''SELECT'', ''DISTINCT''] t"
        using not_close by blast
      then have "\<not> is_tok KWord [''DISTINCT''] t" by (auto simp: is_tok_def has_value_def split: option.splits)
      then show ?thesis using False t(1) by (simp add: at_steps)
    qed
    show ?thesis
      using assms(1) by (simp add: lev_simps func_primary parse_func_def at_steps distinct arguments)
  qed
  then show ?thesis using loop_idle [of 8] by (auto simp: reads_back_def)
qed

section \<open>Operators\<close>

lemma op_round:
  assumes "op \<noteq> BBetween" "lev (Suc (binop_level op)) n (ts @ rest) = (rest, Inr b)"
  shows "level_round (binop_level op) n a (binop_toks op @ ts @ rest) = (rest, Inr (Some (BinaryOp op a b)))"
proof -
  show ?thesis
    using assms
    by (cases op) (simp_all add: level_round_def eval_nat_numeral chain_round_def left_round_def additive_op_def multiplicative_op_def comparison_step_def
        comparison_op_def at_steps bind_via [where p = "lev _ n"])
qed

lemma level_of_op: "binop_level op \<in> {1, 2, 4, 5, 6}"
  by (cases op) simp_all

lemma op_stops: "op \<noteq> BBetween \<Longrightarrow> stops (binop_level op) (binop_toks op @ ts)"
  by (cases op) (simp_all add: stops_Cons tok_level_def comparison_op_def additive_op_def multiplicative_op_def)

lemma loop_round:
  assumes "level_round l n e ts = (ts', Inr (Some e'))" "length ts' < length ts" "loop l n e' ts' = (r, Inr x)"
  shows "loop l n e ts = (r, Inr x)"
  using assms unfolding loop_def by (rule repeat_round)

text \<open>An operand in its place is read back, up to a token of a looser level.\<close>

lemma operand_reads:
  assumes "reads_back e" "printable e" "size e < n" "0 < k" "k < l" "l \<le> 8" "stops k rest"
  shows "lev l n (enclose l e (body e) @ rest) = (rest, Inr e)"
  using reads_enclosed [OF assms(1-3) _ assms(6) _ loop_stops [OF assms(7,5)]] stops_mono [OF assms(7)] assms(4,5) by simp

lemma binop_reads:
  assumes "op \<noteq> BBetween" "reads_back a" "printable a" "reads_back b" "printable b"
  shows "reads_back (BinaryOp op a b)"
  unfolding reads_back_def
proof (intro allI impI)
  fix n rest r x
  let ?l = "binop_level op" and ?e = "BinaryOp op a b"
  assume n: "size ?e \<le> n" and rest: "stops (expr_level ?e) rest" and next_round: "loop (expr_level ?e) n ?e rest = (r, Inr x)"
  have l: "0 < ?l" "?l < Suc ?l" "Suc ?l \<le> 8" using level_of_op [of op] by auto
  have sizes: "size a < n" "size b < n" using n by simp_all
  let ?more = "binop_toks op @ enclose (Suc ?l) b (body b) @ rest"
  have "lev (Suc ?l) n (enclose (Suc ?l) b (body b) @ rest) = (rest, Inr b)"
    using operand_reads [OF assms(4,5) sizes(2) l] rest by simp
  then have "level_round ?l n a ?more = (rest, Inr (Some ?e))" by (rule op_round [OF assms(1)])
  moreover have "length rest < length ?more" by (cases op) (simp_all add: assms(1))
  ultimately have "loop ?l n a ?more = (r, Inr x)" using loop_round next_round by simp
  then have "lev ?l n (enclose ?l a (body a) @ ?more) = (r, Inr x)"
    using reads_enclosed [OF assms(2,3) sizes(1) l(1) _ op_stops [OF assms(1)]] l(3) by simp
  then show "lev (expr_level ?e) n (body ?e @ rest) = (r, Inr x)" by (simp add: body_binop [OF assms(1)])
qed

lemma between_reads:
  assumes "reads_back a" "printable a" "reads_back lo" "printable lo" "reads_back hi" "printable hi"
  shows "reads_back (BinaryOp BBetween a (BinaryOp BAnd lo hi))"
  unfolding reads_back_def
proof (intro allI impI)
  fix n rest r x
  let ?e = "BinaryOp BBetween a (BinaryOp BAnd lo hi)"
  assume n: "size ?e \<le> n" and rest: "stops (expr_level ?e) rest" and next_round: "loop (expr_level ?e) n ?e rest = (r, Inr x)"
  have sizes: "size a < n" "size lo < n" "size hi < n" using n by simp_all
  let ?high = "enclose 5 hi (body hi) @ rest"
  let ?low = "enclose 5 lo (body lo) @ word_tok ''AND'' # ?high"
  have "stops 2 (word_tok ''AND'' # ?high)" "stops 4 (word_tok ''BETWEEN'' # ?low)" by (simp_all add: stops_Cons tok_level_def)
  then have "lev 5 n ?low = (word_tok ''AND'' # ?high, Inr lo)" and stop: "stops 4 (word_tok ''BETWEEN'' # ?low)"
    using operand_reads [OF assms(3,4) sizes(2), of 2 5] by simp_all
  moreover have "lev 5 n ?high = (rest, Inr hi)" using operand_reads [OF assms(5,6) sizes(3), of 4 5] rest by simp
  ultimately have "level_round 4 n a (word_tok ''BETWEEN'' # ?low) = (rest, Inr (Some ?e))"
    by (simp add: round_simps comparison_step_def at_steps bind_via [where p = "lev 5 n"] between_expr_def)
  then have "loop 4 n a (word_tok ''BETWEEN'' # ?low) = (r, Inr x)" using loop_round next_round by simp
  then show "lev (expr_level ?e) n (body ?e @ rest) = (r, Inr x)"
    using reads_enclosed [OF assms(1,2) sizes(1) _ _ stop] by simp
qed

lemma postfix_reads:
  assumes "reads_back e" "printable e" "op = UIsNull \<or> op = UIsNotNull"
  shows "reads_back (UnaryOp op e)"
  unfolding reads_back_def
proof (intro allI impI)
  fix n rest r x
  let ?e = "UnaryOp op e" and ?tail = "word_tok ''IS'' # (if op = UIsNull then [] else [word_tok ''NOT'']) @ [word_tok ''NULL'']"
  assume n: "size ?e \<le> n" and rest: "stops (expr_level ?e) rest" and next_round: "loop (expr_level ?e) n ?e rest = (r, Inr x)"
  have level: "expr_level ?e = 4" and body: "body ?e = enclose 4 e (body e) @ ?tail" using assms(3) by auto
  have stop: "stops 4 (?tail @ rest)" by (simp add: stops_Cons tok_level_def)
  have "level_round 4 n e (?tail @ rest) = (rest, Inr (Some ?e))"
    using assms(3) by (auto simp: round_simps comparison_step_def at_steps parse_is_def comparison_op_def)
  then have "loop 4 n e (?tail @ rest) = (r, Inr x)" using loop_round [of 4 n e "?tail @ rest"] next_round level by simp
  then show "lev (expr_level ?e) n (body ?e @ rest) = (r, Inr x)"
    using reads_enclosed [OF assms(1,2) _ _ _ stop] n level body by simp
qed

lemma prefix_reads:
  assumes "reads_back e" "printable e" "op = UMinus \<or> op = UNot"
  shows "reads_back (UnaryOp op e)"
  unfolding reads_back_def
proof (intro allI impI)
  fix n rest r x
  let ?e = "UnaryOp op e" and ?l = "expr_level (UnaryOp op e)"
  assume n: "size ?e \<le> n" and rest: "stops ?l rest" and next_round: "loop ?l n ?e rest = (r, Inr x)"
  have l: "?l \<in> {3, 7, 8}" using assms(3) by auto
  have x: "r = rest" "x = ?e" using next_round loop_idle [OF l] by auto
  have "lev ?l n (enclose ?l e (body e) @ rest) = (rest, Inr e)"
    using reads_enclosed [OF assms(1,2) _ _ _ rest loop_idle [OF l]] n level_bounds [of ?e] by simp
  then show "lev ?l n (body ?e @ rest) = (r, Inr x)"
    using assms(3) x by (auto simp: lev_simps wrapped_def)
qed

end
