(* ===== verification/QueryRoundtrip.thy ===== *)
theory QueryRoundtrip
  imports ParserRoundtrip
begin

text \<open>
  Parsing inverts the printer on queries, clause by clause, for any parser \<open>pe\<close> of expressions that reads the
  expressions of the query back (\<open>reads\<close>), and so on expressions with subqueries.
\<close>

section \<open>Where a clause ends\<close>

text \<open>The next token is one of the given keywords, the EOF token or a closing parenthesis.\<close>

definition ends_at :: "string list \<Rightarrow> token \<Rightarrow> bool" where
  "ends_at ws t \<longleftrightarrow> is_tok KWord ws t \<or> is_tok KPunct ['')''] t \<or> tk_kind t = KEof"

definition closes :: "string list \<Rightarrow> token list \<Rightarrow> bool" where
  "closes ws ts \<longleftrightarrow> (case ts of [] \<Rightarrow> False | t # _ \<Rightarrow> ends_at ws t)"

lemma closes_Cons [simp]: "closes ws (t # ts) \<longleftrightarrow> ends_at ws t"
  by (simp add: closes_def)

lemma closes_cases: "closes ws ts \<Longrightarrow> (\<And>t ts'. ts = t # ts' \<Longrightarrow> ends_at ws t \<Longrightarrow> P) \<Longrightarrow> P"
  by (cases ts) (simp_all add: closes_def)

lemma closes_mono: "closes ws ts \<Longrightarrow> set ws \<subseteq> set vs \<Longrightarrow> closes vs ts"
  by (erule closes_cases) (auto simp: ends_at_def is_tok_def has_value_def split: option.splits)

lemma ends_word [simp]: "ends_at ws (word_tok w) \<longleftrightarrow> w \<in> set ws"
  by (simp add: ends_at_def)

definition operator_words :: "string list" where
  "operator_words = [''OR'', ''AND'', ''NOT'', ''LIKE'', ''IN'', ''BETWEEN'', ''IS'']"

lemma ends_at_level:
  assumes "ends_at ws t" "set ws \<inter> set operator_words = {}"
  shows "tok_level t = 0"
proof -
  have words: "\<not> is_tok KWord vs t" if "set vs \<subseteq> set operator_words" for vs
    using assms that by (auto simp: ends_at_def is_tok_def has_value_def split: option.splits)
  have op: "punct_op ops t = None" if "ops '')'' = None" for ops
    using assms(1) that by (auto simp: ends_at_def is_tok_def has_value_def punct_op_def tok_text_def split: option.splits)
  have dot: "\<not> is_tok KPunct [''.''] t"
    using assms(1) by (auto simp: ends_at_def is_tok_def has_value_def split: option.splits)
  show ?thesis
    unfolding tok_level_def
    by (simp add: words op dot operator_words_def comparison_op_def additive_op_def multiplicative_op_def)
qed

lemma ends_at_kind: "ends_at ws t \<Longrightarrow> tk_kind t \<noteq> KIdent"
  by (auto simp: ends_at_def is_tok_def)

lemma ends_at_word: "ends_at ws t \<Longrightarrow> set ws \<inter> set vs = {} \<Longrightarrow> \<not> is_tok KWord vs t"
  by (auto simp: ends_at_def is_tok_def has_value_def split: option.splits)

lemma ends_at_punct: "ends_at ws t \<Longrightarrow> '')'' \<notin> set vs \<Longrightarrow> \<not> is_tok KPunct vs t"
  by (auto simp: ends_at_def is_tok_def has_value_def split: option.splits)

lemma closes_stops: "closes ws ts \<Longrightarrow> set ws \<inter> set operator_words = {} \<Longrightarrow> stops 0 ts"
  by (erule closes_cases) (simp add: stops_Cons ends_at_level)

lemma closes_skips:
  assumes "closes ws ts" "w \<notin> set ws"
  shows "when_matched (match_word [w]) p q ts = q ts"
  using assms ends_at_word [of ws _ "[w]"] by (auto elim!: closes_cases simp: when_matched_at)

section \<open>Clauses\<close>

definition reads :: "expr parser \<Rightarrow> expr \<Rightarrow> bool" where
  "reads pe e \<longleftrightarrow> (\<forall>rest. stops 0 rest \<longrightarrow> pe (body e @ rest) = (rest, Inr e))"

lemma readsD: "reads pe e \<Longrightarrow> stops 0 rest \<Longrightarrow> pe (body e @ rest) = (rest, Inr e)"
  by (simp add: reads_def)

lemma reads_closes: "reads pe e \<Longrightarrow> closes ws rest \<Longrightarrow> set ws \<inter> set operator_words = {} \<Longrightarrow> pe (body e @ rest) = (rest, Inr e)"
  by (simp add: readsD closes_stops)

lemma reads_list:
  assumes "\<forall>e\<in>set es. reads pe e" "es \<noteq> []" "closes ws rest" "set ws \<inter> set operator_words = {}"
  shows "comma_list pe (separated (map body es) @ rest) = (rest, Inr es)"
proof -
  obtain t ts where t: "rest = t # ts" "ends_at ws t" using assms(3) by (rule closes_cases)
  show ?thesis unfolding t(1)
  proof (rule comma_reads [where Q = "\<lambda>t. tok_level t = 0"])
    show "pe (body e @ u # more) = (u # more, Inr e)" if "e \<in> set es" "tok_level u = 0" for e u more
      using assms(1) that by (simp add: readsD stops_Cons)
    show "tok_level t = 0" by (rule ends_at_level [OF t(2) assms(4)])
    show "tok_level (punct_tok '','') = 0" using stops_close(2) [of 0] by (simp add: stops_Cons)
    show "\<not> is_tok KPunct ['',''] t" using ends_at_punct [OF t(2)] by simp
  qed (rule assms(2))
qed

lemma where_reads:
  assumes "wh = Missing \<or> reads pe wh" "closes [''GROUP'', ''ORDER'', ''LIMIT'', ''OFFSET''] rest"
  shows "parse_where pe (clause_toks ''WHERE'' wh (body wh) @ rest) = (rest, Inr wh)"
proof (cases "wh = Missing")
  case True
  then show ?thesis by (simp add: closes_skips [OF assms(2)] parse_where_def clause_toks_def at_steps)
next
  case False
  then show ?thesis using assms reads_closes [OF _ assms(2)]
    by (simp add: parse_where_def clause_toks_def at_steps operator_words_def)
qed

lemma group_reads:
  assumes "\<forall>e\<in>set gs. reads pe e" "hv = Missing \<or> reads pe hv" "gs = [] \<longrightarrow> hv = Missing"
    and rest: "closes [''ORDER'', ''LIMIT'', ''OFFSET''] rest"
  shows "parse_group pe (group_toks (map body gs) (clause_toks ''HAVING'' hv (body hv)) @ rest) = (rest, Inr (gs, hv))"
proof (cases "gs = []")
  case True
  then show ?thesis using assms(3) by (simp add: closes_skips [OF rest] parse_group_def group_toks_def at_steps)
next
  case False
  let ?more = "clause_toks ''HAVING'' hv (body hv) @ rest"
  have "closes [''HAVING'', ''ORDER'', ''LIMIT'', ''OFFSET''] ?more"
    using closes_mono [OF rest, of "[''HAVING'', ''ORDER'', ''LIMIT'', ''OFFSET'']"] by (auto simp: clause_toks_def)
  then have "comma_list pe (separated (map body gs) @ ?more) = (?more, Inr gs)"
    using reads_list [OF assms(1) False] by (simp add: operator_words_def)
  moreover have "when_matched (match_word [''HAVING'']) pe (ret Missing) ?more = (rest, Inr hv)"
    using assms(2) reads_closes [OF _ rest] by (auto simp: closes_skips [OF rest] clause_toks_def at_steps operator_words_def)
  ultimately show ?thesis using False
    by (simp add: parse_group_def group_toks_def at_steps bind_via [where p = "comma_list pe"]
        bind_via [where p = "when_matched (match_word [''HAVING'']) pe (ret Missing)"])
qed

lemma order_reads:
  assumes "\<forall>p\<in>set items. reads pe (fst p)" "closes [''LIMIT'', ''OFFSET''] rest"
  shows "parse_order pe (order_toks (map (\<lambda>p. (body (fst p), snd p)) items) @ rest) = (rest, Inr items)"
proof (cases "items = []")
  case True
  then show ?thesis by (simp add: closes_skips [OF assms(2)] parse_order_def order_toks_def at_steps)
next
  case False
  let ?item = "\<lambda>p. body (fst p) @ (if snd p then [word_tok ''DESC''] else [])"
  let ?Q = "\<lambda>t. tok_level t = 0 \<and> \<not> is_tok KWord [''ASC''] t \<and> \<not> is_tok KWord [''DESC''] t"
  obtain t ts where t: "rest = t # ts" "ends_at [''LIMIT'', ''OFFSET''] t" using assms(2) by (rule closes_cases)
  have "comma_list (parse_order_item pe) (separated (map ?item items) @ t # ts) = (t # ts, Inr items)"
  proof (rule comma_reads [where Q = ?Q])
    show "parse_order_item pe (?item p @ u # more) = (u # more, Inr p)" if "p \<in> set items" "?Q u" for p u more
    proof -
      have "pe (body (fst p) @ word_tok ''DESC'' # u # more) = (word_tok ''DESC'' # u # more, Inr (fst p))"
        "pe (body (fst p) @ u # more) = (u # more, Inr (fst p))"
        using assms(1) that by (simp_all add: readsD stops_Cons tok_level_def)
      then show ?thesis using that(2)
        by (cases p) (simp add: parse_order_item_def bind_via [where p = pe] at_steps)
    qed
    show "?Q t" using ends_at_level [OF t(2)] ends_at_word [OF t(2), of "[''ASC'']"] ends_at_word [OF t(2), of "[''DESC'']"]
      by (simp add: operator_words_def)
    show "?Q (punct_tok '','')" using stops_close(2) [of 0] by (simp add: stops_Cons)
    show "\<not> is_tok KPunct ['',''] t" using ends_at_punct [OF t(2)] by simp
  qed (rule False)
  then show ?thesis using False t(1) by (simp add: parse_order_def order_toks_def at_steps o_def)
qed

lemma int_reads:
  assumes "bound_ok b" "b = None \<longrightarrow> closes ws rest" "w \<notin> set ws"
  shows "parse_optional_int w (limit_toks w b @ rest) = (rest, Inr b)"
proof (cases b)
  case None
  then show ?thesis using assms(2) by (simp add: closes_skips [OF _ assms(3)] parse_optional_int_def limit_toks_def at_steps)
next
  case (Some n)
  then show ?thesis using assms(1)
    by (simp add: parse_optional_int_def limit_toks_def at_steps parse_nonneg_int_def literal_tok_def bound_ok_def
        bind_eff_def expect_kind_at ret_def)
qed

lemma limits_read:
  assumes "bound_ok lm" "bound_ok off" and rest: "closes [] rest"
  shows "parse_limits (limit_toks ''LIMIT'' lm @ limit_toks ''OFFSET'' off @ rest) = (rest, Inr (lm, off))"
proof -
  have limit: "parse_optional_int ''LIMIT'' (limit_toks ''LIMIT'' lm @ limit_toks ''OFFSET'' off @ rest) =
      (limit_toks ''OFFSET'' off @ rest, Inr lm)"
    using assms closes_mono [OF rest, of "[''OFFSET'']"]
    by (intro int_reads [where ws = "[''OFFSET'']"]) (auto simp: limit_toks_def split: option.split)
  have offset: "parse_optional_int ''OFFSET'' (limit_toks ''OFFSET'' off @ rest) = (rest, Inr off)"
    using assms by (intro int_reads [where ws = "[]"]) simp_all
  have none: "parse_optional_int ''LIMIT'' rest = (rest, Inr None)"
    using int_reads [of None "[]" rest "''LIMIT''"] rest by (simp add: bound_ok_def limit_toks_def)
  have off: "bind_eff (parse_optional_int ''OFFSET'') f (limit_toks ''OFFSET'' off @ rest) = f off rest"
    for f :: "int option \<Rightarrow> (int option \<times> int option) parser"
    by (rule bind_via [where p = "parse_optional_int ''OFFSET''", OF offset])
  show ?thesis
    unfolding parse_limits_def bind_via [where p = "parse_optional_int ''LIMIT''", OF limit]
    by (cases lm; simp add: off; cases off; simp add: bind_via [where p = "parse_optional_int ''LIMIT''", OF none] bind_ret_at)
qed

section \<open>Tables and joins\<close>

lemma ident_at: "parse_ident (ident_tok a # ts) = (ts, Inr a)"
  by (simp add: parse_ident_def bind_eff_def advance_at ret_def)

lemma bind_ident: "bind_eff parse_ident f (ident_tok a # ts) = f a ts"
  by (rule bind_via [where p = parse_ident, OF ident_at])

lemma alias_reads:
  assumes "\<not> is_tok KWord [''AS''] t" "tk_kind t \<noteq> KIdent"
  shows "parse_optional_alias (alias_toks al @ t # ts) = (t # ts, Inr al)"
  using assms by (cases al) (simp_all add: parse_optional_alias_def alias_toks_def at_steps bind_ident)

lemma join_level: "tok_level (word_tok ''JOIN'') = 0" "tok_level (word_tok ''LEFT'') = 0"
  by (simp_all add: tok_level_def)

lemma joins_read:
  assumes "\<forall>j\<in>set joins. reads pe (js_on j)" "ends_at [''WHERE'', ''GROUP'', ''ORDER'', ''LIMIT'', ''OFFSET''] t"
  shows "parse_joins pe (concat (map join_toks joins) @ t # ts) = (t # ts, Inr joins)"
proof -
  let ?round = "\<lambda>joins. bind_eff parse_join_kind (\<lambda>kind.
         case kind of
           None \<Rightarrow> ret None
         | Some k \<Rightarrow>
             bind_eff parse_ident (\<lambda>tab.
             bind_eff parse_optional_alias (\<lambda>al.
             bind_eff (expect KWord ''ON'') (\<lambda>_.
             bind_eff pe (\<lambda>cond. ret (Some (joins @ [JoinSpec tab al k cond])))))))"
  have kind: "bind_eff parse_join_kind f (kind_toks k @ more) = f (Some k) more" for f :: "join_kind option \<Rightarrow> join_spec list option parser" and k more
    by (cases k) (simp_all add: parse_join_kind_def at_steps)
  have stop: "?round acc (t # ts) = (t # ts, Inr None)" for acc
    using assms(2) by (simp add: parse_join_kind_def at_steps ends_at_word)
  have "repeat_while ?round acc (concat (map join_toks joins) @ t # ts) = (t # ts, Inr (acc @ joins))" for acc
    using assms(1)
  proof (induction joins arbitrary: acc)
    case Nil
    show ?case using repeat_stop [of ?round, OF stop] by simp
  next
    case (Cons j js)
    obtain tab al k e where j: "j = JoinSpec tab al k e" by (cases j) auto
    let ?more = "concat (map join_toks js) @ t # ts"
    have "stops 0 ?more"
    proof (cases js)
      case Nil
      then show ?thesis using ends_at_level [OF assms(2)] by (simp add: stops_Cons operator_words_def)
    next
      case (Cons j' js')
      then show ?thesis using join_level by (cases j'; cases "js_kind j'") (simp_all add: stops_Cons)
    qed
    then have on: "pe (body e @ ?more) = (?more, Inr e)" using Cons.prems j by (simp add: readsD)
    have al: "parse_optional_alias (alias_toks al @ word_tok ''ON'' # more) = (word_tok ''ON'' # more, Inr al)" for more
      by (rule alias_reads) simp_all
    have "?round acc (join_toks j @ ?more) = (?more, Inr (Some (acc @ [j])))"
      by (simp add: j kind bind_ident bind_via [where p = parse_optional_alias, OF al] bind_expect bind_via [where p = pe, OF on] bind_ret_at)
    moreover have "length ?more < length (join_toks j @ ?more)" by (simp add: j)
    moreover have "repeat_while ?round (acc @ [j]) ?more = (t # ts, Inr ((acc @ [j]) @ js))"
      using Cons by (intro Cons.IH) simp
    ultimately show ?case using repeat_round [of ?round acc "join_toks j @ ?more" ?more "acc @ [j]"] by simp
  qed
  from this [of "[]"] show ?thesis by (simp add: parse_joins_def)
qed

lemma from_reads:
  assumes "\<forall>j\<in>set joins. reads pe (js_on j)" "tab = None \<longrightarrow> al = None \<and> joins = []"
    and rest: "closes [''WHERE'', ''GROUP'', ''ORDER'', ''LIMIT'', ''OFFSET''] rest"
  shows "parse_from pe (from_toks tab al (map join_toks joins) @ rest) = (rest, Inr (tab, al, joins))"
proof (cases tab)
  case None
  then show ?thesis using assms(2) by (simp add: closes_skips [OF rest] parse_from_def from_toks_def at_steps)
next
  case (Some name)
  obtain t ts where t: "rest = t # ts" "ends_at [''WHERE'', ''GROUP'', ''ORDER'', ''LIMIT'', ''OFFSET''] t"
    using rest by (rule closes_cases)
  let ?more = "concat (map join_toks joins) @ rest"
  obtain u more where u: "?more = u # more" "\<not> is_tok KWord [''AS''] u" "tk_kind u \<noteq> KIdent"
  proof (cases joins)
    case Nil
    then show ?thesis using that [of t ts] t ends_at_kind ends_at_word [OF t(2), of "[''AS'']"] by simp
  next
    case (Cons j js)
    then show ?thesis using that by (cases j; cases "js_kind j") simp_all
  qed
  have al: "parse_optional_alias (alias_toks al @ ?more) = (?more, Inr al)"
    unfolding u(1) by (rule alias_reads [OF u(2,3)])
  have joins: "parse_joins pe ?more = (rest, Inr joins)" unfolding t(1) by (rule joins_read [OF assms(1) t(2)])
  show ?thesis
    by (simp add: Some parse_from_def from_toks_def at_steps bind_ident bind_via [where p = parse_optional_alias, OF al]
        bind_via [where p = "parse_joins pe", OF joins])
qed

section \<open>Projections\<close>

text \<open>An expression never looks like \<open>t.*\<close>.\<close>

lemma not_star_head: "tk_kind t \<noteq> KIdent \<Longrightarrow> \<not> is_qualified_star (t # ts)"
  by (auto simp: is_qualified_star_def split: list.splits)

lemma not_star:
  "printable e \<Longrightarrow> \<not> is_tok KPunct [''.''] t \<Longrightarrow> \<not> is_qualified_star (body e @ t # ts)"
proof (induction "size e" arbitrary: e t ts rule: less_induct)
  case less
  have inner: "\<not> is_qualified_star (enclose l a (body a) @ u # us)"
    if "size a < size e" "printable a" "\<not> is_tok KPunct [''.''] u" for a l u us
    using less.hyps [OF that] by (simp add: enclose_def not_star_head)
  have op: "\<exists>u us. binop_toks op = u # us \<and> \<not> is_tok KPunct [''.''] u" for op by (cases op) simp_all
  show ?case
  proof (cases e)
    case (Literal v)
    then show ?thesis by (cases v) (simp_all add: not_star_head literal_tok_def)
  next
    case (ColumnRef name tab)
    then show ?thesis using less.prems
      by (auto simp: is_qualified_star_def name_toks_def split: list.splits option.splits)
  next
    case (UnaryOp op a)
    then have "\<not> is_qualified_star (enclose 4 a (body a) @ word_tok ''IS'' # us)" for us using less.prems by (intro inner) simp_all
    then show ?thesis using UnaryOp by (cases op) (simp_all add: not_star_head)
  next
    case (BinaryOp op a b)
    then have a: "\<not> is_qualified_star (enclose l a (body a) @ u # us)" if "\<not> is_tok KPunct [''.''] u" for l u us
      using less.prems that by (intro inner) simp_all
    show ?thesis
    proof (cases "op = BBetween")
      case True
      then have "conjunction b" using less.prems BinaryOp by simp
      then show ?thesis using a BinaryOp True by (auto elim!: conjunction_cases)
    next
      case False
      then show ?thesis using a op [of op] BinaryOp by (auto simp: body_binop)
    qed
  next
    case (InSubquery a q negated)
    then have "\<not> is_qualified_star (enclose 4 a (body a) @ word_tok w # us)" for w us using less.prems by (intro inner) simp_all
    then show ?thesis using InSubquery by simp
  qed (use less.prems in \<open>simp_all add: not_star_head\<close>)
qed

lemma bind_state: "bind_eff get_state f ts = f ts ts"
  by (simp add: bind_eff_def get_state_def)

lemma projection_reads:
  assumes "is_star e \<or> printable e \<and> reads pe e" "tok_level t = 0" "\<not> is_tok KPunct [''.''] t"
  shows "parse_projection pe (body e @ t # ts) = (t # ts, Inr e)"
proof (cases "is_star e")
  case True
  then obtain tab where "e = Star tab" by (cases e) (simp_all add: is_star_def)
  then show ?thesis
    by (cases tab) (simp_all add: parse_projection_def name_toks_def at_steps bind_ident bind_state is_qualified_star_def)
next
  case False
  then have e: "printable e" "reads pe e" using assms(1) by simp_all
  obtain u us where u: "body e = u # us" "starter (expr_level e) u" using body_head [OF e(1)] by blast
  then have "\<not> is_tok KPunct [''*''] u" by (auto simp: starter_def is_tok_def has_value_def split: option.splits)
  then show ?thesis
    using not_star [OF e(1) assms(3)] readsD [OF e(2), of "t # ts"] assms(2) u(1)
    by (simp add: parse_projection_def when_matched_at bind_state stops_Cons)
qed

section \<open>Queries\<close>

definition query_exprs :: "select \<Rightarrow> expr list" where
  "query_exprs q =
     filter (\<lambda>e. \<not> is_star e) (sel_projections q) @ map js_on (sel_joins q) @ filter (\<lambda>e. e \<noteq> Missing) [sel_where q] @
     sel_group_by q @ filter (\<lambda>e. e \<noteq> Missing) [sel_having q] @ map fst (sel_order_by q)"

lemma query_expr_size: "e \<in> set (query_exprs q) \<Longrightarrow> size e < size q"
proof (cases q)
  case (SelectStmt ps tab al joins wh gs hv items lm off dct)
  have on: "size (js_on j) < size_list size joins" if "j \<in> set joins" for j
    using member_size [OF that] by (cases j) simp
  assume "e \<in> set (query_exprs q)"
  then show ?thesis
    using SelectStmt by (auto simp: query_exprs_def less_Suc_eq_le dest!: member_size item_size on split: if_splits)
qed

lemma query_expr_printable: "printable_query q \<Longrightarrow> e \<in> set (query_exprs q) \<Longrightarrow> printable e"
proof (cases q)
  case (SelectStmt ps tab al joins wh gs hv items lm off dct)
  have on: "printable_join j \<longleftrightarrow> printable (js_on j)" for j by (cases j) simp
  assume "printable_query q" "e \<in> set (query_exprs q)"
  then show ?thesis
    using SelectStmt by (auto simp: query_exprs_def list_all_iff on is_star_def split: if_splits)
qed

lemma projections_read:
  assumes "\<forall>e\<in>set ps. is_star e \<or> printable e \<and> reads pe e" "ps \<noteq> []"
    and "closes ws rest" "set ws \<inter> set operator_words = {}"
  shows "comma_list (parse_projection pe) (separated (map body ps) @ rest) = (rest, Inr ps)"
proof -
  obtain t ts where t: "rest = t # ts" "ends_at ws t" using assms(3) by (rule closes_cases)
  let ?Q = "\<lambda>t. tok_level t = 0 \<and> \<not> is_tok KPunct [''.''] t"
  show ?thesis unfolding t(1)
  proof (rule comma_reads [where Q = ?Q])
    show "parse_projection pe (body e @ u # more) = (u # more, Inr e)" if "e \<in> set ps" "?Q u" for e u more
      using assms(1) that by (intro projection_reads) simp_all
    show "?Q t" using ends_at_level [OF t(2) assms(4)] ends_at_punct [OF t(2)] by simp
    show "?Q (punct_tok '','')" using stops_close(2) [of 0] by (simp add: stops_Cons)
    show "\<not> is_tok KPunct ['',''] t" using ends_at_punct [OF t(2)] by simp
  qed (rule assms(2))
qed

lemma distinct_reads:
  assumes "\<forall>e\<in>set ps. is_star e \<or> printable e" "ps \<noteq> []"
  shows "bind_eff (match_word [''DISTINCT'']) f ((if dct then [word_tok ''DISTINCT''] else []) @ separated (map body ps) @ rest) =
    f dct (separated (map body ps) @ rest)"
proof -
  obtain e es where ps: "ps = e # es" using assms(2) by (cases ps) auto
  have "\<exists>t ts. body e = t # ts \<and> \<not> is_tok KWord [''DISTINCT''] t"
  proof (cases "is_star e")
    case True
    then show ?thesis by (cases e) (auto simp: is_star_def name_toks_def split: option.splits)
  next
    case False
    then obtain t ts where t: "body e = t # ts" "starter (expr_level e) t" using body_head [of e] assms(1) ps by auto
    then have "\<not> is_tok KWord [''DISTINCT''] t" by (auto simp: starter_def is_tok_def has_value_def split: option.splits)
    then show ?thesis using t(1) by blast
  qed
  then show ?thesis by (auto simp: ps separated_Cons at_steps)
qed

lemma select_reads:
  assumes "printable_query q" "\<forall>e\<in>set (query_exprs q). reads pe e" "closes [] rest"
  shows "select_body pe (select_toks q @ rest) = (rest, Inr q)"
proof (cases q)
  case (SelectStmt ps tab al joins wh gs hv items lm off dct)
  let ?limits = "limit_toks ''LIMIT'' lm @ limit_toks ''OFFSET'' off @ rest"
  let ?order = "order_toks (map (\<lambda>p. (body (fst p), snd p)) items) @ ?limits"
  let ?group = "group_toks (map body gs) (clause_toks ''HAVING'' hv (body hv)) @ ?order"
  let ?where = "clause_toks ''WHERE'' wh (body wh) @ ?group"
  let ?from = "from_toks tab al (map join_toks joins) @ ?where"
  have c5: "closes [''LIMIT'', ''OFFSET''] ?limits"
    using closes_mono [OF assms(3), of "[''LIMIT'', ''OFFSET'']"] by (cases lm; cases off) (simp_all add: limit_toks_def)
  have c4: "closes [''ORDER'', ''LIMIT'', ''OFFSET''] ?order"
    using closes_mono [OF c5, of "[''ORDER'', ''LIMIT'', ''OFFSET'']"] by (simp add: order_toks_def)
  have c3: "closes [''GROUP'', ''ORDER'', ''LIMIT'', ''OFFSET''] ?group"
    using closes_mono [OF c4, of "[''GROUP'', ''ORDER'', ''LIMIT'', ''OFFSET'']"] by (simp add: group_toks_def)
  have c2: "closes [''WHERE'', ''GROUP'', ''ORDER'', ''LIMIT'', ''OFFSET''] ?where"
    using closes_mono [OF c3, of "[''WHERE'', ''GROUP'', ''ORDER'', ''LIMIT'', ''OFFSET'']"] by (simp add: clause_toks_def)
  have c1: "closes [''FROM'', ''WHERE'', ''GROUP'', ''ORDER'', ''LIMIT'', ''OFFSET''] ?from"
    using closes_mono [OF c2, of "[''FROM'', ''WHERE'', ''GROUP'', ''ORDER'', ''LIMIT'', ''OFFSET'']"]
    by (simp add: from_toks_def split: option.split)
  have star: "is_star e \<or> printable e \<and> reads pe e" if "e \<in> set ps" for e
    using assms(1,2) that SelectStmt by (auto simp: query_exprs_def list_all_iff)
  then have stars: "\<forall>e\<in>set ps. is_star e \<or> printable e" "ps \<noteq> []" using assms(1) SelectStmt by auto
  have parts: "\<forall>j\<in>set joins. reads pe (js_on j)" "wh = Missing \<or> reads pe wh" "\<forall>e\<in>set gs. reads pe e"
    "hv = Missing \<or> reads pe hv" "\<forall>p\<in>set items. reads pe (fst p)"
    using assms(2) SelectStmt by (auto simp: query_exprs_def)
  have shape: "tab = None \<longrightarrow> al = None \<and> joins = []" "gs = [] \<longrightarrow> hv = Missing" "bound_ok lm" "bound_ok off"
    using assms(1) SelectStmt by simp_all
  have projections: "comma_list (parse_projection pe) (separated (map body ps) @ ?from) = (?from, Inr ps)"
    using star stars(2) by (intro projections_read [OF _ _ c1]) (simp_all add: operator_words_def)
  have "parse_from pe ?from = (?where, Inr (tab, al, joins))" by (rule from_reads [OF parts(1) shape(1) c2])
  moreover have "parse_where pe ?where = (?group, Inr wh)" by (rule where_reads [OF parts(2) c3])
  moreover have "parse_group pe ?group = (?order, Inr (gs, hv))" by (rule group_reads [OF parts(3,4) shape(2) c4])
  moreover have "parse_order pe ?order = (?limits, Inr items)" by (rule order_reads [OF parts(5) c5])
  moreover have "parse_limits ?limits = (rest, Inr (lm, off))" by (rule limits_read [OF shape(3,4) assms(3)])
  ultimately show ?thesis
    by (simp add: SelectStmt select_body_def bind_expect distinct_reads [OF stars]
        bind_via [where p = "comma_list (parse_projection pe)", OF projections] bind_via [where p = "parse_from pe"]
        bind_via [where p = "parse_where pe"] bind_via [where p = "parse_group pe"] bind_via [where p = "parse_order pe"]
        bind_via [where p = parse_limits] bind_ret_at)
qed

section \<open>Expressions with queries\<close>

text \<open>A query is read back where a closing parenthesis or the end follows.\<close>

definition reads_query :: "select \<Rightarrow> bool" where
  "reads_query q \<longleftrightarrow> (\<forall>n rest. size q < n \<longrightarrow> closes [] rest \<longrightarrow> parse_select n (select_toks q @ rest) = (rest, Inr q))"

lemma expr_reads:
  assumes "reads_back e" "printable e" "size e < n"
  shows "reads (parse_expr n) e"
proof -
  obtain m where m: "n = Suc m" using assms(3) by (cases n) auto
  have "parse_expr n (body e @ rest) = (rest, Inr e)" if rest: "stops 0 rest" for rest
  proof -
    have "lev 1 m (body e @ rest) = (rest, Inr e)"
      using reads_looser [OF assms(1,2), of m 1] assms(3) m level_bounds(1) [of e]
        stops_mono [OF rest, of 1] loop_stops [OF rest, of 1] by simp
    then show ?thesis by (simp only: m lev_simps parse_expr.simps)
  qed
  then show ?thesis by (simp add: reads_def)
qed

lemma query_reads:
  assumes "printable_query q" "\<forall>e\<in>set (query_exprs q). reads_back e"
  shows "reads_query q"
  unfolding reads_query_def
proof (intro allI impI)
  fix n rest
  assume n: "size q < n" and rest: "closes [] rest"
  obtain m where m: "n = Suc m" using n by (cases n) auto
  have "reads (parse_expr m) e" if "e \<in> set (query_exprs q)" for e
    using assms(2) that query_expr_printable [OF assms(1) that] query_expr_size [OF that] n m by (intro expr_reads) simp_all
  then show "parse_select n (select_toks q @ rest) = (rest, Inr q)"
    using select_reads [OF assms(1) _ rest] by (simp add: m)
qed

lemma select_head: "\<exists>ts. select_toks q = word_tok ''SELECT'' # ts"
  by (cases q) simp

lemma subquery_reads:
  assumes "reads_query q"
  shows "reads_back (Subquery q)"
proof -
  have "lev 8 n (body (Subquery q) @ rest) = (rest, Inr (Subquery q))" if "size (Subquery q) \<le> n" for n rest
  proof -
    have "parse_select n (select_toks q @ punct_tok '')'' # rest) = (punct_tok '')'' # rest, Inr q)"
      using assms that by (simp add: reads_query_def ends_at_def)
    then show ?thesis using select_head [of q]
      by (auto simp: lev_simps parse_primary_def at_steps bind_via [where p = "parse_select n"])
  qed
  then show ?thesis using loop_idle [of 8] by (auto simp: reads_back_def)
qed

lemma in_subquery_reads:
  assumes "reads_back e" "printable e" "reads_query q"
  shows "reads_back (InSubquery e q negated)"
  unfolding reads_back_def
proof (intro allI impI)
  fix n rest r x
  let ?e = "InSubquery e q negated"
  let ?tail = "(if negated then [word_tok ''NOT''] else []) @ word_tok ''IN'' # punct_tok ''('' # select_toks q @ punct_tok '')'' # rest"
  assume n: "size ?e \<le> n" and rest: "stops (expr_level ?e) rest" and next_round: "loop (expr_level ?e) n ?e rest = (r, Inr x)"
  have stop: "stops 4 ?tail" by (simp add: stops_Cons tok_level_def)
  have "parse_select n (select_toks q @ punct_tok '')'' # rest) = (punct_tok '')'' # rest, Inr q)"
    using assms(3) n by (simp add: reads_query_def ends_at_def)
  then have "level_round 4 n e ?tail = (rest, Inr (Some ?e))"
    using select_head [of q]
    by (auto simp: round_simps comparison_step_def parse_in_tail_def at_steps comparison_op_def bind_via [where p = "parse_select n"])
  then have "loop 4 n e ?tail = (r, Inr x)" using loop_round [of 4 n e ?tail] next_round by simp
  then show "lev (expr_level ?e) n (body ?e @ rest) = (r, Inr x)"
    using reads_enclosed [OF assms(1,2) _ _ _ stop] n by simp
qed

lemma printable_reads_back: "printable e \<Longrightarrow> reads_back e"
proof (induction "size e" arbitrary: e rule: less_induct)
  case less
  have query: "reads_query q" if "printable_query q" "size q \<le> size e" for q
  proof (rule query_reads [OF that(1)], rule ballI)
    fix a assume "a \<in> set (query_exprs q)"
    then show "reads_back a" using less.hyps [of a] query_expr_size [of a q] query_expr_printable [OF that(1)] that(2) by simp
  qed
  show ?case
  proof (cases e)
    case (UnaryOp op a)
    then have "reads_back a" "printable a" using less by simp_all
    then show ?thesis using UnaryOp prefix_reads postfix_reads by (cases op) simp_all
  next
    case (BinaryOp op a b)
    then have a: "reads_back a" "printable a" and b: "reads_back b" "printable b" using less by simp_all
    show ?thesis
    proof (cases "op = BBetween")
      case True
      then have "conjunction b" using less.prems BinaryOp by simp
      then obtain lo hi where b': "b = BinaryOp BAnd lo hi" by (rule conjunction_cases)
      then have "reads_back lo" "reads_back hi" "printable lo" "printable hi" using less.hyps BinaryOp b by simp_all
      then show ?thesis using between_reads a b' True BinaryOp by simp
    next
      case False
      then show ?thesis using binop_reads [OF False a b] BinaryOp by simp
    qed
  next
    case (FuncCall name args dct star)
    have "reads_back a" if "a \<in> set args" for a
      using less member_size [OF that] FuncCall that by (simp add: list_all_iff)
    then show ?thesis using func_reads less.prems FuncCall by blast
  next
    case (Subquery q)
    then show ?thesis using query less.prems subquery_reads by simp
  next
    case (InSubquery a q negated)
    then have "reads_back a" "printable a" "reads_query q" using less query by simp_all
    then show ?thesis using in_subquery_reads InSubquery by simp
  qed (use less.prems in \<open>simp_all add: literal_reads column_reads\<close>)
qed

lemma printed_expr: "printable e \<Longrightarrow> size e < n \<Longrightarrow> reads (parse_expr n) e"
  by (rule expr_reads [OF printable_reads_back])

lemma printed_query:
  "printable_query q \<Longrightarrow> size q < n \<Longrightarrow> closes [] rest \<Longrightarrow> parse_select n (select_toks q @ rest) = (rest, Inr q)"
  using query_reads [of q] query_expr_printable [of q] printable_reads_back by (simp add: reads_query_def)

end
