(* ===== verification/ParserPositions.thy ===== *)
theory ParserPositions
  imports ParserFuel
begin

text \<open>
  The parser does not read the positions of its tokens: without them every production takes the same tokens and
  returns or raises the same (\<open>blind\<close>). Only the helpers that return a token return it without its position.
\<close>

section \<open>Parsers that do not look at positions\<close>

definition unplaced :: "token \<Rightarrow> token" where
  "unplaced t = t\<lparr>tk_pos := 0\<rparr>"

definition blind :: "'a parser \<Rightarrow> bool" where
  "blind p \<longleftrightarrow> (\<forall>ts. p (map unplaced ts) = (map unplaced (fst (p ts)), snd (p ts)))"

definition blind_token :: "token parser \<Rightarrow> bool" where
  "blind_token p \<longleftrightarrow>
     (\<forall>ts. p (map unplaced ts) = (map unplaced (fst (p ts)), bind_result (snd (p ts)) (\<lambda>t. Inr (unplaced t))))"

named_theorems blind_rules

lemma unplaced_fields [simp]:
  "tk_kind (unplaced t) = tk_kind t" "tk_value (unplaced t) = tk_value t" "tk_literal (unplaced t) = tk_literal t"
  "tok_text (unplaced t) = tok_text t" "is_tok k vs (unplaced t) = is_tok k vs t" "punct_op ops (unplaced t) = punct_op ops t"
  by (simp_all add: unplaced_def tok_text_def is_tok_def has_value_def punct_op_def)

lemma blind_at: "blind p \<Longrightarrow> p (map unplaced ts) = (map unplaced (fst (p ts)), snd (p ts))"
  by (simp add: blind_def)

section \<open>Closure\<close>

lemma blind_pure [blind_rules]: "blind (ret x)" "blind (raise e)"
  by (simp_all add: blind_def ret_def raise_def)

lemma blind_bind: "blind p \<Longrightarrow> (\<And>x. blind (f x)) \<Longrightarrow> blind (bind_eff p f)"
  by (auto simp: blind_def bind_eff_def split: prod.splits sum.splits)

lemma blind_bind_token:
  "blind_token p \<Longrightarrow> (\<And>t. blind (f t)) \<Longrightarrow> (\<And>t. f (unplaced t) = f t) \<Longrightarrow> blind (bind_eff p f)"
  by (auto simp: blind_def blind_token_def bind_eff_def bind_result_def split: prod.splits sum.splits)

lemma blind_bind_state:
  "(\<And>ts. blind (f ts)) \<Longrightarrow> (\<And>ts. f (map unplaced ts) = f ts) \<Longrightarrow> blind (bind_eff get_state f)"
  by (simp add: blind_def bind_eff_def get_state_def)

lemma blind_if [blind_rules]: "(b \<Longrightarrow> blind p) \<Longrightarrow> (\<not> b \<Longrightarrow> blind q) \<Longrightarrow> blind (if b then p else q)"
  by simp

lemma blind_option [blind_rules]: "blind p \<Longrightarrow> (\<And>y. blind (q y)) \<Longrightarrow> blind (case x of None \<Rightarrow> p | Some y \<Rightarrow> q y)"
  by (cases x) simp_all

lemma blind_pair [blind_rules]: "(\<And>a b. blind (f a b)) \<Longrightarrow> blind (case x of (a, b) \<Rightarrow> f a b)"
  by (cases x) simp

lemma blind_value [blind_rules]:
  "(\<And>i. blind (f i)) \<Longrightarrow> blind p \<Longrightarrow> blind (case x of Some (VInt i) \<Rightarrow> f i | _ \<Rightarrow> p)"
  by (cases x; cases "the x") simp_all

lemma blind_when: "blind m \<Longrightarrow> blind p \<Longrightarrow> blind q \<Longrightarrow> blind (when_matched m p q)"
  unfolding when_matched_def by (intro blind_bind) (simp_all add: blind_if)

lemma blind_repeat_n: "(\<And>x. blind (f x)) \<Longrightarrow> blind (repeat_n n f x)"
  by (induction n arbitrary: x) (auto intro!: blind_rules blind_bind)

lemma blind_repeat [blind_rules]: "(\<And>x. blind (f x)) \<Longrightarrow> blind (repeat_while f x)"
  using blind_repeat_n [of f "Suc _"] by (simp add: blind_def repeat_while_def del: repeat_n.simps)

section \<open>Token helpers\<close>

lemma blind_cur: "blind_token cur"
  by (auto simp: blind_token_def cur_def bind_result_def split: list.splits)

lemma blind_advance: "blind_token advance"
  by (auto simp: blind_token_def advance_def bind_result_def split: list.splits)

lemma blind_check [blind_rules]: "blind (check k vs)"
  unfolding check_def by (intro blind_bind_token blind_cur blind_pure) simp

lemma blind_match [blind_rules]: "blind (match_tok k vs)"
  unfolding match_tok_def by (intro blind_bind blind_check blind_if blind_bind_token [OF blind_advance] blind_pure) simp

lemma blind_expect: "blind_token (expect k v)" "blind_token (expect_kind k)"
  by (auto simp: blind_token_def expect_def expect_kind_def check_def bind_eff_def cur_def advance_def ret_def raise_def
      bind_result_def split: list.splits)

lemma blind_after_expect [blind_rules]: "blind p \<Longrightarrow> blind (bind_eff (expect k v) (\<lambda>_. p))" "blind p \<Longrightarrow> blind (bind_eff (expect_kind k) (\<lambda>_. p))"
  "blind p \<Longrightarrow> blind (bind_eff advance (\<lambda>_. p))"
  by (intro blind_bind_token blind_expect blind_advance; simp)+

lemma blind_ident [blind_rules]: "blind parse_ident" "blind parse_ident_raw"
  unfolding parse_ident_def parse_ident_raw_def
  by (intro blind_bind_token blind_advance blind_rules; simp)+

lemma blind_comma [blind_rules]: "blind p \<Longrightarrow> blind (comma_list p)"
  unfolding comma_list_def by (intro blind_bind blind_repeat blind_when blind_match blind_pure)

lemma blind_nonneg [blind_rules]: "blind parse_nonneg_int"
  unfolding parse_nonneg_int_def by (intro blind_bind_token blind_expect blind_rules) simp_all

section \<open>Expressions\<close>

lemma blind_column_ref [blind_rules]: "blind parse_column_ref"
  unfolding parse_column_ref_def
  by (intro blind_bind_token blind_advance blind_if blind_when blind_rules; simp cong: if_cong)

lemma blind_func [blind_rules]: "blind pe \<Longrightarrow> blind (parse_func pe)"
  unfolding parse_func_def
  by (intro blind_bind_token blind_advance blind_expect blind_bind blind_when blind_rules; simp)

lemma blind_primary: "blind pe \<Longrightarrow> blind ps \<Longrightarrow> blind (parse_primary pe ps)"
  unfolding parse_primary_def
  by (intro blind_bind_token blind_cur blind_bind blind_when blind_rules; simp)

lemma blind_wrapped [simp]:
  "wrapped g (map unplaced (fst q), snd q) = (map unplaced (fst (wrapped g q)), snd (wrapped g q))"
  by (simp add: wrapped_def split: prod.splits)

lemma blind_unary: assumes "blind p" shows "blind (parse_unary p)"
proof -
  have "parse_unary p (map unplaced ts) = (map unplaced (fst (parse_unary p ts)), snd (parse_unary p ts))" for ts
  proof (induction ts)
    case (Cons t ts)
    then show ?case using blind_at [OF assms, of "t # ts"] by simp
  qed (use blind_at [OF assms, of "[]"] in simp)
  then show ?thesis by (simp add: blind_def)
qed

lemma blind_not: assumes "blind p" shows "blind (parse_not p)"
proof -
  have "parse_not p (map unplaced ts) = (map unplaced (fst (parse_not p ts)), snd (parse_not p ts))" for ts
  proof (induction ts)
    case (Cons t ts)
    then show ?case using blind_at [OF assms, of "t # ts"] by simp
  qed (use blind_at [OF assms, of "[]"] in simp)
  then show ?thesis by (simp add: blind_def)
qed

lemma blind_left: "blind p \<Longrightarrow> blind (parse_left ops p)"
  unfolding parse_left_def
  by (intro blind_bind blind_repeat blind_bind_token blind_cur blind_option blind_advance blind_pure; simp)

lemma blind_in_tail: "blind p \<Longrightarrow> blind ps \<Longrightarrow> blind (parse_in_tail p ps left negated)"
  unfolding parse_in_tail_def by (intro blind_when blind_bind blind_rules)

lemma blind_is: "blind (parse_is left)"
  unfolding parse_is_def by (intro blind_when blind_rules)

lemma blind_comparison_step: "blind p \<Longrightarrow> blind ps \<Longrightarrow> blind (comparison_step p ps left)"
  unfolding comparison_step_def
  by (intro blind_bind blind_bind_token blind_cur blind_option blind_when blind_in_tail blind_is blind_rules; simp)

lemma blind_or: "blind pe \<Longrightarrow> blind ps \<Longrightarrow> blind (parse_or pe ps)"
  unfolding parse_or_def parse_and_def parse_chain_def parse_comparison_def Let_def parse_additive_def
    parse_multiplicative_def
  by (intro blind_bind blind_repeat blind_when blind_not blind_comparison_step blind_left blind_unary blind_primary
      blind_match blind_pure)

section \<open>Queries\<close>

lemma blind_alias [blind_rules]: "blind parse_optional_alias"
  unfolding parse_optional_alias_def
  by (intro blind_when blind_bind blind_bind_token blind_cur blind_rules; simp)

lemma blind_join_kind: "blind parse_join_kind"
  unfolding parse_join_kind_def by (intro blind_when blind_bind blind_rules)

lemma blind_joins [blind_rules]: "blind pe \<Longrightarrow> blind (parse_joins pe)"
  unfolding parse_joins_def by (intro blind_repeat blind_bind blind_join_kind blind_rules)

lemma star_unplaced [simp]: "is_qualified_star (map unplaced ts) = is_qualified_star ts"
  by (auto simp: is_qualified_star_def split: list.splits)

lemma blind_projection [blind_rules]: "blind pe \<Longrightarrow> blind (parse_projection pe)"
  unfolding parse_projection_def by (intro blind_when blind_bind_state blind_bind blind_rules; simp)

lemma blind_order_item [blind_rules]: "blind pe \<Longrightarrow> blind (parse_order_item pe)"
  unfolding parse_order_item_def by (intro blind_bind blind_when blind_rules)

lemma blind_clauses [blind_rules]:
  assumes "blind pe"
  shows "blind (parse_from pe)" "blind (parse_where pe)" "blind (parse_group pe)" "blind (parse_order pe)"
  unfolding parse_from_def parse_where_def parse_group_def parse_order_def
  by (intro blind_when blind_bind blind_rules assms)+

lemma blind_limits [blind_rules]: "blind parse_limits"
  unfolding parse_limits_def parse_optional_int_def by (intro blind_bind blind_when blind_rules)

lemma blind_select: "blind pe \<Longrightarrow> blind (select_body pe)"
  unfolding select_body_def by (intro blind_after_expect blind_bind blind_rules)

lemma blind_levels: "blind (parse_expr n) \<and> blind (parse_select n)"
proof (induction n)
  case 0
  then show ?case by (simp add: blind_def raise_def)
next
  case (Suc n)
  have eq: "parse_expr (Suc n) = parse_or (parse_expr n) (parse_select n)" "parse_select (Suc n) = select_body (parse_expr n)"
    by (simp_all add: fun_eq_iff)
  show ?case unfolding eq using Suc.IH blind_or blind_select by blast
qed

lemmas blind_expr [blind_rules] = blind_levels [THEN conjunct1]
lemmas blind_query [blind_rules] = blind_levels [THEN conjunct2]

section \<open>Statements\<close>

lemma blind_dml [blind_rules]: "blind (parse_insert n)" "blind (parse_update n)" "blind (parse_delete n)"
  unfolding parse_insert_def parse_value_row_def parse_update_def parse_assignment_def parse_delete_def
  by (intro blind_after_expect blind_bind blind_when blind_if blind_rules)+

lemma blind_type: "blind parse_type"
  unfolding parse_type_def
  by (intro blind_bind_token blind_expect blind_option blind_bind blind_when blind_rules; simp)

lemma blind_constraint: "blind (constraint_step acc)"
  unfolding constraint_step_def by (intro blind_when blind_rules)

lemma blind_column_def [blind_rules]: "blind parse_column_def"
  unfolding parse_column_def_def by (intro blind_bind blind_type blind_pair blind_repeat blind_constraint blind_rules)

lemma blind_mark_key: "blind (fold_eff mark_key names cols)"
proof (induction names arbitrary: cols)
  case (Cons name names)
  have "blind (mark_key name cols)" by (auto simp: mark_key_def intro: blind_rules split: option.split)
  then show ?case by (simp add: blind_bind Cons)
qed (simp add: blind_pure)

lemma blind_create [blind_rules]: "blind parse_create"
  unfolding parse_create_def consume_table_pk_def
  by (intro blind_after_expect blind_bind blind_repeat blind_when blind_if blind_mark_key blind_rules)

lemma blind_token_when: "blind m \<Longrightarrow> blind_token p \<Longrightarrow> blind_token q \<Longrightarrow> blind_token (when_matched m p q)"
  by (auto simp: blind_def blind_token_def when_matched_def bind_eff_def bind_result_def split: prod.splits sum.splits)

lemma blind_read_level [blind_rules]: "blind parse_read_level" "blind parse_isolation_level"
  unfolding parse_isolation_level_def parse_read_level_def by (intro blind_when blind_rules)+

lemma blind_begin [blind_rules]: "blind parse_begin"
proof -
  have level: "blind (bind_eff
       (when_matched (match_word [''ISOLATION'']) (bind_eff (expect KWord ''LEVEL'') (\<lambda>_. bind_eff parse_isolation_level (\<lambda>l. ret (Some l))))
       (when_matched (match_word [''READ'']) (bind_eff parse_read_level (\<lambda>l. ret (Some l)))
       (when_matched (match_word [''SERIALIZABLE'']) (ret (Some ''SERIALIZABLE'')) (ret None))))
       (\<lambda>level. ret (BeginStmt level)))"
    by (rule blind_bind, intro blind_when blind_after_expect blind_bind [OF blind_read_level(1)]
        blind_bind [OF blind_read_level(2)] blind_match blind_pure, rule blind_pure)
  show ?thesis unfolding parse_begin_def
    by (rule blind_bind_token [OF blind_token_when]) (simp_all add: blind_expect blind_match level)
qed

lemma blind_rest [blind_rules]: "blind parse_show" "blind (end_of_txn s)"
  unfolding parse_show_def end_of_txn_def by (intro blind_after_expect blind_when blind_bind blind_rules)+

lemma peek_unplaced [simp]: "peek_is_ident (map unplaced ts) = peek_is_ident ts"
  by (auto simp: peek_is_ident_def split: list.splits)

lemma blind_statement: "blind (parse_statement n)"
  unfolding parse_statement_def
proof (rule blind_bind_token [OF blind_cur], rule blind_bind_state, goal_cases)
  case (1 t ts)
  have describe: "blind (bind_eff advance (\<lambda>_. bind_eff parse_ident (\<lambda>name. ret (Describe name))))"
    by (intro blind_after_expect blind_bind [OF blind_ident(1)] blind_pure)
  show ?case by (intro blind_if blind_bind [OF blind_query] blind_dml blind_create blind_begin blind_rest describe blind_pure)
qed (simp_all cong: if_cong)

lemma blind_all: "blind (parse_all n)"
  unfolding parse_all_def
  by (rule blind_bind_token [OF blind_cur], intro blind_if blind_after_expect blind_bind [OF blind_statement] blind_pure) simp

end
