(* ===== verification/StatementRoundtrip.thy ===== *)
theory StatementRoundtrip
  imports QueryRoundtrip ParserPositions
begin

text \<open>
  Parsing inverts the printer on statements, and on their text: the lexer reads the written tokens back with
  their positions (\<open>lexes\<close>), and the parser does not look at positions (ParserPositions).
\<close>

section \<open>Statements\<close>

lemma comma_closed:
  assumes "\<And>x t more. x \<in> set xs \<Longrightarrow> t = punct_tok '','' \<or> ends_at ws t \<Longrightarrow> p (g x @ t # more) = (t # more, Inr x)"
    and "closes ws rest" "xs \<noteq> []"
  shows "comma_list p (separated (map g xs) @ rest) = (rest, Inr xs)"
proof -
  obtain t ts where t: "rest = t # ts" "ends_at ws t" using assms(2) by (rule closes_cases)
  have "\<not> is_tok KPunct ['',''] t" by (rule ends_at_punct [OF t(2)]) simp
  then show ?thesis unfolding t(1)
    by (intro comma_reads [where Q = "\<lambda>t. t = punct_tok '','' \<or> ends_at ws t"]) (use assms t(2) in auto)
qed

lemma closes_paren [simp]: "ends_at ws (punct_tok '')'')"
  by (simp add: ends_at_def)

lemma closes_where: "closes [] rest \<Longrightarrow> closes [''GROUP'', ''ORDER'', ''LIMIT'', ''OFFSET''] rest"
  by (erule closes_mono) simp

lemma parens_read:
  assumes "comma_list p (separated (map g xs) @ punct_tok '')'' # rest) = (punct_tok '')'' # rest, Inr xs)"
  shows "bind_eff (expect KPunct ''('') (\<lambda>_. bind_eff (comma_list p) (\<lambda>ys. bind_eff (expect KPunct '')'') (\<lambda>_. f ys)))
    (parens (separated (map g xs)) @ rest) = f xs rest"
  by (simp add: parens_def bind_expect bind_via [where p = "comma_list p", OF assms])

lemma idents_read:
  assumes "cs \<noteq> []"
  shows "comma_list parse_ident (separated (map (\<lambda>c. [ident_tok c]) cs) @ punct_tok '')'' # rest) = (punct_tok '')'' # rest, Inr cs)"
  using assms by (intro comma_closed [where ws = "[]"]) (auto simp: ident_at)

lemma row_reads:
  assumes "es \<noteq> []" "\<forall>e\<in>set es. reads (parse_expr n) e"
  shows "parse_value_row n (row_toks es @ rest) = (rest, Inr es)"
  using reads_list [OF assms(2,1), of "[]" "punct_tok '')'' # rest"]
  by (simp add: parse_value_row_def row_toks_def parens_read bind_ret_at)

lemma columns_read:
  assumes "cols \<noteq> Some []"
  shows "bind_eff
       (when_matched (match_punct ''('')
          (bind_eff (comma_list parse_ident) (\<lambda>cs. bind_eff (expect KPunct '')'') (\<lambda>_. ret (Some cs))))
          (ret None)) f (columns_toks cols @ word_tok ''VALUES'' # rest) = f cols (word_tok ''VALUES'' # rest)"
proof (cases cols)
  case (Some cs)
  then show ?thesis using assms idents_read [of cs]
    by (simp add: columns_toks_def parens_def at_steps bind_via [where p = "comma_list parse_ident"])
qed (simp add: columns_toks_def at_steps)

lemma insert_reads:
  assumes "cols \<noteq> Some []" "rs \<noteq> []" "\<forall>es\<in>set rs. es \<noteq> [] \<and> (\<forall>e\<in>set es. reads (parse_expr n) e)" "closes [] rest"
  shows "parse_insert n (stmt_toks (Insert tab cols rs) @ rest) = (rest, Inr (Insert tab cols rs))"
proof -
  have "comma_list (parse_value_row n) (separated (map row_toks rs) @ rest) = (rest, Inr rs)"
    using assms(2-4) by (intro comma_closed [where ws = "[]"]) (auto simp: row_reads)
  then show ?thesis
    by (simp add: parse_insert_def bind_expect bind_ident columns_read [OF assms(1)] bind_via [where p = "comma_list (parse_value_row n)"] bind_ret_at)
qed

lemma update_reads:
  assumes "assigns \<noteq> []" "\<forall>a\<in>set assigns. reads (parse_expr n) (snd a)" "wh = Missing \<or> reads (parse_expr n) wh" "closes [] rest"
  shows "parse_update n (stmt_toks (Update tab assigns wh) @ rest) = (rest, Inr (Update tab assigns wh))"
proof -
  let ?where = "clause_toks ''WHERE'' wh (body wh) @ rest"
  have c: "closes [''WHERE''] ?where" using closes_mono [OF assms(4), of "[''WHERE'']"] by (simp add: clause_toks_def)
  have assign: "parse_assignment n (assign_toks a @ t # more) = (t # more, Inr a)"
    if "a \<in> set assigns" "t = punct_tok '','' \<or> ends_at [''WHERE''] t" for a t more
  proof -
    have "stops 0 (t # more)" using that(2) ends_at_level [of "[''WHERE'']" t] stops_close(2) [of 0] by (auto simp: stops_Cons operator_words_def)
    then have "parse_expr n (body (snd a) @ t # more) = (t # more, Inr (snd a))" using assms(2) that(1) by (simp add: readsD)
    then show ?thesis
      by (simp add: parse_assignment_def assign_toks_def bind_ident bind_expect bind_via [where p = "parse_expr n"] bind_ret_at)
  qed
  have "comma_list (parse_assignment n) (separated (map assign_toks assigns) @ ?where) = (?where, Inr assigns)"
    using assms(1) by (intro comma_closed [OF _ c] assign)
  moreover have "parse_where (parse_expr n) ?where = (rest, Inr wh)" using where_reads [OF assms(3) closes_where [OF assms(4)]] .
  moreover have "parse_optional_alias (word_tok ''SET'' # more) = (word_tok ''SET'' # more, Inr None)" for more
    using alias_reads [of "word_tok ''SET''" None] by (simp add: alias_toks_def)
  ultimately show ?thesis
    by (simp add: parse_update_def bind_expect bind_ident bind_via [where p = "comma_list (parse_assignment n)"]
        bind_via [where p = "parse_where (parse_expr n)"] bind_via [where p = parse_optional_alias] bind_ret_at)
qed

lemma delete_reads:
  assumes "wh = Missing \<or> reads (parse_expr n) wh" "closes [] rest"
  shows "parse_delete n (stmt_toks (Delete tab wh) @ rest) = (rest, Inr (Delete tab wh))"
  using where_reads [OF assms(1) closes_where [OF assms(2)]]
  by (simp add: parse_delete_def bind_expect bind_ident bind_via [where p = "parse_where (parse_expr n)"] bind_ret_at)

section \<open>CREATE TABLE\<close>

lemma type_reads:
  assumes "bound_ok b" "\<not> is_tok KPunct [''(''] t"
  shows "parse_type (word_tok (type_name ty) # length_toks b @ t # rest) = (t # rest, Inr (ty, b))"
proof -
  have ty: "map_of TYPE_NAMES (type_name ty) = Some ty" by (cases ty) (simp_all add: TYPE_NAMES_def)
  have len: "parse_nonneg_int (literal_tok (VInt m) # more) = (more, Inr m)" if "0 \<le> m" for m more
    using that by (simp add: parse_nonneg_int_def bind_eff_def expect_kind_at literal_tok_def ret_def)
  show ?thesis
    using assms by (cases b) (simp_all add: parse_type_def bind_eff_def [of "expect_kind KWord"] expect_kind_at ty length_toks_def parens_def
      at_steps bound_ok_def bind_via [where p = parse_nonneg_int, OF len])
qed

lemma constraints_read:
  assumes "t = punct_tok '','' \<or> t = punct_tok '')''"
  shows "repeat_while constraint_step (True, False) (constraint_toks a b @ t # rest) = (t # rest, Inr (a, b))"
proof -
  have none: "constraint_step acc (t # rest) = (t # rest, Inr None)" for acc
    using assms by (auto simp: constraint_step_def at_steps)
  have stop: "repeat_while constraint_step acc (t # rest) = (t # rest, Inr acc)" for acc
    by (rule repeat_stop [where f = constraint_step, OF none])
  have null: "repeat_while constraint_step acc (word_tok ''NULL'' # t # rest) = (t # rest, Inr (True, snd acc))" for acc
    by (rule repeat_round [where f = constraint_step, OF _ _ stop]) (simp_all add: constraint_step_def at_steps)
  have not_null: "repeat_while constraint_step acc (word_tok ''NOT'' # word_tok ''NULL'' # t # rest) = (t # rest, Inr (False, snd acc))" for acc
    by (rule repeat_round [where f = constraint_step, OF _ _ stop]) (simp_all add: constraint_step_def at_steps)
  have key: "repeat_while constraint_step acc (word_tok ''PRIMARY'' # word_tok ''KEY'' # t # rest) = (t # rest, Inr (False, True))" for acc
    by (rule repeat_round [where f = constraint_step, OF _ _ stop]) (simp_all add: constraint_step_def at_steps)
  have both: "repeat_while constraint_step acc (word_tok ''PRIMARY'' # word_tok ''KEY'' # word_tok ''NULL'' # t # rest) = (t # rest, Inr (True, True))" for acc
    by (rule repeat_round [where f = constraint_step and y = "(False, True)"]) (use null [of "(False, True)"] in \<open>simp_all add: constraint_step_def at_steps\<close>)
  show ?thesis using stop null not_null key both by (cases a; cases b) simp_all
qed

lemma column_def_reads:
  assumes "bound_ok (cd_length c)" "t = punct_tok '','' \<or> t = punct_tok '')''"
  shows "parse_column_def (column_toks c @ t # rest) = (t # rest, Inr c)"
proof -
  let ?more = "constraint_toks (cd_nullable c) (cd_primary_key c) @ t # rest"
  obtain u us where u: "?more = u # us" "\<not> is_tok KPunct [''(''] u"
    using assms(2) by (cases "cd_nullable c"; cases "cd_primary_key c") auto
  have "parse_type (word_tok (type_name (cd_type c)) # length_toks (cd_length c) @ ?more) = (?more, Inr (cd_type c, cd_length c))"
    unfolding u(1) by (rule type_reads [OF assms(1) u(2)])
  moreover have "bind_eff parse_ident_raw f (ident_tok a # ts) = f a ts" for f :: "string \<Rightarrow> column_def parser" and a ts
    by (simp add: parse_ident_raw_def at_steps)
  ultimately show ?thesis
    by (simp add: parse_column_def_def column_toks_def bind_via [where p = parse_type] bind_ret_at
        bind_via [where p = "repeat_while constraint_step (True, False)", OF constraints_read [OF assms(2)]])
qed

lemma create_reads:
  assumes "cols \<noteq> []" "\<forall>c\<in>set cols. bound_ok (cd_length c)"
  shows "parse_create (stmt_toks (CreateTable tab cols) @ rest) = (rest, Inr (CreateTable tab cols))"
proof -
  obtain c cs where cols: "cols = c # cs" using assms(1) by (cases cols) auto
  let ?close = "punct_tok '')'' # rest"
  let ?rest = "\<lambda>ds. concat (map (\<lambda>d. punct_tok '','' # column_toks d) ds) @ ?close"
  let ?round = "\<lambda>cols. when_matched (match_punct '','')
      (bind_eff (check KWord [''PRIMARY'']) (\<lambda>pk.
         if pk then bind_eff (consume_table_pk cols) (\<lambda>cs. ret (Some cs))
         else bind_eff parse_column_def (\<lambda>c. ret (Some (cols @ [c]))))) (ret None)"
  have column: "parse_column_def (column_toks d @ ?rest ds) = (?rest ds, Inr d)" if "bound_ok (cd_length d)" for d ds
    using column_def_reads [OF that, of "punct_tok '')''" rest] column_def_reads [OF that, of "punct_tok '',''"]
    by (cases ds) simp_all
  have stop: "?round acc ?close = (?close, Inr None)" for acc by (simp add: at_steps)
  have loop: "repeat_while ?round acc (?rest ds) = (?close, Inr (acc @ ds))" if "\<forall>d\<in>set ds. bound_ok (cd_length d)" for acc ds
    using that
  proof (induction ds arbitrary: acc)
    case Nil
    show ?case using repeat_stop [where f = ?round, OF stop] by simp
  next
    case (Cons d ds)
    have "?round acc (?rest (d # ds)) = (?rest ds, Inr (Some (acc @ [d])))"
      using column [of d ds] Cons.prems by (simp add: at_steps column_toks_def bind_via [where p = parse_column_def])
    moreover have "length (?rest ds) < length (?rest (d # ds))" by simp
    moreover have "repeat_while ?round (acc @ [d]) (?rest ds) = (?close, Inr ((acc @ [d]) @ ds))"
      using Cons.prems by (intro Cons.IH) simp
    ultimately show ?case using repeat_round [where f = ?round] by simp
  qed
  have "parse_column_def (column_toks c @ ?rest cs) = (?rest cs, Inr c)"
    "repeat_while ?round [c] (?rest cs) = (?close, Inr (c # cs))"
    using column [of c cs] loop [of cs "[c]"] assms(2) cols by simp_all
  then show ?thesis
    by (simp add: parse_create_def cols parens_def separated_Cons o_def bind_expect bind_ident
        bind_via [where p = parse_column_def] bind_via [where p = "repeat_while ?round [c]"] bind_ret_at)
qed

section \<open>Any statement\<close>

definition stmt_bound :: "statement \<Rightarrow> nat" where
  "stmt_bound s =
     (case s of
        Insert tab cols rs \<Rightarrow> size_list (size_list size) rs
      | Update tab assigns wh \<Rightarrow> size_list (\<lambda>a. size (snd a)) assigns + size wh
      | Delete tab wh \<Rightarrow> size wh
      | Select q \<Rightarrow> size q
      | _ \<Rightarrow> 0)"

lemma insert_sizes: "es \<in> set rs \<Longrightarrow> e \<in> set es \<Longrightarrow> size e \<le> size_list (size_list size) rs"
  using member_size [of e es] by (induction rs) auto

lemma assign_sizes: "a \<in> set assigns \<Longrightarrow> size (snd a) \<le> size_list (\<lambda>a. size (snd a)) assigns"
  by (induction assigns) auto

lemma statement_reads:
  assumes "printable_stmt s" "stmt_bound s < n"
  shows "parse_statement n (stmt_toks s @ [eof_token i]) = ([eof_token i], Inr s)"
proof -
  have eof: "closes [] [eof_token i]" by (simp add: ends_at_def eof_token_def)
  have eof_kind: "\<not> is_tok k vs (eof_token i)" if "k \<noteq> KEof" for k vs using that by (simp add: is_tok_def eof_token_def)
  show ?thesis
  proof (cases s)
    case (CreateTable tab cols)
    then show ?thesis using assms(1) create_reads [of cols tab "[eof_token i]"]
      by (simp add: parse_statement_def bind_cur bind_state list_all_iff)
  next
    case (Insert tab cols rs)
    have "\<forall>es\<in>set rs. es \<noteq> [] \<and> (\<forall>e\<in>set es. reads (parse_expr n) e)"
      using assms insert_sizes Insert by (fastforce simp: list_all_iff stmt_bound_def intro: printed_expr)
    then show ?thesis using assms(1) insert_reads [OF _ _ _ eof, of cols rs n tab] Insert
      by (simp add: parse_statement_def bind_cur bind_state)
  next
    case (Update tab assigns wh)
    have "\<forall>a\<in>set assigns. reads (parse_expr n) (snd a)"
      using assms assign_sizes Update by (fastforce simp: list_all_iff stmt_bound_def intro: printed_expr)
    moreover have "wh = Missing \<or> reads (parse_expr n) wh" using assms Update by (auto simp: stmt_bound_def intro: printed_expr)
    ultimately show ?thesis using assms(1) update_reads [OF _ _ _ eof, of assigns n wh tab] Update
      by (simp add: parse_statement_def bind_cur bind_state)
  next
    case (Delete tab wh)
    have "wh = Missing \<or> reads (parse_expr n) wh" using assms Delete by (auto simp: stmt_bound_def intro: printed_expr)
    then show ?thesis using delete_reads [OF _ eof] Delete by (simp add: parse_statement_def bind_cur bind_state)
  next
    case (Select q)
    then have "parse_select n (select_toks q @ [eof_token i]) = ([eof_token i], Inr q)"
      using assms by (intro printed_query [OF _ _ eof]) (simp_all add: stmt_bound_def)
    then show ?thesis using Select select_head [of q]
      by (auto simp: parse_statement_def bind_cur bind_state bind_via [where p = "parse_select n"] bind_ret_at)
  next
    case (BeginStmt level)
    then show ?thesis using assms(1)
      by (auto simp: level_toks_def parse_statement_def bind_cur bind_state parse_begin_def at_steps parse_read_level_def
          bind_nested eof_kind)
  qed (simp_all add: parse_statement_def bind_cur bind_state end_of_txn_def parse_show_def at_steps bind_ident eof_kind
      bind_expect when_matched_at)
qed

lemma printed_parses:
  assumes "printable_stmt s" "stmt_bound s < n"
  shows "snd (parse_all n (stmt_toks s @ [eof_token i])) = Inr s"
proof -
  obtain t ts where t: "stmt_toks s = t # ts" "tk_kind t \<noteq> KEof"
    using assms(1) select_head by (cases s) (force simp: separated.simps)+
  have "snd (bind_eff (expect_kind KEof) (\<lambda>_. ret s) [eof_token i]) = Inr s"
    by (simp add: bind_eff_def expect_kind_at ret_def eof_token_def)
  then show ?thesis using statement_reads [OF assms, of i] t
    by (simp add: parse_all_def bind_cur bind_via [where p = "parse_statement n"])
qed

end
