(* ===== verification/TextRoundtrip.thy ===== *)
theory TextRoundtrip
  imports StatementRoundtrip
begin

text \<open>
  The lexer reads the text of printed tokens back, each at its position, and so the text of a statement is parsed
  to the statement.
\<close>

section \<open>The printed tokens\<close>

definition PUNCTS :: "string list" where
  "PUNCTS = [''('', '')'', '','', ''.'', ''*'', ''+'', ''-'', ''/'', ''='', ''!='', ''<'', ''<='', ''>'', ''>='']"

definition printed :: "token \<Rightarrow> bool" where
  "printed t \<longleftrightarrow>
     (\<exists>w\<in>set KEYWORDS. t = word_tok w) \<or> (\<exists>p\<in>set PUNCTS. t = punct_tok p) \<or> (\<exists>x. t = ident_tok x) \<or>
     (\<exists>v. t = literal_tok v)"

lemma printed_simps [simp]:
  "w \<in> set KEYWORDS \<Longrightarrow> printed (word_tok w)" "p \<in> set PUNCTS \<Longrightarrow> printed (punct_tok p)"
  "printed (ident_tok x)" "printed (literal_tok v)"
  by (auto simp: printed_def)

abbreviation all_printed :: "token list \<Rightarrow> bool" where
  "all_printed \<equiv> list_all printed"

lemma keyword_facts: "list_all (\<lambda>w. w \<in> set KEYWORDS)
    ([''OR'', ''AND'', ''NOT'', ''LIKE'', ''BETWEEN'', ''IS'', ''NULL'', ''DISTINCT'', ''IN'', ''SELECT'', ''FROM'', ''AS'',
      ''JOIN'', ''LEFT'', ''ON'', ''WHERE'', ''GROUP'', ''BY'', ''HAVING'', ''ORDER'', ''DESC'', ''LIMIT'', ''OFFSET'',
      ''CREATE'', ''TABLE'', ''PRIMARY'', ''KEY'', ''INSERT'', ''INTO'', ''VALUES'', ''UPDATE'', ''SET'', ''DELETE'',
      ''BEGIN'', ''READ'', ''COMMITTED'', ''SERIALIZABLE'', ''COMMIT'', ''ROLLBACK'', ''SHOW'', ''TABLES'', ''DESCRIBE''] @
     FUNC_WORDS @ map type_name [TInt, TFloat, TVarchar, TText, TBoolean])"
  by code_simp

lemma word_printed [simp]:
  "printed (word_tok ''OR'')" "printed (word_tok ''AND'')" "printed (word_tok ''NOT'')" "printed (word_tok ''LIKE'')"
  "printed (word_tok ''BETWEEN'')" "printed (word_tok ''IS'')" "printed (word_tok ''NULL'')" "printed (word_tok ''DISTINCT'')"
  "printed (word_tok ''IN'')" "printed (word_tok ''SELECT'')" "printed (word_tok ''FROM'')" "printed (word_tok ''AS'')"
  "printed (word_tok ''JOIN'')" "printed (word_tok ''LEFT'')" "printed (word_tok ''ON'')" "printed (word_tok ''WHERE'')"
  "printed (word_tok ''GROUP'')" "printed (word_tok ''BY'')" "printed (word_tok ''HAVING'')" "printed (word_tok ''ORDER'')"
  "printed (word_tok ''DESC'')" "printed (word_tok ''LIMIT'')" "printed (word_tok ''OFFSET'')" "printed (word_tok ''CREATE'')"
  "printed (word_tok ''TABLE'')" "printed (word_tok ''PRIMARY'')" "printed (word_tok ''KEY'')" "printed (word_tok ''INSERT'')"
  "printed (word_tok ''INTO'')" "printed (word_tok ''VALUES'')" "printed (word_tok ''UPDATE'')" "printed (word_tok ''SET'')"
  "printed (word_tok ''DELETE'')" "printed (word_tok ''BEGIN'')" "printed (word_tok ''READ'')" "printed (word_tok ''COMMITTED'')"
  "printed (word_tok ''SERIALIZABLE'')" "printed (word_tok ''COMMIT'')" "printed (word_tok ''ROLLBACK'')"
  "printed (word_tok ''SHOW'')" "printed (word_tok ''TABLES'')" "printed (word_tok ''DESCRIBE'')"
  using keyword_facts by simp_all

lemma func_printed: "name \<in> set FUNC_WORDS \<Longrightarrow> printed (word_tok name)"
  using keyword_facts by (simp add: list_all_iff)

lemma type_printed [simp]: "printed (word_tok (type_name ty))"
  using keyword_facts by (cases ty) simp_all

lemma punct_printed [simp]:
  "printed (punct_tok ''('')" "printed (punct_tok '')'')" "printed (punct_tok '','')" "printed (punct_tok ''.'')" "printed (punct_tok ''*'')" "printed (punct_tok ''+'')" "printed (punct_tok ''-'')"
  "printed (punct_tok ''/'')" "printed (punct_tok ''='')" "printed (punct_tok ''!='')" "printed (punct_tok ''<'')" "printed (punct_tok ''<='')" "printed (punct_tok ''>'')" "printed (punct_tok ''>='')"
  by (simp_all add: PUNCTS_def)

lemma op_printed [simp]: "all_printed (binop_toks op)"
  by (cases op) simp_all

lemma separated_printed: "all_printed (separated (map f xs)) \<longleftrightarrow> (\<forall>x\<in>set xs. all_printed (f x))"
proof -
  have "all_printed (separated tss) \<longleftrightarrow> (\<forall>ts\<in>set tss. all_printed ts)" for tss
    by (induction tss rule: separated.induct) simp_all
  then show ?thesis by simp
qed

lemma list_all_id: "list_all id (map f xs) \<longleftrightarrow> (\<forall>x\<in>set xs. f x)"
  by (simp add: list_all_iff)

lemma enclose_printed [simp]: "all_printed (enclose l e ts) \<longleftrightarrow> all_printed ts"
  by (simp add: enclose_def)

lemma part_printed [simp]:
  "all_printed (name_toks tab)" "all_printed (alias_toks al)" "all_printed (kind_toks k)"
  "all_printed (limit_toks ''LIMIT'' b)" "all_printed (limit_toks ''OFFSET'' b)"
  by (auto simp: name_toks_def alias_toks_def limit_toks_def split: option.split) (cases k; simp)

lemma clause_printed: "printed (word_tok w) \<Longrightarrow> e = Missing \<or> all_printed ts \<Longrightarrow> all_printed (clause_toks w e ts)"
  by (auto simp: clause_toks_def)

lemma from_printed: "\<forall>j\<in>set joins. all_printed (join_toks j) \<Longrightarrow> all_printed (from_toks tab al (map join_toks joins))"
  by (induction joins) (auto simp: from_toks_def split: option.splits)

lemma group_printed: "\<forall>e\<in>set gs. all_printed (body e) \<Longrightarrow> all_printed hv \<Longrightarrow> all_printed (group_toks (map body gs) hv)"
  by (simp add: group_toks_def separated_printed)

lemma order_printed:
  "\<forall>p\<in>set items. all_printed (body (fst p)) \<Longrightarrow> all_printed (order_toks (map (\<lambda>p. (body (fst p), snd p)) items))"
  by (simp add: order_toks_def separated_printed o_def)

lemma tree_printed:
  "printable e \<or> is_star e \<Longrightarrow> all_printed (body e)"
  "printable_query q \<Longrightarrow> all_printed (select_toks q)"
  "printable_join j \<Longrightarrow> all_printed (join_toks j)"
proof (induction e and q and j rule: body_select_toks_join_toks.induct)
  case (11 name args dct star)
  then show ?case by (auto simp: is_star_def separated_printed func_printed list_all_id)
next
  case (15 ps tab al joins wh gs hv items lm off dct)
  have "\<forall>e\<in>set ps. all_printed (body e)" using 15 by (auto simp: list_all_iff)
  moreover have "\<forall>j\<in>set joins. all_printed (join_toks j)" using 15 by (simp add: list_all_id)
  moreover have "wh = Missing \<or> all_printed (body wh)" "hv = Missing \<or> all_printed (body hv)" using 15 by auto
  moreover have "\<forall>e\<in>set gs. all_printed (body e)" using 15 by (simp add: list_all_id)
  moreover have "\<forall>p\<in>set items. all_printed (body (fst p))" using 15 by (auto simp: list_all_iff)
  ultimately show ?case
    by (simp add: separated_printed from_printed group_printed order_printed clause_printed)
qed (simp_all add: is_star_def)

lemma stmt_printed:
  assumes "printable_stmt s"
  shows "all_printed (stmt_toks s)"
proof -
  have wh: "all_printed (clause_toks ''WHERE'' wh (body wh))" if "wh = Missing \<or> printable wh" for wh
    using that tree_printed(1) by (intro clause_printed) auto
  have parens: "all_printed (parens ts) \<longleftrightarrow> all_printed ts" for ts by (simp add: parens_def)
  have column: "all_printed (column_toks c)" for c
    by (cases "cd_length c"; cases "cd_nullable c"; cases "cd_primary_key c")
      (simp_all add: column_toks_def length_toks_def parens)
  show ?thesis
  proof (cases s)
    case (CreateTable tab cols)
    then show ?thesis by (simp add: parens separated_printed column)
  next
    case (Insert tab cols rs)
    have "all_printed (row_toks es)" if "es \<in> set rs" for es
    proof -
      have "\<forall>e\<in>set es. printable e" using that assms Insert by (simp add: list_all_iff)
      then show ?thesis using tree_printed(1) by (simp add: row_toks_def parens separated_printed)
    qed
    moreover have "all_printed (columns_toks cols)"
      by (simp add: columns_toks_def parens separated_printed split: option.split)
    ultimately show ?thesis using Insert by (simp add: separated_printed)
  next
    case (Update tab assigns wh')
    then have "\<forall>a\<in>set assigns. printable (snd a)" using assms by (simp add: list_all_iff)
    then show ?thesis using assms tree_printed(1) wh Update by (simp add: separated_printed assign_toks_def)
  next
    case (BeginStmt level)
    then show ?thesis by (simp add: level_toks_def split: option.split)
  qed (use assms wh tree_printed(2) in simp_all)
qed

section \<open>Reading a token back\<close>

text \<open>The text of a token, with a space or the end of the text after it, is read as the token at its position.\<close>

definition parted :: "string \<Rightarrow> bool" where
  "parted tail \<longleftrightarrow> tail = [] \<or> hd tail = CHR '' ''"

definition lexes :: "token \<Rightarrow> bool" where
  "lexes t \<longleftrightarrow> (\<forall>i tail. parted tail \<longrightarrow> (\<exists>c cs. write_tok t @ tail = c # cs \<and> \<not> blank c \<and>
     \<not> (c = CHR ''-'' \<and> starts (CHR ''-'') cs) \<and> \<not> (c = CHR ''/'' \<and> starts (CHR ''*'') cs) \<and>
     read_token i (c # cs) = Inr (t\<lparr>tk_pos := i\<rparr>, tail)))"

lemma parted_cases: "parted tail \<Longrightarrow> (tail = [] \<Longrightarrow> P) \<Longrightarrow> (\<And>more. tail = CHR '' '' # more \<Longrightarrow> P) \<Longrightarrow> P"
  by (cases tail) (simp_all add: parted_def)

lemma parted_simps [simp]: "parted []" "parted (CHR '' '' # cs)"
  by (simp_all add: parted_def)

lemma space_facts [simp]:
  "\<not> word_char (CHR '' '')" "\<not> is_digit (CHR '' '')" "blank (CHR '' '')" "\<not> is_alpha (CHR '' '')"
  by (simp_all add: word_char_def is_alnum_def is_digit_def is_alpha_def is_upper_def is_lower_def blank_def char_code_def)

lemma keyword_chars:
  "list_all (\<lambda>w. w \<noteq> [] \<and> is_alpha (hd w) \<and> list_all word_char w \<and> py_upper w = w) KEYWORDS"
  by code_simp

lemma alpha_facts: "is_alpha c \<Longrightarrow> \<not> blank c \<and> c \<noteq> CHR ''-'' \<and> c \<noteq> CHR ''/''"
  by (auto simp: is_alpha_def is_upper_def is_lower_def blank_def char_code_def)

lemma run_parted:
  assumes "\<forall>c\<in>set w. p c" "parted tail" "\<not> p (CHR '' '')"
  shows "takeWhile p (w @ tail) = w" "dropWhile p (w @ tail) = tail"
  using assms by (auto elim!: parted_cases simp: takeWhile_append2 dropWhile_append2)

lemma lexesI:
  assumes "write_tok t = c # cs" "\<not> blank c"
    and "\<And>i tail. parted tail \<Longrightarrow> read_token i (write_tok t @ tail) = Inr (t\<lparr>tk_pos := i\<rparr>, tail)"
    and "\<And>tail. parted tail \<Longrightarrow> \<not> (c = CHR ''-'' \<and> starts (CHR ''-'') (cs @ tail)) \<and> \<not> (c = CHR ''/'' \<and> starts (CHR ''*'') (cs @ tail))"
  shows "lexes t"
  using assms unfolding lexes_def by auto

lemma word_lexes:
  assumes "w \<in> set KEYWORDS"
  shows "lexes (word_tok w)"
proof -
  obtain c cs where w: "w = c # cs" and c: "is_alpha c" and chars: "\<forall>c\<in>set w. word_char c" and upper: "py_upper w = w"
    using keyword_chars assms by (cases w) (auto simp: list_all_iff)
  show ?thesis
  proof (rule lexesI)
    show "write_tok (word_tok w) = c # cs" "\<not> blank c" using w alpha_facts [OF c] by simp_all
    show "read_token i (write_tok (word_tok w) @ tail) = Inr ((word_tok w)\<lparr>tk_pos := i\<rparr>, tail)" if "parted tail" for i tail
      using c upper assms run_parted [OF chars that]
      by (simp add: read_token_def w read_word_def word_tok_def plain_token_def Let_def tok_text_def)
  qed (use alpha_facts [OF c] in simp)
qed

lemma punct_lexes:
  assumes "p \<in> set PUNCTS"
  shows "lexes (punct_tok p)"
proof -
  have shown: "write_tok (punct_tok p) = p" by simp
  have first: "\<exists>c cs. p @ tail = c # cs \<and> \<not> blank c \<and> \<not> (c = CHR ''-'' \<and> starts (CHR ''-'') cs) \<and>
      \<not> (c = CHR ''/'' \<and> starts (CHR ''*'') cs) \<and> \<not> is_alpha c \<and> c \<noteq> CHR ''_'' \<and> \<not> is_digit c \<and>
      \<not> (c = CHR ''.'' \<and> starts_digit cs) \<and> c \<noteq> quote_char \<and> c \<noteq> dquote_char" if "parted tail" for tail
    using that assms unfolding PUNCTS_def list.set insert_iff empty_iff
    by (elim parted_cases disjE) (simp_all add: starts_def starts_digit_def blank_def is_alpha_def is_upper_def is_lower_def
        is_digit_def char_code_def quote_char_def dquote_char_def)
  have rest: "read_punct i (p @ tail) = Inr ((punct_tok p)\<lparr>tk_pos := i\<rparr>, tail)" if "parted tail" for i tail
    using that assms unfolding PUNCTS_def list.set insert_iff empty_iff
    by (elim parted_cases disjE) (simp_all add: read_punct_def TWO_CHAR_def punct_tok_def plain_token_def Let_def)
  show ?thesis
    unfolding lexes_def shown
  proof (intro allI impI)
    fix i tail
    assume tail: "parted tail"
    obtain c cs where c: "p @ tail = c # cs" "\<not> blank c" "\<not> (c = CHR ''-'' \<and> starts (CHR ''-'') cs)"
      "\<not> (c = CHR ''/'' \<and> starts (CHR ''*'') cs)" "\<not> is_alpha c" "c \<noteq> CHR ''_''" "\<not> is_digit c"
      "\<not> (c = CHR ''.'' \<and> starts_digit cs)" "c \<noteq> quote_char" "c \<noteq> dquote_char" using first [OF tail] by blast
    have "read_token i (c # cs) = Inr ((punct_tok p)\<lparr>tk_pos := i\<rparr>, tail)"
      using rest [OF tail, of i] c by (simp only: read_token_def list.case if_False simp_thms)
    then show "\<exists>c cs. p @ tail = c # cs \<and> \<not> blank c \<and> \<not> (c = CHR ''-'' \<and> starts (CHR ''-'') cs) \<and>
        \<not> (c = CHR ''/'' \<and> starts (CHR ''*'') cs) \<and> read_token i (c # cs) = Inr ((punct_tok p)\<lparr>tk_pos := i\<rparr>, tail)"
      using c by blast
  qed
qed

lemma ident_lexes:
  assumes "dquote_char \<notin> set x"
  shows "lexes (ident_tok x)"
proof -
  have "takeWhile (\<lambda>c. c \<noteq> dquote_char) (x @ dquote_char # tail) = x"
    "dropWhile (\<lambda>c. c \<noteq> dquote_char) (x @ dquote_char # tail) = dquote_char # tail" for tail
    using assms by (induction x) auto
  moreover have "\<not> is_alpha dquote_char" "\<not> is_digit dquote_char" "dquote_char \<noteq> quote_char" "\<not> blank dquote_char"
    "dquote_char \<noteq> CHR ''.''" "dquote_char \<noteq> CHR ''_''" "dquote_char \<noteq> CHR ''-''" "dquote_char \<noteq> CHR ''/''"
    by (simp_all add: dquote_char_def quote_char_def is_alpha_def is_upper_def is_lower_def is_digit_def blank_def char_code_def)
  ultimately show ?thesis
    by (simp add: lexes_def read_token_def read_quoted_ident_def ident_tok_def plain_token_def tok_text_def Let_def)
qed

lemma string_body_escaped:
  "parted tail \<Longrightarrow>
     string_body (concat (map (\<lambda>c. if c = quote_char then [c, c] else [c]) s) @ quote_char # tail) = Some (s, tail)"
proof (induction s)
  case Nil
  then show ?case by (auto elim!: parted_cases simp: quote_char_def)
next
  case (Cons c s)
  let ?tail = "concat (map (\<lambda>c. if c = quote_char then [c, c] else [c]) s) @ quote_char # tail"
  obtain d ds where d: "?tail = d # ds" by (cases ?tail) simp_all
  show ?case using Cons unfolding d by (simp add: d)
qed

lemma string_lexes: "lexes (literal_tok (VStr s))"
proof -
  have "\<not> is_alpha quote_char" "\<not> is_digit quote_char" "\<not> blank quote_char" "quote_char \<noteq> CHR ''.''"
    "quote_char \<noteq> CHR ''_''" "quote_char \<noteq> CHR ''-''" "quote_char \<noteq> CHR ''/''"
    by (simp_all add: quote_char_def is_alpha_def is_upper_def is_lower_def is_digit_def blank_def char_code_def)
  then show ?thesis
    by (simp add: lexes_def read_token_def read_string_def literal_tok_def tok_text_def sql_quote_def string_body_escaped)
qed

lemma digit_facts: "is_digit c \<Longrightarrow> \<not> blank c \<and> c \<noteq> CHR ''-'' \<and> c \<noteq> CHR ''/'' \<and> \<not> is_alpha c \<and> c \<noteq> CHR ''_''"
  by (auto simp: is_alpha_def is_upper_def is_lower_def is_digit_def blank_def char_code_def)

lemma number_lexes:
  assumes "0 \<le> n"
  shows "lexes (literal_tok (VInt n))"
proof -
  have shown: "show_int n = show_pos n" using assms by (simp add: show_int_def)
  have digits: "show_pos n \<noteq> []" "\<forall>c\<in>set (show_pos n). is_digit c" using show_pos_digits [OF assms] by auto
  obtain c cs where c: "show_pos n = c # cs" "is_digit c" using digits by (cases "show_pos n") auto
  have written: "write_tok (literal_tok (VInt n)) = show_pos n" by (simp add: literal_tok_def tok_text_def shown)
  have number: "read_number i (show_pos n @ tail) = Inr ((literal_tok (VInt n))\<lparr>tk_pos := i\<rparr>, tail)" if tail: "parted tail" for i tail
  proof -
    have "after_exponent (fst (after_fraction tail)) = (tail, False)" "after_fraction tail = (tail, False)"
      using tail by (auto elim!: parted_cases simp: after_fraction_def after_exponent_def starts_def)
    then show ?thesis
      using run_parted(2) [OF digits(2) tail] int_of_show_int [of n] by (simp add: read_number_def Let_def literal_tok_def shown)
  qed
  show ?thesis
  proof (rule lexesI)
    show "write_tok (literal_tok (VInt n)) = c # cs" "\<not> blank c" using written c digit_facts [OF c(2)] by simp_all
    show "read_token i (write_tok (literal_tok (VInt n)) @ tail) = Inr ((literal_tok (VInt n))\<lparr>tk_pos := i\<rparr>, tail)"
      if "parted tail" for i tail
      using number [OF that, of i] digit_facts [OF c(2)] c unfolding written by (simp add: read_token_def)
  qed (use digit_facts [OF c(2)] in simp)
qed

lemma writable_lexes:
  assumes "printed t" "writable t"
  shows "lexes t"
proof -
  have "lexes (literal_tok v)" if "writable (literal_tok v)" for v
    using that string_lexes number_lexes word_lexes
    by (cases v) (auto simp: literal_tok_def writable_def KEYWORDS_def)
  then show ?thesis
    using assms word_lexes punct_lexes ident_lexes by (auto simp: printed_def writable_def)
qed

section \<open>Reading a text back\<close>

lemma unplaced_at: "unplaced (t\<lparr>tk_pos := i\<rparr>) = unplaced t"
  by (simp add: unplaced_def)

lemma tokenize_token:
  assumes "lexes t" "parted tail"
  shows "tokenize_from i (write_tok t @ tail) =
    bind_result (tokenize_from (i + length (write_tok t)) tail) (\<lambda>toks. Inr (t\<lparr>tk_pos := i\<rparr> # toks))"
proof -
  obtain c cs where c: "write_tok t @ tail = c # cs" "\<not> blank c"
      "\<not> (c = CHR ''-'' \<and> starts (CHR ''-'') cs)" "\<not> (c = CHR ''/'' \<and> starts (CHR ''*'') cs)"
      "read_token i (c # cs) = Inr (t\<lparr>tk_pos := i\<rparr>, tail)"
    using assms unfolding lexes_def by blast
  have "length (c # cs) - length tail = length (write_tok t)" by (simp flip: c(1))
  then show ?thesis using c(2-5) unfolding c(1) by auto
qed

lemma tokenize_written:
  assumes "list_all lexes ts"
  shows "\<exists>toks. tokenize_from i (spaced ts) = Inr toks \<and> map unplaced toks = map unplaced ts @ [eof_token 0]"
  using assms
proof (induction ts arbitrary: i rule: spaced.induct)
  case 1
  show ?case by (simp add: unplaced_def eof_token_def)
next
  case (2 t)
  then show ?case using tokenize_token [of t "[]" i] by (simp add: unplaced_at) (simp add: unplaced_def eof_token_def)
next
  case (3 t u ts)
  let ?more = "spaced (u # ts)" and ?j = "i + length (write_tok t) + 1"
  obtain toks where toks: "tokenize_from ?j ?more = Inr toks" "map unplaced toks = map unplaced (u # ts) @ [eof_token 0]"
    using "3.IH" [of ?j] "3.prems" by auto
  have "tokenize_from i (write_tok t @ CHR '' '' # ?more) = Inr (t\<lparr>tk_pos := i\<rparr> # toks)"
    using tokenize_token [of t "CHR '' '' # ?more" i] "3.prems" toks(1) by simp
  then show ?case using toks(2) by (simp add: unplaced_at)
qed

lemma unplaced_printed: "all_printed ts \<Longrightarrow> map unplaced ts = ts"
proof (rule map_idI)
  fix t
  assume "all_printed ts" "t \<in> set ts"
  moreover have "unplaced (literal_tok v) = literal_tok v" for v
    by (cases v) (simp_all add: unplaced_def literal_tok_def word_tok_def plain_token_def)
  moreover have "unplaced (word_tok w) = word_tok w" "unplaced (punct_tok w) = punct_tok w" "unplaced (ident_tok w) = ident_tok w" for w
    by (simp_all add: unplaced_def word_tok_def punct_tok_def ident_tok_def plain_token_def)
  ultimately show "unplaced t = t" unfolding list_all_iff printed_def by metis
qed

lemma statement_text_parses:
  assumes "printable_stmt s" "list_all writable (stmt_toks s)"
  shows "parse_sql (statement_text s) = Inr s"
proof -
  have printed: "all_printed (stmt_toks s)" by (rule stmt_printed [OF assms(1)])
  then have "list_all lexes (stmt_toks s)" using assms(2) writable_lexes by (simp add: list_all_iff)
  then obtain toks where toks: "tokenize (statement_text s) = Inr toks" "map unplaced toks = stmt_toks s @ [eof_token 0]"
    using tokenize_written [of "stmt_toks s" 0] unplaced_printed [OF printed] by (auto simp: tokenize_def statement_text_def)
  define n where "n = Suc (stmt_bound s + length toks)"
  have "parse_sql (statement_text s) = snd (parse_all n toks)"
    by (rule parse_sql_levels(1) [OF toks(1)]) (simp add: n_def)
  also have "\<dots> = snd (parse_all n (map unplaced toks))" using blind_at [OF blind_all, of n toks] by simp
  also have "\<dots> = Inr s" unfolding toks(2) by (rule printed_parses [OF assms(1)]) (simp add: n_def)
  finally show ?thesis .
qed

end
