(* ===== verification/SqlText.thy ===== *)
theory SqlText
  imports Session Parser
begin

text \<open>
  \<open>Session.sql\<close> on the text of a statement, \<^verbatim>\<open>minidb/engine/session.py\<close>: the EXPLAIN prefix is taken off,
  the rest is parsed, and the statement runs. \<open>n\<close> bounds the levels of nested queries.
\<close>

definition sql :: "world \<Rightarrow> bool \<Rightarrow> nat \<Rightarrow> string \<Rightarrow> (session, sql_result) eff" where
  "sql w disk_ok n text =
     bind_eff (lift (split_explain text)) (\<lambda>(explain, rest).
     bind_eff (lift (parse_sql rest)) (run_statement w disk_ok n explain))"

end
