(* ===== verification/SqlRoundtrip.thy ===== *)
theory SqlRoundtrip
  imports TextRoundtrip SqlText
begin

text \<open>
  The session on the text of a statement: \<open>Session.sql\<close> runs the statement the text was printed from, and with
  the prefix EXPLAIN it explains it.
\<close>

definition plain_edges :: "string \<Rightarrow> bool" where
  "plain_edges s \<longleftrightarrow> s \<noteq> [] \<and> \<not> is_space (hd s) \<and> \<not> is_space (last s)"

lemma py_strip_edges: "plain_edges s \<Longrightarrow> py_strip s = s"
proof -
  assume s: "plain_edges s"
  then have "dropWhile is_space s = s" by (cases s) (simp_all add: plain_edges_def)
  moreover have "dropWhile is_space (rev s) = rev s" using s by (cases s rule: rev_cases) (simp_all add: plain_edges_def)
  ultimately show ?thesis by (simp add: py_strip_def)
qed

lemma chars_not_space:
  "is_alpha c \<Longrightarrow> \<not> is_space c" "is_digit c \<Longrightarrow> \<not> is_space c" "word_char c \<Longrightarrow> \<not> is_space c"
  by (auto simp: word_char_def is_alnum_def is_alpha_def is_upper_def is_lower_def is_digit_def is_space_def char_code_def Let_def)

lemma plain_edges_all: "s \<noteq> [] \<Longrightarrow> \<forall>c\<in>set s. \<not> is_space c \<Longrightarrow> plain_edges s"
  by (simp add: plain_edges_def)

lemma keyword_edges: "w \<in> set KEYWORDS \<Longrightarrow> plain_edges w"
  using keyword_chars chars_not_space(3) by (intro plain_edges_all) (auto simp: list_all_iff)

lemma token_edges:
  assumes "printed t" "writable t"
  shows "plain_edges (write_tok t)"
proof -
  have literal: "plain_edges (write_tok (literal_tok v))" if "writable (literal_tok v)" for v
  proof (cases v)
    case (VInt n)
    then have "0 \<le> n" using that by (simp add: writable_def literal_tok_def)
    then show ?thesis using VInt show_pos_digits [of n]
      by (intro plain_edges_all) (auto simp: literal_tok_def tok_text_def show_int_def)
  next
    case (VStr s)
    then show ?thesis
      by (simp add: literal_tok_def tok_text_def sql_quote_def plain_edges_def quote_char_def is_space_def char_code_def)
  qed (use that keyword_edges in \<open>auto simp: literal_tok_def writable_def KEYWORDS_def\<close>)
  have punct: "plain_edges p" if "p \<in> set PUNCTS" for p
    using that unfolding PUNCTS_def list.set insert_iff empty_iff
    by (elim disjE) (simp_all add: plain_edges_def is_space_def char_code_def)
  have "plain_edges (write_tok (ident_tok x))" for x
    by (simp add: plain_edges_def dquote_char_def is_space_def char_code_def)
  moreover have "plain_edges (write_tok (word_tok w))" if "w \<in> set KEYWORDS" for w using keyword_edges [OF that] by simp
  moreover have "plain_edges (write_tok (punct_tok p))" if "p \<in> set PUNCTS" for p using punct [OF that] by simp
  ultimately show ?thesis using assms literal unfolding printed_def by blast
qed

lemma spaced_edges:
  "ts \<noteq> [] \<Longrightarrow> \<forall>t\<in>set ts. plain_edges (write_tok t) \<Longrightarrow> plain_edges (spaced ts)"
proof (induction ts rule: spaced.induct)
  case (3 t u ts)
  then show ?case by (auto simp: plain_edges_def simp del: write_tok.simps)
qed simp_all

definition opening_words :: "string list" where
  "opening_words =
     [''CREATE'', ''INSERT'', ''UPDATE'', ''DELETE'', ''SELECT'', ''BEGIN'', ''COMMIT'', ''ROLLBACK'', ''SHOW'', ''DESCRIBE'']"

lemma opening_word: "\<exists>w\<in>set opening_words. \<exists>ts. stmt_toks s = word_tok w # ts"
  using select_head by (cases s) (auto simp: opening_words_def)

lemma statement_edges:
  assumes "printable_stmt s" "list_all writable (stmt_toks s)"
  shows "plain_edges (statement_text s)"
proof -
  have "stmt_toks s \<noteq> []" using opening_word [of s] by auto
  then show ?thesis
    using stmt_printed [OF assms(1)] assms(2) token_edges unfolding statement_text_def
    by (intro spaced_edges) (auto simp: list_all_iff)
qed

lemma spaced_word: "\<exists>tail. spaced (word_tok w # ts) = w @ tail"
  by (cases ts) simp_all

lemma not_explain: "take 8 (py_upper (statement_text s)) \<noteq> ''EXPLAIN '' \<and> py_upper (statement_text s) \<noteq> ''EXPLAIN''"
proof -
  obtain w tail where w: "w \<in> set opening_words" "statement_text s = w @ tail"
    using opening_word [of s] spaced_word unfolding statement_text_def by metis
  have "\<exists>c cs. w = c # cs \<and> upper_char c \<noteq> CHR ''E''"
    using w(1) unfolding opening_words_def list.set insert_iff empty_iff
    by (elim disjE) (simp_all add: upper_char_def is_lower_def char_code_def)
  then show ?thesis using w(2) by (auto simp: py_upper_def)
qed

lemma statement_text_runs:
  assumes "printable_stmt s" "list_all writable (stmt_toks s)"
  shows "sql w disk_ok n (statement_text s) = run_statement w disk_ok n False s"
    "sql w disk_ok n (''EXPLAIN '' @ statement_text s) = run_statement w disk_ok n True s"
proof -
  have edges: "plain_edges (statement_text s)" by (rule statement_edges [OF assms])
  then have "plain_edges (''EXPLAIN '' @ statement_text s)" by (simp add: plain_edges_def is_space_def char_code_def)
  moreover have "py_strip (CHR '' '' # statement_text s) = statement_text s"
    using py_strip_edges [OF edges] by (simp add: py_strip_def is_space_def char_code_def)
  moreover have "take 8 (py_upper (''EXPLAIN '' @ statement_text s)) = ''EXPLAIN ''"
    by (simp add: py_upper_def upper_char_def is_lower_def char_code_def)
  ultimately have "split_explain (''EXPLAIN '' @ statement_text s) = Inr (True, statement_text s)"
    using edges unfolding split_explain_def by (simp add: py_strip_edges Let_def plain_edges_def)
  then show "sql w disk_ok n (''EXPLAIN '' @ statement_text s) = run_statement w disk_ok n True s"
    using statement_text_parses [OF assms] by (simp add: sql_def)
  have "split_explain (statement_text s) = Inr (False, statement_text s)"
    using not_explain [of s] py_strip_edges [OF edges] by (simp add: split_explain_def Let_def)
  then show "sql w disk_ok n (statement_text s) = run_statement w disk_ok n False s"
    using statement_text_parses [OF assms] by (simp add: sql_def)
qed

end
