(* ===== verification/ParserProperties.thy ===== *)
theory ParserProperties
  imports ParserFuel SqlRoundtrip
begin

text \<open>
  The properties of the lexer and the parser.
\<close>

text \<open>
  C12. Parsing ends. Every statement text is either parsed or refused with one of three exceptions:
  LexerError, ParseError, and the ValueError that a number with an empty exponent makes \<open>float\<close> raise; the
  recursion of the parser and its loops never run out of the levels and rounds the model gives them, and with
  more levels the result is the same.
\<close>

theorem parser_ends:
  "((\<exists>s. parse_sql src = Inr s) \<or> parse_sql src = Inl ParseError \<or> parse_sql src = Inl ValueError \<or>
      (\<exists>p. parse_sql src = Inl (LexerError p))) \<and>
   (\<forall>toks n. tokenize src = Inr toks \<longrightarrow> length toks < n \<longrightarrow> snd (parse_all n toks) = parse_sql src)"
  using parse_sql_errors [of src] parse_sql_levels(1) [of src] by (cases "parse_sql src") auto

theorem parser_ends_witness:
  "(\<exists>toks. tokenize ''SELECT (1) IS NULL'' = Inr toks \<and> length toks < 9 \<and>
     snd (parse_all 9 toks) = Inr (Select (SelectStmt [UnaryOp UIsNull (Literal (VInt 1))] None None [] Missing [] Missing [] None None False))) \<and>
   parse_sql ''1e'' = Inl ValueError"
proof -
  obtain toks where toks: "tokenize ''SELECT (1) IS NULL'' = Inr toks" "length toks < 9"
  proof -
    have "case tokenize ''SELECT (1) IS NULL'' of Inl _ \<Rightarrow> False | Inr toks \<Rightarrow> length toks < 9" by code_simp
    then show thesis using that by (auto split: sum.splits)
  qed
  have "parse_sql ''SELECT (1) IS NULL'' =
      Inr (Select (SelectStmt [UnaryOp UIsNull (Literal (VInt 1))] None None [] Missing [] Missing [] None None False))"
    by code_simp
  moreover have "snd (parse_all 9 toks) = parse_sql ''SELECT (1) IS NULL''"
    using parser_ends [of "''SELECT (1) IS NULL''"] toks by blast
  moreover have "parse_sql ''1e'' = Inl ValueError" by code_simp
  ultimately show ?thesis using toks by auto
qed

text \<open>
  C10. Text and statements correspond. A statement printed as text, with parentheses only where precedence and
  associativity ask for them, is parsed back to the same statement: every clause of a query with its joins and
  subqueries, INSERT, UPDATE, DELETE, CREATE TABLE, BEGIN with its level, and the rest. So the text given to
  \<open>Session.sql\<close> runs exactly that statement, and with the prefix EXPLAIN explains it. Names may not contain a
  double quote, and number literals are ints that are not negative.
\<close>

theorem text_round_trip:
  assumes "printable_stmt s" "list_all writable (stmt_toks s)"
  shows "parse_sql (statement_text s) = Inr s \<and>
    sql w disk_ok n (statement_text s) = run_statement w disk_ok n False s \<and>
    sql w disk_ok n (''EXPLAIN '' @ statement_text s) = run_statement w disk_ok n True s"
  using statement_text_parses [OF assms] statement_text_runs [OF assms] by blast

theorem text_round_trip_witness:
  "parse_sql ''DELETE FROM \"t\" WHERE \"a\" - ( 1 + \"b\" ) = 2 AND NOT \"c\" IN ( SELECT * FROM \"u\" )'' =
     Inr (Delete ''t'' (BinaryOp BAnd
       (BinaryOp BEq (BinaryOp BSub (ColumnRef ''a'' None) (BinaryOp BAdd (Literal (VInt 1)) (ColumnRef ''b'' None))) (Literal (VInt 2)))
       (UnaryOp UNot (InSubquery (ColumnRef ''c'' None)
          (SelectStmt [Star None] (Some ''u'') None [] Missing [] Missing [] None None False) False))))"
proof -
  let ?s = "Delete ''t'' (BinaryOp BAnd
       (BinaryOp BEq (BinaryOp BSub (ColumnRef ''a'' None) (BinaryOp BAdd (Literal (VInt 1)) (ColumnRef ''b'' None))) (Literal (VInt 2)))
       (UnaryOp UNot (InSubquery (ColumnRef ''c'' None)
          (SelectStmt [Star None] (Some ''u'') None [] Missing [] Missing [] None None False) False)))"
  have "printable_stmt ?s" "list_all writable (stmt_toks ?s)" by code_simp+
  then have "parse_sql (statement_text ?s) = Inr ?s" using text_round_trip by blast
  moreover have "statement_text ?s = ''DELETE FROM \"t\" WHERE \"a\" - ( 1 + \"b\" ) = 2 AND NOT \"c\" IN ( SELECT * FROM \"u\" )''"
    by code_simp
  ultimately show ?thesis by simp
qed

end
