(* ===== verification/Cli.thy ===== *)
theory Cli
  imports SqlText
begin

text \<open>
  The shell, \<^verbatim>\<open>minidb/cli.py\<close>: rendering of results, splitting of the typed text at semicolons, meta
  commands, the loop. The state is the session with what was shown on the terminal so far; the lines the
  user types are the argument of the loop, the end of the list is the end of the input. A text that
  \<open>print\<close> shows with line breaks in it is one item; an error is shown as the exception (messages are not modelled).
\<close>

section \<open>Rendering\<close>

definition line_feed :: string where
  "line_feed = [CHR 10]"

text \<open>
  \<open>f"{v:.4g}"\<close>: four significant digits, without trailing zeros. \<open>digits4\<close> gives the digits and
  the decimal exponent of the first one after rounding.
\<close>

definition digits4 :: "rat \<Rightarrow> string \<times> int" where
  "digits4 q =
     (let e = log10_floor q; d = round_half_even (q / pow10 (e - 3))
      in if d = 10000 then (''1000'', e + 1) else (show_pos d, e))"

definition layout_general :: "string \<Rightarrow> int \<Rightarrow> string" where
  "layout_general ds e =
     (if e < - 4 \<or> 4 \<le> e then
        (let es = show_pos \<bar>e\<bar>; frac = strip_zeros (tl ds)
         in hd ds # (if frac = [] then [] else CHR ''.'' # frac) @ ''e'' @ (if e < 0 then ''-'' else ''+'') @
            (if length es < 2 then CHR ''0'' # es else es))
      else if e < 0 then ''0.'' @ replicate (nat (- e - 1)) (CHR ''0'') @ strip_zeros ds
      else (let frac = strip_zeros (drop (nat e + 1) ds)
            in take (nat e + 1) ds @ (if frac = [] then [] else CHR ''.'' # frac)))"

definition format_4g :: "pyfloat \<Rightarrow> string" where
  "format_4g x =
     (case x of
        FInf \<Rightarrow> ''inf'' | FNegInf \<Rightarrow> ''-inf'' | FNan \<Rightarrow> ''nan''
      | FFin q \<Rightarrow>
          if q = 0 then ''0''
          else (case digits4 \<bar>q\<bar> of (ds, e) \<Rightarrow> (if q < 0 then ''-'' else []) @ layout_general ds e))"

definition fmt :: "pyval \<Rightarrow> string" where
  "fmt v =
     (case v of
        VNone \<Rightarrow> ''NULL''
      | VBool b \<Rightarrow> if b then ''TRUE'' else ''FALSE''
      | VFloat x \<Rightarrow> format_4g x
      | _ \<Rightarrow> py_str v)"

text \<open>\<open>widths[i] = max(widths[i], len(cell))\<close> for the cells of a row.\<close>

fun widen :: "nat list \<Rightarrow> string list \<Rightarrow> nat list result" where
  "widen ws [] = Inr ws"
| "widen [] (c # cs) = Inl IndexError"
| "widen (w # ws) (c # cs) = bind_result (widen ws cs) (\<lambda>ws'. Inr (max w (length c) # ws'))"

fun widen_all :: "nat list \<Rightarrow> string list list \<Rightarrow> nat list result" where
  "widen_all ws [] = Inr ws"
| "widen_all ws (r # rs) = bind_result (widen ws r) (\<lambda>ws'. widen_all ws' rs)"

definition ljust :: "nat \<Rightarrow> string \<Rightarrow> string" where
  "ljust w s = s @ replicate (w - length s) (CHR '' '')"

fun join :: "string \<Rightarrow> string list \<Rightarrow> string" where
  "join sep [] = []"
| "join sep [s] = s"
| "join sep (s # ss) = s @ sep @ join sep ss"

definition rule_line :: "nat list \<Rightarrow> char \<Rightarrow> string" where
  "rule_line ws ch = ''+'' @ join ''+'' (map (\<lambda>w. replicate (w + 2) ch) ws) @ ''+''"

definition render_row :: "nat list \<Rightarrow> string list \<Rightarrow> string" where
  "render_row ws cells = ''| '' @ join '' | '' (map (\<lambda>(w, c). ljust w c) (zip ws cells)) @ '' |''"

definition render_lines :: "string list \<Rightarrow> pyval list list \<Rightarrow> string list result" where
  "render_lines columns rs =
     (let str_rows = map (map fmt) rs
      in bind_result (widen_all (map length columns) str_rows) (\<lambda>ws.
           Inr ([rule_line ws (CHR ''-''), render_row ws columns, rule_line ws (CHR ''='')] @
                map (render_row ws) str_rows @ [rule_line ws (CHR ''-'')])))"

definition render_table :: "string list \<Rightarrow> pyval list list \<Rightarrow> string result" where
  "render_table columns rs = bind_result (render_lines columns rs) (\<lambda>ls. Inr (join line_feed ls))"

section \<open>Splitting the typed text\<close>

text \<open>
  \<open>in_str\<close> is the code's flag, \<open>piece\<close> its list \<open>cur\<close>; a doubled quote inside a string is taken as two
  characters at once.
\<close>

fun split_scan :: "string \<Rightarrow> bool \<Rightarrow> string \<Rightarrow> string list \<Rightarrow> string list \<times> string" where
  "split_scan [] in_str piece stmts = (stmts, piece)"
| "split_scan [c] in_str piece stmts =
     (if c = CHR '';'' \<and> \<not> in_str then (if py_strip piece = [] then stmts else stmts @ [py_strip piece], [])
      else (stmts, piece @ [c]))"
| "split_scan (c # d # ds) in_str piece stmts =
     (if c = quote_char then
        (if in_str \<and> d = quote_char then split_scan ds in_str (piece @ [c, d]) stmts
         else split_scan (d # ds) (\<not> in_str) (piece @ [c]) stmts)
      else if c = CHR '';'' \<and> \<not> in_str then
        split_scan (d # ds) in_str [] (if py_strip piece = [] then stmts else stmts @ [py_strip piece])
      else split_scan (d # ds) in_str (piece @ [c]) stmts)"

definition split_statements :: "string \<Rightarrow> string list \<times> string" where
  "split_statements buffer = split_scan buffer False [] []"

section \<open>The shell\<close>

datatype shown = Line string | Problem py_error | Prompt string

record cli =
  cli_session :: session
  cli_shown :: "shown list"

definition say :: "shown \<Rightarrow> (cli, unit) eff" where
  "say x = modify (\<lambda>c. c\<lparr>cli_shown := cli_shown c @ [x]\<rparr>)"

text \<open>A call of the session whose exception the shell catches.\<close>

definition attempt :: "(session, 'a) eff \<Rightarrow> (cli, 'a result) eff" where
  "attempt m c = (case m (cli_session c) of (s, r) \<Rightarrow> (c\<lparr>cli_session := s\<rparr>, Inr r))"

definition show_rows :: "result_set \<Rightarrow> (cli, unit) eff" where
  "show_rows rs =
     (if rs_rows rs = [] then say (Line ''(no rows)'')
      else bind_eff (lift (render_table (rs_columns rs) (rs_rows rs))) (\<lambda>t.
           bind_eff (say (Line t)) (\<lambda>_.
             say (Line (''('' @ show_int (int (length (rs_rows rs))) @
               (if length (rs_rows rs) = 1 then '' row)'' else '' rows)''))))))"

definition show_result :: "sql_result result \<Rightarrow> (cli, unit) eff" where
  "show_result r =
     (case r of
        Inl e \<Rightarrow> say (Problem e)
      | Inr (PlanText plan) \<Rightarrow> bind_eff (say (Line ''Query plan:'')) (\<lambda>_. say (Line plan))
      | Inr (StatusText t) \<Rightarrow> say (Line t)
      | Inr (Rows rs) \<Rightarrow> show_rows rs)"

definition execute_and_print :: "world \<Rightarrow> bool \<Rightarrow> nat \<Rightarrow> string \<Rightarrow> (cli, unit) eff" where
  "execute_and_print w disk_ok n t = bind_eff (attempt (sql w disk_ok n t)) show_result"

section \<open>Meta commands\<close>

definition help_text :: string where
  "help_text =
     join line_feed
       [''commands:'',
        ''  .tables                list tables'',
        ''  .describe <table>      show table schema'',
        ''  .explain <select>      show query plan'',
        ''  .txn                   show current transaction state'',
        ''  .quit                  exit (clean shutdown + checkpoint)'']"

text \<open>\<open>parts = line.split(maxsplit=1)\<close> of a line that starts with a dot: the command and the argument.\<close>

definition meta_cmd :: "string \<Rightarrow> string" where
  "meta_cmd line = py_lower (takeWhile (\<lambda>c. \<not> is_space c) line)"

definition meta_arg :: "string \<Rightarrow> string" where
  "meta_arg line =
     (let part = dropWhile is_space (dropWhile (\<lambda>c. \<not> is_space c) line)
      in py_strip (rev (dropWhile (\<lambda>c. c = CHR '';'') (rev (py_strip part)))))"

text \<open>
  \<open>print(render_table(res.columns, res.rows))\<close> in the \<open>try\<close> block: a result without columns would be an
  AttributeError, which the block catches too.
\<close>

definition show_described :: "sql_result result \<Rightarrow> (cli, unit) eff" where
  "show_described r =
     (case bind_result r (\<lambda>x. case x of Rows rs \<Rightarrow> render_table (rs_columns rs) (rs_rows rs) | _ \<Rightarrow> Inl AttributeError) of
        Inl e \<Rightarrow> say (Problem e)
      | Inr t \<Rightarrow> say (Line t))"

text \<open>\<open>print(res)\<close> for the result of EXPLAIN, which is never a result set (\<open>explain_no_rows\<close>).\<close>

definition show_explained :: "sql_result result \<Rightarrow> (cli, unit) eff" where
  "show_explained r =
     (case r of
        Inl e \<Rightarrow> say (Problem e)
      | Inr (PlanText t) \<Rightarrow> say (Line t)
      | Inr (StatusText t) \<Rightarrow> say (Line t)
      | Inr (Rows rs) \<Rightarrow> ret ())"

definition txn_line :: "session \<Rightarrow> string" where
  "txn_line s =
     (case ss_txn s of
        None \<Rightarrow> ''autocommit''
      | Some tx \<Rightarrow>
          (case tm_txns (db_mgr (ss_db s)) tx of
             None \<Rightarrow> ''autocommit''
           | Some t \<Rightarrow>
               if tr_state t = TxActive
               then ''active txn '' @ show_int (int tx) @ '', isolation='' @ isolation_name (tr_isolation t)
               else ''autocommit''))"

definition meta_command :: "world \<Rightarrow> bool \<Rightarrow> nat \<Rightarrow> string \<Rightarrow> (cli, bool) eff" where
  "meta_command w disk_ok n line =
     (let cmd = meta_cmd line; arg = meta_arg line
      in if cmd = ''.quit'' \<or> cmd = ''.exit'' then ret True
         else bind_eff
           (if cmd = ''.help'' then say (Line help_text)
            else if cmd = ''.tables'' then
              bind_eff get_state (\<lambda>c.
                fold_eff (\<lambda>name _. say (Line name)) (table_names (ss_db (cli_session c))) ())
            else if cmd = ''.describe'' then
              (if arg = [] then say (Line ''usage: .describe <table>'')
               else bind_eff (attempt (sql w disk_ok n (''DESCRIBE '' @ arg))) show_described)
            else if cmd = ''.explain'' then
              (if arg = [] then say (Line ''usage: .explain <select>'')
               else bind_eff (attempt (sql w disk_ok n (''EXPLAIN '' @ arg))) show_explained)
            else if cmd = ''.txn'' then bind_eff get_state (\<lambda>c. say (Line (txn_line (cli_session c))))
            else say (Line (''unknown command: '' @ cmd @ '' (try .help)'')))
           (\<lambda>_. ret False))"

section \<open>The loop\<close>

datatype input_event = Typed string | Interrupt

definition PROMPT :: string where
  "PROMPT = ''minidb> ''"

definition CONTINUE :: string where
  "CONTINUE = ''      -> ''"

definition BANNER :: string where
  "BANNER = ''minidb -- MVCC in-memory SQL engine.  Type SQL ending with ';', or .help for commands.''"

text \<open>The lines after which the buffer is split.\<close>

definition complete_line :: "string \<Rightarrow> bool" where
  "complete_line stripped \<longleftrightarrow>
     (stripped \<noteq> [] \<and> last stripped = CHR '';'') \<or> py_upper stripped \<in> set [''BEGIN'', ''COMMIT'', ''ROLLBACK'']"

fun cli_loop :: "world \<Rightarrow> bool \<Rightarrow> nat \<Rightarrow> input_event list \<Rightarrow> string \<Rightarrow> string \<Rightarrow> (cli, unit) eff" where
  "cli_loop w disk_ok n [] buffer prompt = bind_eff (say (Prompt prompt)) (\<lambda>_. say (Line []))"
| "cli_loop w disk_ok n (Interrupt # events) buffer prompt =
     bind_eff (say (Prompt prompt)) (\<lambda>_. say (Line (line_feed @ ''interrupted'')))"
| "cli_loop w disk_ok n (Typed line # events) buffer prompt =
     bind_eff (say (Prompt prompt)) (\<lambda>_.
       let stripped = py_strip line
       in if buffer = [] \<and> stripped \<noteq> [] \<and> hd stripped = CHR ''.'' then
            bind_eff (meta_command w disk_ok n stripped) (\<lambda>quit.
              if quit then ret () else cli_loop w disk_ok n events buffer prompt)
          else
            let buffer1 = buffer @ line @ line_feed
            in if complete_line stripped then
                 (case split_statements buffer1 of
                    (stmts, remainder) \<Rightarrow>
                      let buffer2 = (if py_strip remainder = [] then [] else remainder);
                          prompt2 = (if buffer2 = [] then PROMPT else CONTINUE)
                      in bind_eff (fold_eff (\<lambda>stmt _. execute_and_print w disk_ok n stmt) stmts ()) (\<lambda>_.
                           cli_loop w disk_ok n events buffer2 prompt2))
               else cli_loop w disk_ok n events buffer1 CONTINUE)"

text \<open>The \<open>finally\<close> block of \<open>run\<close>: close the session, shut the database down.\<close>

definition cli_close :: "(cli, unit) eff" where
  "cli_close c =
     (case session_close (cli_session c) of
        (s, Inl e) \<Rightarrow> (c\<lparr>cli_session := s\<rparr>, Inl e)
      | (s, Inr _) \<Rightarrow>
          (case shutdown True (ss_db s) of
             Inl e \<Rightarrow> (c\<lparr>cli_session := s\<rparr>, Inl e)
           | Inr db \<Rightarrow> (c\<lparr>cli_session := s\<lparr>ss_db := db\<rparr>\<rparr>, Inr ())))"

definition cli_run :: "world \<Rightarrow> bool \<Rightarrow> nat \<Rightarrow> input_event list \<Rightarrow> (cli, int) eff" where
  "cli_run w disk_ok n events c =
     (case bind_eff (say (Line BANNER)) (\<lambda>_. cli_loop w disk_ok n events [] PROMPT) c of
        (c1, r) \<Rightarrow> bind_eff cli_close (\<lambda>_. lift (bind_result r (\<lambda>_. Inr 0))) c1)"

definition new_cli :: "database \<Rightarrow> cli" where
  "new_cli db = \<lparr>cli_session = \<lparr>ss_db = db, ss_txn = None\<rparr>, cli_shown = []\<rparr>"

text \<open>
  \<open>main\<close>: the first argument or a directory below the current one; \<open>open_db\<close> is \<open>Database(data_dir)\<close>, which reads
  the files there (\<open>recover\<close> of \<open>Database\<close>, on their contents).
\<close>

definition data_dir :: "string list \<Rightarrow> string \<Rightarrow> string" where
  "data_dir argv cwd =
     (case argv of
        a # _ \<Rightarrow> a
      | [] \<Rightarrow> cwd @ (if cwd = [] \<or> last cwd = CHR ''/'' then [] else ''/'') @ ''minidb_data'')"

definition cli_main ::
  "(string \<Rightarrow> database result) \<Rightarrow> world \<Rightarrow> bool \<Rightarrow> nat \<Rightarrow> string list \<Rightarrow> string \<Rightarrow> input_event list \<Rightarrow> (cli \<times> int result) result" where
  "cli_main open_db w disk_ok n argv cwd events =
     bind_result (open_db (data_dir argv cwd)) (\<lambda>db. Inr (cli_run w disk_ok n events (new_cli db)))"

end
