(* ===== verification/CliCorrect.thy ===== *)
theory CliCorrect
  imports Cli SqlRoundtrip
begin

text \<open>
  The shell: the scanner that splits the typed text cuts it at exactly the semicolons outside single quotes, a
  rendered table is aligned, and a statement typed with a semicolon is the statement that runs.
\<close>

section \<open>Cutting at semicolons\<close>

definition quotes :: "string \<Rightarrow> nat" where
  "quotes s = length (filter (\<lambda>c. c = quote_char) s)"

text \<open>Pieces whose semicolons are all inside quotes, and that close every quote before a cut.\<close>

definition quoted_semicolons :: "string \<Rightarrow> bool" where
  "quoted_semicolons s \<longleftrightarrow> (\<forall>i<length s. s ! i = CHR '';'' \<longrightarrow> odd (quotes (take i s)))"

definition well_cut :: "string list \<Rightarrow> bool" where
  "well_cut ps \<longleftrightarrow> ps \<noteq> [] \<and> list_all quoted_semicolons ps \<and> list_all (\<lambda>p. even (quotes p)) (butlast ps)"

lemma quotes_simps [simp]:
  "quotes [] = 0" "quotes (c # cs) = (if c = quote_char then Suc (quotes cs) else quotes cs)"
  "quotes (s @ t) = quotes s + quotes t"
  by (simp_all add: quotes_def)

text \<open>Read from the left: \<open>q\<close> is the parity of the quotes so far.\<close>

fun no_cut :: "bool \<Rightarrow> string \<Rightarrow> bool" where
  "no_cut q [] \<longleftrightarrow> True"
| "no_cut q (c # cs) \<longleftrightarrow> (c = CHR '';'' \<longrightarrow> q) \<and> no_cut (if c = quote_char then \<not> q else q) cs"

lemma no_cut_append: "no_cut q (s @ t) \<longleftrightarrow> no_cut q s \<and> no_cut (q \<noteq> odd (quotes s)) t"
proof (induction s arbitrary: q)
  case (Cons c s)
  then show ?case by (cases q; cases "c = quote_char") simp_all
qed simp

lemma quoted_no_cut: "quoted_semicolons s \<longleftrightarrow> no_cut False s"
proof (induction s rule: rev_induct)
  case (snoc c s)
  have "quoted_semicolons (s @ [c]) \<longleftrightarrow> quoted_semicolons s \<and> (c = CHR '';'' \<longrightarrow> odd (quotes s))"
    unfolding quoted_semicolons_def by (simp add: nth_append less_Suc_eq all_conj_distrib imp_conjL)
  then show ?case using snoc by (simp add: no_cut_append)
qed (simp add: quoted_semicolons_def)

text \<open>The reference: the flag is the parity of the quotes read so far.\<close>

fun cut_pieces :: "bool \<Rightarrow> string \<Rightarrow> string \<Rightarrow> string list" where
  "cut_pieces q piece [] = [piece]"
| "cut_pieces q piece (c # cs) =
     (if c = CHR '';'' \<and> \<not> q then piece # cut_pieces False [] cs
      else cut_pieces (if c = quote_char then \<not> q else q) (piece @ [c]) cs)"

lemma cut_nonempty [simp]: "cut_pieces q piece s \<noteq> []"
  by (induction q piece s rule: cut_pieces.induct) auto

lemma quote_char_simps [simp]: "quote_char \<noteq> CHR '';''" "CHR '';'' \<noteq> quote_char"
  by (simp_all add: quote_char_def)

lemma split_scan_cut:
  "split_scan s q piece stmts =
     (stmts @ filter (\<lambda>p. p \<noteq> []) (map py_strip (butlast (cut_pieces q piece s))), last (cut_pieces q piece s))"
  by (induction s q piece stmts rule: split_scan.induct) auto

lemma cut_piece:
  "no_cut q x \<Longrightarrow> q \<longleftrightarrow> odd (quotes x) \<Longrightarrow> cut_pieces q piece (x @ CHR '';'' # rest) = (piece @ x) # cut_pieces False [] rest"
  by (induction x arbitrary: q piece) auto

lemma cut_last: "no_cut q x \<Longrightarrow> cut_pieces q piece x = [piece @ x]"
  by (induction x arbitrary: q piece) auto

lemma cut_join: "well_cut ps \<Longrightarrow> cut_pieces False [] (join '';'' ps) = ps"
proof (induction ps rule: induct_list012)
  case (3 p u ps)
  then show ?case by (simp add: well_cut_def quoted_no_cut cut_piece split: if_splits)
qed (simp_all add: well_cut_def quoted_no_cut cut_last)

lemma join_Cons: "ps \<noteq> [] \<Longrightarrow> join sep (p # ps) = p @ sep @ join sep ps"
  by (cases ps) simp_all

lemma cut_well:
  "no_cut False piece \<Longrightarrow> q \<longleftrightarrow> odd (quotes piece) \<Longrightarrow>
     well_cut (cut_pieces q piece s) \<and> join '';'' (cut_pieces q piece s) = piece @ s"
proof (induction q piece s rule: cut_pieces.induct)
  case (2 q piece c cs)
  show ?case
  proof (cases "c = CHR '';'' \<and> \<not> q")
    case True
    then show ?thesis using 2 by (simp add: well_cut_def quoted_no_cut join_Cons)
  next
    case False
    then have "no_cut False (piece @ [c])" using 2(3,4) by (auto simp: no_cut_append)
    then show ?thesis using 2(2) [OF False] 2(4) False by auto
  qed
qed (simp add: well_cut_def quoted_no_cut)

lemma split_well_cut:
  "well_cut ps \<Longrightarrow> split_statements (join '';'' ps) = (filter (\<lambda>p. p \<noteq> []) (map py_strip (butlast ps)), last ps)"
  by (simp add: split_statements_def split_scan_cut cut_join)

lemma every_text_cut: "\<exists>ps. well_cut ps \<and> join '';'' ps = buffer"
  using cut_well [of "[]" False buffer] by auto

section \<open>Rendering\<close>

lemma widen_total:
  "length ws = length cells \<Longrightarrow> \<exists>ws'. widen ws cells = Inr ws' \<and> length ws' = length ws \<and>
     list_all2 (\<le>) ws ws' \<and> list_all2 (\<lambda>w c. length c \<le> w) ws' cells"
proof (induction ws cells rule: widen.induct)
  case (3 w ws c cs)
  then show ?case by fastforce
qed simp_all

lemma fits_mono:
  "list_all2 (\<lambda>w c. length c \<le> w) ws cells \<Longrightarrow> list_all2 (\<le>) ws ws' \<Longrightarrow> list_all2 (\<lambda>w c. length c \<le> w) ws' cells"
proof (induction ws cells arbitrary: ws' rule: list_all2_induct)
  case (Cons w ws c cells)
  then show ?case by (cases ws') auto
qed simp

lemma widen_all_total:
  "\<forall>r\<in>set rs. length r = length ws \<Longrightarrow> \<exists>ws'. widen_all ws rs = Inr ws' \<and> length ws' = length ws \<and>
     list_all2 (\<le>) ws ws' \<and> (\<forall>r\<in>set rs. list_all2 (\<lambda>w c. length c \<le> w) ws' r)"
proof (induction rs arbitrary: ws)
  case Nil
  then show ?case by (auto simp: list_all2_same)
next
  case (Cons r rs)
  obtain ws1 where 1: "widen ws r = Inr ws1" "length ws1 = length ws" "list_all2 (\<le>) ws ws1"
      "list_all2 (\<lambda>w c. length c \<le> w) ws1 r" using widen_total [of ws r] Cons.prems by auto
  obtain ws2 where 2: "widen_all ws1 rs = Inr ws2" "length ws2 = length ws1" "list_all2 (\<le>) ws1 ws2"
      "\<forall>r\<in>set rs. list_all2 (\<lambda>w c. length c \<le> w) ws2 r" using Cons.IH [of ws1] Cons.prems 1(2) by auto
  have "list_all2 (\<le>) ws ws2" using 1(3) 2(3) by (rule list_all2_trans [rotated]) simp
  then show ?case using 1 2 fits_mono by auto
qed

lemma join_length: "ss \<noteq> [] \<Longrightarrow> length (join sep ss) + length sep = sum_list (map length ss) + length ss * length sep"
  by (induction sep ss rule: join.induct) simp_all

lemma rule_length: "ws \<noteq> [] \<Longrightarrow> length (rule_line ws ch) = sum_list ws + 3 * length ws + 1"
proof -
  assume "ws \<noteq> []"
  then have "length (join ''+'' (map (\<lambda>w. replicate (w + 2) ch) ws)) + 1 = sum_list (map (\<lambda>w. w + 2) ws) + length ws"
    using join_length [of "map (\<lambda>w. replicate (w + 2) ch) ws" "''+''"] by (simp add: o_def)
  moreover have "sum_list (map (\<lambda>w. w + 2) ws) = sum_list ws + 2 * length ws" by (induction ws) simp_all
  ultimately show ?thesis by (simp add: rule_line_def)
qed

lemma row_length:
  assumes "ws \<noteq> []" "list_all2 (\<lambda>w c. length c \<le> w) ws cells"
  shows "length (render_row ws cells) = sum_list ws + 3 * length ws + 1"
proof -
  have "map length (map (\<lambda>(w, c). ljust w c) (zip ws cells)) = ws"
    using assms(2) by (induction rule: list_all2_induct) (simp_all add: ljust_def)
  moreover have "length (zip ws cells) = length ws" "zip ws cells \<noteq> []"
    using assms by (auto dest: list_all2_lengthD simp: zip_eq_Nil_iff)
  ultimately have "length (join '' | '' (map (\<lambda>(w, c). ljust w c) (zip ws cells))) + 3 = sum_list ws + 3 * length ws"
    using join_length [of "map (\<lambda>(w, c). ljust w c) (zip ws cells)" "'' | ''"] by simp
  then show ?thesis by (simp add: render_row_def)
qed

lemma rendered:
  assumes "columns \<noteq> []" "\<forall>r\<in>set rs. length r = length columns"
  shows "\<exists>ls ws. render_lines columns rs = Inr ls \<and> length ls = length rs + 4 \<and> ls ! 1 = render_row ws columns \<and>
    (\<forall>i<length rs. ls ! (3 + i) = render_row ws (map fmt (rs ! i))) \<and>
    (\<forall>l\<in>set ls. length l = sum_list ws + 3 * length columns + 1) \<and>
    list_all2 (\<lambda>w c. length c \<le> w) ws columns \<and> (\<forall>r\<in>set rs. list_all2 (\<lambda>w c. length c \<le> w) ws (map fmt r))"
proof -
  obtain ws where ws: "widen_all (map length columns) (map (map fmt) rs) = Inr ws" "length ws = length columns"
      "list_all2 (\<le>) (map length columns) ws" "\<forall>r\<in>set rs. list_all2 (\<lambda>w c. length c \<le> w) ws (map fmt r)"
    using widen_all_total [of "map (map fmt) rs" "map length columns"] assms(2) by auto
  have "list_all2 (\<lambda>w c. length c \<le> w) ws columns"
    using ws(3) by (auto simp: list_all2_conv_all_nth)
  moreover have "ws \<noteq> []" using ws(2) assms(1) by auto
  ultimately show ?thesis
    using ws rule_length row_length by (auto simp: render_lines_def nth_append nth_Cons' Let_def)
qed

section \<open>Typing statements\<close>

text \<open>
  A double-quoted name can be typed if it has no single quote and no semicolon: the scanner does not know
  double quotes.
\<close>

definition typeable :: "token \<Rightarrow> bool" where
  "typeable t \<longleftrightarrow> writable t \<and> (tk_kind t = KIdent \<longrightarrow> quote_char \<notin> set (tok_text t) \<and> CHR '';'' \<notin> set (tok_text t))"

definition closed_text :: "string \<Rightarrow> bool" where
  "closed_text s \<longleftrightarrow> no_cut False s \<and> even (quotes s)"

lemma closed_plain: "\<forall>c\<in>set s. c \<noteq> quote_char \<and> c \<noteq> CHR '';'' \<Longrightarrow> closed_text s"
proof -
  have "no_cut q s \<and> quotes s = 0" if "\<forall>c\<in>set s. c \<noteq> quote_char \<and> c \<noteq> CHR '';''" for q
    using that by (induction s arbitrary: q) auto
  then show "\<forall>c\<in>set s. c \<noteq> quote_char \<and> c \<noteq> CHR '';'' \<Longrightarrow> closed_text s" by (simp add: closed_text_def)
qed

lemma closed_append: "closed_text s \<Longrightarrow> closed_text t \<Longrightarrow> closed_text (s @ t)"
  by (simp add: closed_text_def no_cut_append)

lemma closed_quote: "closed_text (sql_quote s)"
proof -
  have "no_cut True (concat (map (\<lambda>c. if c = quote_char then [c, c] else [c]) s)) \<and>
      even (quotes (concat (map (\<lambda>c. if c = quote_char then [c, c] else [c]) s)))"
    by (induction s) auto
  then show ?thesis by (simp add: sql_quote_def closed_text_def no_cut_append)
qed

lemma plain_chars:
  "word_char c \<Longrightarrow> c \<noteq> quote_char \<and> c \<noteq> CHR '';''" "is_digit c \<Longrightarrow> c \<noteq> quote_char \<and> c \<noteq> CHR '';''"
  by (auto simp: word_char_def is_alnum_def is_alpha_def is_upper_def is_lower_def is_digit_def char_code_def quote_char_def)

lemma token_closed:
  assumes "printed t" "typeable t"
  shows "closed_text (write_tok t)"
proof -
  have word: "closed_text (write_tok (word_tok w))" if "w \<in> set KEYWORDS" for w
    using that keyword_chars plain_chars(1) by (simp add: list_all_iff closed_plain)
  have literal: "closed_text (write_tok (literal_tok v))" if "writable (literal_tok v)" for v
  proof (cases v)
    case (VInt n)
    then have "0 \<le> n" using that by (simp add: writable_def literal_tok_def)
    then have "write_tok (literal_tok v) = show_pos n" "\<forall>c\<in>set (show_pos n). is_digit c"
      using VInt show_pos_digits [of n] by (simp_all add: literal_tok_def tok_text_def show_int_def)
    then show ?thesis using plain_chars(2) closed_plain by metis
  next
    case (VStr s)
    then show ?thesis by (simp add: literal_tok_def tok_text_def closed_quote)
  qed (use that word in \<open>auto simp: literal_tok_def writable_def KEYWORDS_def\<close>)
  have punct: "closed_text (write_tok (punct_tok p))" if "p \<in> set PUNCTS" for p
    using that unfolding PUNCTS_def list.set insert_iff empty_iff by (elim disjE) (simp_all add: closed_text_def quote_char_def)
  have ident: "closed_text (write_tok (ident_tok x))" if "quote_char \<notin> set x" "CHR '';'' \<notin> set x" for x
  proof -
    have "\<forall>c\<in>set (write_tok (ident_tok x)). c \<noteq> quote_char \<and> c \<noteq> CHR '';''"
      using that by (auto simp: dquote_char_def quote_char_def)
    then show ?thesis by (rule closed_plain)
  qed
  from assms(1) consider w where "w \<in> set KEYWORDS" "t = word_tok w" | p where "p \<in> set PUNCTS" "t = punct_tok p"
    | x where "t = ident_tok x" | v where "t = literal_tok v"
    unfolding printed_def by blast
  then show ?thesis
  proof cases
    case 3
    then show ?thesis using assms(2) ident by (simp add: typeable_def del: write_tok.simps)
  qed (use assms(2) word punct literal in \<open>simp_all add: typeable_def del: write_tok.simps\<close>)
qed

lemma spaced_closed: "\<forall>t\<in>set ts. closed_text (write_tok t) \<Longrightarrow> closed_text (spaced ts)"
proof (induction ts rule: spaced.induct)
  case (3 t u ts)
  have "closed_text '' ''" by (simp add: closed_text_def quote_char_def)
  then show ?case using 3 closed_append by (simp del: write_tok.simps append_Cons append_Nil)
qed (simp_all add: closed_text_def)

lemma statement_closed:
  assumes "printable_stmt s" "list_all typeable (stmt_toks s)"
  shows "closed_text (statement_text s)"
  using stmt_printed [OF assms(1)] assms(2) token_closed unfolding statement_text_def
  by (intro spaced_closed) (auto simp: list_all_iff)

lemma split_typed:
  assumes "printable_stmt s" "list_all typeable (stmt_toks s)"
  shows "split_statements ((statement_text s @ '';'') @ line_feed) = ([statement_text s], line_feed)"
proof -
  have edges: "plain_edges (statement_text s)"
    using assms by (intro statement_edges) (auto simp: list_all_iff typeable_def)
  have "well_cut [statement_text s, line_feed]"
    using statement_closed [OF assms] by (simp add: well_cut_def quoted_no_cut closed_text_def line_feed_def quote_char_def)
  from split_well_cut [OF this] show ?thesis
    using edges py_strip_edges [OF edges] by (simp add: plain_edges_def)
qed

definition show_statement :: "world \<Rightarrow> bool \<Rightarrow> nat \<Rightarrow> statement \<Rightarrow> (cli, unit) eff" where
  "show_statement w disk_ok n s =
     bind_eff (say (Prompt PROMPT)) (\<lambda>_. bind_eff (attempt (run_statement w disk_ok n False s)) show_result)"

lemma statement_first: "\<exists>c cs. statement_text s = c # cs \<and> c \<noteq> CHR ''.''"
proof -
  obtain w tail where w: "w \<in> set opening_words" "statement_text s = w @ tail"
    using opening_word [of s] spaced_word unfolding statement_text_def by metis
  have "\<exists>c cs. w = c # cs \<and> c \<noteq> CHR ''.''"
    using w(1) unfolding opening_words_def list.set insert_iff empty_iff by (elim disjE) simp_all
  then show ?thesis using w(2) by auto
qed

lemma typed_statement:
  assumes "printable_stmt s" "list_all typeable (stmt_toks s)"
  shows "cli_loop w disk_ok n (Typed (statement_text s @ '';'') # events) [] PROMPT =
    bind_eff (show_statement w disk_ok n s) (\<lambda>_. cli_loop w disk_ok n events [] PROMPT)"
proof -
  have writable: "list_all writable (stmt_toks s)" using assms(2) by (auto simp: list_all_iff typeable_def)
  have first: "hd (statement_text s @ '';'') \<noteq> CHR ''.''" using statement_first [of s] by auto
  have "plain_edges (statement_text s @ '';'')"
    using statement_edges [OF assms(1) writable] by (simp add: plain_edges_def is_space_def char_code_def)
  then have strip: "py_strip (statement_text s @ '';'') = statement_text s @ '';''" by (rule py_strip_edges)
  have "complete_line (statement_text s @ '';'')" by (simp add: complete_line_def)
  moreover have "py_strip line_feed = []" by (simp add: py_strip_def line_feed_def is_space_def char_code_def)
  ultimately show ?thesis
    using split_typed [OF assms] first
    by (simp add: strip Let_def statement_text_runs(1) [OF assms(1) writable] show_statement_def execute_and_print_def bind_eff_assoc)
qed

lemma typed_statements:
  assumes "list_all (\<lambda>s. printable_stmt s \<and> list_all typeable (stmt_toks s)) ss"
  shows "cli_loop w disk_ok n (map (\<lambda>s. Typed (statement_text s @ '';'')) ss @ events) [] PROMPT =
    bind_eff (fold_eff (\<lambda>s _. show_statement w disk_ok n s) ss ()) (\<lambda>_. cli_loop w disk_ok n events [] PROMPT)"
  using assms
proof (induction ss)
  case (Cons s ss)
  then show ?case by (simp add: typed_statement bind_eff_assoc del: cli_loop.simps)
qed simp

section \<open>Meta commands\<close>

lemma explain_no_rows: "run_statement w disk_ok n True s c \<noteq> (c', Inr (Rows rs))"
proof -
  have "explain_statement s db \<noteq> (db', Inr (Rows rs))" for db db'
    by (cases s) (auto simp: explain_statement_def raise_def bind_eff_Inr ret_def split: if_splits)
  then have "on_db (explain_statement s) c \<noteq> (c', Inr (Rows rs))" by (auto simp: on_db_def split: prod.splits)
  then show ?thesis by (cases s) (auto simp: run_statement_def bind_eff_Inr ret_def)
qed

text \<open>
  The line \<open>BEGIN\<close> without a semicolon is in the list of lines that end a statement, but the scanner cuts at
  semicolons only: nothing runs, and the text stays in front of what is typed next.
\<close>

lemma bare_begin_waits:
  "cli_loop w disk_ok n (Typed ''BEGIN'' # events) [] PROMPT =
     bind_eff (say (Prompt PROMPT)) (\<lambda>_. cli_loop w disk_ok n events (''BEGIN'' @ line_feed) CONTINUE)"
proof -
  have "py_strip ''BEGIN'' = ''BEGIN''" "complete_line ''BEGIN''" "split_statements (''BEGIN'' @ line_feed) = ([], ''BEGIN'' @ line_feed)"
    "py_strip (''BEGIN'' @ line_feed) = ''BEGIN''" by code_simp+
  then show ?thesis by simp
qed

end
