(* ===== verification/CliProperties.thy ===== *)
theory CliProperties
  imports CliCorrect
begin

text \<open>
  The properties of the shell, and through it of the whole path from the typed text to the shown result.
\<close>

text \<open>
  C11. The shell runs what is typed. Statements typed one per line, each with a semicolon, are run by the session in
  order and each result is shown before the next prompt: reading the lines, splitting the buffer, taking the EXPLAIN
  prefix off, lexing and parsing together invert the printer, whatever the statements do. The shell is then back
  at its prompt with an empty buffer. Double-quoted names may hold no single quote and no semicolon, which
  the splitting does not expect there.
\<close>

theorem shell_runs_statements:
  assumes "list_all (\<lambda>s. printable_stmt s \<and> list_all typeable (stmt_toks s)) ss"
  shows "cli_loop w disk_ok n (map (\<lambda>s. Typed (statement_text s @ '';'')) ss @ events) [] PROMPT =
    bind_eff (fold_eff (\<lambda>s _. show_statement w disk_ok n s) ss ()) (\<lambda>_. cli_loop w disk_ok n events [] PROMPT)"
  by (rule typed_statements [OF assms])

theorem shell_runs_statements_witness:
  "cli_loop (\<lambda>d. d) True 1 [Typed ''DELETE FROM \"t\" WHERE \"a\" = 'x;y';'', Typed ''SHOW TABLES;''] [] PROMPT =
     bind_eff (fold_eff (\<lambda>s _. show_statement (\<lambda>d. d) True 1 s)
       [Delete ''t'' (BinaryOp BEq (ColumnRef ''a'' None) (Literal (VStr ''x;y''))), ShowTables] ())
       (\<lambda>_. cli_loop (\<lambda>d. d) True 1 [] [] PROMPT)"
proof -
  let ?ss = "[Delete ''t'' (BinaryOp BEq (ColumnRef ''a'' None) (Literal (VStr ''x;y''))), ShowTables]"
  have "list_all (\<lambda>s. printable_stmt s \<and> list_all typeable (stmt_toks s)) ?ss" by code_simp
  from shell_runs_statements [OF this, of "\<lambda>d. d" True 1 "[]"]
  have "cli_loop (\<lambda>d. d) True 1 (map (\<lambda>s. Typed (statement_text s @ '';'')) ?ss) [] PROMPT =
      bind_eff (fold_eff (\<lambda>s _. show_statement (\<lambda>d. d) True 1 s) ?ss ()) (\<lambda>_. cli_loop (\<lambda>d. d) True 1 [] [] PROMPT)"
    by (simp only: append_Nil2)
  moreover have "map (\<lambda>s. Typed (statement_text s @ '';'')) ?ss =
      [Typed ''DELETE FROM \"t\" WHERE \"a\" = 'x;y';'', Typed ''SHOW TABLES;'']" by code_simp
  ultimately show ?thesis by (simp only:)
qed

text \<open>
  C39. Semicolons are cut outside quotes. The typed text is the concatenation, with semicolons between them, of
  pieces in which every semicolon stands after an odd number of single quotes, and each piece but the last has
  an even number of quotes; for every such division the scanner returns the pieces but the last, stripped, the
  empty ones left out, as statements, and the last piece as the remainder. So the flag of the scanner, with
  its jump over a doubled quote, is the parity of the quotes.
\<close>

theorem semicolons_cut:
  "(\<exists>ps. well_cut ps \<and> join '';'' ps = buffer) \<and>
   (well_cut ps \<longrightarrow> split_statements (join '';'' ps) = (filter (\<lambda>p. p \<noteq> []) (map py_strip (butlast ps)), last ps))"
  using every_text_cut split_well_cut by blast

theorem semicolons_cut_witness:
  "split_statements ''INSERT INTO t VALUES ('a;b'); ; SELECT'' = ([''INSERT INTO t VALUES ('a;b')''], '' SELECT'')"
proof -
  let ?ps = "[''INSERT INTO t VALUES ('a;b')'', '' '', '' SELECT'']"
  have "well_cut ?ps" unfolding well_cut_def quoted_no_cut by code_simp
  then have "split_statements (join '';'' ?ps) = (filter (\<lambda>p. p \<noteq> []) (map py_strip (butlast ?ps)), last ?ps)"
    using semicolons_cut by blast
  moreover have "join '';'' ?ps = ''INSERT INTO t VALUES ('a;b'); ; SELECT''"
    "(filter (\<lambda>p. p \<noteq> []) (map py_strip (butlast ?ps)), last ?ps) = ([''INSERT INTO t VALUES ('a;b')''], '' SELECT'')"
    by code_simp+
  ultimately show ?thesis by simp
qed

text \<open>
  C40. A rendered table is aligned. When every row has a cell for each column, rendering does not raise; there is
  one line per row and four more, all of the same length; and the header and the rows are their cells, each padded
  to the width of its column and none cut off.
\<close>

theorem table_aligned:
  assumes "columns \<noteq> []" "\<forall>r\<in>set rs. length r = length columns"
  shows "\<exists>ls ws. render_lines columns rs = Inr ls \<and> render_table columns rs = Inr (join line_feed ls) \<and>
    length ls = length rs + 4 \<and> ls ! 1 = render_row ws columns \<and>
    (\<forall>i<length rs. ls ! (3 + i) = render_row ws (map fmt (rs ! i))) \<and>
    (\<forall>l\<in>set ls. length l = sum_list ws + 3 * length columns + 1) \<and>
    list_all2 (\<lambda>w c. length c \<le> w) ws columns \<and>
    (\<forall>r\<in>set rs. list_all2 (\<lambda>w v. length (fmt v) \<le> w) ws r)"
proof -
  obtain ls ws where "render_lines columns rs = Inr ls" "length ls = length rs + 4" "ls ! 1 = render_row ws columns"
      "\<forall>i<length rs. ls ! (3 + i) = render_row ws (map fmt (rs ! i))"
      "\<forall>l\<in>set ls. length l = sum_list ws + 3 * length columns + 1" "list_all2 (\<lambda>w c. length c \<le> w) ws columns"
      "\<forall>r\<in>set rs. list_all2 (\<lambda>w c. length c \<le> w) ws (map fmt r)"
    using rendered [OF assms] by blast
  then show ?thesis by (auto simp: render_table_def list_all2_map2)
qed

theorem table_aligned_witness:
  "\<exists>ls ws. render_lines [''id'', ''x''] [[VInt 1, VFloat (FFin (1/3))], [VInt 22, VNone]] = Inr ls \<and>
     (\<forall>l\<in>set ls. length l = sum_list ws + 7) \<and> length ls = 6"
proof -
  have "\<forall>r\<in>set [[VInt 1, VFloat (FFin (1/3))], [VInt 22, VNone]]. length r = length [''id'', ''x'']" by simp
  from table_aligned [OF _ this] show ?thesis by (auto simp: numeral_eq_Suc)
qed

end
