(* ===== verification/Spec2Isabelle.thy ===== *)
theory Spec2Isabelle
  imports TreeProperties MvccProperties LockProperties LogProperties ExprProperties Session SortLemmas Pushdown
    QueryProperties SessionProperties DmlProperties ParserProperties CliProperties
begin

text \<open>
  minidb is an in-memory ACID database in Python: tables are B+ trees of version chains, transactions read
  snapshots and take table and row locks, a write-ahead log and a checkpoint make commits durable, and a
  session parses, plans and executes SQL. The development follows that structure from the bottom up. Source
  files are named relative to \<^verbatim>\<open>src/minidb/\<close>.

  \<^bold>\<open>Common ground.\<close> \<open>Prelude\<close> has the exceptions as one datatype (\<open>engine/errors.py\<close> and Python's own), the
  result type of an operation that may raise, and Python's list operations. \<open>Effects\<close> has steps that change a
  state and may raise; the state survives the exception, as it does in the program. \<open>PyValue\<close> is the part of
  Python a cell depends on: None, bool, int, float, str with their equality, order, arithmetic and conversions;
  a float is a rational rounded to 53 bits, an infinity or NaN. \<open>Json\<close> is \<open>json\<close>'s documents.

  \<^bold>\<open>Storage.\<close> \<open>BPlusTree\<close> is \<open>storage/bptree.py\<close>; \<open>BPlusTree_Correct\<close> its invariant. \<open>OrderedMap\<close> is the
  interface the tables use the tree through, a locale, and \<open>Tree_Index\<close> its interpretation. \<open>Schema\<close> is
  \<open>storage/schema.py\<close>. \<open>MvccTable\<close> and \<open>TableGc\<close> are \<open>storage/table.py\<close>: chains, writes, visible reads,
  replay, garbage collection; \<open>TableViews\<close>, \<open>TableEffects\<close> and \<open>GcCorrect\<close> say what each does to the view of a
  snapshot.

  \<^bold>\<open>Transactions.\<close> \<open>Snapshot\<close> and \<open>TxnManager\<close> are \<open>txn/manager.py\<close>; \<open>LockManager\<close>, \<open>DeadlockDetect\<close>,
  \<open>LockSteps\<close> and \<open>LockHandlers\<close> are \<open>txn/locks.py\<close>: the critical sections, the search for cycles, the step
  relations that interleave them, and the two calls a session makes. \<open>Wal\<close> is \<open>txn/wal.py\<close>, \<open>WalCorrect\<close> its
  guarantees. \<open>MvccSystem\<close> puts manager, locks and one table together as a labelled step relation and
  refines it to a specification of committed rows and private changes.

  \<^bold>\<open>The engine.\<close> \<open>Database\<close> is \<open>engine/database.py\<close>, \<open>RecoveryCorrect\<close> shows what recovery rebuilds. \<open>Ast\<close>,
  \<open>Lexer\<close> and \<open>Parser\<close> are the three files of \<open>sql/\<close>. \<open>Expressions\<close> is \<open>engine/expressions.py\<close>, with the
  subquery runner as an argument; \<open>Planner\<close> is \<open>engine/planner.py\<close>; \<open>ExecBase\<close>, \<open>ExecSelect\<close> and
  \<open>ExecWrite\<close> are \<open>engine/executor.py\<close>; \<open>Session\<close> and \<open>SqlText\<close> are \<open>engine/session.py\<close>. \<open>Cli\<close> is
  \<open>cli.py\<close>, the shell around a session. The state of a
  statement is the record \<open>database\<close> (catalog, manager with its lock tables and log, checkpoint), and a statement
  is a step on it. \<open>StatementSteps\<close> has the interface through which an invariant of the database goes through
  every statement, a locale, and its interpretation; \<open>Pushdown\<close>, \<open>IndexLookup\<close>, \<open>QueryDepth\<close>, \<open>SortLemmas\<close>,
  \<open>StatementFrame\<close>, \<open>Candidates\<close> and \<open>DmlCorrect\<close> carry the properties of queries and statements.

  \<^bold>\<open>Text.\<close> \<open>ParserFuel\<close> shows that the bounds of the parser are enough, \<open>ParserPositions\<close> that it does not read
  positions. \<open>Printer\<close> is a reference printer of statements; \<open>ParserRoundtrip\<close>, \<open>QueryRoundtrip\<close>,
  \<open>StatementRoundtrip\<close>, \<open>TextRoundtrip\<close> and \<open>SqlRoundtrip\<close> show that parser, lexer and \<open>Session.sql\<close> invert it, on
  expressions, queries, statements and their text; \<open>CliCorrect\<close> goes on to the typed line.

  \<^bold>\<open>Properties.\<close> They are numbered C1, C2, ... and stand in the theories whose names end in \<open>Properties\<close>.
  Tree: refinement of a map, ranges, depth. Tables and transactions: what a scan returns, the effect of each
  write on every snapshot, collection, READ COMMITTED as a refinement, stability of a pinned snapshot. Locks:
  modes, exclusion, release, deadlock detection, outcomes of an acquisition. Log: commit, crash, reading,
  torn tail, recovery, checkpoint, and the data they store. Expressions: three-valued logic, LIKE, names,
  conjuncts. Queries: pushdown, index lookup, nesting, order. Statements: what INSERT, UPDATE and DELETE do to
  the rows, autocommit. Parser: termination and the round trip of every statement through its text. Shell: what is
  typed is what runs, the cuts at semicolons, the rendered table. The log also has a liveness property: every
  commit request is answered.
  \<open>TableAnomalies\<close> and \<open>LockAnomalies\<close> evaluate runs whose outcome is not what the documentation promises;
  the refinements name as hypotheses the conditions that exclude them.

  \<^bold>\<open>Bounds.\<close> Loops and recursion of the program are total functions with a measure where there is one.
  \<open>exec_select\<close> goes down one level of query nesting per call; more levels than the query's depth never
  show (\<open>QueryProperties\<close>). \<open>parse_expr\<close> and \<open>parse_select\<close> go down one level of nested expressions; \<open>repeat_while\<close> allows
  one round more than there are tokens, and every round takes one; the number of tokens is enough for both
  (\<open>ParserProperties\<close>). A wait for a lock is a list of rounds, what the other threads do in each being an argument.

  \<^bold>\<open>Concurrency.\<close> A step of a model is one critical section of the code. In \<open>race_step\<close> any thread runs
  between two of them; in \<open>lock_step\<close> a grant is recorded before another thread runs, which the code does
  not ensure (\<open>LockAnomalies\<close>) and mutual exclusion needs. For a statement, the argument \<open>w\<close> of type \<open>world\<close>
  says what other sessions do to the lock tables while it waits.

  \<^bold>\<open>Not modelled.\<close> The messages of exceptions (the shell shows the exception). Threads, timers and clocks as such: the
  writer thread is \<open>writer_turn\<close>, a turn of the GC thread \<open>gc_turn\<close>, a time-out is a wait that has no more rounds. The
  bytes of files: the log is its parsed lines, and only the repair of a torn tail looks at bytes. Characters
  beyond ASCII. Python's limits on recursion and on the digits of an int. The compensated summation of floats
  (Python 3.12 and later) and the identity shortcut that makes a NaN a member of a set that holds the same
  object. TimSort is a stable sort; for a weak order every stable sort gives the same list.
\<close>

end
